(* ===== verification/JS_Regex.thy ===== *)
theory JS_Regex
  imports Vault_Prelude
begin

text \<open>
  Regular expressions as the program writes them, matched by derivatives. A JavaScript
  literal anchored as \<open>/^r$/\<close> is \<open>rx_match r\<close>; one anchored on one side only is padded with
  \<open>rx_any\<close>. \<open>rx_match_lang\<close> is the matcher's correctness against the language a regular
  expression denotes.
\<close>

datatype (dead 'a) rx =
    RNone
  | REps
  | RCls "'a \<Rightarrow> bool"
  | RSeq "'a rx" "'a rx"
  | RAlt "'a rx" "'a rx"
  | RStar "'a rx"

inductive_set star_lang :: "'a list set \<Rightarrow> 'a list set" for L where
  star_Nil: "[] \<in> star_lang L"
| star_step: "u \<in> L \<Longrightarrow> v \<in> star_lang L \<Longrightarrow> u @ v \<in> star_lang L"

primrec rx_lang :: "'a rx \<Rightarrow> 'a list set" where
  "rx_lang RNone = {}"
| "rx_lang REps = {[]}"
| "rx_lang (RCls P) = {[c] | c. P c}"
| "rx_lang (RSeq r s) = {u @ v | u v. u \<in> rx_lang r \<and> v \<in> rx_lang s}"
| "rx_lang (RAlt r s) = rx_lang r \<union> rx_lang s"
| "rx_lang (RStar r) = star_lang (rx_lang r)"

primrec nullable :: "'a rx \<Rightarrow> bool" where
  "nullable RNone = False"
| "nullable REps = True"
| "nullable (RCls P) = False"
| "nullable (RSeq r s) = (nullable r \<and> nullable s)"
| "nullable (RAlt r s) = (nullable r \<or> nullable s)"
| "nullable (RStar r) = True"

primrec deriv :: "'a \<Rightarrow> 'a rx \<Rightarrow> 'a rx" where
  "deriv c RNone = RNone"
| "deriv c REps = RNone"
| "deriv c (RCls P) = (if P c then REps else RNone)"
| "deriv c (RSeq r s) =
     (if nullable r then RAlt (RSeq (deriv c r) s) (deriv c s) else RSeq (deriv c r) s)"
| "deriv c (RAlt r s) = RAlt (deriv c r) (deriv c s)"
| "deriv c (RStar r) = RSeq (deriv c r) (RStar r)"

fun rx_match :: "'a rx \<Rightarrow> 'a list \<Rightarrow> bool" where
  "rx_match r [] = nullable r"
| "rx_match r (c # cs) = rx_match (deriv c r) cs"

lemma nullable_lang: "nullable r \<longleftrightarrow> [] \<in> rx_lang r"
  by (induction r) (auto intro: star_Nil)

lemma star_lang_Cons:
  "c # w \<in> star_lang L \<longleftrightarrow> (\<exists>u v. c # u \<in> L \<and> v \<in> star_lang L \<and> w = u @ v)"
proof
  assume "c # w \<in> star_lang L"
  then show "\<exists>u v. c # u \<in> L \<and> v \<in> star_lang L \<and> w = u @ v"
  proof (induction "c # w" arbitrary: w rule: star_lang.induct)
    case (star_step u v)
    show ?case
    proof (cases u)
      case Nil
      with star_step.hyps(4) have "v = c # w" by simp
      then show ?thesis by (rule star_step.hyps(3))
    next
      case (Cons d u')
      with star_step.hyps have "c # u' \<in> L" "v \<in> star_lang L" "w = u' @ v" by simp_all
      then show ?thesis by blast
    qed
  qed
next
  assume "\<exists>u v. c # u \<in> L \<and> v \<in> star_lang L \<and> w = u @ v"
  then obtain u v where "c # u \<in> L" "v \<in> star_lang L" "w = u @ v" by blast
  then show "c # w \<in> star_lang L" using star_lang.star_step [of "c # u" L v] by simp
qed

lemma deriv_lang: "w \<in> rx_lang (deriv c r) \<longleftrightarrow> c # w \<in> rx_lang r"
proof (induction r arbitrary: w)
  case (RSeq r s)
  have "c # w \<in> rx_lang (RSeq r s) \<longleftrightarrow>
      ([] \<in> rx_lang r \<and> c # w \<in> rx_lang s) \<or>
      (\<exists>u v. c # u \<in> rx_lang r \<and> v \<in> rx_lang s \<and> w = u @ v)"
    unfolding rx_lang.simps mem_Collect_eq Cons_eq_append_conv by blast
  moreover have "w \<in> rx_lang (RSeq (deriv c r) s) \<longleftrightarrow>
      (\<exists>u v. c # u \<in> rx_lang r \<and> v \<in> rx_lang s \<and> w = u @ v)"
    using RSeq.IH(1) by (simp, blast)
  ultimately show ?case by (simp add: RSeq.IH(2) nullable_lang del: rx_lang.simps(4)) auto
next
  case (RStar r)
  then show ?case by (auto simp: star_lang_Cons)
qed auto

theorem rx_match_lang: "rx_match r s \<longleftrightarrow> s \<in> rx_lang r"
  by (induction s arbitrary: r) (auto simp: nullable_lang deriv_lang)

section \<open>Derived forms\<close>

definition rx_chr :: "'a \<Rightarrow> 'a rx" where
  "rx_chr c = RCls (\<lambda>x. x = c)"

fun rx_seq :: "'a rx list \<Rightarrow> 'a rx" where
  "rx_seq [] = REps"
| "rx_seq [r] = r"
| "rx_seq (r # rs) = RSeq r (rx_seq rs)"

fun rx_alt :: "'a rx list \<Rightarrow> 'a rx" where
  "rx_alt [] = RNone"
| "rx_alt [r] = r"
| "rx_alt (r # rs) = RAlt r (rx_alt rs)"

definition rx_lit :: "'a list \<Rightarrow> 'a rx" where
  "rx_lit s = rx_seq (map rx_chr s)"

definition rx_opt :: "'a rx \<Rightarrow> 'a rx" where
  "rx_opt r = RAlt REps r"

definition rx_plus :: "'a rx \<Rightarrow> 'a rx" where
  "rx_plus r = RSeq r (RStar r)"

primrec rx_rep :: "nat \<Rightarrow> 'a rx \<Rightarrow> 'a rx" where
  "rx_rep 0 r = REps"
| "rx_rep (Suc n) r = RSeq r (rx_rep n r)"

definition rx_any :: "'a rx" where
  "rx_any = RStar (RCls (\<lambda>_. True))"

text \<open>
  \<open>r{0,n}\<close>.
\<close>

primrec rx_upto :: "nat \<Rightarrow> 'a rx \<Rightarrow> 'a rx" where
  "rx_upto 0 r = REps"
| "rx_upto (Suc n) r = rx_opt (RSeq r (rx_upto n r))"

definition is_digit :: "char \<Rightarrow> bool" where
  "is_digit c \<longleftrightarrow> CHR ''0'' \<le> c \<and> c \<le> CHR ''9''"

definition is_lower_hex :: "char \<Rightarrow> bool" where
  "is_lower_hex c \<longleftrightarrow> is_digit c \<or> (CHR ''a'' \<le> c \<and> c \<le> CHR ''f'')"

definition is_lower_alnum :: "char \<Rightarrow> bool" where
  "is_lower_alnum c \<longleftrightarrow> is_digit c \<or> (CHR ''a'' \<le> c \<and> c \<le> CHR ''z'')"

definition is_letter :: "char \<Rightarrow> bool" where
  "is_letter c \<longleftrightarrow> (CHR ''A'' \<le> c \<and> c \<le> CHR ''Z'') \<or> (CHR ''a'' \<le> c \<and> c \<le> CHR ''z'')"

lemma star_lang_singletons: "s \<in> star_lang {[c] | c. P c} \<longleftrightarrow> list_all P s"
proof
  assume "s \<in> star_lang {[c] | c. P c}"
  then show "list_all P s" by induction auto
next
  assume "list_all P s"
  then show "s \<in> star_lang {[c] | c. P c}"
  proof (induction s)
    case Nil
    then show ?case by (simp add: star_Nil)
  next
    case (Cons c s)
    then have "[c] @ s \<in> star_lang {[c] | c. P c}" by (intro star_lang.star_step) auto
    then show ?case by simp
  qed
qed

lemma rx_match_star_cls: "rx_match (RStar (RCls P)) s \<longleftrightarrow> list_all P s"
  by (simp add: rx_match_lang star_lang_singletons)

lemma rx_match_seq: "rx_match (RSeq r s) w \<longleftrightarrow> (\<exists>u v. w = u @ v \<and> rx_match r u \<and> rx_match s v)"
  by (auto simp: rx_match_lang)

lemma rx_match_alt: "rx_match (RAlt r s) w \<longleftrightarrow> rx_match r w \<or> rx_match s w"
  by (simp add: rx_match_lang)

lemma rx_match_eps: "rx_match REps w \<longleftrightarrow> w = []"
  by (simp add: rx_match_lang)

lemma rx_match_cls: "rx_match (RCls P) w \<longleftrightarrow> (\<exists>c. w = [c] \<and> P c)"
  by (simp add: rx_match_lang)

lemma rx_match_chr: "rx_match (rx_chr c) w \<longleftrightarrow> w = [c]"
  by (simp add: rx_match_lang rx_chr_def)

lemma rx_match_seq_cls:
  "rx_match (RSeq (RCls P) r) w \<longleftrightarrow> (\<exists>c v. w = c # v \<and> P c \<and> rx_match r v)"
proof
  assume "rx_match (RSeq (RCls P) r) w"
  then show "\<exists>c v. w = c # v \<and> P c \<and> rx_match r v"
    unfolding rx_match_seq rx_match_cls by force
next
  assume "\<exists>c v. w = c # v \<and> P c \<and> rx_match r v"
  then obtain c v where "w = [c] @ v" "P c" "rx_match r v" by auto
  then show "rx_match (RSeq (RCls P) r) w"
    unfolding rx_match_seq rx_match_cls by blast
qed

lemma rx_match_plus_cls: "rx_match (rx_plus (RCls P)) s \<longleftrightarrow> s \<noteq> [] \<and> list_all P s"
  by (cases s) (simp_all add: rx_plus_def rx_match_seq_cls rx_match_star_cls del: rx_match.simps)

lemma rx_match_any: "rx_match rx_any w"
  unfolding rx_any_def rx_match_star_cls by (simp add: list_all_iff)

lemma rx_seq_Cons: "rx_match (rx_seq (r # rs)) w \<longleftrightarrow> rx_match (RSeq r (rx_seq rs)) w"
  by (cases rs) (auto simp: rx_match_seq rx_match_eps)

lemma rx_match_lit: "rx_match (rx_lit l) w \<longleftrightarrow> w = l"
proof (induction l arbitrary: w)
  case Nil
  then show ?case by (simp add: rx_lit_def rx_match_eps)
next
  case (Cons c l)
  have "rx_match (rx_lit (c # l)) w \<longleftrightarrow> rx_match (RSeq (rx_chr c) (rx_lit l)) w"
    by (simp only: rx_lit_def list.map rx_seq_Cons)
  also have "\<dots> \<longleftrightarrow> w = c # l" using Cons by (auto simp: rx_match_seq rx_match_chr)
  finally show ?case .
qed

lemmas rx_match_rules = rx_match_star_cls rx_match_plus_cls rx_match_seq rx_match_alt
  rx_match_eps rx_match_cls rx_match_chr rx_match_any rx_match_lit

lemma rx_match_rep_cls: "rx_match (rx_rep n (RCls P)) w \<longleftrightarrow> length w = n \<and> list_all P w"
proof (induction n arbitrary: w)
  case 0
  then show ?case by (auto simp: rx_match_eps)
next
  case (Suc n)
  show ?case using Suc by (cases w) (auto simp: rx_match_seq_cls simp del: rx_match.simps)
qed

text \<open>A word of a regular expression has only the characters its classes allow.\<close>

primrec rx_over :: "('a \<Rightarrow> bool) \<Rightarrow> 'a rx \<Rightarrow> bool" where
  "rx_over P RNone = True"
| "rx_over P REps = True"
| "rx_over P (RCls Q) = (\<forall>c. Q c \<longrightarrow> P c)"
| "rx_over P (RSeq r s) = (rx_over P r \<and> rx_over P s)"
| "rx_over P (RAlt r s) = (rx_over P r \<and> rx_over P s)"
| "rx_over P (RStar r) = rx_over P r"

lemma star_lang_over: "w \<in> star_lang L \<Longrightarrow> (\<And>u. u \<in> L \<Longrightarrow> list_all P u) \<Longrightarrow> list_all P w"
  by (induction rule: star_lang.induct) auto

lemma rx_lang_over: "rx_over P r \<Longrightarrow> w \<in> rx_lang r \<Longrightarrow> list_all P w"
proof (induction r arbitrary: w)
  case (RStar r)
  then show ?case using star_lang_over [of w "rx_lang r" P] by simp
qed auto

lemma rx_match_over: "rx_match r w \<Longrightarrow> rx_over P r \<Longrightarrow> list_all P w"
  by (simp add: rx_match_lang rx_lang_over)

lemma rx_over_plus [simp]: "rx_over P (rx_plus r) \<longleftrightarrow> rx_over P r"
  by (simp add: rx_plus_def)

lemma rx_over_opt [simp]: "rx_over P (rx_opt r) \<longleftrightarrow> rx_over P r"
  by (simp add: rx_opt_def)

lemma rx_over_chr [simp]: "rx_over P (rx_chr c) \<longleftrightarrow> P c"
  by (simp add: rx_chr_def)

lemma rx_over_seq [simp]: "rx_over P (rx_seq rs) \<longleftrightarrow> list_all (rx_over P) rs"
  by (induction rs rule: rx_seq.induct) auto

lemma rx_over_alt [simp]: "rx_over P (rx_alt rs) \<longleftrightarrow> list_all (rx_over P) rs"
  by (induction rs rule: rx_alt.induct) auto

lemma rx_over_lit [simp]: "rx_over P (rx_lit s) \<longleftrightarrow> list_all P s"
  by (simp add: rx_lit_def list_all_iff)


end
