(* ===== verification/Circuit_Paths.thy ===== *)
theory Circuit_Paths
  imports JS_Regex
begin

text \<open>
  The member-path rules of \<open>scripts/lib/sp1-circuit-archive.ts\<close>: canonical member paths,
  the AppleDouble policy on names, the path a tar entry name denotes, and image references.
  A function of the source that answers a reason or \<open>null\<close> answers a \<open>string option\<close> here.
\<close>

section \<open>Constants and refusals\<close>

text \<open>A refusal names its gate (\<open>code\<close>) and its rule (\<open>reason\<close>); its prose detail is not modelled.\<close>

datatype refusal_code =
    RECORD_INVALID | RECORD_NOT_AUTHORITATIVE | ARCHIVE_UNREADABLE | ARCHIVE_SIZE_MISMATCH
  | ARCHIVE_DIGEST_MISMATCH | ARCHIVE_CHANGED_DURING_USE | ARCHIVE_CORRUPT
  | ARCHIVE_LIMIT_EXCEEDED | ARCHIVE_UNSAFE_ENTRY | ARCHIVE_MEMBER_MISMATCH | VK_MISMATCH
  | INSTALL_DESTINATION_INVALID | INSTALL_TARGET_EXISTS | INSTALL_FAILED | CIRCUIT_ROOT_INVALID
  | CIRCUIT_ARCHIVE_NOT_INSTALLED | CIRCUIT_INTEGRITY_FAILED | ENV_REFUSED
  | GNARK_IMAGE_NOT_PINNED | GNARK_IMAGE_CONFLICT | GNARK_IMAGE_NOT_LOCAL | PROVE_INPUT_INVALID
  | PROVE_HOST_UNSUPPORTED | EVIDENCE_NOT_COMMITTED | PROVER_SPAWN_FAILED | PROVER_FAILED
  | CIRCUIT_INTEGRITY_FAILED_AFTER_PROVE | PROOF_OUTPUT_REFUSED

record refusal =
  r_code :: refusal_code
  r_reason :: string

definition refuse :: "refusal_code \<Rightarrow> string \<Rightarrow> refusal" where
  "refuse c r = \<lparr>r_code = c, r_reason = r\<rparr>"

definition unsafe :: "string \<Rightarrow> refusal" where
  "unsafe r = refuse ARCHIVE_UNSAFE_ENTRY r"

definition corrupt :: "string \<Rightarrow> refusal" where
  "corrupt r = refuse ARCHIVE_CORRUPT r"

definition max_path_bytes :: nat where
  "max_path_bytes = 100"

definition vk_file :: string where
  "vk_file = ''groth16_vk.bin''"

definition required_members :: "string list" where
  "required_members = [''constraints.json'', ''groth16_circuit.bin'', ''groth16_pk.bin'', vk_file]"

datatype entry_kind = File | Directory

section \<open>Member paths\<close>

text \<open>\<open>Buffer.byteLength(s, "utf8")\<close>: a code unit from 128 to 255 takes two bytes.\<close>

definition utf8_length :: "string \<Rightarrow> nat" where
  "utf8_length s = sum_list (map (\<lambda>c. if (of_char c :: nat) < 128 then 1 else 2) s)"

definition portable_char :: "char \<Rightarrow> bool" where
  "portable_char c \<longleftrightarrow> is_letter c \<or> is_digit c \<or> c = CHR ''.'' \<or> c = CHR ''_'' \<or> c = CHR ''-''"

definition portable_rx :: "char rx" where
  "portable_rx = rx_plus (RCls portable_char)"

text \<open>\<open>/^(con|prn|aux|nul|com[0-9]|lpt[0-9])(\.|$)/i\<close>, on the lower-cased component.\<close>

definition windows_device_rx :: "char rx" where
  "windows_device_rx =
     RSeq (rx_alt [rx_lit ''con'', rx_lit ''prn'', rx_lit ''aux'', rx_lit ''nul'',
                   RSeq (rx_lit ''com'') (RCls is_digit), RSeq (rx_lit ''lpt'') (RCls is_digit)])
          (RAlt REps (RSeq (rx_chr CHR ''.'') rx_any))"

text \<open>The body of the loop over the components.\<close>

definition component_error :: "string \<Rightarrow> string option" where
  "component_error p =
     (if \<not> rx_match portable_rx p then Some ''NON_PORTABLE_COMPONENT''
      else if ends_with p ''.'' then Some ''TRAILING_DOT''
      else if rx_match windows_device_rx (lower p) then Some ''RESERVED_NAME''
      else None)"

fun components_error :: "string list \<Rightarrow> string option" where
  "components_error [] = None"
| "components_error (p # ps) =
     (case component_error p of Some e \<Rightarrow> Some e | None \<Rightarrow> components_error ps)"

text \<open>\<open>/^[A-Za-z]:/\<close>.\<close>

fun drive_qualified :: "string \<Rightarrow> bool" where
  "drive_qualified (c # d # cs) = (is_letter c \<and> d = CHR '':'')"
| "drive_qualified s = False"

definition member_path_error :: "string \<Rightarrow> string option" where
  "member_path_error path =
     (if CHR 0x00 \<in> set path then Some ''NUL_IN_PATH''
      else if CHR 0x5C \<in> set path then Some ''BACKSLASH_IN_PATH''
      else if drive_qualified path then Some ''DRIVE_QUALIFIED_PATH''
      else if starts_with path ''/'' then Some ''ABSOLUTE_PATH''
      else if utf8_length path > max_path_bytes then Some ''PATH_TOO_LONG''
      else (let parts = split_on CHR ''/'' path in
        if ''..'' \<in> set parts then Some ''TRAVERSAL''
        else if ''.'' \<in> set parts then Some ''DOT_COMPONENT''
        else if '''' \<in> set parts then Some ''EMPTY_COMPONENT''
        else components_error parts))"

section \<open>AppleDouble names\<close>

definition appledouble_prefix :: string where
  "appledouble_prefix = ''._''"

definition appledouble_root :: string where
  "appledouble_root = ''._.''"

definition appledouble_paths :: "string list" where
  "appledouble_paths =
     [appledouble_root, ''._Groth16Verifier.sol'', ''._SP1VerifierGroth16.sol'',
      ''._constraints.json'', ''._groth16_circuit.bin'', ''._groth16_pk.bin'',
      ''._groth16_vk.bin'', ''._groth16_witness.json'']"

definition is_appledouble_shaped :: "string \<Rightarrow> bool" where
  "is_appledouble_shaped path \<longleftrightarrow>
     list_ex (\<lambda>p. starts_with p appledouble_prefix) (split_on CHR ''/'' path)"

text \<open>The entry an AppleDouble path describes: \<open>Some []\<close> is the archive root.\<close>

definition appledouble_companion :: "string \<Rightarrow> string option" where
  "appledouble_companion path =
     (if path \<notin> set appledouble_paths then None
      else if path = appledouble_root then Some ''''
      else Some (drop (length appledouble_prefix) path))"

section \<open>The path a tar entry name denotes\<close>

definition entry_path :: "string \<Rightarrow> entry_kind \<Rightarrow> string" where
  "entry_path name kind =
     (let p = (if name = ''.'' then '''' else if starts_with name ''./'' then drop 2 name else name)
      in if kind = Directory \<and> ends_with p ''/'' then butlast p else p)"

section \<open>Image references\<close>

text \<open>
  The repository pattern
  \<open>[a-z0-9]+(?:[.-][a-z0-9]+)*(?::[0-9]+)?(?:\/[a-z0-9]+(?:(?:[._]|__|-+)[a-z0-9]+)*)+\<close>.
\<close>

definition repository_rx :: "char rx" where
  "repository_rx =
     (let word = rx_plus (RCls is_lower_alnum);
          host = RSeq word (RStar (RSeq (RCls (\<lambda>c. c = CHR ''.'' \<or> c = CHR ''-'')) word));
          port = rx_opt (RSeq (rx_chr CHR '':'') (rx_plus (RCls is_digit)));
          sep = rx_alt [RCls (\<lambda>c. c = CHR ''.'' \<or> c = CHR ''_''), rx_lit ''__'', rx_plus (rx_chr CHR ''-'')];
          name = RSeq word (RStar (RSeq sep word))
      in rx_seq [host, port, rx_plus (RSeq (rx_chr CHR ''/'') name)])"

definition digest_rx :: "char rx" where
  "digest_rx = RSeq (rx_lit ''sha256:'') (rx_rep 64 (RCls is_lower_hex))"

text \<open>\<open>/:[^/]*$/\<close>, found anywhere.\<close>

definition tag_rx :: "char rx" where
  "tag_rx = rx_seq [rx_any, rx_chr CHR '':'', RStar (RCls (\<lambda>c. c \<noteq> CHR ''/''))]"

definition image_ref_error :: "string \<Rightarrow> string option" where
  "image_ref_error ref =
     (case index_of CHR ''@'' ref of
        None \<Rightarrow> Some ''NO_DIGEST''
      | Some at \<Rightarrow>
         (let repository = take at ref;
              after_slash = (case index_of CHR ''/'' repository of
                               None \<Rightarrow> repository | Some k \<Rightarrow> drop (Suc k) repository);
              host = hd (split_on CHR ''/'' repository)
          in if \<not> rx_match digest_rx (drop (Suc at) ref) then Some ''MALFORMED_DIGEST''
             else if rx_match tag_rx after_slash then Some ''TAG_AND_DIGEST''
             else if \<not> rx_match repository_rx repository then Some ''MALFORMED_REPOSITORY''
             else if CHR ''.'' \<notin> set host \<and> CHR '':'' \<notin> set host \<and> host \<noteq> ''localhost''
               then Some ''NOT_FULLY_QUALIFIED''
             else None))"


section \<open>What the path rules give\<close>

lemma components_error_None: "components_error ps = None \<longleftrightarrow> (\<forall>p \<in> set ps. component_error p = None)"
  by (induction ps) (auto split: option.splits)

text \<open>A component the rules accept.\<close>

definition safe_component :: "string \<Rightarrow> bool" where
  "safe_component p \<longleftrightarrow>
     p \<noteq> [] \<and> list_all portable_char p \<and> last p \<noteq> CHR ''.'' \<and>
     \<not> rx_match windows_device_rx (lower p)"

lemma ends_with_single: "ends_with s [c] \<longleftrightarrow> s \<noteq> [] \<and> last s = c"
  unfolding ends_with_iff by (metis append_butlast_last_id append_is_Nil_conv last_snoc not_Cons_self)

lemma component_error_None: "component_error p = None \<longleftrightarrow> safe_component p"
  by (auto simp: component_error_def safe_component_def portable_rx_def rx_match_plus_cls ends_with_single)

lemma safe_component_not_dots: "safe_component p \<Longrightarrow> p \<noteq> '''' \<and> p \<noteq> ''.'' \<and> p \<noteq> ''..''"
  by (auto simp: safe_component_def)

text \<open>The whole check: at most 100 bytes and every component safe.\<close>

lemma member_path_error_None_parts:
  "member_path_error path = None \<Longrightarrow> \<forall>p \<in> set (split_on CHR ''/'' path). safe_component p"
  by (auto simp: member_path_error_def Let_def components_error_None component_error_None split: if_splits)

lemma portable_char_ascii: "portable_char c \<Longrightarrow> (of_char c :: nat) < 128"
proof -
  assume "portable_char c"
  then have "c \<le> CHR ''z''"
    unfolding portable_char_def is_letter_def is_digit_def
    by (elim disjE conjE) (auto intro: order_trans)
  then have "(of_char c :: nat) \<le> of_char (CHR ''z'')" by (simp only: less_eq_char_def)
  then show ?thesis by simp
qed

lemma member_path_chars:
  assumes "member_path_error path = None" and "c \<in> set path"
  shows "portable_char c \<or> c = CHR ''/''"
proof -
  have "set path \<subseteq> (\<Union>p \<in> set (split_on CHR ''/'' path). set p) \<union> {CHR ''/''}"
  proof (induction path)
    case (Cons x xs)
    obtain p ps where "split_on CHR ''/'' xs = p # ps" by (rule split_on_cases)
    with Cons show ?case by auto
  qed simp
  with assms member_path_error_None_parts [OF assms(1)] show ?thesis
    by (fastforce simp: safe_component_def list_all_iff)
qed

lemma utf8_length_ascii: "\<forall>c \<in> set s. (of_char c :: nat) < 128 \<Longrightarrow> utf8_length s = length s"
  by (induction s) (auto simp: utf8_length_def)

lemma member_path_length: "member_path_error path = None \<Longrightarrow> length path \<le> 100"
proof -
  assume ok: "member_path_error path = None"
  have "\<forall>c \<in> set path. (of_char c :: nat) < 128"
    using member_path_chars [OF ok] portable_char_ascii by fastforce
  then have "utf8_length path = length path" by (rule utf8_length_ascii)
  moreover have "utf8_length path \<le> max_path_bytes"
    using ok by (auto simp: member_path_error_def Let_def split: if_splits)
  ultimately show ?thesis by (simp add: max_path_bytes_def)
qed

lemma member_path_not_absolute: "member_path_error path = None \<Longrightarrow> path \<noteq> [] \<and> hd path \<noteq> CHR ''/''"
proof -
  assume ok: "member_path_error path = None"
  then have "path \<noteq> []" using member_path_error_None_parts [OF ok] by (auto simp: safe_component_def)
  moreover have "\<not> starts_with path ''/''"
    using ok by (auto simp: member_path_error_def split: if_splits)
  ultimately show ?thesis by (cases path) (auto simp: starts_with_def)
qed

text \<open>
  POSIX path resolution from a directory, given by its components: \<open>""\<close> and \<open>"."\<close> stay,
  \<open>".."\<close> goes to the parent (the root is its own parent).
\<close>

fun resolve_from :: "string list \<Rightarrow> string list \<Rightarrow> string list" where
  "resolve_from base [] = base"
| "resolve_from base (p # ps) =
     resolve_from (if p = '''' \<or> p = ''.'' then base
                   else if p = ''..'' then butlast base
                   else base @ [p]) ps"

lemma resolve_from_safe:
  "\<forall>p \<in> set ps. safe_component p \<Longrightarrow> resolve_from base ps = base @ ps"
  by (induction ps arbitrary: base) (auto dest: safe_component_not_dots)

text \<open>How Windows names a component: case-insensitively, trailing dots and spaces dropped.\<close>

definition windows_name :: "string \<Rightarrow> string" where
  "windows_name p = lower (rev (dropWhile (\<lambda>c. c = CHR ''.'' \<or> c = CHR '' '') (rev p)))"

lemma windows_name_safe: "safe_component p \<Longrightarrow> windows_name p = lower p"
proof -
  assume p: "safe_component p"
  then have ne: "p \<noteq> []" and dot: "last p \<noteq> CHR ''.''" and "portable_char (last p)"
    by (auto simp: safe_component_def list_all_iff)
  then have "last p \<noteq> CHR '' ''" by (auto simp: portable_char_def is_letter_def is_digit_def less_eq_char_def)
  with ne dot have "dropWhile (\<lambda>c. c = CHR ''.'' \<or> c = CHR '' '') (rev p) = rev p"
    by (cases "rev p") (auto simp: last_rev dest: arg_cong [of _ _ rev])
  then show ?thesis by (simp add: windows_name_def)
qed

lemma appledouble_companion_Some:
  "appledouble_companion p = Some c \<Longrightarrow> p \<in> set appledouble_paths \<and> p = appledouble_prefix @ (if c = '''' then ''.'' else c)"
  by (auto simp: appledouble_companion_def appledouble_paths_def appledouble_prefix_def
      appledouble_root_def split: if_splits)

lemma appledouble_paths_safe: "p \<in> set appledouble_paths \<Longrightarrow> p \<noteq> appledouble_root \<Longrightarrow> member_path_error p = None"
  unfolding appledouble_paths_def appledouble_root_def
  by (elim set_ConsD [elim_format] disjE) (simp_all, code_simp+)

text \<open>
  A repository splits before its first "/": a host that has no "/", and names that have no ":".
\<close>

lemma repository_parts:
  assumes "rx_match repository_rx repo"
  obtains host names where "repo = host @ CHR ''/'' # names"
    and "CHR ''/'' \<notin> set host" and "CHR '':'' \<notin> set names" and "CHR ''@'' \<notin> set repo"
proof -
  let ?alnum = "RCls is_lower_alnum"
  let ?host = "RSeq (rx_plus ?alnum) (RStar (RSeq (RCls (\<lambda>c. c = CHR ''.'' \<or> c = CHR ''-'')) (rx_plus ?alnum)))"
  let ?port = "rx_opt (RSeq (rx_chr CHR '':'') (rx_plus (RCls is_digit)))"
  let ?sep = "rx_alt [RCls (\<lambda>c. c = CHR ''.'' \<or> c = CHR ''_''), rx_lit ''__'', rx_plus (rx_chr CHR ''-'')]"
  let ?name = "RSeq (rx_chr CHR ''/'') (RSeq (rx_plus ?alnum) (RStar (RSeq ?sep (rx_plus ?alnum))))"
  have cls: "is_lower_alnum c \<Longrightarrow> c \<noteq> CHR ''/'' \<and> c \<noteq> CHR '':'' \<and> c \<noteq> CHR ''@''"
    "is_digit c \<Longrightarrow> c \<noteq> CHR ''/'' \<and> c \<noteq> CHR '':'' \<and> c \<noteq> CHR ''@''" for c
    by (auto simp: is_lower_alnum_def is_digit_def less_eq_char_def)
  from assms obtain a b c d where repo: "repo = a @ b @ c @ d" and m: "rx_match ?host a" "rx_match ?port b"
    "rx_match ?name c" "rx_match (RStar ?name) d"
    unfolding repository_rx_def Let_def rx_seq.simps rx_plus_def [of ?name] rx_match_seq [of ?host]
      rx_match_seq [of ?port] rx_match_seq [of ?name] by blast
  from m(3) obtain c' where c: "c = CHR ''/'' # c'" by (auto simp: rx_match_seq rx_match_chr)
  show thesis
  proof (rule that)
    show "repo = (a @ b) @ CHR ''/'' # (c' @ d)" using repo c by simp
    have "list_all (\<lambda>x. x \<noteq> CHR ''/'') a" by (rule rx_match_over [OF m(1)]) (auto dest: cls)
    moreover have "list_all (\<lambda>x. x \<noteq> CHR ''/'') b" by (rule rx_match_over [OF m(2)]) (auto dest: cls)
    ultimately show "CHR ''/'' \<notin> set (a @ b)" by (auto simp: list_all_iff)
    have "list_all (\<lambda>x. x \<noteq> CHR '':'') c" by (rule rx_match_over [OF m(3)]) (auto dest: cls)
    moreover have "list_all (\<lambda>x. x \<noteq> CHR '':'') d" by (rule rx_match_over [OF m(4)]) (auto dest: cls)
    ultimately show "CHR '':'' \<notin> set (c' @ d)" using c by (auto simp: list_all_iff)
    have "list_all (\<lambda>x. x \<noteq> CHR ''@'') a" by (rule rx_match_over [OF m(1)]) (auto dest: cls)
    moreover have "list_all (\<lambda>x. x \<noteq> CHR ''@'') b" by (rule rx_match_over [OF m(2)]) (auto dest: cls)
    moreover have "list_all (\<lambda>x. x \<noteq> CHR ''@'') c" by (rule rx_match_over [OF m(3)]) (auto dest: cls)
    moreover have "list_all (\<lambda>x. x \<noteq> CHR ''@'') d" by (rule rx_match_over [OF m(4)]) (auto dest: cls)
    ultimately show "CHR ''@'' \<notin> set repo" unfolding repo by (auto simp: list_all_iff)
  qed
qed

section \<open>Properties\<close>

text \<open>C39: A path accepted by memberPathError denotes, under any directory, exactly the path made of
  its own components: none is empty, ".", ".." or absolute, so nothing outside the directory is
  named; Windows names each component as itself up to case; the path has at most 100 characters.\<close>

theorem member_path_confined:
  assumes "member_path_error path = None"
  shows "resolve_from base (split_on CHR ''/'' path) = base @ split_on CHR ''/'' path \<and>
    path \<noteq> '''' \<and> hd path \<noteq> CHR ''/'' \<and> length path \<le> 100 \<and>
    (\<forall>p \<in> set (split_on CHR ''/'' path). windows_name p = lower p)"
  using member_path_error_None_parts [OF assms] resolve_from_safe windows_name_safe
    member_path_length [OF assms] member_path_not_absolute [OF assms] by blast

theorem member_path_confined_witness:
  "resolve_from [''srv''] (split_on CHR ''/'' ''keys/vk.bin'') = [''srv'', ''keys'', ''vk.bin'']"
proof -
  have "member_path_error ''keys/vk.bin'' = None" by code_simp
  from member_path_confined [OF this, of "[''srv'']"] show ?thesis by simp
qed

text \<open>An image reference accepted by imageRefError names one image and nothing mutable: a registry host
  (qualified by a dot or a port, or localhost), repository names without any tag, and exactly one
  digest of 64 lowercase hexadecimal digits.\<close>

theorem image_ref_pinned:
  assumes "image_ref_error ref = None"
  shows "\<exists>host names hex. ref = host @ ''/'' @ names @ ''@sha256:'' @ hex \<and>
    CHR ''/'' \<notin> set host \<and> (CHR ''.'' \<in> set host \<or> CHR '':'' \<in> set host \<or> host = ''localhost'') \<and>
    CHR '':'' \<notin> set names \<and> CHR ''@'' \<notin> set (host @ names) \<and>
    length hex = 64 \<and> list_all is_lower_hex hex"
proof -
  from assms obtain at where at: "index_of CHR ''@'' ref = Some at"
    by (auto simp: image_ref_error_def split: option.splits)
  let ?repo = "take at ref"
  have ref: "ref = ?repo @ CHR ''@'' # drop (Suc at) ref"
    using at unfolding index_of_Some by (metis id_take_nth_drop)
  from assms at have rx: "rx_match repository_rx ?repo" "rx_match digest_rx (drop (Suc at) ref)"
    and host: "CHR ''.'' \<in> set (hd (split_on CHR ''/'' ?repo)) \<or> CHR '':'' \<in> set (hd (split_on CHR ''/'' ?repo)) \<or>
      hd (split_on CHR ''/'' ?repo) = ''localhost''"
    by (auto simp: image_ref_error_def Let_def split: if_splits)
  from repository_parts [OF rx(1)] obtain h n where hn: "?repo = h @ CHR ''/'' # n"
    "CHR ''/'' \<notin> set h" "CHR '':'' \<notin> set n" "CHR ''@'' \<notin> set ?repo" by metis
  then have h: "hd (split_on CHR ''/'' ?repo) = h" by (simp add: split_on_append_sep)
  from rx(2) obtain hex where hex: "drop (Suc at) ref = ''sha256:'' @ hex"
    "length hex = 64" "list_all is_lower_hex hex"
    unfolding digest_rx_def rx_match_seq rx_match_lit rx_match_rep_cls by blast
  have "ref = h @ ''/'' @ n @ ''@sha256:'' @ hex" using ref hn(1) hex(1) by simp
  moreover have "CHR ''@'' \<notin> set (h @ n)" using hn(1,4) by auto
  ultimately show ?thesis using hn(2,3) host h hex(2,3)
    by (intro exI [of _ h] exI [of _ n] exI [of _ hex] conjI) simp_all
qed

theorem image_ref_pinned_witness:
  "\<exists>host names hex. ''ghcr.io/succinctlabs/sp1-gnark@sha256:'' @ replicate 64 CHR ''a'' =
      host @ ''/'' @ names @ ''@sha256:'' @ hex \<and>
    CHR ''/'' \<notin> set host \<and> (CHR ''.'' \<in> set host \<or> CHR '':'' \<in> set host \<or> host = ''localhost'') \<and>
    CHR '':'' \<notin> set names \<and> CHR ''@'' \<notin> set (host @ names) \<and>
    length hex = 64 \<and> list_all is_lower_hex hex"
proof (rule image_ref_pinned)
  show "image_ref_error (''ghcr.io/succinctlabs/sp1-gnark@sha256:'' @ replicate 64 CHR ''a'') = None"
    by code_simp
qed

end
