(* ===== verification/Member_Tree.thy ===== *)
theory Member_Tree
  imports Circuit_Paths "HOL-Library.AList" "HOL-Library.Multiset"
begin

text \<open>
  Class \<open>MemberTree\<close> of \<open>scripts/lib/sp1-circuit-archive.ts\<close>: the tree a set of member paths
  forms, compared case-insensitively. The private \<open>Map\<close> is an association list in insertion
  order, keyed by the lower-cased path. A theorem below relates the incremental checks to a
  specification of the whole set of entries that does not mention an order.
\<close>

section \<open>The code\<close>

record tree_node =
  n_exact :: string
  n_kind :: entry_kind
  n_explicit :: bool
  n_has_file :: bool

type_synonym member_tree = "(string \<times> tree_node) list"

text \<open>\<open>parts.slice(0, i).join("/")\<close> for \<open>i\<close> from 1 below \<open>parts.length\<close>.\<close>

definition ancestor_paths :: "string \<Rightarrow> string list" where
  "ancestor_paths path =
     (let parts = split_on CHR ''/'' path
      in map (\<lambda>i. join_with ''/'' (take i parts)) [1..<length parts])"

text \<open>The node made for an ancestor that no entry named yet.\<close>

definition ancestor_node :: "string \<Rightarrow> tree_node" where
  "ancestor_node a = \<lparr>n_exact = a, n_kind = Directory, n_explicit = False, n_has_file = False\<rparr>"

fun add_ancestors :: "string list \<Rightarrow> member_tree \<Rightarrow> string option \<times> member_tree" where
  "add_ancestors [] t = (None, t)"
| "add_ancestors (prefix # ps) t =
     (case map_of t (lower prefix) of
        None \<Rightarrow> add_ancestors ps
          (AList.update (lower prefix) (ancestor_node prefix) t)
      | Some n \<Rightarrow>
          if n_exact n \<noteq> prefix then (Some ''CASE_COLLISION'', t)
          else if n_kind n = File then (Some ''PARENT_IS_FILE'', t)
          else add_ancestors ps t)"

definition mark_has_file :: "string list \<Rightarrow> member_tree \<Rightarrow> member_tree" where
  "mark_has_file ps t = fold (\<lambda>p. AList.map_entry (lower p) (\<lambda>n. n\<lparr>n_has_file := True\<rparr>)) ps t"

text \<open>\<open>add\<close>: the reason the path collides or \<open>None\<close>, and the tree afterwards (also after a collision).\<close>

definition tree_add :: "string \<Rightarrow> entry_kind \<Rightarrow> member_tree \<Rightarrow> string option \<times> member_tree" where
  "tree_add path kind t =
     (case add_ancestors (ancestor_paths path) t of
        (Some e, t1) \<Rightarrow> (Some e, t1)
      | (None, t1) \<Rightarrow>
          (let mark = (\<lambda>t. if kind = File then mark_has_file (ancestor_paths path) t else t)
           in case map_of t1 (lower path) of
                None \<Rightarrow>
                  (None, mark (AList.update (lower path)
                    \<lparr>n_exact = path, n_kind = kind, n_explicit = True, n_has_file = False\<rparr> t1))
              | Some n \<Rightarrow>
                  if n_exact n \<noteq> path then (Some ''CASE_COLLISION'', t1)
                  else if n_kind n \<noteq> kind then
                    (Some (if kind = File \<and> \<not> n_explicit n then ''PARENT_IS_FILE''
                           else ''FILE_DIRECTORY_COLLISION''), t1)
                  else if kind = File \<or> n_explicit n then (Some ''DUPLICATE_PATH'', t1)
                  else (None, mark (AList.update (lower path) (n\<lparr>n_explicit := True\<rparr>) t1))))"

definition tree_finish :: "member_tree \<Rightarrow> string option" where
  "tree_finish t =
     (if list_ex (\<lambda>(k, n). n_kind n = Directory \<and> \<not> n_has_file n) t
      then Some ''EMPTY_DIRECTORY'' else None)"

section \<open>Ancestors\<close>

lemma length_join_with: "ps \<noteq> [] \<Longrightarrow> length (join_with [c] ps) + 1 = sum_list (map length ps) + length ps"
  by (induction "[c]" ps rule: join_with.induct) auto

lemma join_with_append:
  "ps \<noteq> [] \<Longrightarrow> qs \<noteq> [] \<Longrightarrow> join_with sep (ps @ qs) = join_with sep ps @ sep @ join_with sep qs"
proof (induction sep ps rule: join_with.induct)
  case (2 sep p)
  then show ?case by (cases qs) auto
qed auto

text \<open>An ancestor is a proper prefix that ends just before a separator.\<close>

lemma ancestor_pathsE:
  assumes "a \<in> set (ancestor_paths path)"
  obtains q where "path = a @ CHR ''/'' # q"
proof -
  let ?parts = "split_on CHR ''/'' path"
  from assms obtain i where i: "1 \<le> i" "i < length ?parts" "a = join_with ''/'' (take i ?parts)"
    by (auto simp: ancestor_paths_def Let_def)
  then have "take i ?parts \<noteq> []" "drop i ?parts \<noteq> []" by auto
  then have "join_with ''/'' (take i ?parts @ drop i ?parts) = a @ ''/'' @ join_with ''/'' (drop i ?parts)"
    unfolding i(3) by (rule join_with_append)
  then have "path = a @ CHR ''/'' # join_with ''/'' (drop i ?parts)" by simp
  then show ?thesis by (rule that)
qed

lemma ancestor_paths_iff:
  "a \<in> set (ancestor_paths path) \<longleftrightarrow> (\<exists>q. path = a @ CHR ''/'' # q)"
proof
  assume "\<exists>q. path = a @ CHR ''/'' # q"
  then obtain q where q: "path = a @ CHR ''/'' # q" by blast
  let ?as = "split_on CHR ''/'' a" and ?qs = "split_on CHR ''/'' q"
  have "path = join_with ''/'' (?as @ ?qs)" by (simp add: q join_with_append)
  then have parts: "split_on CHR ''/'' path = ?as @ ?qs"
    using split_join [of "?as @ ?qs" "CHR ''/''"] split_on_no_sep by fastforce
  have "length ?as < length (?as @ ?qs)" "1 \<le> length ?as" by (simp_all add: Suc_le_eq)
  moreover have "a = join_with ''/'' (take (length ?as) (?as @ ?qs))" by simp
  ultimately show "a \<in> set (ancestor_paths path)"
    unfolding ancestor_paths_def Let_def parts set_map set_upt
    by (intro image_eqI [of _ _ "length ?as"]) auto
qed (blast elim: ancestor_pathsE)

lemma ancestor_paths_shorter: "a \<in> set (ancestor_paths path) \<Longrightarrow> length a < length path"
  by (auto simp: ancestor_paths_iff)

lemma length_lower [simp]: "length (lower p) = length p"
  by (simp add: lower_def)

lemma distinct_lower_ancestors: "distinct (map lower (ancestor_paths path))"
proof -
  let ?parts = "split_on CHR ''/'' path"
  let ?pre = "\<lambda>i. join_with ''/'' (take i ?parts)"
  have len: "length (?pre i) < length (?pre j)" if "1 \<le> i" "i < j" "j \<le> length ?parts" for i j
  proof -
    have "take j ?parts = take i ?parts @ drop i (take j ?parts)"
      by (metis append_take_drop_id min.absorb1 less_imp_le take_take that(2))
    moreover have "take i ?parts \<noteq> []" "drop i (take j ?parts) \<noteq> []" using that by auto
    ultimately have "?pre j = ?pre i @ ''/'' @ join_with ''/'' (drop i (take j ?parts))"
      by (metis join_with_append)
    then show ?thesis by simp
  qed
  have "inj_on (\<lambda>i. lower (?pre i)) (set [1..<length ?parts])"
  proof (rule inj_onI)
    fix i j
    assume ij: "i \<in> set [1..<length ?parts]" "j \<in> set [1..<length ?parts]" "lower (?pre i) = lower (?pre j)"
    then have "length (?pre i) = length (?pre j)" by (metis length_lower)
    then show "i = j" using len [of i j] len [of j i] ij(1,2) by (cases i j rule: linorder_cases) auto
  qed
  then show ?thesis by (simp add: ancestor_paths_def Let_def distinct_map comp_def)
qed

lemma lower_ancestor_neq: "a \<in> set (ancestor_paths path) \<Longrightarrow> lower a \<noteq> lower path"
  by (metis ancestor_paths_shorter length_lower less_irrefl)

section \<open>The set of entries the tree stands for\<close>

text \<open>
  \<open>claims es\<close>: what the entries say of each path: its own kind, and that every ancestor is a
  directory. \<open>compatible es\<close> is the rule the class enforces, over the whole list of entries:
  one spelling per path up to case, one kind per path, and each entry named once.
\<close>

definition claims :: "(string \<times> entry_kind) list \<Rightarrow> (string \<times> entry_kind) set" where
  "claims es = set es \<union> {(a, Directory) | a p k. (p, k) \<in> set es \<and> a \<in> set (ancestor_paths p)}"

definition compatible :: "(string \<times> entry_kind) list \<Rightarrow> bool" where
  "compatible es \<longleftrightarrow>
     (\<forall>p k q l. (p, k) \<in> claims es \<longrightarrow> (q, l) \<in> claims es \<longrightarrow> lower p = lower q \<longrightarrow> p = q \<and> k = l) \<and>
     distinct (map fst es)"

lemma claims_append: "claims (es @ [(p, k)]) =
    claims es \<union> {(p, k)} \<union> {(a, Directory) | a. a \<in> set (ancestor_paths p)}"
  by (auto simp: claims_def)

lemma claims_mono: "set es \<subseteq> set fs \<Longrightarrow> claims es \<subseteq> claims fs"
  by (auto simp: claims_def)

definition tree_rep :: "member_tree \<Rightarrow> (string \<times> entry_kind) list \<Rightarrow> bool" where
  "tree_rep t es \<longleftrightarrow>
     distinct (map fst t) \<and> distinct (map fst es) \<and>
     (\<forall>k n. map_of t k = Some n \<longrightarrow>
        k = lower (n_exact n) \<and> (n_exact n, n_kind n) \<in> claims es \<and>
        (n_explicit n \<longleftrightarrow> n_exact n \<in> fst ` set es) \<and>
        (n_has_file n \<longleftrightarrow> (\<exists>q. (q, File) \<in> set es \<and> n_exact n \<in> set (ancestor_paths q)))) \<and>
     (\<forall>p k. (p, k) \<in> claims es \<longrightarrow> (\<exists>n. map_of t (lower p) = Some n \<and> n_exact n = p \<and> n_kind n = k))"

lemma tree_rep_Nil: "tree_rep [] []"
  by (simp add: tree_rep_def claims_def)

lemma tree_rep_compatible: "tree_rep t es \<Longrightarrow> compatible es"
proof -
  assume rep: "tree_rep t es"
  have "p = q \<and> k = l" if c: "(p, k) \<in> claims es" "(q, l) \<in> claims es" "lower p = lower q" for p k q l
  proof -
    from rep c(1) obtain n where "map_of t (lower p) = Some n" "n_exact n = p" "n_kind n = k"
      unfolding tree_rep_def by blast
    moreover from rep c(2) obtain m where "map_of t (lower q) = Some m" "n_exact m = q" "n_kind m = l"
      unfolding tree_rep_def by blast
    ultimately show ?thesis using c(3) by simp
  qed
  with rep show ?thesis unfolding compatible_def tree_rep_def by blast
qed

text \<open>The loop over the ancestors: it fails exactly on a node that is not a directory of that spelling.\<close>

definition clash_free :: "member_tree \<Rightarrow> string list \<Rightarrow> bool" where
  "clash_free t as \<longleftrightarrow>
     (\<forall>a \<in> set as. \<forall>n. map_of t (lower a) = Some n \<longrightarrow> n_exact n = a \<and> n_kind n = Directory)"

lemma map_of_update_ancestor:
  "map_of (AList.update (lower a) (ancestor_node a) t) = (map_of t)(lower a \<mapsto> ancestor_node a)"
  by (simp add: update_conv')

lemma clash_free_Cons:
  assumes "lower a \<notin> lower ` set as"
  shows "clash_free t (a # as) \<longleftrightarrow>
    (case map_of t (lower a) of
       None \<Rightarrow> clash_free (AList.update (lower a) (ancestor_node a) t) as
     | Some n \<Rightarrow> n_exact n = a \<and> n_kind n = Directory \<and> clash_free t as)"
proof (cases "map_of t (lower a)")
  case None
  have "((map_of t)(lower a \<mapsto> ancestor_node a)) (lower b) = map_of t (lower b)" if "b \<in> set as" for b
    using assms that by (metis fun_upd_other image_eqI)
  with None show ?thesis by (simp add: clash_free_def map_of_update_ancestor del: fun_upd_apply)
next
  case (Some n)
  then show ?thesis by (simp add: clash_free_def conj_assoc)
qed

lemma not_File [simp]: "k \<noteq> File \<longleftrightarrow> k = Directory"
  by (cases k) auto

lemma add_ancestors_None:
  "distinct (map lower as) \<Longrightarrow> fst (add_ancestors as t) = None \<longleftrightarrow> clash_free t as"
proof (induction as arbitrary: t)
  case Nil
  then show ?case by (simp add: clash_free_def)
next
  case (Cons a as)
  then show ?case
    by (subst clash_free_Cons) (auto split: option.split)
qed

lemma add_ancestors_map:
  "distinct (map lower as) \<Longrightarrow> clash_free t as \<Longrightarrow>
   map_of (snd (add_ancestors as t)) k =
     (case map_of t k of Some n \<Rightarrow> Some n
      | None \<Rightarrow> map_option ancestor_node (find (\<lambda>a. lower a = k) as))"
proof (induction as arbitrary: t)
  case Nil
  then show ?case by (simp split: option.split)
next
  case (Cons a as)
  then have nin: "lower a \<notin> lower ` set as" by auto
  show ?case
  proof (cases "map_of t (lower a)")
    case None
    let ?t = "AList.update (lower a) (ancestor_node a) t"
    have free: "clash_free ?t as" using Cons.prems(2) clash_free_Cons [OF nin] None by simp
    have nf: "find (\<lambda>b. lower b = lower a) as = None"
      unfolding find_None_iff using nin by (metis image_eqI)
    have "map_of (snd (add_ancestors (a # as) t)) k = map_of (snd (add_ancestors as ?t)) k"
      using None by (simp only: add_ancestors.simps option.case)
    also have "\<dots> = (case map_of ?t k of Some n \<Rightarrow> Some n
        | None \<Rightarrow> map_option ancestor_node (find (\<lambda>a. lower a = k) as))"
      using Cons.IH Cons.prems(1) free by simp
    also have "\<dots> = (case map_of t k of Some n \<Rightarrow> Some n
        | None \<Rightarrow> map_option ancestor_node (find (\<lambda>a. lower a = k) (a # as)))"
    proof (cases "k = lower a")
      case True
      with None nf show ?thesis by (simp add: map_of_update_ancestor)
    next
      case False
      then show ?thesis by (simp add: map_of_update_ancestor split: option.split)
    qed
    finally show ?thesis .
  next
    case (Some n)
    with Cons.prems(2) have "n_exact n = a" "n_kind n = Directory" "clash_free t as"
      using clash_free_Cons [OF nin] by auto
    with Cons Some show ?thesis by (auto split: option.split)
  qed
qed

lemma add_ancestors_distinct:
  "distinct (map fst t) \<Longrightarrow> distinct (map fst (snd (add_ancestors as t)))"
  by (induction as arbitrary: t) (auto split: option.splits simp: distinct_update)

lemma map_of_mark_has_file:
  "map_of (mark_has_file ps t) k =
     map_option (\<lambda>n. if k \<in> lower ` set ps then n\<lparr>n_has_file := True\<rparr> else n) (map_of t k)"
proof (induction ps arbitrary: t)
  case Nil
  then show ?case by (simp add: mark_has_file_def option.map_ident)
next
  case (Cons p ps)
  have "mark_has_file (p # ps) t =
      mark_has_file ps (AList.map_entry (lower p) (\<lambda>n. n\<lparr>n_has_file := True\<rparr>) t)"
    by (simp add: mark_has_file_def)
  then show ?case
    by (cases "map_of t k") (auto simp: Cons map_of_map_entry)
qed

lemma distinct_mark_has_file: "distinct (map fst t) \<Longrightarrow> distinct (map fst (mark_has_file ps t))"
  by (induction ps arbitrary: t) (auto simp: mark_has_file_def distinct_map_entry)

text \<open>The node a successful \<open>add\<close> leaves at the path itself.\<close>

definition self_node :: "string \<Rightarrow> entry_kind \<Rightarrow> member_tree \<Rightarrow> tree_node" where
  "self_node path kind t =
     \<lparr>n_exact = path, n_kind = kind, n_explicit = True,
      n_has_file = (case map_of t (lower path) of None \<Rightarrow> False | Some n \<Rightarrow> n_has_file n)\<rparr>"

definition self_free :: "string \<Rightarrow> entry_kind \<Rightarrow> member_tree \<Rightarrow> bool" where
  "self_free path kind t \<longleftrightarrow>
     (\<forall>n. map_of t (lower path) = Some n \<longrightarrow>
        n_exact n = path \<and> n_kind n = kind \<and> kind = Directory \<and> \<not> n_explicit n)"

lemma lower_self_not_ancestor: "find (\<lambda>a. lower a = lower p) (ancestor_paths p) = None"
  by (auto simp: find_None_iff lower_ancestor_neq)

lemma tree_add_None:
  "fst (tree_add p k t) = None \<longleftrightarrow> clash_free t (ancestor_paths p) \<and> self_free p k t"
proof (cases "add_ancestors (ancestor_paths p) t")
  case (Pair e t1)
  have e: "e = None \<longleftrightarrow> clash_free t (ancestor_paths p)"
    using add_ancestors_None [OF distinct_lower_ancestors, of p t] Pair by simp
  show ?thesis
  proof (cases e)
    case (Some x)
    with e Pair show ?thesis by (simp add: tree_add_def)
  next
    case None
    with e have "map_of t1 (lower p) = map_of t (lower p)"
      using add_ancestors_map [OF distinct_lower_ancestors, of t p "lower p"] Pair
      by (simp add: lower_self_not_ancestor split: option.split)
    with None e Pair show ?thesis
      by (cases k) (auto simp: tree_add_def self_free_def Let_def split: option.split)
  qed
qed

lemma tree_add_lookup:
  assumes "fst (tree_add p k t) = None"
  shows "map_of (snd (tree_add p k t)) j =
    (if j = lower p then Some (self_node p k t)
     else map_option (\<lambda>n. if k = File \<and> j \<in> lower ` set (ancestor_paths p)
                          then n\<lparr>n_has_file := True\<rparr> else n)
       (case map_of t j of Some n \<Rightarrow> Some n
        | None \<Rightarrow> map_option ancestor_node (find (\<lambda>a. lower a = j) (ancestor_paths p))))"
proof (cases "add_ancestors (ancestor_paths p) t")
  case (Pair e t1)
  have free: "clash_free t (ancestor_paths p)" "self_free p k t" using assms tree_add_None by auto
  then have e: "e = None" using add_ancestors_None [OF distinct_lower_ancestors, of p t] Pair by simp
  have t1: "map_of t1 i = (case map_of t i of Some n \<Rightarrow> Some n
      | None \<Rightarrow> map_option ancestor_node (find (\<lambda>a. lower a = i) (ancestor_paths p)))" for i
    using add_ancestors_map [OF distinct_lower_ancestors free(1)] Pair by simp
  then have self: "map_of t1 (lower p) = map_of t (lower p)"
    by (simp add: lower_self_not_ancestor split: option.split)
  have np: "lower p \<notin> lower ` set (ancestor_paths p)" by (metis imageE lower_ancestor_neq)
  let ?t2 = "AList.update (lower p) (self_node p k t) t1"
  have "snd (tree_add p k t) = (if k = File then mark_has_file (ancestor_paths p) ?t2 else ?t2)"
  proof (cases "map_of t (lower p)")
    case None
    with e Pair self show ?thesis by (simp add: tree_add_def self_node_def Let_def)
  next
    case (Some n)
    with free(2) have "n\<lparr>n_explicit := True\<rparr> = self_node p k t" "n_exact n = p" "n_kind n = k"
      "k = Directory" "\<not> n_explicit n" by (auto simp: self_free_def self_node_def)
    with e Pair self Some show ?thesis by (simp add: tree_add_def Let_def)
  qed
  then have "map_of (snd (tree_add p k t)) j =
      map_option (\<lambda>n. if k = File \<and> j \<in> lower ` set (ancestor_paths p)
                      then n\<lparr>n_has_file := True\<rparr> else n) (map_of ?t2 j)"
    by (simp add: map_of_mark_has_file option.map_ident)
  then show ?thesis using np by (simp add: update_conv' t1)
qed

lemma tree_add_distinct: "distinct (map fst t) \<Longrightarrow> distinct (map fst (snd (tree_add p k t)))"
  using add_ancestors_distinct [of t "ancestor_paths p"]
  by (auto simp: tree_add_def Let_def distinct_update distinct_mark_has_file split: prod.split option.split)

lemma tree_rep_claim:
  "tree_rep t es \<Longrightarrow> (p, k) \<in> claims es \<Longrightarrow>
   \<exists>n. map_of t (lower p) = Some n \<and> n_exact n = p \<and> n_kind n = k"
  unfolding tree_rep_def by blast

lemma tree_rep_node:
  "tree_rep t es \<Longrightarrow> map_of t j = Some n \<Longrightarrow>
   j = lower (n_exact n) \<and> (n_exact n, n_kind n) \<in> claims es \<and>
   (n_explicit n \<longleftrightarrow> n_exact n \<in> fst ` set es) \<and>
   (n_has_file n \<longleftrightarrow> (\<exists>q. (q, File) \<in> set es \<and> n_exact n \<in> set (ancestor_paths q)))"
  unfolding tree_rep_def by blast

lemma claim_of_entry: "(p, k) \<in> set es \<Longrightarrow> (p, k) \<in> claims es"
  by (simp add: claims_def)

lemma claim_of_ancestor: "(p, k) \<in> set es \<Longrightarrow> a \<in> set (ancestor_paths p) \<Longrightarrow> (a, Directory) \<in> claims es"
  by (auto simp: claims_def)

lemma not_own_ancestor: "p \<notin> set (ancestor_paths p)"
  using ancestor_paths_shorter by blast

text \<open>A compatible extension is accepted.\<close>

lemma tree_add_complete:
  assumes rep: "tree_rep t es" and ok: "compatible (es @ [(p, k)])"
  shows "fst (tree_add p k t) = None"
proof -
  let ?es = "es @ [(p, k)]"
  have uniq: "q = q' \<and> l = l'" if "(q, l) \<in> claims ?es" "(q', l') \<in> claims ?es" "lower q = lower q'" for q l q' l'
    using ok that unfolding compatible_def by blast
  have old: "(q, l) \<in> claims ?es" if "(q, l) \<in> claims es" for q l
    using that by (simp add: claims_append)
  have "clash_free t (ancestor_paths p)"
    unfolding clash_free_def
  proof (intro ballI allI impI)
    fix a n
    assume a: "a \<in> set (ancestor_paths p)" and n: "map_of t (lower a) = Some n"
    from tree_rep_node [OF rep n] have "lower a = lower (n_exact n)" "(n_exact n, n_kind n) \<in> claims ?es"
      using old by auto
    moreover have "(a, Directory) \<in> claims ?es" using a by (simp add: claims_append)
    ultimately show "n_exact n = a \<and> n_kind n = Directory" using uniq by metis
  qed
  moreover have "self_free p k t"
    unfolding self_free_def
  proof (intro allI impI)
    fix n
    assume n: "map_of t (lower p) = Some n"
    note node = tree_rep_node [OF rep n]
    have "(p, k) \<in> claims ?es" by (simp add: claims_append)
    with node old uniq have eq: "n_exact n = p" "n_kind n = k" by metis+
    have fresh: "p \<notin> fst ` set es" using ok by (auto simp: compatible_def)
    with node eq have "\<not> n_explicit n" by simp
    moreover from node eq fresh have "k = Directory" by (force simp: claims_def)
    ultimately show "n_exact n = p \<and> n_kind n = k \<and> k = Directory \<and> \<not> n_explicit n" using eq by simp
  qed
  ultimately show ?thesis using tree_add_None by blast
qed

text \<open>An accepted entry extends the set the tree stands for.\<close>

lemma tree_add_fresh:
  assumes "tree_rep t es" and "self_free p k t"
  shows "p \<notin> fst ` set es"
proof
  assume p: "p \<in> fst ` set es"
  then obtain l where l: "(p, l) \<in> set es" by auto
  from tree_rep_claim [OF assms(1) claim_of_entry [OF l]]
  obtain n where n: "map_of t (lower p) = Some n" "n_exact n = p" by blast
  from tree_rep_node [OF assms(1) n(1)] have "n_explicit n \<longleftrightarrow> n_exact n \<in> fst ` set es" by blast
  with p n(2) have "n_explicit n" by simp
  with n(1) assms(2) show False unfolding self_free_def by blast
qed

lemma find_ancestor: "a \<in> set (ancestor_paths p) \<Longrightarrow> find (\<lambda>b. lower b = lower a) (ancestor_paths p) = Some a"
proof -
  assume a: "a \<in> set (ancestor_paths p)"
  then obtain b where b: "find (\<lambda>b. lower b = lower a) (ancestor_paths p) = Some b"
    by (cases "find (\<lambda>b. lower b = lower a) (ancestor_paths p)") (auto simp: find_None_iff)
  then have "b \<in> set (ancestor_paths p)" "lower b = lower a" by (auto dest: find_Some_set)
  with a distinct_lower_ancestors have "b = a" by (metis distinct_map inj_onD)
  with b show ?thesis by simp
qed

lemma tree_add_node:
  assumes rep: "tree_rep t es" and add: "fst (tree_add p k t) = None"
    and node: "map_of (snd (tree_add p k t)) j = Some n"
  shows "j = lower (n_exact n) \<and> (n_exact n, n_kind n) \<in> claims (es @ [(p, k)]) \<and>
    (n_explicit n \<longleftrightarrow> n_exact n \<in> fst ` set (es @ [(p, k)])) \<and>
    (n_has_file n \<longleftrightarrow> (\<exists>q. (q, File) \<in> set (es @ [(p, k)]) \<and> n_exact n \<in> set (ancestor_paths q)))"
proof -
  let ?as = "ancestor_paths p"
  have free: "clash_free t ?as" "self_free p k t" using add tree_add_None by auto
  have none: "\<not> (\<exists>q. (q, File) \<in> set es \<and> a \<in> set (ancestor_paths q))" "a \<notin> fst ` set es"
    if "map_of t (lower a) = None" for a
    using that tree_rep_claim [OF rep claim_of_ancestor] tree_rep_claim [OF rep claim_of_entry]
    by (fastforce, fastforce)
  consider (self) "j = lower p" "n = self_node p k t"
    | (old) m where "j \<noteq> lower p" "map_of t j = Some m"
        "n = (if k = File \<and> j \<in> lower ` set ?as then m\<lparr>n_has_file := True\<rparr> else m)"
    | (new) a where "j \<noteq> lower p" "map_of t j = None" "a \<in> set ?as" "j = lower a"
        "n = (if k = File then (ancestor_node a)\<lparr>n_has_file := True\<rparr> else ancestor_node a)"
  proof (cases "j = lower p")
    case True
    with node self show ?thesis by (simp add: tree_add_lookup [OF add])
  next
    case j: False
    show ?thesis
    proof (cases "map_of t j")
      case (Some m)
      with node j old show ?thesis by (simp add: tree_add_lookup [OF add])
    next
      case None
      with node j obtain a where a: "find (\<lambda>a. lower a = j) ?as = Some a"
        by (auto simp: tree_add_lookup [OF add])
      then have aj: "a \<in> set ?as" "j = lower a" by (auto dest: find_Some_set)
      then have "n = (if k = File then (ancestor_node a)\<lparr>n_has_file := True\<rparr> else ancestor_node a)"
        using node j None a by (auto simp: tree_add_lookup [OF add])
      then show ?thesis by (rule new [OF j None aj])
    qed
  qed
  then show ?thesis
  proof cases
    case self
    have "n_has_file n \<longleftrightarrow> (\<exists>q. (q, File) \<in> set es \<and> p \<in> set (ancestor_paths q))"
    proof (cases "map_of t (lower p)")
      case None
      with none [OF this] self show ?thesis by (simp add: self_node_def)
    next
      case (Some m)
      with free(2) have "n_exact m = p" by (simp add: self_free_def)
      with tree_rep_node [OF rep Some] Some self show ?thesis by (simp add: self_node_def)
    qed
    with self show ?thesis by (auto simp: self_node_def claims_append not_own_ancestor)
  next
    case old
    note m = tree_rep_node [OF rep old(2)]
    have "j \<in> lower ` set ?as \<longleftrightarrow> n_exact m \<in> set ?as"
      using free(1) old(2) m unfolding clash_free_def by (metis imageE imageI)
    moreover have "n_exact m \<noteq> p" using m old(1) by auto
    ultimately show ?thesis using m old(3) by (auto simp: claims_append)
  next
    case new
    have "a \<noteq> p" using new(3) not_own_ancestor by auto
    with new none [of a] show ?thesis by (auto simp: claims_append ancestor_node_def)
  qed
qed

lemma tree_add_claim:
  assumes rep: "tree_rep t es" and add: "fst (tree_add p k t) = None"
    and claim: "(q, l) \<in> claims (es @ [(p, k)])"
  shows "\<exists>n. map_of (snd (tree_add p k t)) (lower q) = Some n \<and> n_exact n = q \<and> n_kind n = l"
proof -
  let ?as = "ancestor_paths p"
  have free: "clash_free t ?as" "self_free p k t" using add tree_add_None by auto
  consider (old) "(q, l) \<in> claims es" | (self) "q = p" "l = k" | (anc) "q \<in> set ?as" "l = Directory"
    using claim by (auto simp: claims_append)
  then show ?thesis
  proof cases
    case old
    with rep obtain n where n: "map_of t (lower q) = Some n" "n_exact n = q" "n_kind n = l"
      using tree_rep_claim by blast
    show ?thesis
    proof (cases "lower q = lower p")
      case True
      with n free(2) have "q = p" "l = k" unfolding self_free_def by metis+
      then show ?thesis by (simp add: tree_add_lookup [OF add] self_node_def)
    next
      case False
      with n show ?thesis by (auto simp: tree_add_lookup [OF add])
    qed
  next
    case self
    then show ?thesis by (simp add: tree_add_lookup [OF add] self_node_def)
  next
    case anc
    then have "lower q \<noteq> lower p" by (simp add: lower_ancestor_neq)
    moreover obtain m where "n_exact m = q" "n_kind m = l" and m:
      "(case map_of t (lower q) of Some n \<Rightarrow> Some n
        | None \<Rightarrow> map_option ancestor_node (find (\<lambda>a. lower a = lower q) ?as)) = Some m"
    proof (cases "map_of t (lower q)")
      case None
      with that [of "ancestor_node q"] anc find_ancestor [OF anc(1)] show ?thesis
        by (simp add: ancestor_node_def)
    next
      case (Some m)
      with that [of m] anc free(1) show ?thesis by (simp add: clash_free_def)
    qed
    ultimately show ?thesis by (simp add: tree_add_lookup [OF add])
  qed
qed

lemma tree_add_rep:
  assumes rep: "tree_rep t es" and add: "fst (tree_add p k t) = None"
  shows "tree_rep (snd (tree_add p k t)) (es @ [(p, k)])"
proof -
  have "distinct (map fst (snd (tree_add p k t)))"
    using rep tree_add_distinct by (simp add: tree_rep_def)
  moreover have "distinct (map fst (es @ [(p, k)]))"
    using rep tree_add_fresh [OF rep] add tree_add_None by (auto simp: tree_rep_def)
  ultimately show ?thesis
    unfolding tree_rep_def using tree_add_node [OF rep add] tree_add_claim [OF rep add] by blast
qed

theorem tree_add_correct:
  "tree_rep t es \<Longrightarrow> fst (tree_add p k t) = None \<longleftrightarrow> compatible (es @ [(p, k)])"
  using tree_add_complete tree_add_rep tree_rep_compatible by blast

section \<open>Adding a list of entries, and finishing\<close>

definition tree_step :: "member_tree \<Rightarrow> string \<times> entry_kind \<Rightarrow> string + member_tree" where
  "tree_step t e =
     (case tree_add (fst e) (snd e) t of (Some r, t') \<Rightarrow> Inl r | (None, t') \<Rightarrow> Inr t')"

definition tree_adds :: "(string \<times> entry_kind) list \<Rightarrow> string + member_tree" where
  "tree_adds es = foldE tree_step [] es"

lemma tree_step_Inr: "tree_step t e = Inr t' \<longleftrightarrow> tree_add (fst e) (snd e) t = (None, t')"
  by (auto simp: tree_step_def split: prod.splits option.splits)

lemma compatible_butlast: "compatible (es @ [e]) \<Longrightarrow> compatible es"
  unfolding compatible_def using claims_mono [of es "es @ [e]"] by fastforce

lemma foldE_tree_step_rep:
  assumes "tree_rep t es" and "foldE tree_step t fs = Inr t'"
  shows "tree_rep t' (es @ fs)"
  using assms
proof (induction fs arbitrary: t es)
  case Nil
  then show ?case by simp
next
  case (Cons f fs)
  obtain u where u: "tree_step t f = Inr u" "foldE tree_step u fs = Inr t'"
    using Cons.prems(2) by (auto simp: bindE_eq_Inr)
  then have "tree_rep u (es @ [f])"
    using tree_add_rep [OF Cons.prems(1), of "fst f" "snd f"] by (simp add: tree_step_Inr)
  from Cons.IH [OF this u(2)] show ?case by simp
qed

lemma tree_adds_rep: "tree_adds es = Inr t \<Longrightarrow> tree_rep t es"
  using foldE_tree_step_rep [OF tree_rep_Nil] by (simp add: tree_adds_def)

lemma tree_adds_accepted: "(\<exists>t. tree_adds es = Inr t) \<longleftrightarrow> compatible es"
proof (induction es rule: rev_induct)
  case Nil
  show ?case by (simp add: tree_adds_def compatible_def claims_def)
next
  case (snoc e es)
  show ?case
  proof
    assume "\<exists>t. tree_adds (es @ [e]) = Inr t"
    then show "compatible (es @ [e])" using tree_adds_rep tree_rep_compatible by blast
  next
    assume ok: "compatible (es @ [e])"
    then obtain t where t: "tree_adds es = Inr t" using snoc compatible_butlast by blast
    have "fst (tree_add (fst e) (snd e) t) = None"
      using tree_add_correct [OF tree_adds_rep [OF t], of "fst e" "snd e"] ok by simp
    then obtain t' where "tree_step t e = Inr t'"
      unfolding tree_step_Inr by (metis prod.collapse)
    with t show "\<exists>t. tree_adds (es @ [e]) = Inr t" by (simp add: tree_adds_def foldE_append)
  qed
qed

lemma compatible_mset:
  assumes "mset es = mset fs"
  shows "compatible es \<longleftrightarrow> compatible fs"
proof -
  have "mset (map fst es) = mset (map fst fs)" using assms by simp
  then have "distinct (map fst es) \<longleftrightarrow> distinct (map fst fs)" by (rule mset_eq_imp_distinct_iff)
  moreover have "set es = set fs" using assms by (rule mset_eq_setD)
  then have "claims es = claims fs" by (simp add: claims_def)
  ultimately show ?thesis by (simp add: compatible_def)
qed

lemma compatible_no_file_parent:
  assumes "compatible es" and "(p, File) \<in> set es" and "(q, k) \<in> set es" and "a \<in> set (ancestor_paths q)"
  shows "lower a \<noteq> lower p"
  using assms claim_of_ancestor [OF assms(3,4)] claim_of_entry [OF assms(2)]
  unfolding compatible_def by (metis entry_kind.distinct(1))

lemma compatible_distinct_lower: "compatible es \<Longrightarrow> distinct (map (lower \<circ> fst) es)"
proof -
  assume ok: "compatible es"
  then have "inj_on lower (set (map fst es))"
    using claim_of_entry unfolding compatible_def inj_on_def by (metis (no_types, lifting) imageE list.set_map prod.collapse)
  moreover have "distinct (map fst es)" using ok by (simp add: compatible_def)
  ultimately have "distinct (map lower (map fst es))" unfolding distinct_map [of lower] by simp
  then show ?thesis by (simp only: list.map_comp)
qed

lemma tree_finish_correct:
  assumes rep: "tree_rep t es"
  shows "tree_finish t = None \<longleftrightarrow>
    (\<forall>p. (p, Directory) \<in> claims es \<longrightarrow> (\<exists>q. (q, File) \<in> set es \<and> p \<in> set (ancestor_paths q)))"
    (is "_ \<longleftrightarrow> ?full")
proof -
  have fin: "tree_finish t = None \<longleftrightarrow> (\<forall>k n. (k, n) \<in> set t \<longrightarrow> n_kind n = Directory \<longrightarrow> n_has_file n)"
    by (auto simp: tree_finish_def list_ex_iff)
  have mem: "(k, n) \<in> set t \<longleftrightarrow> map_of t k = Some n" for k n
    using rep by (simp add: tree_rep_def)
  show ?thesis
  proof
    assume ok: "tree_finish t = None"
    show ?full
    proof (intro allI impI)
      fix p
      assume "(p, Directory) \<in> claims es"
      then obtain n where n: "map_of t (lower p) = Some n" "n_exact n = p" "n_kind n = Directory"
        using tree_rep_claim [OF rep] by blast
      with ok fin mem have "n_has_file n" by blast
      with tree_rep_node [OF rep n(1)] n(2) show "\<exists>q. (q, File) \<in> set es \<and> p \<in> set (ancestor_paths q)"
        by simp
    qed
  next
    assume full: ?full
    show "tree_finish t = None"
      unfolding fin mem
    proof (intro allI impI)
      fix k n
      assume n: "map_of t k = Some n" "n_kind n = Directory"
      from tree_rep_node [OF rep n(1)] n(2) full show "n_has_file n" by metis
    qed
  qed
qed

section \<open>Properties\<close>

text \<open>Adding a list of paths to a new MemberTree succeeds exactly when the entries and the directories
  they imply are compatible: two that agree up to case are the same path of the same kind (so no
  file is another entry's parent), and no entry is listed twice.\<close>

theorem tree_accepts_compatible: "(\<exists>t. tree_adds es = Inr t) \<longleftrightarrow> compatible es"
  by (rule tree_adds_accepted)

text \<open>The tree is order-independent: entries accepted in one order are accepted in every order.\<close>

theorem tree_order_independent:
  assumes "mset es = mset fs"
  shows "(\<exists>t. tree_adds es = Inr t) \<longleftrightarrow> (\<exists>t. tree_adds fs = Inr t)"
  unfolding tree_adds_accepted by (rule compatible_mset [OF assms])

theorem tree_order_independent_witness:
  "(\<exists>t. tree_adds [(''a/b'', File), (''A'', Directory)] = Inr t) \<longleftrightarrow>
   (\<exists>t. tree_adds [(''A'', Directory), (''a/b'', File)] = Inr t)"
  by (rule tree_order_independent) simp

text \<open>After adding, finish refuses exactly the trees with a directory, named or implied, that has no
  file beneath it.\<close>

theorem tree_finish_exact:
  assumes "tree_adds es = Inr t"
  shows "tree_finish t = None \<longleftrightarrow>
    (\<forall>d. (d, Directory) \<in> claims es \<longrightarrow> (\<exists>q. (q, File) \<in> set es \<and> d \<in> set (ancestor_paths q)))"
  by (rule tree_finish_correct [OF tree_adds_rep [OF assms]])

theorem tree_finish_exact_witness:
  "\<exists>t. tree_adds [(''a'', Directory), (''a/b'', File)] = Inr t \<and> tree_finish t = None \<and>
    (\<forall>d. (d, Directory) \<in> claims [(''a'', Directory), (''a/b'', File)] \<longrightarrow>
      (\<exists>q. (q, File) \<in> set [(''a'', Directory), (''a/b'', File)] \<and> d \<in> set (ancestor_paths q)))"
proof -
  let ?t = "[(''a'', \<lparr>n_exact = ''a'', n_kind = Directory, n_explicit = True, n_has_file = True\<rparr>),
             (''a/b'', \<lparr>n_exact = ''a/b'', n_kind = File, n_explicit = True, n_has_file = False\<rparr>)]"
  have t: "tree_adds [(''a'', Directory), (''a/b'', File)] = Inr ?t" by code_simp
  have "tree_finish ?t = None" by code_simp
  with t tree_finish_exact [OF t] show ?thesis by blast
qed


end
