(* ===== verification/Tar_Header.thy ===== *)
theory Tar_Header
  imports Circuit_Paths
begin

text \<open>
  The tar header fields and the PAX records of \<open>scripts/lib/sp1-circuit-archive.ts\<close>:
  \<open>textField\<close>, \<open>octalField\<close>, \<open>sizeField\<close>, \<open>parsePax\<close>. A \<open>Buffer\<close> is a list of characters (bytes).
  Text decoded as strict UTF-8 (\<open>TextDecoder\<close> with \<open>fatal\<close> and \<open>ignoreBOM\<close>) is the list of its
  code points.
\<close>

type_synonym buffer = "char list"
type_synonym codepoints = "nat list"

abbreviation code :: "char \<Rightarrow> nat" where
  "code c \<equiv> of_char c"

definition codes :: "string \<Rightarrow> codepoints" where
  "codes s = map code s"

abbreviation NUL :: char where
  "NUL \<equiv> CHR 0x00"

definition slice :: "'a list \<Rightarrow> nat \<Rightarrow> nat \<Rightarrow> 'a list" where
  "slice h from len = take len (drop from h)"

definition max_safe_integer :: nat where
  "max_safe_integer = 2 ^ 53 - 1"

definition octal_max_size :: nat where
  "octal_max_size = 8 ^ 11 - 1"

section \<open>Header fields\<close>

definition text_field :: "buffer \<Rightarrow> nat \<Rightarrow> nat \<Rightarrow> refusal + string" where
  "text_field h from len =
     (let f = slice h from len
      in case index_of NUL f of
           None \<Rightarrow> Inr f
         | Some nul \<Rightarrow>
             if list_ex (\<lambda>b. b \<noteq> NUL) (drop nul f) then Inl (unsafe ''NUL_IN_PATH'')
             else Inr (take nul f))"

definition is_octal :: "char \<Rightarrow> bool" where
  "is_octal c \<longleftrightarrow> CHR ''0'' \<le> c \<and> c \<le> CHR ''7''"

text \<open>\<open>/^ *([0-7]+)[ \0]*$/\<close>.\<close>

definition octal_rx :: "char rx" where
  "octal_rx = rx_seq [RStar (rx_chr CHR '' ''), rx_plus (RCls is_octal),
                      RStar (RCls (\<lambda>c. c = CHR '' '' \<or> c = NUL))]"

text \<open>\<open>parseInt(digits, base)\<close> and \<open>Number(digits)\<close> on digits.\<close>

definition digits_value :: "nat \<Rightarrow> string \<Rightarrow> nat" where
  "digits_value base ds = fold (\<lambda>c v. v * base + (code c - 48)) ds 0"

definition octal_field :: "buffer \<Rightarrow> nat \<Rightarrow> nat \<Rightarrow> refusal + nat" where
  "octal_field h from len =
     (let f = slice h from len
      in if rx_match octal_rx f
         then Inr (digits_value 8 (takeWhile is_octal (dropWhile (\<lambda>c. c = CHR '' '') f)))
         else Inl (corrupt ''HEADER_FIELD''))"

definition big_endian :: "buffer \<Rightarrow> nat" where
  "big_endian bs = fold (\<lambda>b v. v * 256 + code b) bs 0"

text \<open>The size field and whether it was GNU base-256.\<close>

definition size_field :: "buffer \<Rightarrow> refusal + nat \<times> bool" where
  "size_field h =
     (if code (h ! 124) < 128 then bindE (octal_field h 124 12) (\<lambda>n. Inr (n, False))
      else if code (h ! 124) \<noteq> 128 then Inl (corrupt ''HEADER_FIELD'')
      else (let v = big_endian (slice h 125 11)
            in if v > max_safe_integer then Inl (refuse ARCHIVE_LIMIT_EXCEEDED ''SIZE'')
               else Inr (v, True)))"

section \<open>Strict UTF-8\<close>

definition is_cont :: "nat \<Rightarrow> bool" where
  "is_cont n \<longleftrightarrow> 128 \<le> n \<and> n \<le> 191"

fun utf8_decode :: "nat list \<Rightarrow> codepoints option" where
  "utf8_decode [] = Some []"
| "utf8_decode (a # bs) =
     (if a < 128 then map_option (Cons a) (utf8_decode bs)
      else if 194 \<le> a \<and> a \<le> 223 then
        (case bs of
           b # cs \<Rightarrow> if is_cont b
             then map_option (Cons ((a - 192) * 64 + (b - 128))) (utf8_decode cs) else None
         | [] \<Rightarrow> None)
      else if 224 \<le> a \<and> a \<le> 239 then
        (case bs of
           b # c # ds \<Rightarrow>
             if is_cont b \<and> is_cont c \<and> (a = 224 \<longrightarrow> 160 \<le> b) \<and> (a = 237 \<longrightarrow> b \<le> 159)
             then map_option (Cons ((a - 224) * 4096 + (b - 128) * 64 + (c - 128))) (utf8_decode ds)
             else None
         | _ \<Rightarrow> None)
      else if 240 \<le> a \<and> a \<le> 244 then
        (case bs of
           b # c # d # es \<Rightarrow>
             if is_cont b \<and> is_cont c \<and> is_cont d \<and> (a = 240 \<longrightarrow> 144 \<le> b) \<and> (a = 244 \<longrightarrow> b \<le> 143)
             then map_option (Cons ((a - 240) * 262144 + (b - 128) * 4096 + (c - 128) * 64 + (d - 128)))
                    (utf8_decode es)
             else None
         | _ \<Rightarrow> None)
      else None)"

definition utf8 :: "buffer \<Rightarrow> codepoints option" where
  "utf8 b = utf8_decode (map code b)"

section \<open>PAX records\<close>

type_synonym pax_map = "(codepoints \<times> codepoints) list"

definition provenance_pax_key :: string where
  "provenance_pax_key = ''SCHILY.xattr.com.apple.provenance''"

definition provenance_value :: buffer where
  "provenance_value =
     map char_of [1, 2, 0, 45, 14, 35, 183, 91, 253, 232, 122 :: nat]"

definition provenance_entries :: "(string \<times> entry_kind) list" where
  "provenance_entries =
     [('''', Directory), (''Groth16Verifier.sol'', File), (''SP1VerifierGroth16.sol'', File),
      (''constraints.json'', File), (''groth16_circuit.bin'', File), (''groth16_pk.bin'', File),
      (''groth16_vk.bin'', File), (''groth16_witness.json'', File)]"

text \<open>\<open>/^[1-9][0-9]*$/\<close>.\<close>

definition pax_len_rx :: "char rx" where
  "pax_len_rx = RSeq (RCls (\<lambda>c. CHR ''1'' \<le> c \<and> c \<le> CHR ''9'')) (RStar (RCls is_digit))"

text \<open>
  One record at the front of the data (\<open>data.subarray(i)\<close>), added to the records read so far:
  the extended map and the record's length.
\<close>

definition pax_record :: "pax_map \<Rightarrow> buffer \<Rightarrow> refusal + pax_map \<times> nat" where
  "pax_record out d =
     (let sp = index_of CHR '' '' d;
          len_text = (case sp of None \<Rightarrow> '''' | Some k \<Rightarrow> take k d);
          n = digits_value 10 len_text
      in if \<not> rx_match pax_len_rx len_text \<or> length d < n \<or> d ! (n - 1) \<noteq> CHR 0x0A
         then Inl (corrupt ''PAX_MALFORMED'')
         else (let rec = slice d (Suc (the sp)) (n - 1 - Suc (the sp));
                   eq = index_of CHR ''='' rec;
                   raw_key = (case eq of None \<Rightarrow> [] | Some k \<Rightarrow> take k rec);
                   raw_value = (case eq of None \<Rightarrow> rec | Some k \<Rightarrow> drop (Suc k) rec)
               in case utf8 raw_key of
                    None \<Rightarrow> Inl (corrupt ''PAX_MALFORMED'')
                  | Some key \<Rightarrow>
                      (case (if key = codes provenance_pax_key then Some [] else utf8 raw_value) of
                         None \<Rightarrow> Inl (corrupt ''PAX_MALFORMED'')
                       | Some value \<Rightarrow>
                           if eq = None \<or> eq = Some 0 then Inl (corrupt ''PAX_MALFORMED'')
                           else if key = codes provenance_pax_key \<and> raw_value \<noteq> provenance_value
                             then Inl (unsafe ''PROVENANCE_VALUE_UNEXPECTED'')
                           else if map_of out key \<noteq> None then Inl (unsafe ''PAX_DUPLICATE_KEY'')
                           else Inr (out @ [(key, value)], n))))"

lemma digits_value_pos:
  assumes "rx_match pax_len_rx s"
  shows "0 < digits_value 10 s"
proof -
  from assms obtain c cs where s: "s = c # cs" "CHR ''1'' \<le> c"
    unfolding pax_len_rx_def rx_match_seq_cls by auto
  have mono: "v \<le> fold (\<lambda>c v. v * 10 + (code c - 48)) ds v" for ds :: string and v :: nat
  proof (induction ds arbitrary: v)
    case (Cons d ds)
    have "v \<le> v * 10 + (code d - 48)" by simp
    also have "\<dots> \<le> fold (\<lambda>c v. v * 10 + (code c - 48)) ds (v * 10 + (code d - 48))" by (rule Cons)
    finally show ?case by simp
  qed simp
  have "49 \<le> code c" using s(2) by (simp add: less_eq_char_def)
  then have "0 < code c - 48" by simp
  with mono [of "code c - 48" cs] show ?thesis unfolding digits_value_def s(1) by simp
qed

lemma pax_record_progress: "pax_record out d = Inr (out', n) \<Longrightarrow> 0 < n \<and> n \<le> length d"
  using digits_value_pos
  by (auto simp: pax_record_def Let_def split: if_splits option.splits)

function parse_pax_from :: "pax_map \<Rightarrow> buffer \<Rightarrow> refusal + pax_map" where
  "parse_pax_from out d =
     (if d = [] then Inr out
      else bindE (pax_record out d) (\<lambda>(out', n). parse_pax_from out' (drop n d)))"
  by pat_completeness auto
termination
  by (relation "measure (\<lambda>(out, d). length d)") (auto dest: pax_record_progress)

declare parse_pax_from.simps [simp del]

definition parse_pax :: "buffer \<Rightarrow> refusal + pax_map" where
  "parse_pax d = parse_pax_from [] d"

text \<open>
  \<open>/^(mtime|atime|ctime|uid|gid|uname|gname|comment|SCHILY\.(dev|ino|nlink|fflags)|\<close>
  \<open>SCHILY\.(xattr|acl)\..+|LIBARCHIVE\.xattr\..+|LIBARCHIVE\.creationtime)$/\<close>, over code points;
  \<open>.\<close> is any character but a line terminator.
\<close>

definition rx_dots :: "nat rx" where
  "rx_dots = rx_plus (RCls (\<lambda>c. c \<noteq> 10 \<and> c \<noteq> 13 \<and> c \<noteq> 8232 \<and> c \<noteq> 8233))"

definition pax_metadata_rx :: "nat rx" where
  "pax_metadata_rx =
     (let lit = (\<lambda>s. rx_lit (codes s))
      in rx_alt
        [lit ''mtime'', lit ''atime'', lit ''ctime'', lit ''uid'', lit ''gid'', lit ''uname'',
         lit ''gname'', lit ''comment'',
         RSeq (lit ''SCHILY.'') (rx_alt [lit ''dev'', lit ''ino'', lit ''nlink'', lit ''fflags'']),
         rx_seq [lit ''SCHILY.'', rx_alt [lit ''xattr'', lit ''acl''], lit ''.'', rx_dots],
         RSeq (lit ''LIBARCHIVE.xattr.'') rx_dots,
         lit ''LIBARCHIVE.creationtime''])"

definition pax_key_ok :: "codepoints \<Rightarrow> bool" where
  "pax_key_ok key \<longleftrightarrow>
     key = codes ''path'' \<or> key = codes ''size'' \<or> rx_match pax_metadata_rx key"

text \<open>\<open>/^[0-9]+$/\<close> on a PAX size, and its \<open>Number\<close>.\<close>

definition is_digits :: "codepoints \<Rightarrow> bool" where
  "is_digits s \<longleftrightarrow> s \<noteq> [] \<and> list_all (\<lambda>c. 48 \<le> c \<and> c \<le> 57) s"

definition number_of_digits :: "codepoints \<Rightarrow> nat" where
  "number_of_digits s = fold (\<lambda>c v. v * 10 + (c - 48)) s 0"

end
