(* ===== verification/Tar_Parser.thy ===== *)
theory Tar_Parser
  imports Member_Tree Tar_Header
begin

text \<open>
  Class \<open>TarParser\<close> of \<open>scripts/lib/sp1-circuit-archive.ts\<close>: the push parser as a state machine
  on a record of its private fields, one definition per method. Its callbacks are a record of
  functions on a state \<open>'w\<close> of the caller's (\<open>openFile\<close>, the sink's \<open>write\<close> and \<open>close\<close>,
  \<open>onDirectory\<close>), each of which may refuse. The SHA-256 of \<open>node:crypto\<close> is the function
  \<open>o_sha256\<close> of the bytes fed to the hash.
\<close>

section \<open>State\<close>

record limits =
  max_entries :: nat
  max_total_bytes :: nat
  max_pax_bytes :: nat

definition default_limits :: limits where
  "default_limits = \<lparr>max_entries = 10000, max_total_bytes = 64 * 1024 ^ 3, max_pax_bytes = 65536\<rparr>"

record scanned_member =
  m_path :: string
  m_bytes :: nat
  m_sha256 :: string

text \<open>A body an AppleDouble entry may have: its length and its SHA-256.\<close>

type_synonym body = "nat \<times> string"

definition appledouble_bodies :: "body list" where
  "appledouble_bodies = [(163, ''a8d7edcaf5cde6ccdb9d056770ecd3edadcdd9010dad9d9b61e026f4732cd0e0'')]"

text \<open>
  A method that throws leaves the caller's state as it is at that moment: the refusal is answered with that state,
  for the parser's own refusals and for those of the callbacks alike.
\<close>

type_synonym 'w stopped = "refusal \<times> 'w"

record 'w parser_opts =
  o_limits :: limits
  o_sha256 :: "buffer \<Rightarrow> string"
  o_expect :: "(string \<rightharpoonup> nat) option"
  o_expect_metadata :: "(string \<rightharpoonup> body) option"
  o_open :: "string \<Rightarrow> nat \<Rightarrow> 'w \<Rightarrow> 'w stopped + 'w"
  o_write :: "string \<Rightarrow> buffer \<Rightarrow> 'w \<Rightarrow> 'w stopped + 'w"
  o_close :: "string \<Rightarrow> 'w \<Rightarrow> 'w stopped + 'w"
  o_directory :: "string \<Rightarrow> 'w \<Rightarrow> 'w stopped + 'w"

datatype pstate = SHeader | SData | SPadding | SEnd

text \<open>
  The file being read: \<open>f_data\<close> is what its hash was fed; \<open>f_bodies\<close> is \<open>Some\<close> for an AppleDouble
  entry, which has no sink.
\<close>

record file_state =
  f_path :: string
  f_bytes :: nat
  f_data :: buffer
  f_sink :: bool
  f_bodies :: "body list option"

record 'w parser =
  p_members :: "scanned_member list"
  p_directories :: "string list"
  p_metadata :: "scanned_member list"
  p_provenance :: "string list"
  p_tree :: member_tree
  p_companion :: "string option"
  p_state :: pstate
  p_header :: buffer
  p_offset :: nat
  p_entries :: nat
  p_file_bytes :: nat
  p_remaining :: nat
  p_padding :: nat
  p_pax :: "pax_map option"
  p_pax_chunks :: "buffer option"
  p_file :: "file_state option"
  p_world :: 'w

definition new_parser :: "'w \<Rightarrow> 'w parser" where
  "new_parser w =
     \<lparr>p_members = [], p_directories = [], p_metadata = [], p_provenance = [], p_tree = [],
      p_companion = None, p_state = SHeader, p_header = [], p_offset = 0, p_entries = 0,
      p_file_bytes = 0, p_remaining = 0, p_padding = 0, p_pax = None, p_pax_chunks = None,
      p_file = None, p_world = w\<rparr>"

text \<open>The parser throws, and a computation that does not touch the caller's state throws.\<close>

abbreviation stop :: "'w parser \<Rightarrow> refusal \<Rightarrow> 'w stopped + 'a" where
  "stop p e \<equiv> Inl (e, p_world p)"

definition during :: "'w parser \<Rightarrow> refusal + 'a \<Rightarrow> 'w stopped + 'a" where
  "during p m = map_sum (\<lambda>e. (e, p_world p)) id m"

lemma map_sum_id_eq_Inr [simp]: "map_sum f id m = Inr x \<longleftrightarrow> m = Inr x"
  by (cases m) auto

lemma during_Inr [simp]: "during p (Inr x) = Inr x"
  by (simp add: during_def)

lemma during_eq_Inr [simp]: "during p m = Inr x \<longleftrightarrow> m = Inr x" "Inr x = during p m \<longleftrightarrow> m = Inr x"
  by (cases m; auto simp: during_def)+

lemma during_eq_Inl [simp]: "during p m = Inl f \<longleftrightarrow> (\<exists>e. m = Inl e \<and> f = (e, p_world p))"
  by (cases m) (auto simp: during_def)

lemma during_cong: "p_world p = p_world q \<Longrightarrow> during p m = during q m"
  by (simp add: during_def)

section \<open>The data of an entry\<close>

definition end_pax_data :: "buffer \<Rightarrow> 'w parser \<Rightarrow> 'w stopped + 'w parser" where
  "end_pax_data d p =
     bindE (during p (parse_pax d)) (\<lambda>records.
       if list_all (\<lambda>(k, v). pax_key_ok k) records
       then Inr (p\<lparr>p_pax_chunks := None, p_pax := Some records\<rparr>)
       else stop p (unsafe ''PAX_KEY_REFUSED''))"

definition end_file_data :: "'w parser_opts \<Rightarrow> file_state \<Rightarrow> 'w parser \<Rightarrow> 'w stopped + 'w parser" where
  "end_file_data opts f p =
     (let sha = o_sha256 opts (f_data f);
          entry = \<lparr>m_path = f_path f, m_bytes = f_bytes f, m_sha256 = sha\<rparr>;
          p = p\<lparr>p_file := None\<rparr>
      in case f_bodies f of
           Some bodies \<Rightarrow>
             if list_ex (\<lambda>b. snd b = sha) bodies
             then Inr (p\<lparr>p_metadata := p_metadata p @ [entry]\<rparr>)
             else stop p (unsafe ''APPLEDOUBLE_UNEXPECTED_BODY'')
         | None \<Rightarrow>
             bindE (if f_sink f then o_close opts (f_path f) (p_world p) else Inr (p_world p)) (\<lambda>w.
             Inr (p\<lparr>p_world := w, p_members := p_members p @ [entry]\<rparr>)))"

definition end_data :: "'w parser_opts \<Rightarrow> 'w parser \<Rightarrow> 'w stopped + 'w parser" where
  "end_data opts p =
     bindE (case p_pax_chunks p of
              Some d \<Rightarrow> end_pax_data d p
            | None \<Rightarrow> (case p_file p of Some f \<Rightarrow> end_file_data opts f p | None \<Rightarrow> Inr p)) (\<lambda>p.
     Inr (p\<lparr>p_state := if p_padding p = 0 then SHeader else SPadding\<rparr>))"

definition start_data :: "'w parser_opts \<Rightarrow> nat \<Rightarrow> 'w parser \<Rightarrow> 'w stopped + 'w parser" where
  "start_data opts sz p =
     (let p = p\<lparr>p_remaining := sz, p_padding := (512 - sz mod 512) mod 512\<rparr>
      in if sz = 0 then end_data opts p else Inr (p\<lparr>p_state := SData\<rparr>))"

section \<open>Headers\<close>

text \<open>The all-zero block: the end of the archive.\<close>

definition end_of_archive :: "'w parser \<Rightarrow> 'w stopped + 'w parser" where
  "end_of_archive p =
     (if p_pax p \<noteq> None then stop p (corrupt ''DANGLING_PAX'')
      else if p_companion p \<noteq> None then stop p (unsafe ''APPLEDOUBLE_WITHOUT_COMPANION'')
      else if length (p_provenance p) > 0 \<and> length (p_provenance p) \<noteq> length provenance_entries
        then stop p (unsafe ''PROVENANCE_OCCURRENCE_MISSING'')
      else Inr (p\<lparr>p_state := SEnd\<rparr>))"

definition header_sum :: "buffer \<Rightarrow> nat" where
  "header_sum h = sum_list (map code (take 148 h)) + 8 * 32 + sum_list (map code (drop 156 h))"

definition posix_magic :: buffer where
  "posix_magic = ''ustar'' @ [NUL] @ ''00''"

definition gnu_magic :: buffer where
  "gnu_magic = ''ustar  '' @ [NUL]"

definition refused_type :: "char \<Rightarrow> string option" where
  "refused_type = map_of
     [(CHR ''1'', ''HARDLINK''), (CHR ''2'', ''SYMLINK''), (CHR ''3'', ''CHARACTER_DEVICE''),
      (CHR ''4'', ''BLOCK_DEVICE''), (CHR ''6'', ''FIFO''), (CHR ''g'', ''PAX_GLOBAL_HEADER''),
      (CHR ''L'', ''GNU_LONG_NAME''), (CHR ''K'', ''GNU_LONG_LINK'')]"

definition on_pax_header :: "'w parser_opts \<Rightarrow> buffer \<Rightarrow> 'w parser \<Rightarrow> 'w stopped + 'w parser" where
  "on_pax_header opts h p =
     (if p_pax p \<noteq> None then stop p (unsafe ''PAX_REPEATED'')
      else bindE (during p (size_field h)) (\<lambda>(sz, base256).
        if sz > max_pax_bytes (o_limits opts) then stop p (refuse ARCHIVE_LIMIT_EXCEEDED ''PAX_BYTES'')
        else start_data opts sz (p\<lparr>p_pax_chunks := Some [], p_pax := Some []\<rparr>)))"

definition on_provenance :: "string \<Rightarrow> entry_kind \<Rightarrow> 'w parser \<Rightarrow> 'w stopped + 'w parser" where
  "on_provenance path kind p =
     (if (path, kind) \<notin> set provenance_entries
        then stop p (unsafe ''PROVENANCE_ON_UNCHARACTERIZED_ENTRY'')
      else if path \<in> set (p_provenance p) then stop p (unsafe ''PROVENANCE_REPEATED'')
      else Inr (p\<lparr>p_provenance := p_provenance p @ [path]\<rparr>))"

definition on_appledouble ::
  "'w parser_opts \<Rightarrow> string \<Rightarrow> entry_kind \<Rightarrow> nat \<Rightarrow> bool \<Rightarrow> 'w parser \<Rightarrow> 'w stopped + 'w parser" where
  "on_appledouble opts path kind sz had_pax p =
     (case appledouble_companion path of
        None \<Rightarrow> stop p (unsafe ''APPLEDOUBLE_OUTSIDE_POLICY'')
      | Some companion \<Rightarrow>
          if kind \<noteq> File then stop p (unsafe ''APPLEDOUBLE_NOT_A_FILE'')
          else if had_pax then stop p (unsafe ''APPLEDOUBLE_WITH_PAX'')
          else (case tree_add path File (p_tree p) of
             (Some clash, t) \<Rightarrow> stop p (unsafe clash)
           | (None, t) \<Rightarrow>
               bindE (during p (case o_expect_metadata opts of
                        None \<Rightarrow> Inr appledouble_bodies
                      | Some want \<Rightarrow> (case want path of
                          None \<Rightarrow> Inl (refuse ARCHIVE_MEMBER_MISMATCH ''UNEXPECTED_METADATA'')
                        | Some w \<Rightarrow> Inr [w]))) (\<lambda>bodies.
               if \<not> list_ex (\<lambda>b. fst b = sz) bodies
               then stop p (unsafe ''APPLEDOUBLE_UNEXPECTED_BODY'')
               else start_data opts sz
                 (p\<lparr>p_tree := t, p_companion := Some companion,
                    p_file := Some \<lparr>f_path = path, f_bytes = sz, f_data = [], f_sink = False,
                                    f_bodies = Some bodies\<rparr>\<rparr>))))"

text \<open>The end of \<open>onHeader\<close>: an ordinary entry under its canonical path.\<close>

definition on_member :: "'w parser_opts \<Rightarrow> string \<Rightarrow> nat \<Rightarrow> 'w parser \<Rightarrow> 'w stopped + 'w parser" where
  "on_member opts path sz p =
     bindE (during p (case o_expect opts of
              None \<Rightarrow> Inr ()
            | Some want \<Rightarrow> (case want path of
                None \<Rightarrow> Inl (refuse ARCHIVE_MEMBER_MISMATCH ''UNEXPECTED_MEMBER'')
              | Some w \<Rightarrow> guardE (w = sz) (refuse ARCHIVE_MEMBER_MISMATCH ''SIZE_MISMATCH'')))) (\<lambda>_.
     let total = p_file_bytes p + sz
     in if total > max_total_bytes (o_limits opts)
        then stop p (refuse ARCHIVE_LIMIT_EXCEEDED ''TOTAL_BYTES'')
        else bindE (o_open opts path sz (p_world p)) (\<lambda>w.
          start_data opts sz
            (p\<lparr>p_file_bytes := total, p_world := w,
               p_file := Some \<lparr>f_path = path, f_bytes = sz, f_data = [], f_sink = True,
                               f_bodies = None\<rparr>\<rparr>)))"

definition on_plain :: "'w parser_opts \<Rightarrow> string \<Rightarrow> entry_kind \<Rightarrow> nat \<Rightarrow> 'w parser \<Rightarrow> 'w stopped + 'w parser" where
  "on_plain opts path kind sz p =
     (if kind = Directory \<and> sz \<noteq> 0 then stop p (unsafe ''DIRECTORY_WITH_DATA'')
      else if kind = Directory \<and> path = '''' then start_data opts 0 p
      else (case (if path = '''' then Some ''EMPTY_PATH'' else member_path_error path) of
          Some bad \<Rightarrow> stop p (unsafe bad)
        | None \<Rightarrow>
            (case tree_add path kind (p_tree p) of
               (Some clash, t) \<Rightarrow> stop p (unsafe clash)
             | (None, t) \<Rightarrow>
                 let p = p\<lparr>p_tree := t\<rparr>
                 in if kind = Directory
                    then bindE (o_directory opts path (p_world p)) (\<lambda>w.
                      start_data opts 0 (p\<lparr>p_directories := p_directories p @ [path], p_world := w\<rparr>))
                    else on_member opts path sz p)))"

text \<open>The sz an entry has once its PAX records are read, and their \<open>path\<close> check.\<close>

definition pax_size :: "pax_map option \<Rightarrow> string \<Rightarrow> nat \<Rightarrow> bool \<Rightarrow> refusal + nat" where
  "pax_size pax raw sz base256 =
     (case pax of
        None \<Rightarrow> Inr sz
      | Some m \<Rightarrow>
          if (case map_of m (codes ''path'') of None \<Rightarrow> False | Some q \<Rightarrow> q \<noteq> codes raw)
          then Inl (unsafe ''PAX_PATH_MISMATCH'')
          else (case map_of m (codes ''size'') of
             None \<Rightarrow> Inr sz
           | Some s \<Rightarrow>
               let n = number_of_digits s
               in if \<not> is_digits s \<or> n > max_safe_integer then Inl (corrupt ''PAX_MALFORMED'')
                  else if n \<noteq> sz \<and> (base256 \<or> n \<le> octal_max_size)
                    then Inl (unsafe ''PAX_SIZE_MISMATCH'')
                  else Inr n))"

definition companion_check :: "string \<Rightarrow> entry_kind \<Rightarrow> 'w parser \<Rightarrow> 'w stopped + 'w parser" where
  "companion_check path kind p =
     (case p_companion p of
        None \<Rightarrow> Inr p
      | Some want \<Rightarrow>
          if path \<noteq> want \<or> kind \<noteq> (if want = '''' then Directory else File)
          then stop p (unsafe ''APPLEDOUBLE_WITHOUT_COMPANION'')
          else Inr (p\<lparr>p_companion := None\<rparr>))"

text \<open>The name an entry spells: the prefix field, in the POSIX format, joined to the name field.\<close>

definition raw_name :: "bool \<Rightarrow> buffer \<Rightarrow> refusal + string" where
  "raw_name posix h =
     bindE (text_field h 0 100) (\<lambda>name.
     bindE (if posix then text_field h 345 155 else Inr '''') (\<lambda>prefix.
     Inr (if prefix \<noteq> '''' then prefix @ ''/'' @ name else name)))"

definition has_provenance :: "pax_map option \<Rightarrow> bool" where
  "has_provenance pax \<longleftrightarrow>
     (case pax of None \<Rightarrow> False | Some m \<Rightarrow> map_of m (codes provenance_pax_key) \<noteq> None)"

text \<open>An entry of type \<open>0\<close> or \<open>5\<close>; \<open>dispatch\<close> is its end, once its size is known.\<close>

definition dispatch ::
  "'w parser_opts \<Rightarrow> string \<Rightarrow> entry_kind \<Rightarrow> nat \<Rightarrow> pax_map option \<Rightarrow> 'w parser \<Rightarrow> 'w stopped + 'w parser" where
  "dispatch opts raw kind sz pax p =
     (let path = entry_path raw kind in
      if path = '''' \<and> raw \<noteq> ''.'' \<and> raw \<noteq> ''./''
      then stop p (unsafe (if starts_with raw ''/'' then ''ABSOLUTE_PATH'' else ''EMPTY_PATH''))
      else
      bindE (companion_check path kind p) (\<lambda>p.
      bindE (if has_provenance pax then on_provenance path kind p else Inr p) (\<lambda>p.
      if is_appledouble_shaped path then on_appledouble opts path kind sz (pax \<noteq> None) p
      else on_plain opts path kind sz p)))"

definition on_entry :: "'w parser_opts \<Rightarrow> bool \<Rightarrow> entry_kind \<Rightarrow> buffer \<Rightarrow> 'w parser \<Rightarrow> 'w stopped + 'w parser" where
  "on_entry opts posix kind h p =
     bindE (during p (raw_name posix h)) (\<lambda>raw.
     bindE (during p (size_field h)) (\<lambda>(sz0, base256).
     bindE (during p (pax_size (p_pax p) raw sz0 base256)) (\<lambda>sz.
     dispatch opts raw kind sz (p_pax p) (p\<lparr>p_pax := None\<rparr>))))"

definition on_header :: "'w parser_opts \<Rightarrow> buffer \<Rightarrow> 'w parser \<Rightarrow> 'w stopped + 'w parser" where
  "on_header opts h p =
     (if list_all (\<lambda>b. b = NUL) h then end_of_archive p
      else
        let p = p\<lparr>p_entries := Suc (p_entries p)\<rparr> in
        if p_entries p > max_entries (o_limits opts) then stop p (refuse ARCHIVE_LIMIT_EXCEEDED ''ENTRIES'')
        else
        bindE (during p (octal_field h 148 8)) (\<lambda>checksum.
        if checksum \<noteq> header_sum h then stop p (corrupt ''HEADER_CHECKSUM'')
        else
        let magic = slice h 257 8; posix = (magic = posix_magic) in
        if \<not> posix \<and> magic \<noteq> gnu_magic then stop p (unsafe ''UNSUPPORTED_FORMAT'')
        else
        bindE (during p (octal_field h 100 8)) (\<lambda>mode.
        if (mode div 512) mod 8 \<noteq> 0 then stop p (unsafe ''SPECIAL_MODE_BITS'')
        else
        let type = (if h ! 156 = NUL then CHR ''0'' else h ! 156) in
        case refused_type type of
          Some reason \<Rightarrow> stop p (unsafe reason)
        | None \<Rightarrow>
            if type = CHR ''x'' then on_pax_header opts h p
            else if type \<noteq> CHR ''0'' \<and> type \<noteq> CHR ''5'' then stop p (unsafe ''UNSUPPORTED_ENTRY_TYPE'')
            else on_entry opts posix (if type = CHR ''5'' then Directory else File) h p)))"

section \<open>Feeding\<close>

text \<open>Where a piece of an entry's data goes: the pending PAX header, or the open file's hash and sink.\<close>

definition take_data :: "'w parser_opts \<Rightarrow> buffer \<Rightarrow> 'w parser \<Rightarrow> 'w stopped + 'w parser" where
  "take_data opts part p =
     (case p_pax_chunks p of
        Some d \<Rightarrow> Inr (p\<lparr>p_pax_chunks := Some (d @ part)\<rparr>)
      | None \<Rightarrow> (case p_file p of
          None \<Rightarrow> Inr p
        | Some f \<Rightarrow>
            bindE (if f_sink f then o_write opts (f_path f) part (p_world p) else Inr (p_world p)) (\<lambda>w.
            Inr (p\<lparr>p_file := Some (f\<lparr>f_data := f_data f @ part\<rparr>), p_world := w\<rparr>))))"

text \<open>
  One turn of the loop in \<open>feed\<close>: the state afterwards and what is left of the chunk.
\<close>

definition feed_step :: "'w parser_opts \<Rightarrow> 'w parser \<Rightarrow> buffer \<Rightarrow> 'w stopped + 'w parser \<times> buffer" where
  "feed_step opts p chunk =
     (case p_state p of
        SEnd \<Rightarrow>
          if list_ex (\<lambda>b. b \<noteq> NUL) chunk then stop p (corrupt ''TRAILING_DATA'')
          else Inr (p\<lparr>p_offset := p_offset p + length chunk\<rparr>, [])
      | SHeader \<Rightarrow>
          (let n = min (512 - length (p_header p)) (length chunk);
               header = p_header p @ take n chunk
           in if length header = 512
              then bindE (on_header opts header (p\<lparr>p_header := []\<rparr>)) (\<lambda>p.
                     Inr (p\<lparr>p_offset := p_offset p + 512\<rparr>, drop n chunk))
              else Inr (p\<lparr>p_header := header\<rparr>, drop n chunk))
      | SData \<Rightarrow>
          (let n = min (p_remaining p) (length chunk)
           in bindE (take_data opts (take n chunk) p) (\<lambda>p.
              let p = p\<lparr>p_remaining := p_remaining p - n, p_offset := p_offset p + n\<rparr>
              in bindE (if p_remaining p = 0 then end_data opts p else Inr p) (\<lambda>p. Inr (p, drop n chunk))))
      | SPadding \<Rightarrow>
          (let n = min (p_padding p) (length chunk);
               p = p\<lparr>p_padding := p_padding p - n, p_offset := p_offset p + n\<rparr>
           in Inr (if p_padding p = 0 then p\<lparr>p_state := SHeader\<rparr> else p, drop n chunk)))"

text \<open>The loop; \<open>None\<close> would be a loop that does not return, which theory \<open>Tar_Feed\<close> excludes.\<close>

partial_function (option) feed_loop ::
  "'w parser_opts \<Rightarrow> 'w parser \<Rightarrow> buffer \<Rightarrow> ('w stopped + 'w parser) option" where
  "feed_loop opts p chunk =
     (if chunk = [] then Some (Inr p)
      else (case feed_step opts p chunk of
              Inl e \<Rightarrow> Some (Inl e)
            | Inr r \<Rightarrow> feed_loop opts (fst r) (snd r)))"

text \<open>The bytes the whole stream may decompress to.\<close>

definition decompressed_limit :: "limits \<Rightarrow> nat" where
  "decompressed_limit l =
     max_total_bytes l + max_entries l * (2 * 512 + max_pax_bytes l) + 1024 * 1024"

text \<open>\<open>feed\<close>; the counter \<open>decompressed\<close>, which no other method reads, is the pair's first component.\<close>

definition feed ::
  "'w parser_opts \<Rightarrow> nat \<times> 'w parser \<Rightarrow> buffer \<Rightarrow> ('w stopped + nat \<times> 'w parser) option" where
  "feed opts s chunk =
     (let decompressed = fst s + length chunk
      in if decompressed > decompressed_limit (o_limits opts)
         then Some (stop (snd s) (refuse ARCHIVE_LIMIT_EXCEEDED ''DECOMPRESSED_BYTES''))
         else map_option (map_sum id (\<lambda>p. (decompressed, p))) (feed_loop opts (snd s) chunk))"

definition finish :: "'w parser \<Rightarrow> refusal + unit" where
  "finish p =
     (if p_state p \<noteq> SEnd then Inl (corrupt ''TRUNCATED'')
      else (case tree_finish (p_tree p) of Some e \<Rightarrow> Inl (unsafe e) | None \<Rightarrow> Inr ()))"

text \<open>The stream handing its chunks to \<open>feed\<close> one after the other.\<close>

fun feed_all ::
  "'w parser_opts \<Rightarrow> nat \<times> 'w parser \<Rightarrow> buffer list \<Rightarrow> ('w stopped + nat \<times> 'w parser) option" where
  "feed_all opts s [] = Some (Inr s)"
| "feed_all opts s (c # cs) =
     (case feed opts s c of
        None \<Rightarrow> None
      | Some (Inl e) \<Rightarrow> Some (Inl e)
      | Some (Inr s') \<Rightarrow> feed_all opts s' cs)"

section \<open>Accepted headers, taken apart\<close>

lemma dispatch_InrE:
  assumes "dispatch opts raw kind sz pax p = Inr p'"
  obtains p1 p2 where
    "entry_path raw kind = '''' \<Longrightarrow> raw = ''.'' \<or> raw = ''./''"
    and "companion_check (entry_path raw kind) kind p = Inr p1"
    and "(if has_provenance pax then on_provenance (entry_path raw kind) kind p1 else Inr p1) = Inr p2"
    and "(if is_appledouble_shaped (entry_path raw kind)
          then on_appledouble opts (entry_path raw kind) kind sz (pax \<noteq> None) p2
          else on_plain opts (entry_path raw kind) kind sz p2) = Inr p'"
proof -
  from assms have spelled: "entry_path raw kind = '''' \<Longrightarrow> raw = ''.'' \<or> raw = ''./''"
    by (auto simp: dispatch_def Let_def split: if_splits)
  with assms have "bindE (companion_check (entry_path raw kind) kind p) (\<lambda>p.
      bindE (if has_provenance pax then on_provenance (entry_path raw kind) kind p else Inr p) (\<lambda>p.
      if is_appledouble_shaped (entry_path raw kind)
      then on_appledouble opts (entry_path raw kind) kind sz (pax \<noteq> None) p
      else on_plain opts (entry_path raw kind) kind sz p)) = Inr p'"
    unfolding dispatch_def Let_def by (simp split: if_splits)
  then show thesis by (elim bindE_InrE) (rule that [OF spelled])
qed

lemma on_entry_InrE:
  assumes "on_entry opts posix kind h p = Inr p'"
  obtains raw sz0 base256 sz where
    "raw_name posix h = Inr raw" and "size_field h = Inr (sz0, base256)"
    and "pax_size (p_pax p) raw sz0 base256 = Inr sz"
    and "dispatch opts raw kind sz (p_pax p) (p\<lparr>p_pax := None\<rparr>) = Inr p'"
  using assms unfolding on_entry_def by (elim bindE_InrE) (auto split: prod.splits elim!: bindE_InrE)

end
