(* ===== verification/Tar_Feed.thy ===== *)
theory Tar_Feed
  imports Tar_Parser
begin

text \<open>
  How \<open>feed\<close> uses its chunks. The loop always returns on a well-formed parser, and the state
  after a sequence of chunks is the state after their concatenation: how zlib cuts the stream
  cannot change what is accepted. The second fact needs one law of the caller's sink, the locale
  \<open>byte_sink\<close>: writing two pieces is writing their concatenation.
\<close>

section \<open>Well-formed parser states\<close>

definition state_ok :: "'w parser \<Rightarrow> bool" where
  "state_ok p \<longleftrightarrow>
     (p_state p = SData \<longrightarrow> 0 < p_remaining p) \<and> (p_state p = SPadding \<longrightarrow> 0 < p_padding p)"

definition parser_wf :: "'w parser \<Rightarrow> bool" where
  "parser_wf p \<longleftrightarrow> length (p_header p) < 512 \<and> state_ok p"

text \<open>What every method that handles an entry leaves: the header buffer untouched, a state to go on from.\<close>

definition settles :: "'w parser \<Rightarrow> 'w parser \<Rightarrow> bool" where
  "settles p p' \<longleftrightarrow> p_header p' = p_header p \<and> state_ok p'"

named_theorems settles_rules \<open>the methods that end with a settled state\<close>

lemma end_data_settles [settles_rules]: "end_data opts p = Inr p' \<Longrightarrow> settles p p'"
  by (auto simp: end_data_def end_pax_data_def end_file_data_def settles_def state_ok_def Let_def
      bindE_eq_Inr split: option.splits if_splits)

lemma start_data_settles [settles_rules]: "start_data opts sz p = Inr p' \<Longrightarrow> settles p p'"
  using end_data_settles by (fastforce simp: start_data_def settles_def state_ok_def Let_def split: if_splits)

lemma end_of_archive_settles [settles_rules]: "end_of_archive p = Inr p' \<Longrightarrow> settles p p'"
  by (auto simp: end_of_archive_def settles_def state_ok_def split: if_splits)

lemma on_pax_header_settles [settles_rules]: "on_pax_header opts h p = Inr p' \<Longrightarrow> settles p p'"
  by (auto simp: on_pax_header_def bindE_eq_Inr settles_def dest!: start_data_settles split: if_splits)

lemma on_appledouble_settles [settles_rules]:
  "on_appledouble opts path kind sz had_pax p = Inr p' \<Longrightarrow> settles p p'"
  by (auto simp: on_appledouble_def bindE_eq_Inr settles_def dest!: start_data_settles
      split: if_splits option.splits prod.splits)

lemma on_member_settles [settles_rules]: "on_member opts path sz p = Inr p' \<Longrightarrow> settles p p'"
  by (auto simp: on_member_def bindE_eq_Inr settles_def Let_def dest!: start_data_settles split: if_splits)

lemma on_plain_settles [settles_rules]: "on_plain opts path kind sz p = Inr p' \<Longrightarrow> settles p p'"
  by (auto simp: on_plain_def bindE_eq_Inr settles_def Let_def
      dest!: start_data_settles on_member_settles split: if_splits option.splits prod.splits)

lemma companion_check_header: "companion_check path kind p = Inr p' \<Longrightarrow> p_header p' = p_header p"
  by (auto simp: companion_check_def split: option.splits if_splits)

lemma on_provenance_header: "on_provenance path kind p = Inr p' \<Longrightarrow> p_header p' = p_header p"
  by (auto simp: on_provenance_def split: if_splits)

lemma dispatch_settles [settles_rules]: "dispatch opts raw kind sz pax p = Inr p' \<Longrightarrow> settles p p'"
  by (elim dispatch_InrE) (auto simp: settles_def dest!: on_appledouble_settles on_plain_settles
      companion_check_header on_provenance_header split: if_splits)

lemma on_entry_settles [settles_rules]: "on_entry opts posix kind h p = Inr p' \<Longrightarrow> settles p p'"
  by (elim on_entry_InrE) (auto simp: settles_def dest!: dispatch_settles)

lemma on_header_settles [settles_rules]: "on_header opts h p = Inr p' \<Longrightarrow> settles p p'"
  by (auto simp: on_header_def bindE_eq_Inr settles_def Let_def
      dest!: end_of_archive_settles on_pax_header_settles on_entry_settles
      split: if_splits option.splits)

lemma new_parser_wf: "parser_wf (new_parser w)"
  by (simp add: new_parser_def parser_wf_def state_ok_def)

text \<open>Taking data changes neither the state machine nor its counters.\<close>

lemma take_data_frame:
  "take_data opts part p = Inr p' \<Longrightarrow>
   p_state p' = p_state p \<and> p_header p' = p_header p \<and> p_remaining p' = p_remaining p \<and>
   p_padding p' = p_padding p \<and> p_offset p' = p_offset p"
  by (auto simp: take_data_def bindE_eq_Inr split: option.splits if_splits)

section \<open>The loop returns\<close>

lemma feed_step_wf:
  assumes "parser_wf p" and "chunk \<noteq> []" and "feed_step opts p chunk = Inr (p', rest)"
  shows "parser_wf p' \<and> length rest < length chunk"
proof (cases "p_state p")
  case SHeader
  then show ?thesis using assms
    by (auto simp: feed_step_def Let_def parser_wf_def settles_def state_ok_def bindE_eq_Inr
        dest!: on_header_settles split: if_splits)
next
  case SData
  let ?n = "min (p_remaining p) (length chunk)"
  from assms(3) SData obtain q where q: "take_data opts (take ?n chunk) p = Inr q"
    and rest: "rest = drop ?n chunk"
    and p': "(if p_remaining q - ?n = 0
      then end_data opts (q\<lparr>p_remaining := p_remaining q - ?n, p_offset := p_offset q + ?n\<rparr>)
      else Inr (q\<lparr>p_remaining := p_remaining q - ?n, p_offset := p_offset q + ?n\<rparr>)) = Inr p'"
    unfolding feed_step_def Let_def by (auto elim!: bindE_InrE)
  have "0 < ?n" using assms(1,2) SData by (simp add: parser_wf_def state_ok_def)
  with rest assms(2) have "length rest < length chunk" by (cases chunk) auto
  moreover have "parser_wf p'"
    using p' take_data_frame [OF q] assms(1) SData
    by (auto simp: parser_wf_def state_ok_def settles_def dest!: end_data_settles split: if_splits)
  ultimately show ?thesis by simp
next
  case SPadding
  then show ?thesis using assms
    by (auto simp: feed_step_def Let_def parser_wf_def state_ok_def split: if_splits)
next
  case SEnd
  then show ?thesis using assms
    by (auto simp: feed_step_def parser_wf_def state_ok_def split: if_splits)
qed

lemma feed_loop_Nil [simp]: "feed_loop opts p [] = Some (Inr p)"
  by (simp add: feed_loop.simps)

lemma feed_loop_total:
  assumes "parser_wf p"
  shows "\<exists>r. feed_loop opts p chunk = Some r \<and> (\<forall>p'. r = Inr p' \<longrightarrow> parser_wf p')"
  using assms
proof (induction "length chunk" arbitrary: p chunk rule: less_induct)
  case less
  show ?case
  proof (cases "chunk = []")
    case True
    with less.prems show ?thesis by simp
  next
    case ne: False
    show ?thesis
    proof (cases "feed_step opts p chunk")
      case (Inl e)
      with ne show ?thesis by (simp add: feed_loop.simps)
    next
      case (Inr r)
      obtain p' rest where r: "r = (p', rest)" by (cases r)
      with feed_step_wf [OF less.prems ne] Inr have "parser_wf p'" "length rest < length chunk" by auto
      from less.hyps [OF this(2,1)] show ?thesis using ne Inr r by (simp add: feed_loop.simps [of opts p chunk])
    qed
  qed
qed

section \<open>Chunks do not matter\<close>

text \<open>How many more bytes the current state waits for.\<close>

definition need :: "'w parser \<Rightarrow> nat" where
  "need p = (case p_state p of SHeader \<Rightarrow> 512 - length (p_header p) | SData \<Rightarrow> p_remaining p
             | SPadding \<Rightarrow> p_padding p | SEnd \<Rightarrow> 0)"

text \<open>The end of a data step, once \<open>n\<close> bytes have been taken.\<close>

definition data_done :: "'w parser_opts \<Rightarrow> nat \<Rightarrow> 'w parser \<Rightarrow> 'w stopped + 'w parser" where
  "data_done opts n p =
     (if p_remaining (p\<lparr>p_remaining := p_remaining p - n, p_offset := p_offset p + n\<rparr>) = 0
      then end_data opts (p\<lparr>p_remaining := p_remaining p - n, p_offset := p_offset p + n\<rparr>)
      else Inr (p\<lparr>p_remaining := p_remaining p - n, p_offset := p_offset p + n\<rparr>))"

lemma data_done_counters:
  "data_done opts k (p\<lparr>p_remaining := p_remaining p - m, p_offset := p_offset p + m\<rparr>) =
   data_done opts (m + k) p"
  by (simp add: data_done_def add.assoc)

lemma take_data_counters:
  "take_data opts part (p\<lparr>p_remaining := r, p_offset := f\<rparr>) =
   bindE (take_data opts part p) (\<lambda>q. Inr (q\<lparr>p_remaining := r, p_offset := f\<rparr>))"
  by (cases p) (simp add: take_data_def bindE_assoc split: option.split)

lemma map_sum_Inr:
  assumes "map_sum id g r = Inr x"
  obtains y where "r = Inr y" and "x = g y"
  using assms by (cases r) auto

lemma bindE_map_sum: "map_sum id g (bindE m f) = bindE m (\<lambda>x. map_sum id g (f x))"
  by (cases m) auto

locale byte_sink =
  fixes opts :: "'w parser_opts"
  assumes write_append:
    "o_write opts path (a @ b) w = bindE (o_write opts path a w) (o_write opts path b)"
begin

lemma take_data_append:
  "take_data opts (a @ b) p = bindE (take_data opts a p) (take_data opts b)"
  by (cases "p_pax_chunks p"; cases "p_file p")
     (simp_all add: take_data_def write_append bindE_assoc)

text \<open>A step that completes within the front part leaves the rest of the chunk alone.\<close>

lemma feed_step_complete:
  assumes "p_state p \<noteq> SEnd" and "need p \<le> length a"
  shows "feed_step opts p (a @ b) = map_sum id (\<lambda>(p', rest). (p', rest @ b)) (feed_step opts p a)"
proof (cases "p_state p")
  case SHeader
  let ?n = "512 - length (p_header p)"
  have n: "?n \<le> length a" using assms(2) SHeader by (simp add: need_def)
  then have e: "min ?n (length (a @ b)) = ?n" "min ?n (length a) = ?n" "take ?n (a @ b) = take ?n a"
    "drop ?n (a @ b) = drop ?n a @ b" by simp_all
  then show ?thesis using SHeader by (simp add: feed_step_def Let_def bindE_map_sum)
next
  case SData
  let ?n = "p_remaining p"
  have n: "?n \<le> length a" using assms(2) SData by (simp add: need_def)
  then have e: "min ?n (length (a @ b)) = ?n" "min ?n (length a) = ?n" "take ?n (a @ b) = take ?n a"
    "drop ?n (a @ b) = drop ?n a @ b" by simp_all
  then show ?thesis
    unfolding feed_step_def SData pstate.case Let_def bindE_map_sum e by simp
next
  case SPadding
  let ?n = "p_padding p"
  have n: "?n \<le> length a" using assms(2) SPadding by (simp add: need_def)
  then have "min ?n (length (a @ b)) = ?n" "min ?n (length a) = ?n"
    "drop ?n (a @ b) = drop ?n a @ b" by simp_all
  then show ?thesis using SPadding by (simp add: feed_step_def Let_def)
next
  case SEnd
  with assms(1) show ?thesis by simp
qed

text \<open>A step that needs more than the front part continues on the rest as if never interrupted.\<close>

lemma feed_step_partial:
  assumes st: "p_state p \<noteq> SEnd" and len: "length a < need p" and b: "b \<noteq> []"
  shows "feed_step opts p (a @ b) = bindE (feed_step opts p a) (\<lambda>r. feed_step opts (fst r) b)"
proof (cases "p_state p")
  case SHeader
  let ?r = "512 - length (p_header p)"
  let ?k = "min (?r - length a) (length b)"
  let ?q = "p\<lparr>p_header := p_header p @ a\<rparr>"
  have r: "length a < ?r" using len SHeader by (simp add: need_def)
  have n: "min ?r (length (a @ b)) = length a + ?k" "min ?r (length a) = length a"
    and m: "min (512 - length (p_header ?q)) (length b) = ?k"
    using r by auto
  have parts: "take (length a + ?k) (a @ b) = a @ take ?k b" "drop (length a + ?k) (a @ b) = drop ?k b"
    by simp_all
  have "length (p_header p @ take (length a) a) \<noteq> 512" using r by simp
  then have "feed_step opts p a = Inr (?q, [])"
    unfolding feed_step_def SHeader pstate.case Let_def n(2) by simp
  moreover have st: "p_state ?q = SHeader" using SHeader by simp
  have "feed_step opts ?q b = feed_step opts p (a @ b)"
    unfolding feed_step_def st SHeader pstate.case Let_def n(1) m parts by simp
  ultimately show ?thesis by simp
next
  case SPadding
  let ?r = "p_padding p"
  let ?k = "min (?r - length a) (length b)"
  let ?q = "p\<lparr>p_padding := ?r - length a, p_offset := p_offset p + length a\<rparr>"
  have r: "length a < ?r" using len SPadding by (simp add: need_def)
  have n: "min ?r (length (a @ b)) = length a + ?k" "min ?r (length a) = length a"
    and m: "min (p_padding ?q) (length b) = ?k"
    using r by auto
  have "feed_step opts p a = Inr (?q, [])"
    using r unfolding feed_step_def SPadding pstate.case Let_def n(2) by simp
  moreover have st: "p_state ?q = SPadding" using SPadding by simp
  have "feed_step opts ?q b = feed_step opts p (a @ b)"
    unfolding feed_step_def st SPadding pstate.case Let_def n(1) m by (simp add: add.assoc)
  ultimately show ?thesis by simp
next
  case SData
  let ?r = "p_remaining p" and ?k = "min (p_remaining p - length a) (length b)"
  have r: "length a < ?r" using len SData by (simp add: need_def)
  have n: "min ?r (length (a @ b)) = length a + ?k" "min ?r (length a) = length a"
    using r by auto
  have parts: "take (length a + ?k) (a @ b) = a @ take ?k b" "drop (length a + ?k) (a @ b) = drop ?k b"
    by simp_all
  have split: "take_data opts (a @ take ?k b) p = bindE (take_data opts a p) (take_data opts (take ?k b))"
    by (rule take_data_append)
  have lhs: "feed_step opts p (a @ b) =
      bindE (take_data opts a p) (\<lambda>q. bindE (take_data opts (take ?k b) q) (\<lambda>q.
        bindE (data_done opts (length a + ?k) q) (\<lambda>q. Inr (q, drop ?k b))))"
    unfolding feed_step_def SData pstate.case Let_def n(1) parts split bindE_assoc data_done_def ..
  have rhs: "feed_step opts p a = bindE (take_data opts a p) (\<lambda>q.
      Inr (q\<lparr>p_remaining := p_remaining q - length a, p_offset := p_offset q + length a\<rparr>, []))"
  proof (cases "take_data opts a p")
    case (Inl e)
    then show ?thesis by (simp add: feed_step_def SData Let_def n(2))
  next
    case (Inr q)
    with take_data_frame [OF Inr] r show ?thesis by (simp add: feed_step_def SData Let_def n(2))
  qed
  show ?thesis
  proof (cases "take_data opts a p")
    case (Inl e)
    then show ?thesis unfolding lhs rhs by simp
  next
    case (Inr q)
    note q = take_data_frame [OF Inr]
    let ?q = "q\<lparr>p_remaining := p_remaining q - length a, p_offset := p_offset q + length a\<rparr>"
    have st: "p_state ?q = SData" "min (p_remaining ?q) (length b) = ?k" using q SData by simp_all
    have "feed_step opts ?q b = bindE (take_data opts (take ?k b) ?q) (\<lambda>q.
        bindE (data_done opts ?k q) (\<lambda>q. Inr (q, drop ?k b)))"
      unfolding feed_step_def st pstate.case Let_def data_done_def ..
    also have "\<dots> = bindE (take_data opts (take ?k b) q) (\<lambda>q.
        bindE (data_done opts (length a + ?k) q) (\<lambda>q. Inr (q, drop ?k b)))"
    proof (cases "take_data opts (take ?k b) q")
      case (Inl e)
      then show ?thesis by (simp add: take_data_counters)
    next
      case (Inr u)
      with take_data_frame [OF Inr] show ?thesis
        using data_done_counters [of opts ?k u "length a"] by (simp add: take_data_counters)
    qed
    finally show ?thesis unfolding lhs rhs Inr bindE_Inr fst_conv ..
  qed
next
  case SEnd
  with st show ?thesis by simp
qed

lemma feed_step_partial_rest:
  assumes "p_state p \<noteq> SEnd" and "length a < need p" and "feed_step opts p a = Inr r"
  shows "snd r = []"
  using assms
  by (cases "p_state p")
     (auto simp: feed_step_def need_def Let_def min_def elim!: bindE_InrE split: if_splits)

text \<open>The loop over two pieces is the loop over the first, then over the second.\<close>

lemma feed_loop_step:
  "chunk \<noteq> [] \<Longrightarrow> feed_loop opts p chunk =
     (case feed_step opts p chunk of Inl e \<Rightarrow> Some (Inl e) | Inr r \<Rightarrow> feed_loop opts (fst r) (snd r))"
  by (subst feed_loop.simps) simp

lemma feed_loop_append:
  assumes "parser_wf p"
  shows "feed_loop opts p (a @ b) =
    (case feed_loop opts p a of
       Some (Inr q) \<Rightarrow> feed_loop opts q b | r \<Rightarrow> r)"
  using assms
proof (induction "length a" arbitrary: p a rule: less_induct)
  case less
  show ?case
  proof (cases "a = [] \<or> b = []")
    case True
    then show ?thesis using feed_loop_total [OF less.prems, of opts a] by (auto split: sum.split)
  next
    case False
    then have ne: "a \<noteq> []" "b \<noteq> []" "a @ b \<noteq> []" by auto
    consider (fin) "p_state p = SEnd" | (full) "p_state p \<noteq> SEnd" "need p \<le> length a"
      | (part) "p_state p \<noteq> SEnd" "length a < need p" by linarith
    then show ?thesis
    proof cases
      case fin
      then show ?thesis using ne
        by (auto simp: feed_loop_step feed_step_def add.assoc)
    next
      case full
      show ?thesis
      proof (cases "feed_step opts p a")
        case (Inl e)
        with feed_step_complete [OF full, of b] show ?thesis by (simp add: feed_loop_step ne)
      next
        case (Inr r)
        obtain q rest where r: "r = (q, rest)" by (cases r)
        with Inr feed_step_wf [OF less.prems ne(1)] have q: "parser_wf q" "length rest < length a" by auto
        with feed_step_complete [OF full, of b] Inr r less.hyps [OF q(2,1)]
        show ?thesis by (simp add: feed_loop_step ne)
      qed
    next
      case part
      show ?thesis
      proof (cases "feed_step opts p a")
        case (Inl e)
        with feed_step_partial [OF part ne(2)] show ?thesis by (simp add: feed_loop_step ne)
      next
        case (Inr r)
        have "snd r = []" by (rule feed_step_partial_rest [OF part Inr])
        with feed_step_partial [OF part ne(2)] Inr show ?thesis by (simp add: feed_loop_step ne)
      qed
    qed
  qed
qed

lemma feed_all_total:
  assumes "parser_wf (snd s)" and "fst s + length (concat cs) \<le> decompressed_limit (o_limits opts)"
  shows "feed_all opts s cs =
    map_option (map_sum id (\<lambda>p. (fst s + length (concat cs), p))) (feed_loop opts (snd s) (concat cs))"
  using assms
proof (induction cs arbitrary: s)
  case Nil
  then show ?case by (cases s) simp
next
  case (Cons c cs)
  obtain r where r: "feed_loop opts (snd s) c = Some r" "\<forall>p'. r = Inr p' \<longrightarrow> parser_wf p'"
    using feed_loop_total [OF Cons.prems(1)] by blast
  show ?case
  proof (cases r)
    case (Inl e)
    with r Cons.prems show ?thesis by (simp add: feed_def feed_loop_append)
  next
    case (Inr q)
    with r have "parser_wf q" by simp
    with Cons.IH [of "(fst s + length c, q)"] Cons.prems Inr r show ?thesis
      by (simp add: feed_def feed_loop_append add.assoc)
  qed
qed

lemma feed_all_within_limit:
  "feed_all opts s cs = Some (Inr s') \<Longrightarrow> fst s \<le> decompressed_limit (o_limits opts) \<Longrightarrow>
   fst s' = fst s + length (concat cs) \<and> fst s' \<le> decompressed_limit (o_limits opts)"
proof (induction cs arbitrary: s)
  case (Cons c cs)
  from Cons.prems(1) obtain t where t: "feed opts s c = Some (Inr t)" "feed_all opts t cs = Some (Inr s')"
    by (auto split: option.splits sum.splits)
  then have "fst t = fst s + length c" "fst t \<le> decompressed_limit (o_limits opts)"
    by (auto simp: feed_def Let_def elim!: map_sum_Inr split: if_splits)
  with Cons.IH [OF t(2)] show ?case by simp
qed simp

lemma feed_all_accepts:
  assumes "parser_wf p"
  shows "feed_all opts (0, p) cs = Some (Inr s) \<longleftrightarrow>
    length (concat cs) \<le> decompressed_limit (o_limits opts) \<and>
    (\<exists>q. feed_loop opts p (concat cs) = Some (Inr q) \<and> s = (length (concat cs), q))"
proof
  assume ok: "feed_all opts (0, p) cs = Some (Inr s)"
  then have "length (concat cs) \<le> decompressed_limit (o_limits opts)"
    using feed_all_within_limit by fastforce
  with ok feed_all_total [of "(0, p)" cs] assms show
    "length (concat cs) \<le> decompressed_limit (o_limits opts) \<and>
     (\<exists>q. feed_loop opts p (concat cs) = Some (Inr q) \<and> s = (length (concat cs), q))"
    by (auto elim!: map_sum_Inr)
next
  assume "length (concat cs) \<le> decompressed_limit (o_limits opts) \<and>
    (\<exists>q. feed_loop opts p (concat cs) = Some (Inr q) \<and> s = (length (concat cs), q))"
  with feed_all_total [of "(0, p)" cs] assms show "feed_all opts (0, p) cs = Some (Inr s)" by auto
qed

text \<open>Two ways of cutting one stream are accepted alike, with the same state.\<close>

lemma chunking_irrelevant:
  assumes "concat cs = concat ds"
  shows "feed_all opts (0, new_parser w) cs = Some (Inr s) \<longleftrightarrow>
         feed_all opts (0, new_parser w) ds = Some (Inr s)"
  unfolding feed_all_accepts [OF new_parser_wf] assms ..

end

section \<open>Scanning without a sink\<close>

text \<open>The options of \<open>inspectArchive\<close>: no \<open>openFile\<close> and no \<open>onDirectory\<close>.\<close>

definition scan_opts ::
  "limits \<Rightarrow> (buffer \<Rightarrow> string) \<Rightarrow> (string \<rightharpoonup> nat) option \<Rightarrow> (string \<rightharpoonup> body) option \<Rightarrow> unit parser_opts" where
  "scan_opts l sha want want_metadata =
     \<lparr>o_limits = l, o_sha256 = sha, o_expect = want, o_expect_metadata = want_metadata,
      o_open = (\<lambda>_ _ w. Inr w), o_write = (\<lambda>_ _ w. Inr w), o_close = (\<lambda>_ w. Inr w),
      o_directory = (\<lambda>_ w. Inr w)\<rparr>"

interpretation scan: byte_sink "scan_opts l sha want want_metadata" for l sha want want_metadata
  by unfold_locales (simp add: scan_opts_def)

section \<open>Properties\<close>

lemma feed_all_ends:
  "parser_wf (snd s) \<Longrightarrow> \<exists>r. feed_all opts s cs = Some r"
proof (induction cs arbitrary: s)
  case (Cons c cs)
  obtain r where r: "feed_loop opts (snd s) c = Some r" "\<forall>p'. r = Inr p' \<longrightarrow> parser_wf p'"
    using feed_loop_total [OF Cons.prems] by blast
  with Cons.IH show ?case
    by (cases r) (auto simp: feed_def Let_def)
qed simp

text \<open>C13: TarParser.feed always returns: whatever chunks of whatever bytes are fed to a new parser,
  under whatever limits, record and sinks, the loop over each chunk ends, in a refusal or in a state.\<close>

theorem feed_returns: "\<exists>r. feed_all opts (0, new_parser w) cs = Some r"
  by (rule feed_all_ends) (simp add: new_parser_wf)

text \<open>C12: How the decompressor cuts the stream into chunks changes nothing: two sequences of chunks with
  the same bytes are accepted alike, and leave the parser in the same state.\<close>

theorem chunks_irrelevant:
  assumes "concat cs = concat ds"
  shows "feed_all (scan_opts l sha want want_metadata) (0, new_parser ()) cs = Some (Inr s) \<longleftrightarrow>
         feed_all (scan_opts l sha want want_metadata) (0, new_parser ()) ds = Some (Inr s)"
  using assms by (rule scan.chunking_irrelevant)

theorem chunks_irrelevant_witness:
  "\<forall>s. feed_all (scan_opts default_limits (\<lambda>_. ''00'') None None) (0, new_parser ()) [''ab'', ''c''] = Some (Inr s) \<longleftrightarrow>
   feed_all (scan_opts default_limits (\<lambda>_. ''00'') None None) (0, new_parser ()) [''a'', [], ''bc''] = Some (Inr s)"
  by (intro allI chunks_irrelevant) simp


end
