(* ===== verification/Tar_Accept.thy ===== *)
theory Tar_Accept
  imports Tar_Feed
begin

text \<open>
  What a parser that has refused nothing so far has accepted: an invariant of \<open>TarParser\<close>'s
  state, kept by every method, and its reading at the end of the stream.
\<close>

section \<open>The invariant\<close>

text \<open>The entries accepted so far, the open file included, as a multiset of (path, kind).\<close>

definition file_entries :: "scanned_member list \<Rightarrow> (string \<times> entry_kind) list" where
  "file_entries ms = map (\<lambda>m. (m_path m, File)) ms"

definition open_entries :: "file_state option \<Rightarrow> (string \<times> entry_kind) list" where
  "open_entries f = (case f of None \<Rightarrow> [] | Some f \<Rightarrow> [(f_path f, File)])"

definition parser_entries :: "'w parser \<Rightarrow> (string \<times> entry_kind) multiset" where
  "parser_entries p =
     mset (file_entries (p_members p) @ file_entries (p_metadata p) @
           map (\<lambda>d. (d, Directory)) (p_directories p) @ open_entries (p_file p))"

text \<open>A digest of some data of the recorded length.\<close>

definition digest_of :: "(buffer \<Rightarrow> string) \<Rightarrow> nat \<Rightarrow> string \<Rightarrow> bool" where
  "digest_of sha n s \<longleftrightarrow> (\<exists>d. length d = n \<and> s = sha d)"

definition expected :: "'w parser_opts \<Rightarrow> string \<Rightarrow> nat \<Rightarrow> bool" where
  "expected opts path n \<longleftrightarrow>
     (case o_expect opts of None \<Rightarrow> True | Some want \<Rightarrow> want path = Some n)"

definition plain_path :: "string \<Rightarrow> bool" where
  "plain_path path \<longleftrightarrow> member_path_error path = None \<and> \<not> is_appledouble_shaped path"

definition member_ok :: "'w parser_opts \<Rightarrow> scanned_member \<Rightarrow> bool" where
  "member_ok opts m \<longleftrightarrow>
     plain_path (m_path m) \<and> expected opts (m_path m) (m_bytes m) \<and>
     digest_of (o_sha256 opts) (m_bytes m) (m_sha256 m)"

text \<open>The bodies an AppleDouble path may have: the record's one, else the policy's.\<close>

definition allowed_bodies :: "'w parser_opts \<Rightarrow> string \<Rightarrow> body list" where
  "allowed_bodies opts path =
     (case o_expect_metadata opts of
        None \<Rightarrow> appledouble_bodies
      | Some want \<Rightarrow> (case want path of None \<Rightarrow> [] | Some w \<Rightarrow> [w]))"

definition metadata_ok :: "'w parser_opts \<Rightarrow> scanned_member \<Rightarrow> bool" where
  "metadata_ok opts m \<longleftrightarrow>
     m_path m \<in> set appledouble_paths \<and>
     (m_bytes m, m_sha256 m) \<in> set (allowed_bodies opts (m_path m)) \<and>
     digest_of (o_sha256 opts) (m_bytes m) (m_sha256 m)"

definition file_ok :: "'w parser_opts \<Rightarrow> file_state \<Rightarrow> bool" where
  "file_ok opts f \<longleftrightarrow>
     (case f_bodies f of
        None \<Rightarrow> f_sink f \<and> plain_path (f_path f) \<and> expected opts (f_path f) (f_bytes f)
      | Some bodies \<Rightarrow>
          \<not> f_sink f \<and> f_path f \<in> set appledouble_paths \<and>
          bodies = allowed_bodies opts (f_path f) \<and> (\<exists>b \<in> set bodies. fst b = f_bytes f))"

definition open_bytes :: "file_state option \<Rightarrow> nat" where
  "open_bytes f = (case f of None \<Rightarrow> 0 | Some f \<Rightarrow> if f_bodies f = None then f_bytes f else 0)"

text \<open>The tree stands for exactly these entries.\<close>

definition tree_holds :: "member_tree \<Rightarrow> (string \<times> entry_kind) multiset \<Rightarrow> bool" where
  "tree_holds t es \<longleftrightarrow> (\<exists>fs. tree_rep t fs \<and> mset fs = es)"

definition provenance_ok :: "string list \<Rightarrow> bool" where
  "provenance_ok ps \<longleftrightarrow> distinct ps \<and> set ps \<subseteq> fst ` set provenance_entries"

definition entries_inv :: "'w parser_opts \<Rightarrow> 'w parser \<Rightarrow> bool" where
  "entries_inv opts p \<longleftrightarrow>
     tree_holds (p_tree p) (parser_entries p) \<and>
     (\<forall>m \<in> set (p_members p). member_ok opts m) \<and>
     (\<forall>m \<in> set (p_metadata p). metadata_ok opts m) \<and>
     (\<forall>d \<in> set (p_directories p). plain_path d) \<and>
     (\<forall>f. p_file p = Some f \<longrightarrow> file_ok opts f) \<and>
     p_file_bytes p = sum_list (map m_bytes (p_members p)) + open_bytes (p_file p) \<and>
     p_file_bytes p \<le> max_total_bytes (o_limits opts) \<and>
     provenance_ok (p_provenance p) \<and>
     (p_pax_chunks p \<noteq> None \<longrightarrow> p_file p = None)"

text \<open>The state machine's part: data is read exactly when a PAX header or a file waits for it.\<close>

definition data_inv :: "'w parser \<Rightarrow> bool" where
  "data_inv p \<longleftrightarrow>
     (if p_state p = SData
      then p_pax_chunks p = None \<longrightarrow>
             (\<exists>f. p_file p = Some f \<and> length (f_data f) + p_remaining p = f_bytes f)
      else p_pax_chunks p = None \<and> p_file p = None)"

definition parser_inv :: "'w parser_opts \<Rightarrow> 'w parser \<Rightarrow> bool" where
  "parser_inv opts p \<longleftrightarrow> entries_inv opts p \<and> data_inv p \<and> p_entries p \<le> max_entries (o_limits opts)"

lemma tree_rep_mset: "tree_rep t es \<Longrightarrow> mset es = mset fs \<Longrightarrow> tree_rep t fs"
proof -
  assume rep: "tree_rep t es" and eq: "mset es = mset fs"
  have s: "set es = set fs" using eq by (rule mset_eq_setD)
  then have "claims es = claims fs" by (simp add: claims_def)
  moreover have "distinct (map fst es) \<longleftrightarrow> distinct (map fst fs)"
    using eq by (intro mset_eq_imp_distinct_iff) simp
  ultimately show ?thesis using rep unfolding tree_rep_def s by blast
qed

lemma tree_holds_mset: "tree_holds t (mset fs) \<longleftrightarrow> tree_rep t fs"
  unfolding tree_holds_def using tree_rep_mset by blast

lemma tree_holds_add:
  assumes "tree_holds t es" and "tree_add path kind t = (None, t')"
  shows "tree_holds t' (add_mset (path, kind) es)"
proof -
  from assms(1) obtain fs where "tree_rep t fs" "mset fs = es" by (auto simp: tree_holds_def)
  moreover from this assms(2) have "tree_rep t' (fs @ [(path, kind)])"
    using tree_add_rep [of t fs path kind] by simp
  ultimately show ?thesis unfolding tree_holds_def by (intro exI [of _ "fs @ [(path, kind)]"]) simp
qed

lemma new_parser_inv: "parser_inv opts (new_parser w)"
  by (auto simp: parser_inv_def entries_inv_def data_inv_def new_parser_def parser_entries_def
      file_entries_def open_entries_def open_bytes_def tree_holds_def tree_rep_Nil provenance_ok_def)

section \<open>Every method keeps it\<close>

text \<open>The end of an entry's data, with all of it read.\<close>

lemma end_file_data_inv:
  assumes inv: "entries_inv opts p" and f: "p_file p = Some f" "p_pax_chunks p = None"
    and all: "length (f_data f) = f_bytes f" and ok: "end_file_data opts f p = Inr p'"
  shows "entries_inv opts p' \<and> p_file p' = None \<and> p_pax_chunks p' = None \<and>
    p_entries p' = p_entries p \<and> p_padding p' = p_padding p"
proof -
  let ?sha = "o_sha256 opts (f_data f)"
  let ?m = "\<lparr>m_path = f_path f, m_bytes = f_bytes f, m_sha256 = ?sha\<rparr>"
  have dig: "digest_of (o_sha256 opts) (f_bytes f) ?sha"
    using all by (auto simp: digest_of_def)
  have fok: "file_ok opts f" using inv f by (simp add: entries_inv_def)
  show ?thesis
  proof (cases "f_bodies f")
    case None
    with fok dig have m: "member_ok opts ?m" by (simp add: file_ok_def member_ok_def)
    from None ok obtain w where p': "p' = p\<lparr>p_file := None, p_world := w, p_members := p_members p @ [?m]\<rparr>"
      by (auto simp: end_file_data_def Let_def elim!: bindE_InrE)
    show ?thesis
      using inv f None m unfolding p'
      by (auto simp: entries_inv_def parser_entries_def file_entries_def open_entries_def open_bytes_def)
  next
    case (Some bodies)
    with fok obtain b where b: "b \<in> set bodies" "fst b = f_bytes f" "bodies = allowed_bodies opts (f_path f)"
      "f_path f \<in> set appledouble_paths" by (auto simp: file_ok_def)
    from Some ok obtain c where c: "c \<in> set bodies" "snd c = ?sha"
      and p': "p' = p\<lparr>p_file := None, p_metadata := p_metadata p @ [?m]\<rparr>"
      by (auto simp: end_file_data_def Let_def list_ex_iff split: if_splits)
    have "b = c"
      using b c(1) by (auto simp: allowed_bodies_def appledouble_bodies_def split: option.splits)
    with b c dig have m: "metadata_ok opts ?m"
      unfolding metadata_ok_def by (metis prod.collapse scanned_member.select_convs)
    show ?thesis
      using inv f Some m unfolding p'
      by (auto simp: entries_inv_def parser_entries_def file_entries_def open_entries_def open_bytes_def)
  qed
qed

lemma end_data_inv:
  assumes inv: "entries_inv opts p" and lim: "p_entries p \<le> max_entries (o_limits opts)"
    and all: "p_pax_chunks p = None \<Longrightarrow> p_file p = Some f \<Longrightarrow> length (f_data f) = f_bytes f"
    and ok: "end_data opts p = Inr p'"
    and f: "\<And>g. p_file p = Some g \<Longrightarrow> g = f"
  shows "parser_inv opts p'"
proof -
  from ok obtain q where q: "(case p_pax_chunks p of Some d \<Rightarrow> end_pax_data d p
      | None \<Rightarrow> (case p_file p of Some f \<Rightarrow> end_file_data opts f p | None \<Rightarrow> Inr p)) = Inr q"
    and p': "p' = q\<lparr>p_state := if p_padding q = 0 then SHeader else SPadding\<rparr>"
    unfolding end_data_def by (auto elim!: bindE_InrE)
  have "entries_inv opts q \<and> p_file q = None \<and> p_pax_chunks q = None \<and> p_entries q = p_entries p"
  proof (cases "p_pax_chunks p")
    case (Some d)
    with q inv show ?thesis
      by (auto simp: end_pax_data_def entries_inv_def parser_entries_def elim!: bindE_InrE split: if_splits)
  next
    case None
    show ?thesis
    proof (cases "p_file p")
      case None
      with \<open>p_pax_chunks p = None\<close> q inv show ?thesis by simp
    next
      case (Some g)
      with f all \<open>p_pax_chunks p = None\<close> q inv show ?thesis
        using end_file_data_inv [OF inv Some] by auto
    qed
  qed
  then show ?thesis unfolding p' using lim
    by (auto simp: parser_inv_def entries_inv_def data_inv_def parser_entries_def)
qed

definition within_entries :: "'w parser_opts \<Rightarrow> 'w parser \<Rightarrow> bool" where
  "within_entries opts p \<longleftrightarrow> p_entries p \<le> max_entries (o_limits opts)"

definition idle :: "'w parser \<Rightarrow> bool" where
  "idle p \<longleftrightarrow> p_pax_chunks p = None \<and> p_file p = None"

text \<open>Starting an entry's data: a file starts empty, at its declared length.\<close>

lemma start_data_inv:
  assumes inv: "entries_inv opts p" and lim: "within_entries opts p"
    and opened: "p_pax_chunks p = None \<Longrightarrow>
      (case p_file p of None \<Rightarrow> sz = 0 | Some f \<Rightarrow> f_data f = [] \<and> f_bytes f = sz)"
    and ok: "start_data opts sz p = Inr p'"
  shows "parser_inv opts p'"
proof -
  let ?q = "p\<lparr>p_remaining := sz, p_padding := (512 - sz mod 512) mod 512\<rparr>"
  have q: "entries_inv opts ?q" using inv by (simp add: entries_inv_def parser_entries_def)
  show ?thesis
  proof (cases "sz = 0")
    case True
    with ok have "end_data opts ?q = Inr p'" by (simp add: start_data_def)
    with q lim opened True show ?thesis
      by (intro end_data_inv [of opts ?q "the (p_file p)"]) (auto simp: within_entries_def split: option.splits)
  next
    case False
    with ok have p': "p' = ?q\<lparr>p_state := SData\<rparr>" by (simp add: start_data_def Let_def)
    have "data_inv p'" using opened False unfolding p'
      by (cases "p_pax_chunks p"; cases "p_file p") (auto simp: data_inv_def)
    with q lim show ?thesis unfolding p'
      by (simp add: parser_inv_def entries_inv_def parser_entries_def within_entries_def)
  qed
qed

lemma on_pax_header_inv:
  assumes "entries_inv opts p" and "within_entries opts p" and "idle p"
    and "on_pax_header opts h p = Inr p'"
  shows "parser_inv opts p'"
proof -
  from assms(4) obtain sz b where sz: "size_field h = Inr (sz, b)"
    and p': "start_data opts sz (p\<lparr>p_pax_chunks := Some [], p_pax := Some []\<rparr>) = Inr p'"
    by (auto simp: on_pax_header_def elim!: bindE_InrE split: if_splits)
  show ?thesis
    by (rule start_data_inv [OF _ _ _ p'])
       (use assms in \<open>auto simp: entries_inv_def parser_entries_def within_entries_def idle_def\<close>)
qed

lemma on_appledouble_inv:
  assumes inv: "entries_inv opts p" and lim: "within_entries opts p" and idle: "idle p"
    and ok: "on_appledouble opts path kind sz had_pax p = Inr p'"
  shows "parser_inv opts p'"
proof -
  from ok obtain c t where c: "appledouble_companion path = Some c" and t: "tree_add path File (p_tree p) = (None, t)"
    and rest: "bindE (during p (case o_expect_metadata opts of
                        None \<Rightarrow> Inr appledouble_bodies
                      | Some want \<Rightarrow> (case want path of
                          None \<Rightarrow> Inl (refuse ARCHIVE_MEMBER_MISMATCH ''UNEXPECTED_METADATA'')
                        | Some w \<Rightarrow> Inr [w]))) (\<lambda>bodies.
               if \<not> list_ex (\<lambda>b. fst b = sz) bodies
               then stop p (unsafe ''APPLEDOUBLE_UNEXPECTED_BODY'')
               else start_data opts sz
                 (p\<lparr>p_tree := t, p_companion := Some c,
                    p_file := Some \<lparr>f_path = path, f_bytes = sz, f_data = [], f_sink = False,
                                    f_bodies = Some bodies\<rparr>\<rparr>)) = Inr p'"
    unfolding on_appledouble_def by (auto split: option.splits if_splits prod.splits)
  let ?f = "\<lparr>f_path = path, f_bytes = sz, f_data = [], f_sink = False,
             f_bodies = Some (allowed_bodies opts path)\<rparr>"
  from rest have b: "list_ex (\<lambda>b. fst b = sz) (allowed_bodies opts path)"
    and start: "start_data opts sz (p\<lparr>p_tree := t, p_companion := Some c, p_file := Some ?f\<rparr>) = Inr p'"
    by (auto simp: allowed_bodies_def elim!: bindE_InrE split: option.splits if_splits)
  have "path \<in> set appledouble_paths" using c appledouble_companion_Some by blast
  with b have f: "file_ok opts ?f" by (auto simp: file_ok_def list_ex_iff)
  have tree: "tree_holds t (add_mset (path, File) (parser_entries p))"
    using inv t tree_holds_add by (auto simp: entries_inv_def)
  show ?thesis
    by (rule start_data_inv [OF _ _ _ start])
       (use inv lim idle f tree in \<open>auto simp: entries_inv_def parser_entries_def within_entries_def idle_def
          open_entries_def open_bytes_def\<close>)
qed

lemma on_member_inv:
  assumes inv: "entries_inv opts p" and lim: "within_entries opts p" and idle: "idle p"
    and path: "plain_path path" and t: "tree_add path File (p_tree p) = (None, t)"
    and ok: "on_member opts path sz (p\<lparr>p_tree := t\<rparr>) = Inr p'"
  shows "parser_inv opts p'"
proof -
  let ?f = "\<lparr>f_path = path, f_bytes = sz, f_data = [], f_sink = True, f_bodies = None\<rparr>"
  from ok obtain w where e: "expected opts path sz" and total: "p_file_bytes p + sz \<le> max_total_bytes (o_limits opts)"
    and start: "start_data opts sz (p\<lparr>p_tree := t, p_file_bytes := p_file_bytes p + sz, p_world := w,
                  p_file := Some ?f\<rparr>) = Inr p'"
    by (auto simp: on_member_def Let_def expected_def elim!: bindE_InrE split: option.splits if_splits)
  have tree: "tree_holds t (add_mset (path, File) (parser_entries p))"
    using inv t tree_holds_add by (auto simp: entries_inv_def)
  show ?thesis
    by (rule start_data_inv [OF _ _ _ start])
       (use inv lim idle path e total tree in \<open>auto simp: entries_inv_def parser_entries_def within_entries_def
          idle_def open_entries_def open_bytes_def file_ok_def\<close>)
qed

lemma on_plain_inv:
  assumes inv: "entries_inv opts p" and lim: "within_entries opts p" and idle: "idle p"
    and shape: "\<not> is_appledouble_shaped path" and ok: "on_plain opts path kind sz p = Inr p'"
  shows "parser_inv opts p'"
proof -
  consider (root) "start_data opts 0 p = Inr p'"
    | (dir) t w where "plain_path path" "tree_add path Directory (p_tree p) = (None, t)"
        "start_data opts 0 (p\<lparr>p_tree := t, p_directories := p_directories p @ [path], p_world := w\<rparr>) = Inr p'"
    | (member) t where "plain_path path" "tree_add path File (p_tree p) = (None, t)"
        "on_member opts path sz (p\<lparr>p_tree := t\<rparr>) = Inr p'"
    using ok shape unfolding on_plain_def Let_def plain_path_def
    by (cases kind) (auto elim!: bindE_InrE split: if_splits option.splits prod.splits)
  then show ?thesis
  proof cases
    case root
    show ?thesis by (rule start_data_inv [OF inv lim _ root]) (use idle in \<open>simp add: idle_def\<close>)
  next
    case dir
    have tree: "tree_holds t (add_mset (path, Directory) (parser_entries p))"
      using inv dir(2) tree_holds_add by (auto simp: entries_inv_def)
    show ?thesis
      by (rule start_data_inv [OF _ _ _ dir(3)])
         (use inv lim idle dir(1) tree in \<open>auto simp: entries_inv_def parser_entries_def within_entries_def idle_def\<close>)
  next
    case member
    show ?thesis by (rule on_member_inv [OF inv lim idle member])
  qed
qed

text \<open>The invariant of the entries reads none of the state machine's own fields.\<close>

lemma entries_inv_frame [simp]:
  "entries_inv opts (p\<lparr>p_state := s\<rparr>) = entries_inv opts p"
  "entries_inv opts (p\<lparr>p_offset := n\<rparr>) = entries_inv opts p"
  "entries_inv opts (p\<lparr>p_header := h\<rparr>) = entries_inv opts p"
  "entries_inv opts (p\<lparr>p_remaining := n\<rparr>) = entries_inv opts p"
  "entries_inv opts (p\<lparr>p_padding := n\<rparr>) = entries_inv opts p"
  "entries_inv opts (p\<lparr>p_entries := n\<rparr>) = entries_inv opts p"
  "entries_inv opts (p\<lparr>p_pax := m\<rparr>) = entries_inv opts p"
  "entries_inv opts (p\<lparr>p_companion := c\<rparr>) = entries_inv opts p"
  "entries_inv opts (p\<lparr>p_world := w\<rparr>) = entries_inv opts p"
  by (simp_all add: entries_inv_def parser_entries_def)

lemma entries_inv_provenance:
  assumes "entries_inv opts p" and "provenance_ok ps"
  shows "entries_inv opts (p\<lparr>p_provenance := ps\<rparr>)"
  using assms unfolding entries_inv_def parser_entries_def by simp

lemma entries_inv_pax_chunks:
  assumes "entries_inv opts p" and "p_pax_chunks p \<noteq> None"
  shows "entries_inv opts (p\<lparr>p_pax_chunks := c\<rparr>)"
proof -
  have "p_file p = None" using assms by (simp add: entries_inv_def)
  with assms show ?thesis unfolding entries_inv_def parser_entries_def by simp
qed

definition ready :: "'w parser_opts \<Rightarrow> 'w parser \<Rightarrow> bool" where
  "ready opts p \<longleftrightarrow> entries_inv opts p \<and> within_entries opts p \<and> idle p"

lemma companion_check_ready:
  "ready opts p \<Longrightarrow> companion_check path kind p = Inr p' \<Longrightarrow> ready opts p'"
  by (auto simp: companion_check_def ready_def within_entries_def idle_def
      split: option.splits if_splits)

lemma on_provenance_ready:
  assumes "ready opts p" and "on_provenance path kind p = Inr p'"
  shows "ready opts p'"
proof -
  from assms(2) have p': "p' = p\<lparr>p_provenance := p_provenance p @ [path]\<rparr>"
    and new: "path \<notin> set (p_provenance p)" "(path, kind) \<in> set provenance_entries"
    by (auto simp: on_provenance_def split: if_splits)
  then have "path \<in> fst ` set provenance_entries" by force
  with new assms(1) have "provenance_ok (p_provenance p @ [path])"
    by (simp add: ready_def entries_inv_def provenance_ok_def)
  with assms(1) show ?thesis unfolding p'
    by (simp add: ready_def within_entries_def idle_def entries_inv_provenance)
qed

lemma dispatch_inv:
  assumes "ready opts p" and "dispatch opts raw kind sz pax p = Inr p'"
  shows "parser_inv opts p'"
  using assms(2)
proof (cases rule: dispatch_InrE)
  case (1 p1 p2)
  have "ready opts p1" by (rule companion_check_ready [OF assms(1) 1(2)])
  with 1(3) have p2: "ready opts p2" by (auto dest: on_provenance_ready split: if_splits)
  show ?thesis
  proof (cases "is_appledouble_shaped (entry_path raw kind)")
    case True
    with 1(4) p2 show ?thesis unfolding ready_def by (auto dest: on_appledouble_inv)
  next
    case False
    with 1(4) have "on_plain opts (entry_path raw kind) kind sz p2 = Inr p'" by simp
    with p2 show ?thesis unfolding ready_def by (blast intro: on_plain_inv [OF _ _ _ False])
  qed
qed

lemma on_entry_inv:
  assumes "ready opts p" and "on_entry opts posix kind h p = Inr p'"
  shows "parser_inv opts p'"
  using assms(2)
proof (cases rule: on_entry_InrE)
  case (1 raw sz0 base256 sz)
  have "ready opts (p\<lparr>p_pax := None\<rparr>)"
    using assms(1) by (simp add: ready_def within_entries_def idle_def)
  from dispatch_inv [OF this 1(4)] show ?thesis .
qed

lemma end_of_archive_inv:
  "ready opts p \<Longrightarrow> end_of_archive p = Inr p' \<Longrightarrow> parser_inv opts p'"
  by (auto simp: end_of_archive_def parser_inv_def ready_def data_inv_def
      within_entries_def idle_def split: if_splits)

lemma on_header_cases:
  assumes "on_header opts h p = Inr p'"
  obtains (zero) "list_all (\<lambda>b. b = NUL) h" "end_of_archive p = Inr p'"
  | (pax) "Suc (p_entries p) \<le> max_entries (o_limits opts)"
      "on_pax_header opts h (p\<lparr>p_entries := Suc (p_entries p)\<rparr>) = Inr p'"
  | (entry) posix kind where "Suc (p_entries p) \<le> max_entries (o_limits opts)"
      "on_entry opts posix kind h (p\<lparr>p_entries := Suc (p_entries p)\<rparr>) = Inr p'"
  using assms unfolding on_header_def Let_def
  by (auto elim!: bindE_InrE split: if_splits option.splits)

lemma on_header_inv:
  assumes "entries_inv opts p" and "idle p" and "within_entries opts p" and "on_header opts h p = Inr p'"
  shows "parser_inv opts p'"
  using assms(4)
proof (cases rule: on_header_cases)
  case zero
  with assms show ?thesis by (auto simp: ready_def intro: end_of_archive_inv)
next
  case pax
  have "ready opts (p\<lparr>p_entries := Suc (p_entries p)\<rparr>)"
    using assms pax(1) by (simp add: ready_def within_entries_def idle_def)
  then show ?thesis unfolding ready_def by (blast intro: on_pax_header_inv [OF _ _ _ pax(2)])
next
  case (entry posix kind)
  have "ready opts (p\<lparr>p_entries := Suc (p_entries p)\<rparr>)"
    using assms entry(1) by (simp add: ready_def within_entries_def idle_def)
  from on_entry_inv [OF this entry(2)] show ?thesis .
qed

section \<open>The loop keeps it\<close>

lemma feed_step_header_inv:
  assumes inv: "parser_inv opts p" and st: "p_state p = SHeader"
    and ok: "feed_step opts p chunk = Inr (p', rest)"
  shows "parser_inv opts p'"
proof -
  let ?n = "min (512 - length (p_header p)) (length chunk)"
  have i: "entries_inv opts (p\<lparr>p_header := []\<rparr>)" "idle (p\<lparr>p_header := []\<rparr>)"
    "within_entries opts (p\<lparr>p_header := []\<rparr>)"
    using inv st by (auto simp: parser_inv_def data_inv_def idle_def within_entries_def)
  show ?thesis
  proof (cases "length (p_header p @ take ?n chunk) = 512")
    case True
    with ok obtain q where q: "on_header opts (p_header p @ take ?n chunk) (p\<lparr>p_header := []\<rparr>) = Inr q"
      "p' = q\<lparr>p_offset := p_offset q + 512\<rparr>"
      unfolding feed_step_def st pstate.case Let_def by (auto elim!: bindE_InrE)
    from on_header_inv [OF i q(1)] show ?thesis unfolding q(2)
      by (simp add: parser_inv_def data_inv_def)
  next
    case False
    with ok have "p' = p\<lparr>p_header := p_header p @ take ?n chunk\<rparr>"
      unfolding feed_step_def st pstate.case Let_def by auto
    with inv show ?thesis by (simp add: parser_inv_def data_inv_def)
  qed
qed

text \<open>A piece of an entry's data, before the end of the data is looked at.\<close>

lemma take_data_inv:
  assumes inv: "parser_inv opts p" and st: "p_state p = SData" and n: "length part \<le> p_remaining p"
    and q: "take_data opts part p = Inr q"
  shows "entries_inv opts q \<and> within_entries opts q \<and>
    (p_pax_chunks q = None \<longrightarrow>
      (\<exists>f. p_file q = Some f \<and> length (f_data f) + (p_remaining q - length part) = f_bytes f))"
proof (cases "p_pax_chunks p")
  case (Some d)
  with q have "q = p\<lparr>p_pax_chunks := Some (d @ part)\<rparr>" by (simp add: take_data_def)
  with Some inv show ?thesis
    by (simp add: parser_inv_def entries_inv_pax_chunks within_entries_def)
next
  case None
  with inv st obtain f where f: "p_file p = Some f" "length (f_data f) + p_remaining p = f_bytes f"
    by (auto simp: parser_inv_def data_inv_def)
  let ?g = "f\<lparr>f_data := f_data f @ part\<rparr>"
  from None q f obtain w where w: "q = p\<lparr>p_file := Some ?g, p_world := w\<rparr>"
    by (auto simp: take_data_def elim!: bindE_InrE)
  have "file_ok opts f" using inv f by (simp add: parser_inv_def entries_inv_def)
  then have g: "file_ok opts ?g" by (simp add: file_ok_def cong: option.case_cong)
  have "entries_inv opts (p\<lparr>p_file := Some ?g\<rparr>)"
    using inv f None g
    by (simp add: parser_inv_def entries_inv_def parser_entries_def open_entries_def open_bytes_def)
  with inv f None n show ?thesis unfolding w
    by (simp add: parser_inv_def within_entries_def)
qed

lemma feed_step_data_inv:
  assumes inv: "parser_inv opts p" and st: "p_state p = SData"
    and ok: "feed_step opts p chunk = Inr (p', rest)"
  shows "parser_inv opts p'"
proof -
  let ?n = "min (p_remaining p) (length chunk)"
  from ok obtain q where q: "take_data opts (take ?n chunk) p = Inr q" and p': "data_done opts ?n q = Inr p'"
    unfolding feed_step_def st pstate.case Let_def data_done_def by (auto elim!: bindE_InrE)
  let ?q = "q\<lparr>p_remaining := p_remaining q - ?n, p_offset := p_offset q + ?n\<rparr>"
  have len: "length (take ?n chunk) = ?n" by simp
  have frame: "p_state q = SData" "p_remaining q = p_remaining p"
    using take_data_frame [OF q] st by simp_all
  from take_data_inv [OF inv st _ q] have i: "entries_inv opts q" "within_entries opts q"
    and f: "p_pax_chunks q = None \<Longrightarrow>
      \<exists>f. p_file q = Some f \<and> length (f_data f) + (p_remaining q - ?n) = f_bytes f"
    unfolding len by simp_all
  show ?thesis
  proof (cases "p_remaining ?q = 0")
    case True
    with p' have e: "end_data opts ?q = Inr p'" by (simp add: data_done_def)
    show ?thesis
    proof (rule end_data_inv [OF _ _ _ e, of "the (p_file q)"])
      show "entries_inv opts ?q" "p_entries ?q \<le> max_entries (o_limits opts)"
        using i by (simp_all add: within_entries_def)
      show "length (f_data (the (p_file q))) = f_bytes (the (p_file q))" if "p_pax_chunks ?q = None"
        using f that True by force
      show "g = the (p_file q)" if "p_file ?q = Some g" for g using that by simp
    qed
  next
    case False
    with p' have "p' = ?q" by (auto simp: data_done_def)
    with i f frame show ?thesis by (simp add: parser_inv_def within_entries_def data_inv_def)
  qed
qed

lemma feed_step_inv:
  assumes inv: "parser_inv opts p" and ok: "feed_step opts p chunk = Inr (p', rest)"
  shows "parser_inv opts p'"
proof (cases "p_state p")
  case SPadding
  from ok inv show ?thesis unfolding feed_step_def SPadding pstate.case Let_def using SPadding
    by (auto simp: parser_inv_def data_inv_def split: if_splits)
next
  case SEnd
  from ok inv show ?thesis unfolding feed_step_def SEnd pstate.case using SEnd
    by (auto simp: parser_inv_def data_inv_def split: if_splits)
qed (use feed_step_header_inv [OF inv _ ok] feed_step_data_inv [OF inv _ ok] in blast)+

text \<open>What every turn of the loop keeps, the loop and the stream keep.\<close>

lemma feed_loop_invariant:
  assumes "parser_wf p" and "I p" and "feed_loop opts p chunk = Some (Inr p')"
    and step: "\<And>p chunk p' rest. I p \<Longrightarrow> feed_step opts p chunk = Inr (p', rest) \<Longrightarrow> I p'"
  shows "I p'"
  using assms(1-3)
proof (induction "length chunk" arbitrary: p chunk rule: less_induct)
  case less
  show ?case
  proof (cases "chunk = []")
    case True
    with less.prems show ?thesis by simp
  next
    case ne: False
    then obtain q rest where q: "feed_step opts p chunk = Inr (q, rest)" "feed_loop opts q rest = Some (Inr p')"
      using less.prems(3) by (subst (asm) feed_loop.simps) (auto split: sum.splits)
    with feed_step_wf [OF less.prems(1) ne] have "parser_wf q" "length rest < length chunk" by auto
    from less.hyps [OF this(2,1) step [OF less.prems(2) q(1)] q(2)] show ?thesis .
  qed
qed

lemma feed_all_invariant:
  assumes "parser_wf (snd s)" and "I (snd s)" and "feed_all opts s cs = Some (Inr s')"
    and step: "\<And>p chunk p' rest. I p \<Longrightarrow> feed_step opts p chunk = Inr (p', rest) \<Longrightarrow> I p'"
  shows "I (snd s')"
  using assms(1-3)
proof (induction cs arbitrary: s)
  case (Cons c cs)
  from Cons.prems(3) obtain t where t: "feed opts s c = Some (Inr t)" "feed_all opts t cs = Some (Inr s')"
    by (auto split: option.splits sum.splits)
  then have l: "feed_loop opts (snd s) c = Some (Inr (snd t))"
    by (auto simp: feed_def Let_def elim!: map_sum_Inr split: if_splits)
  have "parser_wf (snd t)" using feed_loop_total [OF Cons.prems(1), of opts c] l by auto
  moreover have "I (snd t)" by (rule feed_loop_invariant [where I = I, OF Cons.prems(1,2) l step])
  ultimately show ?case by (rule Cons.IH [OF _ _ t(2)])
qed simp

section \<open>The end of the archive\<close>

text \<open>Only the zero block ends the archive, and only with nothing left open.\<close>

definition ended_inv :: "'w parser \<Rightarrow> bool" where
  "ended_inv p \<longleftrightarrow>
     (p_state p = SEnd \<longrightarrow>
        p_pax p = None \<and> p_companion p = None \<and>
        (p_provenance p = [] \<or> length (p_provenance p) = length provenance_entries))"

named_theorems goes_on_rules \<open>the methods that do not end the archive\<close>

lemma end_data_goes_on [goes_on_rules]: "end_data opts p = Inr p' \<Longrightarrow> p_state p' \<noteq> SEnd"
  by (auto simp: end_data_def elim!: bindE_InrE split: if_splits)

lemma start_data_goes_on [goes_on_rules]: "start_data opts sz p = Inr p' \<Longrightarrow> p_state p' \<noteq> SEnd"
  using end_data_goes_on by (fastforce simp: start_data_def Let_def split: if_splits)

lemma on_pax_header_goes_on [goes_on_rules]: "on_pax_header opts h p = Inr p' \<Longrightarrow> p_state p' \<noteq> SEnd"
  by (auto simp: on_pax_header_def elim!: bindE_InrE dest: start_data_goes_on split: if_splits)

lemma on_appledouble_goes_on [goes_on_rules]:
  "on_appledouble opts path kind sz had_pax p = Inr p' \<Longrightarrow> p_state p' \<noteq> SEnd"
  by (auto simp: on_appledouble_def elim!: bindE_InrE dest: start_data_goes_on
      split: if_splits option.splits prod.splits)

lemma on_member_goes_on [goes_on_rules]: "on_member opts path sz p = Inr p' \<Longrightarrow> p_state p' \<noteq> SEnd"
  by (auto simp: on_member_def Let_def elim!: bindE_InrE dest: start_data_goes_on split: if_splits)

lemma on_plain_goes_on [goes_on_rules]: "on_plain opts path kind sz p = Inr p' \<Longrightarrow> p_state p' \<noteq> SEnd"
  by (auto simp: on_plain_def Let_def elim!: bindE_InrE dest: start_data_goes_on on_member_goes_on
      split: if_splits option.splits prod.splits)

lemma on_entry_goes_on [goes_on_rules]: "on_entry opts posix kind h p = Inr p' \<Longrightarrow> p_state p' \<noteq> SEnd"
  by (elim on_entry_InrE dispatch_InrE)
     (auto dest: on_appledouble_goes_on on_plain_goes_on split: if_splits)

lemma on_header_ended: "on_header opts h p = Inr p' \<Longrightarrow> ended_inv p'"
  by (elim on_header_cases)
     (auto simp: ended_inv_def end_of_archive_def dest: on_pax_header_goes_on on_entry_goes_on split: if_splits)

lemma data_done_goes_on: "p_state p = SData \<Longrightarrow> data_done opts n p = Inr p' \<Longrightarrow> p_state p' \<noteq> SEnd"
  by (auto simp: data_done_def dest: end_data_goes_on split: if_splits)

lemma ended_new_parser: "ended_inv (new_parser w)"
  by (simp add: ended_inv_def new_parser_def)

lemma feed_step_ended:
  assumes "ended_inv p" and ok: "feed_step opts p chunk = Inr (p', rest)"
  shows "ended_inv p'"
proof (cases "p_state p")
  case SHeader
  from ok show ?thesis unfolding feed_step_def SHeader pstate.case Let_def using SHeader
    by (auto simp: ended_inv_def elim!: bindE_InrE split: if_splits dest!: on_header_ended)
next
  case SData
  let ?n = "min (p_remaining p) (length chunk)"
  from ok obtain q where q: "take_data opts (take ?n chunk) p = Inr q" and p': "data_done opts ?n q = Inr p'"
    unfolding feed_step_def SData pstate.case Let_def data_done_def by (auto elim!: bindE_InrE)
  have "p_state q = SData" using take_data_frame [OF q] SData by simp
  from data_done_goes_on [OF this p'] show ?thesis by (simp add: ended_inv_def)
next
  case SPadding
  from ok show ?thesis unfolding feed_step_def SPadding pstate.case Let_def using SPadding
    by (auto simp: ended_inv_def split: if_splits)
next
  case SEnd
  from ok assms(1) show ?thesis unfolding feed_step_def SEnd pstate.case
    by (auto simp: ended_inv_def split: if_splits)
qed

section \<open>An accepted archive\<close>

text \<open>
  What the fields of the parser say once the stream was fed and \<open>finish\<close> returned: the entries
  are compatible (distinct up to case, no file on the way to another entry), every directory
  leads to a file, every member is under the record and within the limits, every AppleDouble
  entry has an allowed body, and the provenance record is on all its entries or on none.
\<close>

definition archive_ok :: "'w parser_opts \<Rightarrow> 'w parser \<Rightarrow> bool" where
  "archive_ok opts p \<longleftrightarrow>
     (let es = file_entries (p_members p) @ file_entries (p_metadata p) @
               map (\<lambda>d. (d, Directory)) (p_directories p)
      in compatible es \<and>
         (\<forall>d. (d, Directory) \<in> claims es \<longrightarrow>
            (\<exists>q. (q, File) \<in> set es \<and> d \<in> set (ancestor_paths q)))) \<and>
     list_all (member_ok opts) (p_members p) \<and>
     list_all (metadata_ok opts) (p_metadata p) \<and>
     list_all plain_path (p_directories p) \<and>
     sum_list (map m_bytes (p_members p)) \<le> max_total_bytes (o_limits opts) \<and>
     p_entries p \<le> max_entries (o_limits opts) \<and>
     (p_provenance p = [] \<or> set (p_provenance p) = fst ` set provenance_entries)"

lemma provenance_complete:
  assumes "provenance_ok ps" and "length ps = length provenance_entries"
  shows "set ps = fst ` set provenance_entries"
proof (rule card_subset_eq)
  have "card (fst ` set provenance_entries) \<le> length provenance_entries"
    using card_length [of "map fst provenance_entries"] by simp
  moreover have "card (set ps) = length ps" using assms(1) by (simp add: provenance_ok_def distinct_card)
  moreover have "card (set ps) \<le> card (fst ` set provenance_entries)"
    using assms(1) by (intro card_mono) (simp_all add: provenance_ok_def)
  ultimately show "card (set ps) = card (fst ` set provenance_entries)" using assms(2) by simp
qed (use assms(1) in \<open>simp_all add: provenance_ok_def\<close>)

lemma parser_inv_finish:
  assumes inv: "parser_inv opts p" and ended: "ended_inv p" and fin: "finish p = Inr ()"
  shows "archive_ok opts p"
proof -
  have st: "p_state p = SEnd" and tree: "tree_finish (p_tree p) = None"
    using fin by (auto simp: finish_def split: if_splits option.splits)
  with inv have f: "p_file p = None" by (simp add: parser_inv_def data_inv_def)
  let ?es = "file_entries (p_members p) @ file_entries (p_metadata p) @
             map (\<lambda>d. (d, Directory)) (p_directories p)"
  have "parser_entries p = mset ?es" using f by (simp add: parser_entries_def open_entries_def)
  then have rep: "tree_rep (p_tree p) ?es"
    using inv tree_holds_mset [of "p_tree p" ?es] by (simp add: parser_inv_def entries_inv_def)
  have "p_provenance p = [] \<or> set (p_provenance p) = fst ` set provenance_entries"
    using ended st inv provenance_complete [of "p_provenance p"]
    by (auto simp: ended_inv_def parser_inv_def entries_inv_def)
  then show ?thesis
    using inv f tree_rep_compatible [OF rep] tree_finish_correct [OF rep] tree
    unfolding archive_ok_def Let_def
    by (simp add: parser_inv_def entries_inv_def open_bytes_def list_all_iff)
qed

lemma accepted_archive_ok:
  assumes fed: "feed_all opts (0, new_parser w) cs = Some (Inr s)" and fin: "finish (snd s) = Inr ()"
  shows "archive_ok opts (snd s)"
proof -
  have start: "parser_wf (snd (0, new_parser w))" by (simp add: new_parser_wf)
  have "parser_inv opts (snd s)"
    by (rule feed_all_invariant [OF start _ fed, of "parser_inv opts"])
       (simp_all add: new_parser_inv feed_step_inv)
  moreover have "ended_inv (snd s)"
    by (rule feed_all_invariant [OF start _ fed, of ended_inv])
       (simp_all add: ended_new_parser feed_step_ended)
  ultimately show ?thesis using fin by (rule parser_inv_finish)
qed

end
