(* ===== verification/Tar_Writer.thy ===== *)
theory Tar_Writer
  imports Tar_Accept
begin

text \<open>
  The tar writer of \<open>scripts/lib/sp1-circuit-fixtures.ts\<close> (\<open>TarSpec\<close>, \<open>paxData\<close>, \<open>header\<close>,
  \<open>padded\<close>, \<open>tarBytes\<close>) and the round trip: what it writes for ordinary entries, \<open>TarParser\<close>
  reads back, and the PAX records it writes, \<open>parsePax\<close> reads back.
\<close>

section \<open>Padding\<close>

text \<open>\<open>s.padStart(n, "0")\<close> and \<open>s.padEnd(n, "\0")\<close>.\<close>

definition pad_start :: "nat \<Rightarrow> string \<Rightarrow> string" where
  "pad_start n s = replicate (n - length s) CHR ''0'' @ s"

definition pad_end :: "nat \<Rightarrow> string \<Rightarrow> string" where
  "pad_end n s = s @ replicate (n - length s) NUL"

text \<open>\<open>Buffer.from(s, "utf8")\<close>, for code units below 256.\<close>

definition utf8_bytes :: "string \<Rightarrow> buffer" where
  "utf8_bytes s = concat (map (\<lambda>c.
     if code c < (128 :: nat) then [c] else [char_of (192 + code c div (64 :: nat)), char_of (128 + code c mod (64 :: nat))]) s)"

text \<open>\<open>b.copy(h, at)\<close> and \<open>h.write(b, at)\<close>: what does not fit the buffer is dropped.\<close>

definition put :: "buffer \<Rightarrow> nat \<Rightarrow> buffer \<Rightarrow> buffer" where
  "put h at b = take at h @ take (length h - at) b @ drop (at + length b) h"

section \<open>The specification of an entry\<close>

datatype content = Bytes buffer | Text string

fun content_bytes :: "content \<Rightarrow> buffer" where
  "content_bytes (Bytes b) = b"
| "content_bytes (Text s) = utf8_bytes s"

datatype tar_format = Posix | Gnu | V7
datatype size_encoding = Base256 | Negative | RawSize string
datatype pax_spec = PaxRecords "(string \<times> content) list" | PaxRaw buffer

record tar_spec =
  ts_name :: string
  ts_name_bytes :: "buffer option"
  ts_prefix :: "string option"
  ts_type :: "string option"
  ts_data :: "content option"
  ts_linkname :: "string option"
  ts_format :: "tar_format option"
  ts_size :: "nat option"
  ts_size_encoding :: "size_encoding option"
  ts_bad_checksum :: bool
  ts_mode :: "string option"
  ts_pax :: "pax_spec option"

definition plain_spec :: "string \<Rightarrow> tar_spec" where
  "plain_spec name =
     \<lparr>ts_name = name, ts_name_bytes = None, ts_prefix = None, ts_type = None, ts_data = None,
      ts_linkname = None, ts_format = None, ts_size = None, ts_size_encoding = None,
      ts_bad_checksum = False, ts_mode = None, ts_pax = None\<rparr>"

section \<open>PAX data\<close>

text \<open>
  The loop that finds a record's length, which counts its own digits: \<open>None\<close> would be a loop that
  does not return.
\<close>

partial_function (option) pax_length_loop :: "nat \<Rightarrow> nat \<Rightarrow> nat option" where
  "pax_length_loop body_length len =
     (if length (num_string 10 len) + body_length \<noteq> len
      then pax_length_loop body_length (length (num_string 10 len) + body_length)
      else Some len)"

definition pax_entry :: "string \<Rightarrow> content \<Rightarrow> buffer option" where
  "pax_entry k v =
     (let body = utf8_bytes ('' '' @ k @ ''='') @ content_bytes v @ [CHR 0x0A]
      in case pax_length_loop (length body) (length body + 1) of
           None \<Rightarrow> None
         | Some len \<Rightarrow> Some (num_string 10 len @ body))"

text \<open>\<open>paxData\<close>, on \<open>Object.entries(records)\<close>.\<close>

fun pax_data :: "(string \<times> content) list \<Rightarrow> buffer option" where
  "pax_data [] = Some []"
| "pax_data ((k, v) # rs) =
     (case pax_entry k v of None \<Rightarrow> None
      | Some b \<Rightarrow> (case pax_data rs of None \<Rightarrow> None | Some bs \<Rightarrow> Some (b @ bs)))"

section \<open>Headers\<close>

text \<open>The loop over the 11 size bytes, from the last to the first.\<close>

fun base256_bytes :: "nat \<Rightarrow> nat \<Rightarrow> buffer" where
  "base256_bytes 0 v = []"
| "base256_bytes (Suc k) v = base256_bytes k (v div 256) @ [char_of (v mod 256)]"

definition size_text :: "size_encoding option \<Rightarrow> nat \<Rightarrow> buffer" where
  "size_text enc sz =
     (case enc of
        Some Base256 \<Rightarrow> char_of (128 :: nat) # base256_bytes 11 sz
      | Some Negative \<Rightarrow> replicate 12 (char_of (255 :: nat))
      | Some (RawSize raw) \<Rightarrow> take 12 (pad_end 12 raw)
      | None \<Rightarrow> pad_start 11 (num_string 8 sz) @ [NUL])"

definition or_default :: "'a option \<Rightarrow> 'a \<Rightarrow> 'a" where
  "or_default m d = (case m of None \<Rightarrow> d | Some x \<Rightarrow> x)"

definition magic_text :: "tar_format \<Rightarrow> buffer" where
  "magic_text f =
     (case f of Posix \<Rightarrow> ''ustar'' @ [NUL] @ ''00'' | Gnu \<Rightarrow> ''ustar  '' @ [NUL] | V7 \<Rightarrow> [])"

text \<open>The buffer before its checksum is written (whose field holds spaces).\<close>

definition header_fields :: "tar_spec \<Rightarrow> nat \<Rightarrow> buffer" where
  "header_fields s sz =
     (let h = replicate 512 NUL;
          h = put h 0 (take 100 (or_default (ts_name_bytes s) (utf8_bytes (ts_name s))));
          h = put h 100 (or_default (ts_mode s)
                (if ts_type s = Some ''5'' then ''0000755'' @ [NUL] else ''0000644'' @ [NUL]));
          h = put h 108 (''0000000'' @ [NUL]);
          h = put h 116 (''0000000'' @ [NUL]);
          h = put h 124 (size_text (ts_size_encoding s) sz);
          h = put h 136 (''00000000000'' @ [NUL]);
          h = put h 156 (or_default (ts_type s) ''0'');
          h = put h 157 (utf8_bytes (or_default (ts_linkname s) ''''));
          h = put h 257 (magic_text (or_default (ts_format s) Posix));
          h = put h 345 (utf8_bytes (or_default (ts_prefix s) ''''))
      in put h 148 (replicate 8 CHR '' ''))"

definition header :: "tar_spec \<Rightarrow> nat \<Rightarrow> buffer" where
  "header s sz =
     (let h = header_fields s sz;
          total = sum_list (map code h)
      in put h 148
           (pad_start 6 (num_string 8 (total + (if ts_bad_checksum s then 1 else 0))) @ [NUL] @ '' ''))"

definition padded :: "buffer \<Rightarrow> buffer" where
  "padded b = b @ replicate ((512 - length b mod 512) mod 512) NUL"

text \<open>The blocks of one entry.\<close>

definition entry_bytes :: "tar_spec \<Rightarrow> buffer option" where
  "entry_bytes s =
     (let data = (case ts_data s of None \<Rightarrow> [] | Some c \<Rightarrow> content_bytes c);
          own = header s (or_default (ts_size s) (length data)) @ padded data
      in case ts_pax s of
           None \<Rightarrow> Some own
         | Some px \<Rightarrow>
             (case (case px of PaxRaw b \<Rightarrow> Some b | PaxRecords rs \<Rightarrow> pax_data rs) of
                None \<Rightarrow> None
              | Some pd \<Rightarrow>
                  Some (header ((plain_spec ''./PaxHeaders/entry'')\<lparr>ts_type := Some ''x''\<rparr>) (length pd) @
                        padded pd @ own)))"

fun entries_bytes :: "tar_spec list \<Rightarrow> buffer option" where
  "entries_bytes [] = Some []"
| "entries_bytes (s # ss) =
     (case entry_bytes s of None \<Rightarrow> None
      | Some b \<Rightarrow> (case entries_bytes ss of None \<Rightarrow> None | Some bs \<Rightarrow> Some (b @ bs)))"

text \<open>\<open>tarBytes\<close>: the options are \<open>end\<close> and \<open>trailing\<close>.\<close>

definition tar_bytes :: "tar_spec list \<Rightarrow> bool \<Rightarrow> buffer \<Rightarrow> buffer option" where
  "tar_bytes entries ends trailing =
     map_option (\<lambda>b. b @ (if ends then replicate 1024 NUL else []) @ trailing) (entries_bytes entries)"

section \<open>Numbers read back\<close>

lemma code_char_of [simp]: "n < 256 \<Longrightarrow> code (char_of n) = (n :: nat)"
  by simp

lemma char_0_code: "code (CHR ''0'') = (48 :: nat)"
  by simp

lemma digits_value_snoc: "digits_value base (s @ [c]) = digits_value base s * base + (code c - 48)"
  by (simp add: digits_value_def)

lemma digits_value_num: "2 \<le> base \<Longrightarrow> base \<le> 10 \<Longrightarrow> digits_value base (num_string base n) = n"
proof (induction base n rule: num_string.induct)
  case (1 base n)
  show ?case
  proof (cases "n < base")
    case True
    with 1 show ?thesis by (simp add: num_string.simps [of base n] digits_value_def)
  next
    case False
    have "n mod base < 10" using 1(2,3) mod_less_divisor [of base n] by linarith
    with False 1 show ?thesis
      by (simp add: num_string.simps [of base n] digits_value_snoc)
  qed
qed

lemma digits_value_zeros: "digits_value base (replicate k CHR ''0'' @ s) = digits_value base s"
  by (induction k) (simp_all add: digits_value_def)

lemma num_string_digits:
  "2 \<le> base \<Longrightarrow> base \<le> 10 \<Longrightarrow> c \<in> set (num_string base n) \<Longrightarrow> 48 \<le> code c \<and> code c < 48 + base"
proof (induction base n rule: num_string.induct)
  case (1 base n)
  have m: "n mod base < base" using 1(2) by simp
  then have "(48 + n mod base) mod 256 = 48 + n mod base" using 1(3) by simp
  with m show ?case using 1 by (cases "n < base") (auto simp: num_string.simps [of base n])
qed

lemma num_string_ne [simp]: "num_string base n \<noteq> []"
  by (subst num_string.simps) simp

lemma num_string_length:
  "2 \<le> base \<Longrightarrow> 0 < k \<Longrightarrow> length (num_string base n) \<le> k \<longleftrightarrow> n < base ^ k"
proof (induction base n arbitrary: k rule: num_string.induct)
  case (1 base n)
  show ?case
  proof (cases "n < base")
    case True
    have "base ^ 1 \<le> base ^ k" using 1(2,3) by (intro power_increasing) auto
    with True 1(3) show ?thesis by (simp add: num_string.simps [of base n])
  next
    case False
    show ?thesis
    proof (cases "k = 1")
      case True
      with False 1(2) show ?thesis by (simp add: num_string.simps [of base n])
    next
      case k: False
      then obtain j where j: "k = Suc j" "0 < j" using 1(3) by (cases k) auto
      have "n div base < base ^ j \<longleftrightarrow> n < base ^ k"
        using 1(2) j(1) by (simp add: div_less_iff_less_mult mult.commute)
      with 1(1) [OF _ 1(2) j(2)] False 1(2) j(1) show ?thesis
        by (simp add: num_string.simps [of base n])
    qed
  qed
qed

lemma num_string_head:
  "2 \<le> base \<Longrightarrow> base \<le> 10 \<Longrightarrow> 0 < n \<Longrightarrow> hd (num_string base n) \<noteq> CHR ''0''"
proof (induction base n rule: num_string.induct)
  case (1 base n)
  show ?case
  proof (cases "n < base")
    case True
    with 1(3,4) have "code (char_of (48 + n)) \<noteq> (48 :: nat)" by simp
    then have "char_of (48 + n) \<noteq> CHR ''0''" by (metis char_0_code)
    with True show ?thesis by (simp add: num_string.simps [of base n])
  next
    case False
    then have "0 < n div base" using 1(2) by (simp add: div_greater_zero_iff)
    with 1 False show ?thesis by (simp add: num_string.simps [of base n])
  qed
qed

section \<open>PAX records read back\<close>

lemma digits_mono: "m \<le> n \<Longrightarrow> length (num_string 10 m) \<le> length (num_string 10 n)"
proof -
  assume "m \<le> n"
  moreover have "n < 10 ^ length (num_string 10 n)"
    using num_string_length [of 10 "length (num_string 10 n)" n] by simp
  ultimately show ?thesis using num_string_length [of 10 "length (num_string 10 n)" m] by simp
qed

text \<open>The length loop stops after at most three rounds, at a length that counts itself.\<close>

lemma pax_length_loop_total:
  "\<exists>len. pax_length_loop b (b + 1) = Some len \<and> len = length (num_string 10 len) + b"
proof -
  define D where "D n = length (num_string 10 n)" for n
  define d where "d = D (b + 1)"
  have step: "pax_length_loop b n = (if D n + b \<noteq> n then pax_length_loop b (D n + b) else Some n)" for n
    by (subst pax_length_loop.simps) (simp add: D_def)
  have le: "D n \<le> k \<longleftrightarrow> n < 10 ^ k" if "0 < k" for n k
    using num_string_length [of 10 k n] that by (simp add: D_def)
  have mono: "m \<le> n \<Longrightarrow> D m \<le> D n" for m n using digits_mono by (simp add: D_def)
  have pos: "0 < d" by (simp add: d_def D_def)
  have b: "b + 1 < 10 ^ d" using le [OF pos, of "b + 1"] by (simp add: d_def)
  have "d < 10 ^ d" by (rule less_exp [of d, THEN less_le_trans]) (simp add: power_mono)
  with b have "b + d + 1 < 10 ^ Suc d" by simp
  then have hi: "D (b + d + 1) \<le> Suc d" using le [of "Suc d"] by simp
  have lo: "d \<le> D (b + d)" using mono [of "b + 1" "b + d"] pos by (simp add: d_def)
  have m: "D (b + d) \<le> D (b + d + 1)" by (rule mono) simp
  have cases: "d = 1 \<or> d \<noteq> 1 \<and> D (b + d) = d \<or> d \<noteq> 1 \<and> D (b + d) = Suc d"
    using hi lo m by linarith
  have self: "pax_length_loop b n = Some n" if "D n + b = n" for n using step [of n] that by simp
  have move: "pax_length_loop b n = pax_length_loop b (D n + b)" if "D n + b \<noteq> n" for n
    using step [of n] that by simp
  have d1: "D (b + 1) = d" by (simp add: d_def)
  have r: "\<exists>n. pax_length_loop b (b + 1) = Some n \<and> n = D n + b"
    using cases
  proof (elim disjE conjE)
    assume "d = 1"
    with self [of "b + 1"] d1 show ?thesis by auto
  next
    assume "d \<noteq> 1" "D (b + d) = d"
    with move [of "b + 1"] self [of "b + d"] d1 show ?thesis by (auto simp: add.commute)
  next
    assume ne: "d \<noteq> 1" and D1: "D (b + d) = Suc d"
    with hi m have "D (b + d + 1) = Suc d" by simp
    with ne D1 move [of "b + 1"] move [of "b + d"] self [of "b + d + 1"] d1
    show ?thesis by (auto simp: add.commute)
  qed
  then show ?thesis by (simp add: D_def)
qed

lemma utf8_decode_bytes: "utf8 (utf8_bytes s) = Some (codes s)"
proof (induction s)
  case Nil
  then show ?case by (simp add: utf8_def utf8_bytes_def codes_def)
next
  case (Cons c s)
  show ?case
  proof (cases "code c < (128 :: nat)")
    case True
    with Cons show ?thesis by (simp add: utf8_def utf8_bytes_def codes_def)
  next
    case False
    have "code c < (256 :: nat)" by simp
    with False have a: "192 + code c div (64 :: nat) \<ge> 194" "192 + code c div (64 :: nat) \<le> 195"
      by linarith+
    then have c1: "code (char_of (192 + code c div (64 :: nat))) = 192 + code c div (64 :: nat)"
      by (intro code_char_of) simp
    have m: "code c mod (64 :: nat) < 64" by simp
    then have m': "code c mod (64 :: nat) \<le> 63" by linarith
    then have c2: "code (char_of (128 + code c mod (64 :: nat))) = 128 + code c mod (64 :: nat)"
      by (intro code_char_of) simp
    have v: "code c div (64 :: nat) * 64 + code c mod 64 = code c" by simp
    from Cons have "utf8_decode (map code (utf8_bytes s)) = Some (codes s)" by (simp add: utf8_def)
    then show ?thesis using False a m' v
      unfolding utf8_def utf8_bytes_def list.map concat.simps
      by (simp add: c1 c2 is_cont_def codes_def del: of_char_of of_char_mod_256)
  qed
qed

lemma utf8_bytes_append: "utf8_bytes (s @ t) = utf8_bytes s @ utf8_bytes t"
  by (simp add: utf8_bytes_def)

lemma utf8_bytes_ascii: "list_all (\<lambda>c. code c < (128 :: nat)) s \<Longrightarrow> utf8_bytes s = s"
  by (induction s) (simp_all add: utf8_bytes_def)

text \<open>An ASCII character occurs in the encoding only where it occurs in the text.\<close>

lemma utf8_bytes_mem:
  assumes "x \<in> set (utf8_bytes s)" and "code x < (128 :: nat)"
  shows "x \<in> set s"
proof -
  from assms(1) obtain c where c: "c \<in> set s"
    and x: "x \<in> set (if code c < (128 :: nat) then [c]
                else [char_of (192 + code c div (64 :: nat)), char_of (128 + code c mod (64 :: nat))])"
    by (auto simp: utf8_bytes_def simp del: of_char_of)
  have lt: "code c < (256 :: nat)" by simp
  then have d: "code c div (64 :: nat) \<le> 3" by linarith
  have m: "code c mod (64 :: nat) < 64" by simp
  have "code (char_of (192 + code c div (64 :: nat))) = 192 + code c div (64 :: nat)"
    "code (char_of (128 + code c mod (64 :: nat))) = 128 + code c mod (64 :: nat)"
    by (rule code_char_of, use d m in linarith)+
  with x assms(2) c show ?thesis by (auto split: if_splits simp del: of_char_of)
qed

lemma codes_inject: "codes s = codes t \<longleftrightarrow> s = t"
  unfolding codes_def by (rule inj_map_eq_map) (simp add: inj_def)

definition pax_value :: "string \<Rightarrow> content \<Rightarrow> codepoints option" where
  "pax_value k v =
     (if k = provenance_pax_key
      then (if content_bytes v = provenance_value then Some [] else None)
      else utf8 (content_bytes v))"

lemma pax_len_rx_num:
  assumes "0 < n"
  shows "rx_match pax_len_rx (num_string 10 n)"
proof -
  obtain c cs where s: "num_string 10 n = c # cs" by (cases "num_string 10 n") auto
  have d: "48 \<le> code x \<and> code x < (58 :: nat)" if "x \<in> set (num_string 10 n)" for x
    using num_string_digits [of 10 x n] that by simp
  have "c \<noteq> CHR ''0''" using num_string_head [of 10 n] assms s by simp
  then have "code c \<noteq> (48 :: nat)" by (metis char_0_code of_char_eq_iff)
  then have "CHR ''1'' \<le> c" "c \<le> CHR ''9''" using d [of c] s by (auto simp: less_eq_char_def)
  moreover have "list_all is_digit cs"
    using d s by (force simp: list_all_iff is_digit_def less_eq_char_def)
  ultimately show ?thesis
    unfolding s pax_len_rx_def rx_match_seq_cls rx_match_star_cls by blast
qed

lemma index_of_append: "x \<notin> set a \<Longrightarrow> index_of x (a @ x # b) = Some (length a)"
  by (induction a) auto

lemma num_string_no_space: "CHR '' '' \<notin> set (num_string 10 n)"
  using num_string_digits [of 10 "CHR '' ''" n] by auto

text \<open>What a record reads as, from the positions of its space, its "=" and its end.\<close>

lemma pax_record_read:
  assumes "index_of CHR '' '' d = Some m" and "take m d = t" and "rx_match pax_len_rx t"
    and "digits_value 10 t = n" and "n \<le> length d" and "d ! (n - 1) = CHR 0x0A"
    and "slice d (Suc m) (n - 1 - Suc m) = kb @ CHR ''='' # vb" and "CHR ''='' \<notin> set kb" and "kb \<noteq> []"
    and "utf8 kb = Some key" and "(if key = codes provenance_pax_key then Some [] else utf8 vb) = Some val"
    and "key = codes provenance_pax_key \<longrightarrow> vb = provenance_value" and "map_of out key = None"
  shows "pax_record out d = Inr (out @ [(key, val)], n)"
proof -
  have eq: "index_of CHR ''='' (kb @ CHR ''='' # vb) = Some (length kb)"
    using assms(8) by (rule index_of_append)
  have parts: "take (length kb) (kb @ CHR ''='' # vb) = kb" "drop (Suc (length kb)) (kb @ CHR ''='' # vb) = vb"
    by simp_all
  show ?thesis
    unfolding pax_record_def Let_def assms(1) option.case option.sel assms(2,4) assms(7) eq parts assms(10)
      assms(11)
    using assms(3,5,6,9,12,13) by (simp add: leD)
qed

text \<open>One record the writer made, in front of anything, is read as its key and its value.\<close>

lemma pax_record_entry:
  assumes b: "pax_entry k v = Some b" and k: "k \<noteq> []" "CHR ''='' \<notin> set k"
    and val: "pax_value k v = Some val" and new: "map_of out (codes k) = None"
  shows "pax_record out (b @ rest) = Inr (out @ [(codes k, val)], length b) \<and> b \<noteq> []"
proof -
  let ?kb = "utf8_bytes k" and ?vb = "content_bytes v"
  let ?body = "CHR '' '' # ?kb @ CHR ''='' # ?vb @ [CHR 0x0A]"
  have body: "utf8_bytes ('' '' @ k @ ''='') @ ?vb @ [CHR 0x0A] = ?body"
    by (simp only: utf8_bytes_append) (simp add: utf8_bytes_def)
  obtain len where len: "pax_length_loop (length ?body) (length ?body + 1) = Some len"
    "len = length (num_string 10 len) + length ?body"
    using pax_length_loop_total by metis
  let ?n = "num_string 10 len"
  have bb: "b = ?n @ ?body" using b len(1) unfolding pax_entry_def Let_def body by simp
  let ?d = "?n @ CHR '' '' # (?kb @ CHR ''='' # ?vb) @ CHR 0x0A # rest"
  have d: "b @ rest = ?d" using bb by simp
  have L: "length b = len" using bb len(2) by simp
  have pos: "0 < len" using len(2) by simp
  have sp: "index_of CHR '' '' ?d = Some (length ?n)" by (simp add: index_of_append num_string_no_space)
  have e: "len - 1 - Suc (length ?n) = length (?kb @ CHR ''='' # ?vb)" using len(2) by simp
  have rec: "slice ?d (Suc (length ?n)) (len - 1 - Suc (length ?n)) = ?kb @ CHR ''='' # ?vb"
    unfolding e slice_def by simp
  have "len - 1 = length (?n @ CHR '' '' # ?kb @ CHR ''='' # ?vb)" using len(2) by simp
  then have nl: "?d ! (len - 1) = CHR 0x0A" by (simp add: nth_append)
  have eq: "CHR ''='' \<notin> set ?kb" using utf8_bytes_mem [of "CHR ''=''" k] k(2) by auto
  have kb: "?kb \<noteq> []" using k(1) by (cases k) (simp_all add: utf8_bytes_def)
  have key: "codes k = codes provenance_pax_key \<longleftrightarrow> k = provenance_pax_key" by (rule codes_inject)
  have long: "\<not> length ?d < len" using L unfolding d [symmetric] by simp
  have val': "(if k = provenance_pax_key then Some [] else utf8 ?vb) = Some val"
    "k = provenance_pax_key \<longrightarrow> ?vb = provenance_value"
    using val by (auto simp: pax_value_def split: if_splits)
  have "pax_record out ?d = Inr (out @ [(codes k, val)], len)"
  proof (rule pax_record_read [OF sp _ pax_len_rx_num [OF pos] _ _ nl rec])
    show "take (length ?n) ?d = ?n" by simp
    show "digits_value 10 ?n = len" by (simp add: digits_value_num)
    show "len \<le> length ?d" using long by simp
    show "CHR ''='' \<notin> set ?kb" by (rule eq)
  qed (use kb val' new in \<open>simp_all add: utf8_decode_bytes key\<close>)
  then show ?thesis using d L bb by simp
qed

lemma pax_data_total: "\<exists>b. pax_data rs = Some b"
proof (induction rs rule: pax_data.induct)
  case (2 k v rs)
  obtain len where "pax_length_loop (length (utf8_bytes ('' '' @ k @ ''='') @ content_bytes v @ [CHR 0x0A]))
      (length (utf8_bytes ('' '' @ k @ ''='') @ content_bytes v @ [CHR 0x0A]) + 1) = Some len"
    using pax_length_loop_total by blast
  then obtain b where "pax_entry k v = Some b" unfolding pax_entry_def Let_def by simp
  with 2 show ?case by fastforce
qed simp

text \<open>Records whose keys are distinct, not empty and without "=", and whose values decode.\<close>

definition pax_records_ok :: "(string \<times> content) list \<Rightarrow> bool" where
  "pax_records_ok rs \<longleftrightarrow> distinct (map fst rs) \<and>
     list_all (\<lambda>(k, v). k \<noteq> [] \<and> CHR ''='' \<notin> set k \<and> pax_value k v \<noteq> None) rs"

lemma parse_pax_from_data:
  assumes "pax_data rs = Some b" and "pax_records_ok rs"
    and "\<forall>k \<in> fst ` set rs. map_of out (codes k) = None"
  shows "parse_pax_from out b = Inr (out @ map (\<lambda>(k, v). (codes k, the (pax_value k v))) rs)"
  using assms
proof (induction rs arbitrary: out b rule: pax_data.induct)
  case 1
  then show ?case by (simp add: parse_pax_from.simps)
next
  case (2 k v rs)
  from 2(2) obtain a c where a: "pax_entry k v = Some a" and c: "pax_data rs = Some c" and b: "b = a @ c"
    by (auto split: option.splits)
  from 2(3) obtain val where val: "pax_value k v = Some val" and k: "k \<noteq> []" "CHR ''='' \<notin> set k"
    and ok: "pax_records_ok rs" and new: "k \<notin> fst ` set rs"
    by (auto simp: pax_records_ok_def)
  have "map_of out (codes k) = None" using 2(4) by simp
  from pax_record_entry [OF a k val this, of c]
  have r: "pax_record out b = Inr (out @ [(codes k, val)], length a)" "a \<noteq> []" using b by simp_all
  have "\<forall>l \<in> fst ` set rs. map_of (out @ [(codes k, val)]) (codes l) = None"
    using 2(4) new by (auto simp: map_add_def codes_inject)
  from 2(1) [OF a c ok this] show ?case
    using r b val by (subst parse_pax_from.simps) simp
qed

section \<open>Headers read back\<close>

named_theorems put_simps \<open>reading a buffer after a write\<close>

lemma length_put [put_simps]: "at + length b \<le> length h \<Longrightarrow> length (put h at b) = length h"
  by (simp add: put_def)

lemma put_Nil [put_simps]: "at \<le> length h \<Longrightarrow> put h at [] = h"
  by (simp add: put_def)

lemma put_decomp: "at + length b \<le> length h \<Longrightarrow> put h at b = take at h @ b @ drop (at + length b) h"
  by (simp add: put_def)

lemma slice_put_before:
  "at + length b \<le> length h \<Longrightarrow> from + len \<le> at \<Longrightarrow> slice (put h at b) from len = slice h from len"
  by (simp add: put_decomp slice_def min_absorb1 take_drop)

lemma slice_put_after:
  "at + length b \<le> length h \<Longrightarrow> at + length b \<le> from \<Longrightarrow> slice (put h at b) from len = slice h from len"
  by (simp add: put_decomp slice_def min_def)

lemma slice_put_same:
  "at + length b \<le> length h \<Longrightarrow> length b = len \<Longrightarrow> slice (put h at b) at len = b"
  by (simp add: put_decomp slice_def)

lemma slice_put_start:
  "length b \<le> len \<Longrightarrow> len \<le> length h \<Longrightarrow> slice (put h 0 b) 0 len = b @ slice h (length b) (len - length b)"
  by (simp add: put_decomp slice_def)

lemma nth_slice: "from < length h \<Longrightarrow> h ! from = hd (slice h from 1)"
  by (simp add: slice_def take_Suc hd_drop_conv_nth)

lemma slice_replicate: "from + len \<le> n \<Longrightarrow> slice (replicate n c) from len = replicate len c"
  by (simp add: slice_def min_def)

text \<open>A header without any of the hostile forms.\<close>

definition ordinary :: "tar_spec \<Rightarrow> nat \<Rightarrow> bool" where
  "ordinary s sz \<longleftrightarrow>
     ts_name_bytes s = None \<and> ts_prefix s = None \<and> ts_linkname s = None \<and> ts_size_encoding s = None \<and>
     \<not> ts_bad_checksum s \<and> ts_mode s = None \<and> ts_format s \<noteq> Some V7 \<and>
     (ts_type s = None \<or> (\<exists>c. ts_type s = Some [c])) \<and>
     list_all (\<lambda>c. code c < (128 :: nat)) (ts_name s) \<and> NUL \<notin> set (ts_name s) \<and>
     length (ts_name s) \<le> 100 \<and> sz \<le> octal_max_size"

definition type_char :: "tar_spec \<Rightarrow> char" where
  "type_char s = hd (or_default (ts_type s) ''0'')"

definition mode_bytes :: "tar_spec \<Rightarrow> buffer" where
  "mode_bytes s = (if ts_type s = Some ''5'' then ''0000755'' @ [NUL] else ''0000644'' @ [NUL])"

definition size_bytes :: "nat \<Rightarrow> buffer" where
  "size_bytes sz = pad_start 11 (num_string 8 sz) @ [NUL]"

lemma size_bytes_length: "sz \<le> octal_max_size \<Longrightarrow> length (size_bytes sz) = 12"
  using num_string_length [of 8 11 sz] by (simp add: size_bytes_def pad_start_def octal_max_size_def)

lemma header_fields_ordinary:
  assumes "ordinary s sz"
  shows "header_fields s sz =
    put (put (put (put (put (put (put (put (put (replicate 512 NUL) 0 (ts_name s)) 100 (mode_bytes s))
      108 (''0000000'' @ [NUL])) 116 (''0000000'' @ [NUL])) 124 (size_bytes sz)) 136 (''00000000000'' @ [NUL]))
      156 [type_char s]) 257 (magic_text (or_default (ts_format s) Posix))) 148 (replicate 8 CHR '' '')"
proof -
  have "or_default (ts_type s) ''0'' = [type_char s]"
    using assms by (auto simp: ordinary_def type_char_def or_default_def)
  moreover have "magic_text (or_default (ts_format s) Posix) \<noteq> []"
    using assms by (auto simp: ordinary_def or_default_def magic_text_def split: option.splits tar_format.splits)
  moreover have "length (magic_text (or_default (ts_format s) Posix)) = 8"
    using assms by (auto simp: ordinary_def or_default_def magic_text_def split: option.splits tar_format.splits)
  moreover have "utf8_bytes [] = []" by (simp add: utf8_bytes_def)
  ultimately show ?thesis
    using assms size_bytes_length [of sz]
    unfolding header_fields_def Let_def ordinary_def
    by (simp add: or_default_def utf8_bytes_ascii mode_bytes_def size_text_def size_bytes_def
        put_simps)
qed

definition checksum_bytes :: "tar_spec \<Rightarrow> nat \<Rightarrow> buffer" where
  "checksum_bytes s sz =
     pad_start 6 (num_string 8 (sum_list (map code (header_fields s sz)))) @ [NUL] @ '' ''"

lemma magic_length:
  "ordinary s sz \<Longrightarrow> length (magic_text (or_default (ts_format s) Posix)) = 8"
  by (auto simp: ordinary_def or_default_def magic_text_def split: option.splits tar_format.splits)

lemma mode_length: "length (mode_bytes s) = 8"
  by (simp add: mode_bytes_def)

lemma header_fields_length: "ordinary s sz \<Longrightarrow> length (header_fields s sz) = 512"
  using size_bytes_length [of sz] magic_length [of s sz]
  by (simp add: header_fields_ordinary ordinary_def length_put mode_length)

lemma sum_codes_bound: "sum_list (map code h) \<le> 255 * length (h :: buffer)"
proof (induction h)
  case (Cons c h)
  have "code c \<le> (255 :: nat)" using of_char_mod_256 [of c, where ?'a = nat] by linarith
  with Cons show ?case by (simp add: add_mono)
qed simp

lemma checksum_length:
  assumes "ordinary s sz"
  shows "length (checksum_bytes s sz) = 8"
proof -
  have "sum_list (map code (header_fields s sz)) \<le> 255 * 512"
    using sum_codes_bound [of "header_fields s sz"] header_fields_length [OF assms] by simp
  then have "length (num_string 8 (sum_list (map code (header_fields s sz)))) \<le> 6"
    by (subst num_string_length) simp_all
  then show ?thesis by (simp add: checksum_bytes_def pad_start_def)
qed

lemma header_ordinary:
  "ordinary s sz \<Longrightarrow> header s sz = put (header_fields s sz) 148 (checksum_bytes s sz)"
  by (simp add: header_def Let_def checksum_bytes_def ordinary_def)

lemma header_slices:
  assumes o: "ordinary s sz"
  shows "length (header s sz) = 512"
    and "slice (header s sz) 0 100 = ts_name s @ replicate (100 - length (ts_name s)) NUL"
    and "slice (header s sz) 100 8 = mode_bytes s"
    and "slice (header s sz) 124 12 = size_bytes sz"
    and "slice (header s sz) 148 8 = checksum_bytes s sz"
    and "slice (header s sz) 156 1 = [type_char s]"
    and "slice (header s sz) 257 8 = magic_text (or_default (ts_format s) Posix)"
    and "slice (header s sz) 345 155 = replicate 155 NUL"
proof -
  have sz: "sz \<le> octal_max_size" and name: "length (ts_name s) \<le> 100" using o by (simp_all add: ordinary_def)
  note len = size_bytes_length [OF sz] magic_length [OF o] checksum_length [OF o] mode_length
  note eqs = header_ordinary [OF o] header_fields_ordinary [OF o]
  show "length (header s sz) = 512"
    unfolding header_ordinary [OF o] using len header_fields_length [OF o] by (simp add: length_put)
  show "slice (header s sz) 100 8 = mode_bytes s"
    "slice (header s sz) 124 12 = size_bytes sz"
    "slice (header s sz) 148 8 = checksum_bytes s sz"
    "slice (header s sz) 156 1 = [type_char s]"
    "slice (header s sz) 257 8 = magic_text (or_default (ts_format s) Posix)"
    "slice (header s sz) 345 155 = replicate 155 NUL"
    unfolding eqs using len name
    by (simp_all add: slice_put_before slice_put_after slice_put_same slice_replicate length_put)
  show "slice (header s sz) 0 100 = ts_name s @ replicate (100 - length (ts_name s)) NUL"
    unfolding eqs using len name
    by (simp add: slice_put_before slice_put_start slice_replicate length_put)
qed

lemma header_sum_ordinary:
  assumes o: "ordinary s sz"
  shows "header_sum (header s sz) = sum_list (map code (header_fields s sz))"
proof -
  let ?h = "header_fields s sz"
  note len = header_fields_length [OF o] checksum_length [OF o]
  have t: "take 148 (header s sz) = take 148 ?h" "drop 156 (header s sz) = drop 156 ?h"
    unfolding header_ordinary [OF o] using len by (simp_all add: put_decomp)
  have "slice ?h 148 8 = replicate 8 CHR '' ''"
    unfolding header_fields_ordinary [OF o]
    using size_bytes_length [of sz] magic_length [OF o] mode_length [of s] o
    by (simp add: slice_put_same length_put ordinary_def)
  then have "?h = take 148 ?h @ replicate 8 CHR '' '' @ drop 156 ?h"
    unfolding slice_def by (metis append_take_drop_id drop_drop add.commute numeral_Bit0 numeral_plus_numeral
        Num.add_num_simps num.distinct)
  then have "sum_list (map code ?h) =
      sum_list (map code (take 148 ?h @ replicate 8 CHR '' '' @ drop 156 ?h))" by simp
  also have "\<dots> = header_sum (header s sz)" unfolding header_sum_def t by (simp add: numeral_eq_Suc)
  finally show ?thesis ..
qed

lemma octal_digits: "list_all is_octal (pad_start k (num_string 8 n))"
  using num_string_digits [of 8 _ n]
  by (force simp: list_all_iff pad_start_def is_octal_def less_eq_char_def)

text \<open>An octal field the writer made: zero-padded digits, then NULs and spaces.\<close>

lemma octal_field_read:
  assumes "slice h from len = pad_start k (num_string 8 n) @ t"
    and "list_all (\<lambda>c. c = CHR '' '' \<or> c = NUL) t"
  shows "octal_field h from len = Inr n"
proof -
  let ?d = "pad_start k (num_string 8 n)"
  have d: "list_all is_octal ?d" by (rule octal_digits)
  have ne: "?d \<noteq> []" by (simp add: pad_start_def)
  have sp: "\<not> is_octal (CHR '' '')" "\<not> is_octal NUL" by (simp_all add: is_octal_def less_eq_char_def)
  obtain c cs where c: "?d = c # cs" using ne by (cases ?d) auto
  then have "c \<noteq> CHR '' ''" using d sp by auto
  then have drop: "dropWhile (\<lambda>c. c = CHR '' '') (?d @ t) = ?d @ t" unfolding c by simp
  have "takeWhile is_octal (?d @ t) = ?d @ takeWhile is_octal t"
    using d by (intro takeWhile_append2) (simp add: list_all_iff)
  also have "takeWhile is_octal t = []" using assms(2) sp by (cases t) auto
  finally have take: "takeWhile is_octal (?d @ t) = ?d" by simp
  have "digits_value 8 ?d = n" by (simp add: pad_start_def digits_value_zeros digits_value_num)
  moreover have "rx_match (RSeq (rx_plus (RCls is_octal)) (RStar (RCls (\<lambda>c. c = CHR '' '' \<or> c = NUL)))) (?d @ t)"
    unfolding rx_match_seq rx_match_star_cls rx_match_plus_cls using d ne assms(2) by blast
  then have "rx_match octal_rx (?d @ t)"
    unfolding octal_rx_def rx_seq.simps rx_chr_def
    by (subst rx_match_seq) (intro exI [of _ "[]"] exI [of _ "?d @ t"], simp)
  ultimately show ?thesis unfolding octal_field_def Let_def assms(1) drop take by simp
qed

lemma octal_field_checksum:
  "ordinary s sz \<Longrightarrow> octal_field (header s sz) 148 8 = Inr (header_sum (header s sz))"
  using octal_field_read [OF header_slices(5) [unfolded checksum_bytes_def]]
  by (simp add: header_sum_ordinary)

lemma num_string_mode: "pad_start 7 (num_string 8 420) = ''0000644''" "pad_start 7 (num_string 8 493) = ''0000755''"
  by code_simp+

lemma octal_field_mode:
  assumes o: "ordinary s sz"
  shows "octal_field (header s sz) 100 8 = Inr (if ts_type s = Some ''5'' then 493 else 420)"
proof -
  have "mode_bytes s = pad_start 7 (num_string 8 (if ts_type s = Some ''5'' then 493 else 420)) @ [NUL]"
    by (simp add: mode_bytes_def num_string_mode)
  then show ?thesis using octal_field_read [of "header s sz" 100 8] header_slices(3) [OF o] by simp
qed

lemma size_field_ordinary:
  assumes o: "ordinary s sz"
  shows "size_field (header s sz) = Inr (sz, False)"
proof -
  have oct: "octal_field (header s sz) 124 12 = Inr sz"
    using octal_field_read [OF header_slices(4) [OF o, unfolded size_bytes_def]] by simp
  have len: "length (header s sz) = 512" by (rule header_slices(1) [OF o])
  have "header s sz ! 124 = hd (slice (header s sz) 124 12)"
    using len by (simp add: slice_def hd_drop_conv_nth)
  also have "\<dots> = hd (pad_start 11 (num_string 8 sz))"
    unfolding header_slices(4) [OF o] size_bytes_def by (simp add: pad_start_def hd_append)
  finally have "header s sz ! 124 = hd (pad_start 11 (num_string 8 sz))" .
  then have "header s sz ! 124 \<in> set (pad_start 11 (num_string 8 sz))"
    using hd_in_set [of "pad_start 11 (num_string 8 sz)"] unfolding pad_start_def by simp
  then have "is_octal (header s sz ! 124)" using octal_digits [of 11 sz] by (simp add: list_all_iff)
  then have "code (header s sz ! 124) < (128 :: nat)" by (auto simp: is_octal_def less_eq_char_def)
  with oct show ?thesis by (simp add: size_field_def)
qed

lemma text_field_padded:
  assumes "slice h from len = s @ replicate k NUL" and "NUL \<notin> set s"
  shows "text_field h from len = Inr s"
proof (cases k)
  case 0
  with assms have "index_of NUL (slice h from len) = None" by (simp add: index_of_None)
  with assms(1) 0 show ?thesis by (simp add: text_field_def Let_def)
next
  case (Suc j)
  then have e: "slice h from len = s @ NUL # replicate j NUL" using assms(1) by simp
  have "index_of NUL (s @ NUL # replicate j NUL) = Some (length s)" by (rule index_of_append [OF assms(2)])
  then show ?thesis unfolding text_field_def Let_def e by (simp add: list_ex_iff)
qed

lemma raw_name_ordinary:
  assumes o: "ordinary s sz"
  shows "raw_name posix (header s sz) = Inr (ts_name s)"
proof -
  have "text_field (header s sz) 0 100 = Inr (ts_name s)"
    by (rule text_field_padded [OF header_slices(2) [OF o]]) (use o in \<open>simp add: ordinary_def\<close>)
  moreover have "text_field (header s sz) 345 155 = Inr ''''"
    using text_field_padded [of "header s sz" 345 155 "[]" 155] header_slices(8) [OF o] by simp
  ultimately show ?thesis by (simp add: raw_name_def)
qed

lemma header_not_zero:
  assumes o: "ordinary s sz"
  shows "\<not> list_all (\<lambda>b. b = NUL) (header s sz)"
proof
  assume "list_all (\<lambda>b. b = NUL) (header s sz)"
  then have "list_all (\<lambda>b. b = NUL) (slice (header s sz) 100 8)"
    by (auto simp: list_all_iff slice_def dest!: in_set_takeD in_set_dropD)
  then show False unfolding header_slices(3) [OF o] by (simp add: mode_bytes_def split: if_splits)
qed

text \<open>What \<open>onHeader\<close> does with an ordinary header: it counts the entry and looks at its type only.\<close>

lemma on_header_ordinary:
  assumes o: "ordinary s sz" and lim: "p_entries p < max_entries (o_limits opts)"
    and t: "type_char s = CHR ''0'' \<or> type_char s = CHR ''5'' \<or> type_char s = CHR ''x''"
  shows "on_header opts (header s sz) p =
    (let p = p\<lparr>p_entries := Suc (p_entries p)\<rparr>
     in if type_char s = CHR ''x'' then on_pax_header opts (header s sz) p
        else on_entry opts (or_default (ts_format s) Posix = Posix)
               (if type_char s = CHR ''5'' then Directory else File) (header s sz) p)"
proof -
  let ?h = "header s sz"
  have len: "length ?h = 512" by (rule header_slices(1) [OF o])
  have magic: "slice ?h 257 8 = magic_text (or_default (ts_format s) Posix)" by (rule header_slices(7) [OF o])
  have posix: "(slice ?h 257 8 = posix_magic) = (or_default (ts_format s) Posix = Posix)"
    "slice ?h 257 8 = posix_magic \<or> slice ?h 257 8 = gnu_magic"
    unfolding magic using o
    by (auto simp: ordinary_def or_default_def magic_text_def posix_magic_def gnu_magic_def
        split: option.splits tar_format.splits)
  have type: "?h ! 156 = type_char s"
    using header_slices(6) [OF o] nth_slice [of 156 ?h] len by simp
  have mode: "octal_field ?h 100 8 = Inr (if ts_type s = Some ''5'' then 493 else 420)"
    by (rule octal_field_mode [OF o])
  have r: "refused_type (type_char s) = None" using t by (auto simp: refused_type_def)
  have nz: "type_char s \<noteq> NUL" using t by auto
  have rx: "refused_type CHR ''x'' = None" by (simp add: refused_type_def)
  show ?thesis
    using t lim nz posix(2)
    unfolding on_header_def Let_def octal_field_checksum [OF o] mode type posix(1)
    by (auto simp: header_not_zero [OF o] r rx)
qed

section \<open>Entries read back\<close>

text \<open>Between two entries.\<close>

definition between :: "'w parser \<Rightarrow> bool" where
  "between p \<longleftrightarrow> p_state p = SHeader \<and> p_header p = [] \<and> p_pax p = None \<and> p_pax_chunks p = None \<and>
     p_file p = None \<and> p_companion p = None \<and> p_provenance p = []"

text \<open>The specification \<open>s\<close> writes the entry \<open>path\<close>, of this kind and with this data.\<close>

definition writes_entry :: "tar_spec \<Rightarrow> string \<Rightarrow> entry_kind \<Rightarrow> buffer \<Rightarrow> bool" where
  "writes_entry s path kind data \<longleftrightarrow>
     ordinary s (length data) \<and> ts_pax s = None \<and> ts_size s = None \<and>
     (case ts_data s of None \<Rightarrow> [] | Some c \<Rightarrow> content_bytes c) = data \<and>
     type_char s = (case kind of File \<Rightarrow> CHR ''0'' | Directory \<Rightarrow> CHR ''5'') \<and>
     entry_path (ts_name s) kind = path \<and> plain_path path \<and> (kind = Directory \<longrightarrow> data = [])"

text \<open>The parser after an entry it accepted.\<close>

definition entry_read ::
  "(buffer \<Rightarrow> string) \<Rightarrow> string \<Rightarrow> entry_kind \<Rightarrow> buffer \<Rightarrow> member_tree \<Rightarrow> 'w parser \<Rightarrow> 'w parser \<Rightarrow> bool" where
  "entry_read sha path kind data t p q \<longleftrightarrow>
     between q \<and> p_tree q = t \<and> p_entries q = Suc (p_entries p) \<and> p_metadata q = p_metadata p \<and>
     p_members q = p_members p @
       (case kind of File \<Rightarrow> [\<lparr>m_path = path, m_bytes = length data, m_sha256 = sha data\<rparr>] | Directory \<Rightarrow> []) \<and>
     p_directories q = p_directories p @ (case kind of File \<Rightarrow> [] | Directory \<Rightarrow> [path]) \<and>
     p_file_bytes q = p_file_bytes p + length data"

lemma plain_path_ne: "plain_path path \<Longrightarrow> path \<noteq> ''''"
  using member_path_not_absolute by (auto simp: plain_path_def)

text \<open>The open file of an entry whose header has been read and whose data has not.\<close>

abbreviation opened :: "string \<Rightarrow> nat \<Rightarrow> file_state" where
  "opened path sz \<equiv> \<lparr>f_path = path, f_bytes = sz, f_data = [], f_sink = True, f_bodies = None\<rparr>"

lemma on_header_file:
  assumes w: "writes_entry s path File data" and b: "between p"
    and lim: "p_entries p < max_entries l" and e: "expected (scan_opts l sha want wm) path (length data)"
    and t: "tree_add path File (p_tree p) = (None, t)" and total: "p_file_bytes p + length data \<le> max_total_bytes l"
  shows "on_header (scan_opts l sha want wm) (header s (length data)) p =
    start_data (scan_opts l sha want wm) (length data)
      (p\<lparr>p_entries := Suc (p_entries p), p_tree := t, p_file_bytes := p_file_bytes p + length data,
         p_file := Some (opened path (length data))\<rparr>)"
proof -
  have o: "ordinary s (length data)" and type: "type_char s = CHR ''0''"
    and path: "entry_path (ts_name s) File = path" and plain: "plain_path path"
    using w by (simp_all add: writes_entry_def)
  have ne: "path \<noteq> ''''" by (rule plain_path_ne [OF plain])
  let ?p = "p\<lparr>p_entries := Suc (p_entries p)\<rparr>"
  have pax: "?p\<lparr>p_pax := None\<rparr> = ?p" using b by (cases p) (simp add: between_def)
  have "on_header (scan_opts l sha want wm) (header s (length data)) p =
      dispatch (scan_opts l sha want wm) (ts_name s) File (length data) None ?p"
    using on_header_ordinary [OF o, of p "scan_opts l sha want wm"] lim type b pax
    by (simp add: Let_def on_entry_def raw_name_ordinary [OF o] size_field_ordinary [OF o] pax_size_def between_def
        scan_opts_def)
  also have "\<dots> = on_plain (scan_opts l sha want wm) path File (length data) ?p"
    using ne plain b unfolding dispatch_def Let_def path
    by (simp add: companion_check_def between_def has_provenance_def plain_path_def)
  also have "\<dots> = on_member (scan_opts l sha want wm) path (length data) (?p\<lparr>p_tree := t\<rparr>)"
    using ne plain t by (simp add: on_plain_def plain_path_def Let_def)
  also have "\<dots> = start_data (scan_opts l sha want wm) (length data)
      (?p\<lparr>p_tree := t, p_file_bytes := p_file_bytes p + length data, p_file := Some (opened path (length data))\<rparr>)"
  proof -
    have "(case o_expect (scan_opts l sha want wm) of None \<Rightarrow> Inr ()
        | Some want \<Rightarrow> (case want path of
            None \<Rightarrow> Inl (refuse ARCHIVE_MEMBER_MISMATCH ''UNEXPECTED_MEMBER'')
          | Some w \<Rightarrow> guardE (w = length data) (refuse ARCHIVE_MEMBER_MISMATCH ''SIZE_MISMATCH''))) = Inr ()"
      using e by (auto simp: expected_def split: option.split)
    then show ?thesis using total unfolding on_member_def Let_def
      by (cases p) (simp add: scan_opts_def)
  qed
  finally show ?thesis by simp
qed

lemma on_header_directory:
  assumes w: "writes_entry s path Directory data" and b: "between p"
    and lim: "p_entries p < max_entries l"
    and t: "tree_add path Directory (p_tree p) = (None, t)"
  shows "on_header (scan_opts l sha want wm) (header s (length data)) p =
    start_data (scan_opts l sha want wm) 0
      (p\<lparr>p_entries := Suc (p_entries p), p_tree := t, p_directories := p_directories p @ [path]\<rparr>)"
proof -
  have o: "ordinary s (length data)" and type: "type_char s = CHR ''5''" and d: "data = []"
    and path: "entry_path (ts_name s) Directory = path" and plain: "plain_path path"
    using w unfolding writes_entry_def by auto
  have ne: "path \<noteq> ''''" by (rule plain_path_ne [OF plain])
  let ?p = "p\<lparr>p_entries := Suc (p_entries p)\<rparr>"
  have pax: "?p\<lparr>p_pax := None\<rparr> = ?p" using b by (cases p) (simp add: between_def)
  have "on_header (scan_opts l sha want wm) (header s (length data)) p =
      dispatch (scan_opts l sha want wm) (ts_name s) Directory (length data) None ?p"
    using on_header_ordinary [OF o, of p "scan_opts l sha want wm"] lim type b pax
    by (simp add: Let_def on_entry_def raw_name_ordinary [OF o] size_field_ordinary [OF o] pax_size_def between_def
        scan_opts_def)
  also have "\<dots> = on_plain (scan_opts l sha want wm) path Directory 0 ?p"
    using ne plain b d unfolding dispatch_def Let_def path
    by (simp add: companion_check_def between_def has_provenance_def plain_path_def)
  also have "\<dots> = start_data (scan_opts l sha want wm) 0
      (?p\<lparr>p_tree := t, p_directories := p_directories p @ [path]\<rparr>)"
    using ne plain t by (cases p) (simp add: on_plain_def plain_path_def Let_def scan_opts_def)
  finally show ?thesis by simp
qed

text \<open>One step of the loop that takes its whole chunk.\<close>

lemma feed_loop_one:
  "chunk \<noteq> [] \<Longrightarrow> feed_step opts p chunk = Inr (q, []) \<Longrightarrow> feed_loop opts p chunk = Some (Inr q)"
  by (subst feed_loop.simps) simp

lemma feed_header:
  assumes "p_state p = SHeader" and "p_header p = []" and "length h = 512" and "on_header opts h p = Inr q"
  shows "feed_loop opts p h = Some (Inr (q\<lparr>p_offset := p_offset q + 512\<rparr>))"
proof -
  have e: "p\<lparr>p_header := []\<rparr> = p" using assms(2) by (cases p) simp
  have "on_header opts h (p\<lparr>p_header := []\<rparr>) = Inr q" unfolding e by (rule assms(4))
  with assms have "feed_step opts p h = Inr (q\<lparr>p_offset := p_offset q + 512\<rparr>, [])"
    by (simp add: feed_step_def Let_def)
  with assms(3) show ?thesis by (intro feed_loop_one) auto
qed

lemma feed_padding:
  assumes "p_state p = (if p_padding p = 0 then SHeader else SPadding)"
  shows "\<exists>q. feed_loop opts p (replicate (p_padding p) NUL) = Some (Inr q) \<and>
    q = p\<lparr>p_padding := 0, p_offset := p_offset p + p_padding p, p_state := SHeader\<rparr>"
proof (cases "p_padding p = 0")
  case True
  with assms show ?thesis by (cases p) simp
next
  case False
  with assms have "feed_step opts p (replicate (p_padding p) NUL) =
      Inr (p\<lparr>p_padding := 0, p_offset := p_offset p + p_padding p, p_state := SHeader\<rparr>, [])"
    by (simp add: feed_step_def Let_def)
  with False show ?thesis by (intro exI conjI feed_loop_one) auto
qed

text \<open>The data of a file and its padding, once its header has been read.\<close>

lemma feed_file_data:
  assumes q0: "p_file p = Some (opened path (length data))" and px: "p_pax_chunks p = None"
    and ok: "start_data (scan_opts l sha want wm) (length data) p = Inr p1"
    and wf: "parser_wf (p1\<lparr>p_offset := n\<rparr>)"
  shows "\<exists>q. feed_loop (scan_opts l sha want wm) (p1\<lparr>p_offset := n\<rparr>) (padded data) = Some (Inr q) \<and>
    p_state q = SHeader \<and> p_file q = None \<and> p_pax_chunks q = None \<and> p_header q = p_header p \<and>
    p_pax q = p_pax p \<and> p_companion q = p_companion p \<and> p_provenance q = p_provenance p \<and>
    p_tree q = p_tree p \<and> p_entries q = p_entries p \<and> p_metadata q = p_metadata p \<and>
    p_directories q = p_directories p \<and> p_file_bytes q = p_file_bytes p \<and>
    p_members q = p_members p @ [\<lparr>m_path = path, m_bytes = length data, m_sha256 = sha data\<rparr>]"
proof (cases "data = []")
  case True
  with ok q0 px have "p1 = p\<lparr>p_remaining := 0, p_padding := 0, p_file := None,
      p_members := p_members p @ [\<lparr>m_path = path, m_bytes = 0, m_sha256 = sha []\<rparr>], p_state := SHeader\<rparr>"
    by (cases p) (auto simp: start_data_def Let_def end_data_def end_file_data_def scan_opts_def)
  then show ?thesis using True px by (simp add: padded_def)
next
  case ne: False
  let ?pad = "(512 - length data mod 512) mod 512"
  let ?o = "scan_opts l sha want wm"
  from ne ok have p1: "p1 = p\<lparr>p_remaining := length data, p_padding := ?pad, p_state := SData\<rparr>"
    by (simp add: start_data_def Let_def)
  let ?q1 = "p1\<lparr>p_offset := n\<rparr>"
  let ?q2 = "p\<lparr>p_remaining := 0, p_padding := ?pad, p_state := if ?pad = 0 then SHeader else SPadding,
      p_offset := n + length data, p_file := None,
      p_members := p_members p @ [\<lparr>m_path = path, m_bytes = length data, m_sha256 = sha data\<rparr>]\<rparr>"
  have "feed_step ?o ?q1 data = Inr (?q2, [])"
    using q0 px unfolding p1
    by (cases p) (simp add: feed_step_def Let_def take_data_def end_data_def end_file_data_def scan_opts_def)
  then have d: "feed_loop ?o ?q1 data = Some (Inr ?q2)" by (rule feed_loop_one [OF ne])
  obtain q where q: "feed_loop ?o ?q2 (replicate ?pad NUL) = Some (Inr q)"
    "q = ?q2\<lparr>p_padding := 0, p_offset := p_offset ?q2 + ?pad, p_state := SHeader\<rparr>"
    using feed_padding [of ?q2 ?o] by auto
  have "feed_loop ?o ?q1 (padded data) = Some (Inr q)"
    unfolding padded_def scan.feed_loop_append [OF wf] d using q(1) by simp
  then show ?thesis using px by (simp add: q(2))
qed

lemma padded_Nil [simp]: "padded [] = []"
  by (simp add: padded_def)

lemma entry_bytes_written:
  "writes_entry s path kind data \<Longrightarrow> entry_bytes s = Some (header s (length data) @ padded data)"
  by (simp add: entry_bytes_def writes_entry_def or_default_def Let_def)

lemma read_entry:
  assumes w: "writes_entry s path kind data" and b: "between p" and wf: "parser_wf p"
    and lim: "p_entries p < max_entries l"
    and e: "kind = File \<Longrightarrow> expected (scan_opts l sha want wm) path (length data)"
    and t: "tree_add path kind (p_tree p) = (None, t)"
    and total: "p_file_bytes p + length data \<le> max_total_bytes l"
    and bytes: "entry_bytes s = Some es"
  shows "\<exists>q. feed_loop (scan_opts l sha want wm) p es = Some (Inr q) \<and> parser_wf q \<and>
    entry_read sha path kind data t p q"
proof -
  let ?o = "scan_opts l sha want wm"
  have es: "es = header s (length data) @ padded data" using entry_bytes_written [OF w] bytes by simp
  have len: "length (header s (length data)) = 512"
    using w header_slices(1) by (simp add: writes_entry_def)
  have st: "p_state p = SHeader" "p_header p = []" using b by (simp_all add: between_def)
  show ?thesis
  proof (cases kind)
    case File
    let ?p = "p\<lparr>p_entries := Suc (p_entries p), p_tree := t, p_file_bytes := p_file_bytes p + length data,
         p_file := Some (opened path (length data))\<rparr>"
    have px: "p_pax_chunks ?p = None" using b by (simp add: between_def)
    obtain p1 where p1: "start_data ?o (length data) ?p = Inr p1"
      using px by (cases "data = []")
        (auto simp: start_data_def Let_def end_data_def end_file_data_def scan_opts_def)
    have h: "on_header ?o (header s (length data)) p = Inr p1"
      using on_header_file [OF w [unfolded File] b lim e [OF File] t [unfolded File] total] p1 by simp
    have f: "feed_loop ?o p (header s (length data)) = Some (Inr (p1\<lparr>p_offset := p_offset p1 + 512\<rparr>))"
      by (rule feed_header [OF st len h])
    then have wf1: "parser_wf (p1\<lparr>p_offset := p_offset p1 + 512\<rparr>)"
      using feed_loop_total [OF wf, of ?o "header s (length data)"] by simp
    have fl: "p_file ?p = Some (opened path (length data))" by simp
    from feed_file_data [OF fl px p1 wf1] obtain q where q:
      "feed_loop ?o (p1\<lparr>p_offset := p_offset p1 + 512\<rparr>) (padded data) = Some (Inr q)"
      "p_state q = SHeader \<and> p_file q = None \<and> p_pax_chunks q = None \<and> p_header q = p_header ?p \<and>
       p_pax q = p_pax ?p \<and> p_companion q = p_companion ?p \<and> p_provenance q = p_provenance ?p \<and>
       p_tree q = p_tree ?p \<and> p_entries q = p_entries ?p \<and> p_metadata q = p_metadata ?p \<and>
       p_directories q = p_directories ?p \<and> p_file_bytes q = p_file_bytes ?p \<and>
       p_members q = p_members ?p @ [\<lparr>m_path = path, m_bytes = length data, m_sha256 = sha data\<rparr>]"
      by blast
    have "feed_loop ?o p es = Some (Inr q)"
      unfolding es scan.feed_loop_append [OF wf] f using q(1) by simp
    moreover have "parser_wf q" using q(2) st by (simp add: parser_wf_def state_ok_def)
    moreover have "entry_read sha path kind data t p q"
      using q(2) b File by (simp add: entry_read_def between_def)
    ultimately show ?thesis by blast
  next
    case Directory
    have d: "data = []" using w Directory by (simp add: writes_entry_def)
    let ?p = "p\<lparr>p_entries := Suc (p_entries p), p_tree := t, p_directories := p_directories p @ [path]\<rparr>"
    let ?q = "?p\<lparr>p_remaining := 0, p_padding := 0, p_state := SHeader\<rparr>"
    have "start_data ?o 0 ?p = Inr ?q"
      using b by (simp add: start_data_def end_data_def between_def Let_def)
    then have h: "on_header ?o (header s (length data)) p = Inr ?q"
      using on_header_directory [OF w [unfolded Directory] b lim t [unfolded Directory]] by simp
    from feed_header [OF st len h] have "feed_loop ?o p es = Some (Inr (?q\<lparr>p_offset := p_offset ?q + 512\<rparr>))"
      unfolding es d by simp
    moreover have "parser_wf (?q\<lparr>p_offset := p_offset ?q + 512\<rparr>)"
      using st by (simp add: parser_wf_def state_ok_def)
    moreover have "entry_read sha path kind data t p (?q\<lparr>p_offset := p_offset ?q + 512\<rparr>)"
      using b Directory d by (simp add: entry_read_def between_def)
    ultimately show ?thesis by blast
  qed
qed

section \<open>Archives read back\<close>

text \<open>An entry to write: its specification, and the path, kind and data it stands for.\<close>

type_synonym written = "tar_spec \<times> string \<times> entry_kind \<times> buffer"

definition written_files :: "(buffer \<Rightarrow> string) \<Rightarrow> written list \<Rightarrow> scanned_member list" where
  "written_files sha xs =
     concat (map (\<lambda>(s, path, kind, data). case kind of Directory \<Rightarrow> []
       | File \<Rightarrow> [\<lparr>m_path = path, m_bytes = length data, m_sha256 = sha data\<rparr>]) xs)"

definition written_directories :: "written list \<Rightarrow> string list" where
  "written_directories xs =
     concat (map (\<lambda>(s, path, kind, data). case kind of Directory \<Rightarrow> [path] | File \<Rightarrow> []) xs)"

definition written_entries :: "written list \<Rightarrow> (string \<times> entry_kind) list" where
  "written_entries xs = map (\<lambda>(s, path, kind, data). (path, kind)) xs"

definition written_total :: "written list \<Rightarrow> nat" where
  "written_total xs = sum_list (map (\<lambda>(s, path, kind, data). length data) xs)"

definition written_ok :: "(string \<rightharpoonup> nat) option \<Rightarrow> written list \<Rightarrow> bool" where
  "written_ok want xs \<longleftrightarrow>
     list_all (\<lambda>(s, path, kind, data). writes_entry s path kind data \<and>
       (kind = File \<longrightarrow> (case want of None \<Rightarrow> True | Some w \<Rightarrow> w path = Some (length data)))) xs"

lemma read_entries:
  assumes "written_ok want xs" and "between p" and "parser_wf p"
    and "p_entries p + length xs \<le> max_entries l"
    and "p_file_bytes p + written_total xs \<le> max_total_bytes l"
    and "foldE tree_step (p_tree p) (written_entries xs) = Inr t"
    and "entries_bytes (map fst xs) = Some b"
  shows "\<exists>q. feed_loop (scan_opts l sha want wm) p b = Some (Inr q) \<and> parser_wf q \<and> between q \<and> p_tree q = t \<and>
    p_metadata q = p_metadata p \<and> p_members q = p_members p @ written_files sha xs \<and>
    p_directories q = p_directories p @ written_directories xs"
  using assms
proof (induction xs arbitrary: p b)
  case Nil
  then show ?case by (simp add: written_files_def written_directories_def written_entries_def)
next
  case (Cons x xs)
  obtain s path kind data where x: "x = (s, path, kind, data)" by (cases x)
  let ?o = "scan_opts l sha want wm"
  from Cons.prems(1) x have w: "writes_entry s path kind data" and ok: "written_ok want xs"
    and e: "kind = File \<Longrightarrow> expected ?o path (length data)"
    by (auto simp: written_ok_def expected_def scan_opts_def)
  from Cons.prems(6) x obtain t1 where t1: "tree_add path kind (p_tree p) = (None, t1)"
    "foldE tree_step t1 (written_entries xs) = Inr t"
    by (auto simp: written_entries_def tree_step_Inr elim!: bindE_InrE)
  from Cons.prems(7) x obtain b1 b2 where b: "entry_bytes s = Some b1" "entries_bytes (map fst xs) = Some b2"
    "b = b1 @ b2" by (auto split: option.splits)
  have "p_entries p < max_entries l" "p_file_bytes p + length data \<le> max_total_bytes l"
    using Cons.prems(4,5) x by (simp_all add: written_total_def)
  from read_entry [OF w Cons.prems(2,3) this(1) e t1(1) this(2) b(1)] obtain q where q: "feed_loop ?o p b1 = Some (Inr q)"
    "parser_wf q" "entry_read sha path kind data t1 p q" by blast
  have q': "between q" "p_entries q + length xs \<le> max_entries l"
    "p_file_bytes q + written_total xs \<le> max_total_bytes l"
    "foldE tree_step (p_tree q) (written_entries xs) = Inr t"
    using q(3) Cons.prems(4,5) x t1(2) by (simp_all add: entry_read_def written_total_def)
  from Cons.IH [OF ok q'(1) q(2) q'(2,3,4) b(2)] obtain r where r: "feed_loop ?o q b2 = Some (Inr r)"
    "parser_wf r" "between r" "p_tree r = t" "p_metadata r = p_metadata q"
    "p_members r = p_members q @ written_files sha xs"
    "p_directories r = p_directories q @ written_directories xs" by blast
  have "feed_loop ?o p b = Some (Inr r)"
    unfolding b(3) scan.feed_loop_append [OF Cons.prems(3)] q(1) using r(1) by simp
  then show ?case using r q(3) x
    by (cases kind) (simp_all add: entry_read_def written_files_def written_directories_def)
qed

lemma feed_end:
  assumes "between p"
  shows "\<exists>q. feed_loop opts p (replicate 1024 NUL) = Some (Inr q) \<and> p_state q = SEnd \<and> p_tree q = p_tree p \<and>
    p_members q = p_members p \<and> p_directories q = p_directories p \<and> p_metadata q = p_metadata p"
proof -
  let ?q = "p\<lparr>p_state := SEnd, p_offset := p_offset p + 512\<rparr>"
  have st: "p_state p = SHeader" "p_header p = []" using assms by (simp_all add: between_def)
  have e: "p\<lparr>p_header := []\<rparr> = p" using st by (cases p) simp
  have zero: "list_all (\<lambda>b. b = NUL) (replicate 512 NUL)" by (simp add: list_all_iff)
  have oh: "on_header opts (replicate 512 NUL) (p\<lparr>p_header := []\<rparr>) = Inr (p\<lparr>p_state := SEnd\<rparr>)"
    unfolding e on_header_def using assms zero by (simp add: end_of_archive_def between_def)
  have s1: "feed_step opts p (replicate 1024 NUL) = Inr (?q, replicate 512 NUL)"
    using st oh by (simp add: feed_step_def Let_def)
  let ?r = "?q\<lparr>p_offset := p_offset ?q + 512\<rparr>"
  have "feed_step opts ?q (replicate 512 NUL) = Inr (?r, [])"
    by (simp add: feed_step_def list_ex_iff)
  then have s2: "feed_loop opts ?q (replicate 512 NUL) = Some (Inr ?r)"
    by (intro feed_loop_one) auto
  have "feed_loop opts p (replicate 1024 NUL) = Some (Inr ?r)"
    by (subst feed_loop.simps) (use s1 s2 in simp)
  then show ?thesis by simp
qed

lemma entries_bytes_length:
  "entries_bytes (map fst xs) = Some b \<Longrightarrow> written_ok want xs \<Longrightarrow>
   length b \<le> length xs * 1024 + written_total xs"
proof (induction xs arbitrary: b)
  case (Cons x xs)
  obtain s path kind data where x: "x = (s, path, kind, data)" by (cases x)
  from Cons.prems(1) x obtain b1 b2 where b: "entry_bytes s = Some b1" "entries_bytes (map fst xs) = Some b2"
    "b = b1 @ b2" by (auto split: option.splits)
  have w: "writes_entry s path kind data" "written_ok want xs" using Cons.prems(2) x by (auto simp: written_ok_def)
  then have "length (header s (length data)) = 512" using header_slices(1) by (simp add: writes_entry_def)
  then have "length b1 \<le> 1024 + length data"
    using entry_bytes_written [OF w(1)] b(1) by (auto simp: padded_def)
  with Cons.IH [OF b(2) w(2)] show ?case by (simp add: b(3) x written_total_def)
qed (simp add: written_total_def)

lemma decompressed_limit_enough:
  assumes "length xs \<le> max_entries l" and "written_total xs \<le> max_total_bytes l"
  shows "length xs * 1024 + written_total xs + 1024 \<le> decompressed_limit l"
proof -
  have "length xs * 1024 \<le> max_entries l * (2 * 512 + max_pax_bytes l)"
    using assms(1) by (intro mult_le_mono) simp_all
  with assms(2) show ?thesis by (simp add: decompressed_limit_def)
qed

lemma read_archive:
  assumes ok: "written_ok want xs"
    and tree: "compatible (written_entries xs)"
    and full: "\<forall>d. (d, Directory) \<in> claims (written_entries xs) \<longrightarrow>
      (\<exists>q. (q, File) \<in> set (written_entries xs) \<and> d \<in> set (ancestor_paths q))"
    and limits: "length xs \<le> max_entries l" "written_total xs \<le> max_total_bytes l"
    and bytes: "tar_bytes (map fst xs) True [] = Some b" and chunks: "concat cs = b"
  shows "\<exists>p. feed_all (scan_opts l sha want wm) (0, new_parser ()) cs = Some (Inr (length b, p)) \<and>
    finish p = Inr () \<and> p_members p = written_files sha xs \<and>
    p_directories p = written_directories xs \<and> p_metadata p = []"
proof -
  let ?o = "scan_opts l sha want wm" and ?p = "new_parser ()"
  from bytes obtain e where e: "entries_bytes (map fst xs) = Some e" "b = e @ replicate 1024 NUL"
    by (auto simp: tar_bytes_def)
  from tree obtain t where t: "tree_adds (written_entries xs) = Inr t"
    using tree_adds_accepted by blast
  have new: "between ?p" "p_tree ?p = []" "p_entries ?p = 0" "p_file_bytes ?p = 0" "p_metadata ?p = []"
    "p_members ?p = []" "p_directories ?p = []"
    by (simp_all add: between_def new_parser_def)
  have start: "p_entries ?p + length xs \<le> max_entries l" "p_file_bytes ?p + written_total xs \<le> max_total_bytes l"
    "foldE tree_step (p_tree ?p) (written_entries xs) = Inr t"
    using limits t unfolding new tree_adds_def by simp_all
  obtain q where q: "feed_loop ?o ?p e = Some (Inr q)" "between q" "p_tree q = t"
    "p_metadata q = []" "p_members q = written_files sha xs" "p_directories q = written_directories xs"
    using read_entries [OF ok new(1) new_parser_wf start e(1), of sha wm] new(5-7) by auto
  obtain r where r: "feed_loop ?o q (replicate 1024 NUL) = Some (Inr r)" "p_state r = SEnd" "p_tree r = p_tree q"
    "p_members r = p_members q" "p_directories r = p_directories q" "p_metadata r = p_metadata q"
    using feed_end [OF q(2), of ?o] by blast
  have loop: "feed_loop ?o ?p (concat cs) = Some (Inr r)"
    unfolding chunks e(2) scan.feed_loop_append [OF new_parser_wf] q(1) using r(1) by simp
  have "length (concat cs) \<le> decompressed_limit (o_limits ?o)"
    using entries_bytes_length [OF e(1) ok] decompressed_limit_enough [OF limits] chunks e(2)
    by (simp add: scan_opts_def)
  then have "feed_all ?o (0, ?p) cs = Some (Inr (length b, r))"
    unfolding scan.feed_all_accepts [OF new_parser_wf] using loop chunks by simp
  moreover have "tree_finish t = None"
    using tree_finish_correct [OF tree_adds_rep [OF t]] full by blast
  then have "finish r = Inr ()" using r(2,3) q(3) by (simp add: finish_def)
  ultimately show ?thesis using r(4-6) q(4-6) by (intro exI [of _ r] conjI) simp_all
qed

section \<open>Properties\<close>

text \<open>C1: What TarParser accepts is a safe archive: once a stream was fed without a refusal and finish returned,
  the entries are distinct up to case with no file on the way to another, every directory leads to a file,
  every member has a canonical non-AppleDouble path, the record's size and the digest of data of that size,
  every AppleDouble entry is one of the policy's paths with an allowed body, the members' total and the number
  of entries are within the limits, and the provenance record is on all eight entries or on none.\<close>

theorem accepted_archive:
  assumes "feed_all opts (0, new_parser w) cs = Some (Inr s)" and "finish (snd s) = Inr ()"
  shows "archive_ok opts (snd s)"
  by (rule accepted_archive_ok [OF assms])


text \<open>PAX records written by paxData are read back by parsePax: the length loop of the writer always ends, and
  records with distinct non-empty keys without "=" and decodable values come back key for key and value for value.\<close>

theorem pax_round_trip:
  assumes "pax_records_ok rs"
  shows "\<exists>b. pax_data rs = Some b \<and>
    parse_pax b = Inr (map (\<lambda>(k, v). (codes k, the (pax_value k v))) rs)"
proof -
  obtain b where b: "pax_data rs = Some b" using pax_data_total by blast
  from parse_pax_from_data [OF b assms, of "[]"] b show ?thesis by (simp add: parse_pax_def)
qed

theorem pax_round_trip_witness:
  "\<exists>b. pax_data [(''path'', Text ''a.bin''), (provenance_pax_key, Bytes provenance_value)] = Some b \<and>
    parse_pax b = Inr [(codes ''path'', codes ''a.bin''), (codes provenance_pax_key, [])]"
proof -
  let ?rs = "[(''path'', Text ''a.bin''), (provenance_pax_key, Bytes provenance_value)]"
  have ok: "pax_records_ok ?rs" by code_simp
  have "map (\<lambda>(k, v). (codes k, the (pax_value k v))) ?rs =
      [(codes ''path'', codes ''a.bin''), (codes provenance_pax_key, [])]" by code_simp
  with pax_round_trip [OF ok] show ?thesis by simp
qed

text \<open>One file in one directory: what the two archive properties are witnessed on.\<close>

definition sample :: "written list" where
  "sample =
     [((plain_spec ''./keys/'')\<lparr>ts_type := Some ''5''\<rparr>, ''keys'', Directory, []),
      ((plain_spec ''keys/vk.bin'')\<lparr>ts_data := Some (Text ''key'')\<rparr>, ''keys/vk.bin'', File, ''key'')]"

lemma sample_paths: "plain_path ''keys''" "plain_path ''keys/vk.bin''"
  by code_simp+

lemma sample_names: "entry_path ''./keys/'' Directory = ''keys''" "entry_path ''keys/vk.bin'' File = ''keys/vk.bin''"
  by code_simp+

lemma sample_ok: "written_ok None sample" "length sample \<le> max_entries default_limits"
  "written_total sample \<le> max_total_bytes default_limits"
  by (simp_all add: written_ok_def sample_def writes_entry_def ordinary_def plain_spec_def default_limits_def
      octal_max_size_def type_char_def or_default_def sample_paths sample_names written_total_def
      utf8_bytes_def)

lemma sample_tree: "compatible (written_entries sample)"
  "\<forall>d. (d, Directory) \<in> claims (written_entries sample) \<longrightarrow>
    (\<exists>q. (q, File) \<in> set (written_entries sample) \<and> d \<in> set (ancestor_paths q))"
proof -
  have e: "written_entries sample = [(''keys'', Directory), (''keys/vk.bin'', File)]" by code_simp
  obtain t where t: "tree_adds (written_entries sample) = Inr t" "tree_finish t = None"
  proof
    let ?t = "[(''keys'', \<lparr>n_exact = ''keys'', n_kind = Directory, n_explicit = True, n_has_file = True\<rparr>),
      (''keys/vk.bin'', \<lparr>n_exact = ''keys/vk.bin'', n_kind = File, n_explicit = True, n_has_file = False\<rparr>)]"
    show "tree_adds (written_entries sample) = Inr ?t" "tree_finish ?t = None" by code_simp+
  qed
  then show "compatible (written_entries sample)" using tree_adds_accepted by blast
  from tree_finish_correct [OF tree_adds_rep [OF t(1)]] t(2)
  show "\<forall>d. (d, Directory) \<in> claims (written_entries sample) \<longrightarrow>
    (\<exists>q. (q, File) \<in> set (written_entries sample) \<and> d \<in> set (ancestor_paths q))" by blast
qed

lemma sample_bytes: "\<exists>b. tar_bytes (map fst sample) True [] = Some b"
proof -
  have "entry_bytes ((plain_spec ''./keys/'')\<lparr>ts_type := Some ''5''\<rparr>) \<noteq> None"
    "entry_bytes ((plain_spec ''keys/vk.bin'')\<lparr>ts_data := Some (Text ''key'')\<rparr>) \<noteq> None"
    by (simp_all add: plain_spec_def entry_bytes_def Let_def)
  then have "entries_bytes (map fst sample) \<noteq> None"
    unfolding sample_def by (auto split: option.splits)
  then show ?thesis by (auto simp: tar_bytes_def)
qed


theorem accepted_archive_witness:
  "\<exists>b n p. feed_all (scan_opts default_limits (\<lambda>d. num_string 10 (length d)) None None) (0, new_parser ()) [b] =
      Some (Inr (n, p)) \<and> finish p = Inr () \<and> length (p_members p) = 1 \<and>
    archive_ok (scan_opts default_limits (\<lambda>d. num_string 10 (length d)) None None) p"
proof -
  let ?sha = "\<lambda>d :: buffer. num_string 10 (length d)"
  let ?o = "scan_opts default_limits ?sha None None"
  obtain b where b: "tar_bytes (map fst sample) True [] = Some b" using sample_bytes by blast
  from read_archive [OF sample_ok(1) sample_tree sample_ok(2,3) b, of "[b]" ?sha None]
  obtain p where p: "feed_all ?o (0, new_parser ()) [b] = Some (Inr (length b, p))" "finish p = Inr ()"
    "p_members p = written_files ?sha sample" by auto
  have "length (written_files ?sha sample) = 1" by code_simp
  moreover have "archive_ok ?o p" using accepted_archive [OF p(1)] p(2) by simp
  ultimately show ?thesis using p by (intro exI [of _ b] exI [of _ "length b"] exI [of _ p] conjI) simp_all
qed

end
