(* ===== verification/Containment_Window.thy ===== *)
theory Containment_Window
  imports Vault_Prelude
begin

text \<open>
  \<open>worstRollingWindow\<close> of \<open>prototype/vnext-kernel/stateful/invariants.ts\<close>: the window of 30 days
  that holds the most contained time, looked for at finitely many origins only. The main lemma is
  that no origin whatever does better.
\<close>

section \<open>The code\<close>

record containment_episode =
  ce_start :: int
  ce_end :: int

definition CONTAINMENT_WINDOW :: int where
  "CONTAINMENT_WINDOW = 30 * 86400"

record window =
  w_from :: int
  w_total :: int

text \<open>The overlap of one episode with the window from \<open>a\<close>, as the inner loop adds it.\<close>

definition overlap :: "int \<Rightarrow> containment_episode \<Rightarrow> int" where
  "overlap a e =
     (let lo = (if ce_start e > a then ce_start e else a);
          hi = (if ce_end e < a + CONTAINMENT_WINDOW then ce_end e else a + CONTAINMENT_WINDOW)
      in if hi > lo then hi - lo else 0)"

definition window_total :: "containment_episode list \<Rightarrow> int \<Rightarrow> int" where
  "window_total es a = fold (\<lambda>e total. total + overlap a e) es 0"

text \<open>The set of origins, in the order its elements were first added.\<close>

definition origins :: "containment_episode list \<Rightarrow> int list" where
  "origins es = rev (remdups (rev (concat (map (\<lambda>e.
     [ce_start e, ce_end e, ce_start e - CONTAINMENT_WINDOW, ce_end e - CONTAINMENT_WINDOW]) es))))"

definition worst_rolling_window :: "containment_episode list \<Rightarrow> window" where
  "worst_rolling_window es =
     fold (\<lambda>a best. let total = window_total es a
                    in if total > w_total best then \<lparr>w_from = a, w_total = total\<rparr> else best)
       (origins es) \<lparr>w_from = 0, w_total = 0\<rparr>"

section \<open>How the total moves with the origin\<close>

abbreviation W :: int where
  "W \<equiv> CONTAINMENT_WINDOW"

lemma W_pos: "0 < W"
  by (simp add: CONTAINMENT_WINDOW_def)

lemma window_total_sum: "window_total es a = sum_list (map (overlap a) es)"
proof -
  have "fold (\<lambda>e total. total + overlap a e) es t = t + sum_list (map (overlap a) es)" for t
    by (induction es arbitrary: t) simp_all
  then show ?thesis by (simp add: window_total_def)
qed

lemma overlap_nonneg: "0 \<le> overlap a e"
  by (simp add: overlap_def Let_def)

lemma window_total_nonneg: "0 \<le> window_total es a"
  unfolding window_total_sum by (induction es) (simp_all add: overlap_nonneg)

text \<open>Moving the origin one second to the right gains the second after the window and loses the first one.\<close>

definition inside :: "int \<Rightarrow> containment_episode \<Rightarrow> int" where
  "inside t e = (if ce_start e \<le> t \<and> t < ce_end e then 1 else 0)"

lemma overlap_step: "overlap (a + 1) e = overlap a e + inside (a + W) e - inside a e"
  using W_pos by (auto simp: overlap_def inside_def Let_def)

definition gain :: "containment_episode list \<Rightarrow> int \<Rightarrow> int" where
  "gain es a = sum_list (map (\<lambda>e. inside (a + W) e - inside a e) es)"

lemma window_total_step: "window_total es (a + 1) = window_total es a + gain es a"
  unfolding window_total_sum gain_def by (induction es) (simp_all add: overlap_step)

text \<open>The gain changes only at an origin the code looks at.\<close>

lemma set_origins:
  "set (origins es) = (\<Union>e \<in> set es. {ce_start e, ce_end e, ce_start e - W, ce_end e - W})"
  by (auto simp: origins_def)

lemma gain_const:
  assumes "a + 1 \<notin> set (origins es)"
  shows "gain es (a + 1) = gain es a"
proof -
  have "inside (a + 1 + W) e - inside (a + 1) e = inside (a + W) e - inside a e" if "e \<in> set es" for e
    using assms that unfolding set_origins inside_def by auto
  then show ?thesis unfolding gain_def by (intro arg_cong [of _ _ sum_list] map_cong) auto
qed

text \<open>Far from every episode nothing is contained.\<close>

lemma window_total_far:
  assumes "\<forall>e \<in> set es. ce_end e \<le> a \<or> a + W \<le> ce_start e"
  shows "window_total es a = 0"
proof -
  have "\<forall>e \<in> set es. overlap a e = 0" using assms by (auto simp: overlap_def Let_def)
  then show ?thesis unfolding window_total_sum by (induction es) simp_all
qed

lemma bound_exists: "\<exists>m. \<forall>e \<in> set es. - m \<le> f e \<and> f e \<le> (m :: int)"
proof (induction es)
  case (Cons e es)
  then obtain m where m: "\<forall>e \<in> set es. - m \<le> f e \<and> f e \<le> m" by blast
  have "\<forall>x \<in> set (e # es). - max m \<bar>f e\<bar> \<le> f x \<and> f x \<le> max m \<bar>f e\<bar>" using m by fastforce
  then show ?case by blast
qed simp

text \<open>While the gain is not negative, going right reaches an origin or the end of every episode.\<close>

lemma climb_right:
  assumes far: "\<forall>e \<in> set es. ce_end e \<le> m" and "a \<le> m" and "0 \<le> gain es a"
  shows "window_total es a = 0 \<or> (\<exists>b \<in> set (origins es). window_total es a \<le> window_total es b)"
  using assms(2,3)
proof (induction "nat (m - a)" arbitrary: a)
  case 0
  then have "window_total es a = 0" using far by (intro window_total_far) fastforce
  then show ?case ..
next
  case (Suc n)
  have up: "window_total es a \<le> window_total es (a + 1)" using Suc.prems(2) by (simp add: window_total_step)
  show ?case
  proof (cases "a + 1 \<in> set (origins es)")
    case True
    with up show ?thesis by blast
  next
    case False
    have "n = nat (m - (a + 1))" "a + 1 \<le> m" "0 \<le> gain es (a + 1)"
      using Suc.hyps(2) Suc.prems(2) gain_const [OF False] by linarith+
    from Suc.hyps(1) [OF this] up window_total_nonneg [of es a] show ?thesis by fastforce
  qed
qed

text \<open>While it is negative, going left does.\<close>

lemma climb_left:
  assumes far: "\<forall>e \<in> set es. m \<le> ce_start e - W" and "m \<le> a" and "gain es a < 0"
  shows "\<exists>b \<in> set (origins es). window_total es a \<le> window_total es b"
  using assms(2,3)
proof (induction "nat (a - m)" arbitrary: a)
  case 0
  then have "window_total es a = 0" using far by (intro window_total_far) fastforce
  moreover have "window_total es (a + 1) < window_total es a" using 0(3) by (simp add: window_total_step)
  ultimately show ?case using window_total_nonneg [of es "a + 1"] by simp
next
  case (Suc n)
  show ?case
  proof (cases "a \<in> set (origins es)")
    case True
    then show ?thesis by blast
  next
    case False
    then have g: "gain es a = gain es (a - 1)" using gain_const [of "a - 1" es] by simp
    have "window_total es a < window_total es (a - 1)"
      using window_total_step [of es "a - 1"] g Suc.prems(2) by simp
    moreover have "n = nat (a - 1 - m)" "m \<le> a - 1" "gain es (a - 1) < 0"
      using Suc.hyps(2) Suc.prems g by linarith+
    from Suc.hyps(1) [OF this] have "\<exists>b \<in> set (origins es). window_total es (a - 1) \<le> window_total es b" .
    ultimately show ?thesis by (meson less_imp_le order_trans)
  qed
qed

lemma origin_suffices:
  "window_total es a = 0 \<or> (\<exists>b \<in> set (origins es). window_total es a \<le> window_total es b)"
proof (cases "0 \<le> gain es a")
  case True
  obtain m where m: "\<forall>e \<in> set es. - m \<le> ce_end e \<and> ce_end e \<le> m" using bound_exists [of es ce_end] by blast
  then have "\<forall>e \<in> set es. ce_end e \<le> max m a" by fastforce
  from climb_right [OF this _ True] show ?thesis by simp
next
  case False
  obtain m where m: "\<forall>e \<in> set es. - m \<le> ce_start e - W \<and> ce_start e - W \<le> m"
    using bound_exists [of es "\<lambda>e. ce_start e - W"] by blast
  then have far: "\<forall>e \<in> set es. min (- m) a \<le> ce_start e - W" by fastforce
  from False have "gain es a < 0" by simp
  from climb_left [OF far _ this] show ?thesis by simp
qed

section \<open>The search finds the maximum\<close>

definition better :: "containment_episode list \<Rightarrow> int \<Rightarrow> window \<Rightarrow> window" where
  "better es a best =
     (let total = window_total es a
      in if total > w_total best then \<lparr>w_from = a, w_total = total\<rparr> else best)"

lemma worst_rolling_window_better:
  "worst_rolling_window es = fold (better es) (origins es) \<lparr>w_from = 0, w_total = 0\<rparr>"
  by (simp add: worst_rolling_window_def better_def [abs_def])

lemma fold_better:
  "w_total best \<le> w_total (fold (better es) os best) \<and>
   (\<forall>a \<in> set os. window_total es a \<le> w_total (fold (better es) os best)) \<and>
   (fold (better es) os best = best \<or>
    w_total (fold (better es) os best) = window_total es (w_from (fold (better es) os best)))"
proof (induction os arbitrary: best)
  case (Cons a os)
  have "w_total best \<le> w_total (better es a best)" "window_total es a \<le> w_total (better es a best)"
    "better es a best = best \<or> w_total (better es a best) = window_total es (w_from (better es a best))"
    by (simp_all add: better_def Let_def)
  with Cons [of "better es a best"] show ?case by (auto intro: order_trans)
qed simp

lemma worst_window_bound: "window_total es a \<le> w_total (worst_rolling_window es)"
proof -
  let ?best = "\<lparr>w_from = 0, w_total = 0\<rparr>"
  note f = fold_better [of ?best es "origins es", folded worst_rolling_window_better]
  from origin_suffices [of es a] show ?thesis using f by fastforce
qed

lemma worst_window_attained:
  "w_total (worst_rolling_window es) = window_total es (w_from (worst_rolling_window es))"
proof -
  let ?best = "\<lparr>w_from = 0, w_total = 0\<rparr>"
  note f = fold_better [of ?best es "origins es", folded worst_rolling_window_better]
  show ?thesis
  proof (cases "worst_rolling_window es = ?best")
    case True
    with worst_window_bound [of es 0] window_total_nonneg [of es 0] show ?thesis by simp
  next
    case False
    with f show ?thesis by blast
  qed
qed

section \<open>Properties\<close>

text \<open>C16: worstRollingWindow finds the worst window of all: no window of 30 days, from whatever instant, holds more
  contained time than the one it answers, and the one it answers holds exactly the total it answers, although it
  looks at the edges of the episodes only.\<close>

theorem worst_window_is_maximum:
  "(\<forall>a. window_total es a \<le> w_total (worst_rolling_window es)) \<and>
   w_total (worst_rolling_window es) = window_total es (w_from (worst_rolling_window es))"
  using worst_window_bound worst_window_attained by blast

end
