(* ===== verification/Kernel_Oracle.thy ===== *)
theory Kernel_Oracle
  imports Containment_Window
begin

text \<open>
  The observation layer of the stateful authority campaign,
  \<open>prototype/vnext-kernel/stateful/invariants.ts\<close>: the snapshot of the kernel's storage, the global
  invariants asserted after every step, and \<open>checkGlobals\<close>. What the chain answers is the record
  \<open>chain_reads\<close>. A check answers whether it reports a violation; the prose of its detail is not
  modelled. Bigints are integers, Solidity enum ordinals natural numbers.
\<close>

section \<open>Snapshots\<close>

record kernel_floor =
  require_pq :: bool
  pq_param_level :: int
  pq_public_key_length :: int
  pq_signature_length :: int

record recovery_slot =
  proposed_signer :: string
  proposed_pq_key_hash :: string
  proposed_verifier :: string
  executable_at :: int
  expires_at :: int
  bound_guardian_generation :: int
  challenges_used :: int
  active :: bool

record migration_slot =
  destination_vault :: string
  destination_vault_code_hash :: string
  destination_generation :: int
  bound_at :: int
  bound :: bool

record kernel_snapshot =
  safe_state_stored :: nat
  safe_state_effective :: nat
  contained_until :: int
  containment_window_start :: int
  containment_used_in_window :: int
  ecdsa_signer :: string
  pq_public_key_hash :: string
  commitment_attestable :: bool
  credential_generation :: int
  floor :: kernel_floor
  pq_verifier :: string
  pq_verifier_has_code :: bool
  policy_engine :: string
  guardian_commitment :: string
  guardian_threshold :: int
  guardian_generation :: int
  nonces :: "int list"
  recovery :: recovery_slot
  migration :: migration_slot
  native_balance :: int
  token_balance :: int
  block_timestamp :: int
  recovery_effectively_live :: bool

text \<open>What the getters, the code lookup, the balances and the latest block answer.\<close>

record chain_reads =
  rd_safe_state :: nat
  rd_effective_safe_state :: nat
  rd_contained_until :: int
  rd_containment_window_start :: int
  rd_containment_used_in_window :: int
  rd_ecdsa_signer :: string
  rd_pq_public_key_hash :: string
  rd_credential_generation :: int
  rd_security_floor :: kernel_floor
  rd_pq_verifier :: string
  rd_policy_engine :: string
  rd_guardian_commitment :: string
  rd_guardian_threshold :: int
  rd_guardian_generation :: int
  rd_recovery :: recovery_slot
  rd_migration :: migration_slot
  rd_nonce :: "nat \<Rightarrow> int"
  rd_code :: string
  rd_block_timestamp :: "int option"
  rd_token_balance :: int
  rd_native_balance :: int

definition ZERO :: string where
  "ZERO = ''0x'' @ replicate 40 CHR ''0''"

definition ZERO_HASH :: string where
  "ZERO_HASH = ''0x'' @ replicate 64 CHR ''0''"

text \<open>The commitments the campaign holds a preimage for: zero, the vault's own key's and the spares'.\<close>

definition attestable_commitments :: "string list \<Rightarrow> string list" where
  "attestable_commitments pq_hashes = ZERO_HASH # map lower pq_hashes"

definition snapshot :: "string list \<Rightarrow> chain_reads \<Rightarrow> kernel_snapshot" where
  "snapshot pq_hashes r =
     (let now = (case rd_block_timestamp r of None \<Rightarrow> 0 | Some t \<Rightarrow> t)
      in \<lparr>safe_state_stored = rd_safe_state r, safe_state_effective = rd_effective_safe_state r,
          contained_until = rd_contained_until r,
          containment_window_start = rd_containment_window_start r,
          containment_used_in_window = rd_containment_used_in_window r,
          ecdsa_signer = rd_ecdsa_signer r, pq_public_key_hash = rd_pq_public_key_hash r,
          commitment_attestable = lower (rd_pq_public_key_hash r) \<in> set (attestable_commitments pq_hashes),
          credential_generation = rd_credential_generation r, floor = rd_security_floor r,
          pq_verifier = rd_pq_verifier r, pq_verifier_has_code = (rd_code r \<noteq> ''0x''),
          policy_engine = rd_policy_engine r, guardian_commitment = rd_guardian_commitment r,
          guardian_threshold = rd_guardian_threshold r, guardian_generation = rd_guardian_generation r,
          nonces = [rd_nonce r 0, rd_nonce r 1, rd_nonce r 2, rd_nonce r 3],
          recovery = rd_recovery r, migration = rd_migration r,
          native_balance = rd_native_balance r, token_balance = rd_token_balance r,
          block_timestamp = now,
          recovery_effectively_live = (active (rd_recovery r) \<and> now < expires_at (rd_recovery r))\<rparr>)"

definition SAFE_NORMAL :: nat where "SAFE_NORMAL = 0"
definition SAFE_CONTAINED :: nat where "SAFE_CONTAINED = 1"
definition SAFE_RECOVERY_ONLY :: nat where "SAFE_RECOVERY_ONLY = 2"
definition SAFE_MIGRATION_ONLY :: nat where "SAFE_MIGRATION_ONLY = 3"
definition SAFE_RETIRED :: nat where "SAFE_RETIRED = 4"

section \<open>The global invariants\<close>

text \<open>
  \<open>check now prev\<close> is true when the invariant reports a violation. \<open>after prev P\<close> is the code's
  \<open>if (!p) return null\<close>.
\<close>

type_synonym check = "kernel_snapshot \<Rightarrow> kernel_snapshot option \<Rightarrow> bool"

definition after :: "kernel_snapshot option \<Rightarrow> (kernel_snapshot \<Rightarrow> bool) \<Rightarrow> bool" where
  "after prev P = (case prev of None \<Rightarrow> False | Some p \<Rightarrow> P p)"

definition g_signer_nonzero :: check where
  "g_signer_nonzero s prev = (ecdsa_signer s = ZERO)"

definition g_threshold_sane :: check where
  "g_threshold_sane s prev = (guardian_threshold s = 0)"

definition g_commitment_nonzero :: check where
  "g_commitment_nonzero s prev = (guardian_commitment s = ZERO_HASH)"

definition g_cred_generation_monotonic :: check where
  "g_cred_generation_monotonic s prev =
     after prev (\<lambda>p. credential_generation s < credential_generation p)"

definition g_guardian_generation_monotonic :: check where
  "g_guardian_generation_monotonic s prev =
     after prev (\<lambda>p. guardian_generation s < guardian_generation p)"

definition g_nonces_monotonic :: check where
  "g_nonces_monotonic s prev =
     after prev (\<lambda>p. list_ex (\<lambda>d. nonces s ! d < nonces p ! d) [0..<4])"

definition g_floor_no_downgrade :: check where
  "g_floor_no_downgrade s prev = after prev (\<lambda>p. require_pq (floor p) \<and> \<not> require_pq (floor s))"

definition g_verifier_has_code :: check where
  "g_verifier_has_code s prev = (\<not> pq_verifier_has_code s)"

definition g_migration_binding_wellformed :: check where
  "g_migration_binding_wellformed s prev =
     (bound (migration s) \<and>
      (destination_vault (migration s) = ZERO \<or> destination_vault_code_hash (migration s) = ZERO_HASH))"

definition g_migration_binding_immutable :: check where
  "g_migration_binding_immutable s prev =
     after prev (\<lambda>p.
       if \<not> bound (migration p) then False
       else if \<not> bound (migration s) then True
       else destination_vault (migration s) \<noteq> destination_vault (migration p) \<or>
            destination_vault_code_hash (migration s) \<noteq> destination_vault_code_hash (migration p))"

definition g_state_reachability :: check where
  "g_state_reachability s prev = (safe_state_stored s = SAFE_RECOVERY_ONLY)"

definition g_retired_is_terminal :: check where
  "g_retired_is_terminal s prev =
     after prev (\<lambda>p. safe_state_stored p = SAFE_RETIRED \<and> safe_state_stored s \<noteq> SAFE_RETIRED)"

definition g_effective_state_derivation :: check where
  "g_effective_state_derivation s prev =
     (let expected = (if safe_state_stored s = SAFE_CONTAINED \<and> contained_until s \<le> block_timestamp s
                      then SAFE_NORMAL else safe_state_stored s)
      in safe_state_effective s \<noteq> expected)"

definition CONTAINMENT_BUDGET :: int where
  "CONTAINMENT_BUDGET = 6 * 86400"

definition g_containment_budget_bounded :: check where
  "g_containment_budget_bounded s prev = (containment_used_in_window s > CONTAINMENT_BUDGET)"

definition g_recovery_active_wellformed :: check where
  "g_recovery_active_wellformed s prev =
     (active (recovery s) \<and> (proposed_signer (recovery s) = ZERO \<or> proposed_verifier (recovery s) = ZERO))"

definition g_challenge_cap :: check where
  "g_challenge_cap s prev = (challenges_used (recovery s) > 2)"

text \<open>A guardian recovery, recognised from two snapshots.\<close>

definition recovered_this_step :: "kernel_snapshot \<Rightarrow> kernel_snapshot \<Rightarrow> bool" where
  "recovered_this_step s p \<longleftrightarrow>
     active (recovery p) \<and> \<not> active (recovery s) \<and> proposed_signer (recovery s) = ZERO \<and>
     expires_at (recovery s) = 0 \<and> credential_generation s = credential_generation p + 1 \<and>
     lower (ecdsa_signer s) = lower (proposed_signer (recovery p)) \<and>
     lower (pq_verifier s) = lower (proposed_verifier (recovery p))"

definition g_challenge_epoch :: check where
  "g_challenge_epoch s prev =
     after prev (\<lambda>p.
       (let before = challenges_used (recovery p); now = challenges_used (recovery s)
        in if recovered_this_step s p then now \<noteq> 0
           else if now < before then True
           else now > before + 1))"

definition g_commitment_attested :: check where
  "g_commitment_attested s prev = (\<not> commitment_attestable s)"

definition g_pq_commitment_satisfiable :: check where
  "g_pq_commitment_satisfiable s prev = (require_pq (floor s) \<and> pq_public_key_hash s = ZERO_HASH)"

definition g_declaration_subordinate_to_recovery :: check where
  "g_declaration_subordinate_to_recovery s prev =
     after prev (\<lambda>p.
       (let was_live = active (recovery p) \<and> block_timestamp s < expires_at (recovery p) \<and>
                       bound_guardian_generation (recovery p) = guardian_generation p
        in if \<not> was_live then False else \<not> require_pq (floor p) \<and> require_pq (floor s)))"

text \<open>
  The rolling budget keeps the episodes it saw; a step without a predecessor starts a new history.
\<close>

definition rolling_history :: "kernel_snapshot option \<Rightarrow> containment_episode list option \<Rightarrow> containment_episode list" where
  "rolling_history prev existing =
     (if prev = None then [] else (case existing of None \<Rightarrow> [] | Some es \<Rightarrow> es))"

definition rolling_episodes ::
  "kernel_snapshot \<Rightarrow> kernel_snapshot option \<Rightarrow> containment_episode list option \<Rightarrow> containment_episode list" where
  "rolling_episodes s prev existing =
     (let es = rolling_history prev existing
      in if safe_state_stored s = SAFE_CONTAINED \<and>
            (case prev of None \<Rightarrow> True | Some p \<Rightarrow> contained_until s \<noteq> contained_until p)
         then es @ [\<lparr>ce_start = block_timestamp s, ce_end = contained_until s\<rparr>] else es)"

definition g_containment_rolling_budget :: "containment_episode list \<Rightarrow> bool" where
  "g_containment_rolling_budget es = (w_total (worst_rolling_window es) > CONTAINMENT_BUDGET)"

text \<open>
  \<open>GLOBAL_INVARIANTS\<close> in order: those before the rolling budget, and those after it.
\<close>

definition invariants_before :: "(string \<times> check) list" where
  "invariants_before =
     [(''G-SIGNER-NONZERO'', g_signer_nonzero),
      (''G-THRESHOLD-SANE'', g_threshold_sane),
      (''G-COMMITMENT-NONZERO'', g_commitment_nonzero),
      (''G-CRED-GENERATION-MONOTONIC'', g_cred_generation_monotonic),
      (''G-GUARDIAN-GENERATION-MONOTONIC'', g_guardian_generation_monotonic),
      (''G-NONCES-MONOTONIC'', g_nonces_monotonic),
      (''G-FLOOR-NO-DOWNGRADE'', g_floor_no_downgrade),
      (''G-VERIFIER-HAS-CODE'', g_verifier_has_code),
      (''G-MIGRATION-BINDING-WELLFORMED'', g_migration_binding_wellformed),
      (''G-MIGRATION-BINDING-IMMUTABLE'', g_migration_binding_immutable),
      (''G-STATE-REACHABILITY'', g_state_reachability),
      (''G-RETIRED-IS-TERMINAL'', g_retired_is_terminal),
      (''G-EFFECTIVE-STATE-DERIVATION'', g_effective_state_derivation),
      (''G-CONTAINMENT-BUDGET-BOUNDED'', g_containment_budget_bounded)]"

definition invariants_after :: "(string \<times> check) list" where
  "invariants_after =
     [(''G-RECOVERY-ACTIVE-WELLFORMED'', g_recovery_active_wellformed),
      (''G-CHALLENGE-CAP'', g_challenge_cap),
      (''G-CHALLENGE-EPOCH'', g_challenge_epoch),
      (''G-COMMITMENT-ATTESTED'', g_commitment_attested),
      (''G-PQ-COMMITMENT-SATISFIABLE'', g_pq_commitment_satisfiable),
      (''G-DECLARATION-SUBORDINATE-TO-RECOVERY'', g_declaration_subordinate_to_recovery)]"

definition violated :: "(string \<times> check) list \<Rightarrow> kernel_snapshot \<Rightarrow> kernel_snapshot option \<Rightarrow> string list" where
  "violated invs s prev = map fst (filter (\<lambda>(name, c). c s prev) invs)"

text \<open>\<open>checkGlobals\<close>: the names it reports, and the history of the world afterwards.\<close>

definition check_globals ::
  "kernel_snapshot \<Rightarrow> kernel_snapshot option \<Rightarrow> containment_episode list option \<Rightarrow>
   string list \<times> containment_episode list" where
  "check_globals s prev existing =
     (let es = rolling_episodes s prev existing
      in (violated invariants_before s prev @
          (if g_containment_rolling_budget es then [''G-CONTAINMENT-ROLLING-BUDGET''] else []) @
          violated invariants_after s prev, es))"

text \<open>The campaign's use of it: every post-state in turn, with its predecessor.\<close>

fun check_trace ::
  "kernel_snapshot option \<Rightarrow> containment_episode list option \<Rightarrow> kernel_snapshot list \<Rightarrow> string list list" where
  "check_trace prev existing [] = []"
| "check_trace prev existing (s # ss) =
     (let (bad, es) = check_globals s prev existing in bad # check_trace (Some s) (Some es) ss)"

text \<open>
  \<open>checkRecoveryCommitment\<close>: the digest the kernel answers against the hash of the encoding of the
  approved configuration; the two functions of \<open>ethers\<close> are one parameter.
\<close>

definition check_recovery_commitment ::
  "(int \<Rightarrow> string \<Rightarrow> int \<Rightarrow> recovery_slot \<Rightarrow> string) \<Rightarrow> int \<Rightarrow> string \<Rightarrow> string \<Rightarrow> kernel_snapshot \<Rightarrow> string list" where
  "check_recovery_commitment digest chain_id vault actual s =
     (if \<not> active (recovery s) then []
      else if actual \<noteq> digest chain_id vault 1 (recovery s) then [''G-RECOVERY-COMMITMENT-BINDS''] else [])"

end
