(* ===== verification/Oracle_Traces.thy ===== *)
theory Oracle_Traces
  imports Kernel_Oracle
begin

text \<open>
  What the invariants of \<open>stateful/invariants.ts\<close> establish when \<open>checkGlobals\<close> stays silent along
  a whole run. Each invariant looks at one snapshot and its predecessor; the lemmas here carry
  their silence from one step to any two steps of the run, and from the recorded episodes to the
  seconds they cover.
\<close>

section \<open>Silence at one step\<close>

definition quiet :: "kernel_snapshot list \<Rightarrow> bool" where
  "quiet ss \<longleftrightarrow> list_all (\<lambda>bad. bad = []) (check_trace None None ss)"

definition clean_step :: "kernel_snapshot option \<Rightarrow> kernel_snapshot \<Rightarrow> bool" where
  "clean_step prev s \<longleftrightarrow> violated invariants_before s prev = [] \<and> violated invariants_after s prev = []"

lemmas invariant_defs =
  g_signer_nonzero_def g_threshold_sane_def g_commitment_nonzero_def g_cred_generation_monotonic_def
  g_guardian_generation_monotonic_def g_nonces_monotonic_def g_floor_no_downgrade_def
  g_verifier_has_code_def g_migration_binding_wellformed_def g_migration_binding_immutable_def
  g_state_reachability_def g_retired_is_terminal_def g_effective_state_derivation_def
  g_containment_budget_bounded_def g_recovery_active_wellformed_def g_challenge_cap_def
  g_challenge_epoch_def g_commitment_attested_def g_pq_commitment_satisfiable_def
  g_declaration_subordinate_to_recovery_def

lemma violated_Nil: "violated invs s prev = [] \<longleftrightarrow> (\<forall>(n, c) \<in> set invs. \<not> c s prev)"
  by (induction invs) (auto simp: violated_def)

lemma clean_step_iff:
  "clean_step prev s \<longleftrightarrow>
    \<not> g_signer_nonzero s prev \<and> \<not> g_threshold_sane s prev \<and> \<not> g_commitment_nonzero s prev \<and>
    \<not> g_cred_generation_monotonic s prev \<and> \<not> g_guardian_generation_monotonic s prev \<and>
    \<not> g_nonces_monotonic s prev \<and> \<not> g_floor_no_downgrade s prev \<and> \<not> g_verifier_has_code s prev \<and>
    \<not> g_migration_binding_wellformed s prev \<and> \<not> g_migration_binding_immutable s prev \<and>
    \<not> g_state_reachability s prev \<and> \<not> g_retired_is_terminal s prev \<and>
    \<not> g_effective_state_derivation s prev \<and> \<not> g_containment_budget_bounded s prev \<and>
    \<not> g_recovery_active_wellformed s prev \<and> \<not> g_challenge_cap s prev \<and> \<not> g_challenge_epoch s prev \<and>
    \<not> g_commitment_attested s prev \<and> \<not> g_pq_commitment_satisfiable s prev \<and>
    \<not> g_declaration_subordinate_to_recovery s prev"
  by (simp add: clean_step_def violated_Nil invariants_before_def invariants_after_def conj_assoc)

text \<open>The episodes the rolling budget has recorded when a run ends.\<close>

fun recorded ::
  "kernel_snapshot option \<Rightarrow> containment_episode list option \<Rightarrow> kernel_snapshot list \<Rightarrow> containment_episode list" where
  "recorded prev existing [] = (case existing of None \<Rightarrow> [] | Some es \<Rightarrow> es)"
| "recorded prev existing (s # ss) = recorded (Some s) (Some (rolling_episodes s prev existing)) ss"

lemma check_globals_Nil:
  "check_globals s prev existing = (bad, es) \<Longrightarrow> bad = [] \<longleftrightarrow>
     clean_step prev s \<and> \<not> g_containment_rolling_budget (rolling_episodes s prev existing)"
  by (auto simp: check_globals_def Let_def clean_step_def split: if_splits)

lemma check_trace_Cons_quiet:
  "list_all (\<lambda>bad. bad = []) (check_trace prev existing (s # ss)) \<longleftrightarrow>
    clean_step prev s \<and> \<not> g_containment_rolling_budget (rolling_episodes s prev existing) \<and>
    list_all (\<lambda>bad. bad = []) (check_trace (Some s) (Some (rolling_episodes s prev existing)) ss)"
  by (auto simp: check_globals_def Let_def clean_step_def)

text \<open>A silent run is silent at every step, about that step and its predecessor.\<close>

lemma quiet_steps_from:
  assumes "list_all (\<lambda>bad. bad = []) (check_trace prev existing ss)" and "i < length ss"
  shows "clean_step (if i = 0 then prev else Some (ss ! (i - 1))) (ss ! i)"
  using assms
proof (induction ss arbitrary: prev existing i)
  case Nil
  then show ?case by simp
next
  case (Cons s ss)
  note q = Cons.prems(1) [unfolded check_trace_Cons_quiet]
  show ?case
  proof (cases i)
    case 0
    then show ?thesis using q by simp
  next
    case (Suc j)
    have "clean_step (if j = 0 then Some s else Some (ss ! (j - 1))) (ss ! j)"
      using Cons.IH [of "Some s" "Some (rolling_episodes s prev existing)" j] q Cons.prems(2) Suc by simp
    then show ?thesis using Suc by (cases j) simp_all
  qed
qed

lemma quiet_first: "quiet ss \<Longrightarrow> i < length ss \<Longrightarrow> \<exists>prev. clean_step prev (ss ! i)"
  unfolding quiet_def using quiet_steps_from by blast

lemma quiet_step:
  assumes "quiet ss" and "Suc i < length ss"
  shows "clean_step (Some (ss ! i)) (ss ! Suc i)"
  using quiet_steps_from [OF assms(1) [unfolded quiet_def] assms(2)] by simp

section \<open>From one step to any two\<close>

text \<open>A transitive relation that holds from each snapshot to the next holds across the run.\<close>

lemma across_run:
  assumes "transp R" and "\<And>i. Suc i < length xs \<Longrightarrow> R (xs ! i) (xs ! Suc i)"
    and "i < j" and "j < length xs"
  shows "R (xs ! i) (xs ! j)"
proof -
  have "sorted_wrt R xs" using sorted_wrt_iff_nth_Suc_transp [OF assms(1)] assms(2) by blast
  then show ?thesis using assms(3,4) by (simp add: sorted_wrt_iff_nth_less)
qed

text \<open>What never goes back.\<close>

definition ratchet :: "kernel_snapshot \<Rightarrow> kernel_snapshot \<Rightarrow> bool" where
  "ratchet p s \<longleftrightarrow>
     credential_generation p \<le> credential_generation s \<and>
     guardian_generation p \<le> guardian_generation s \<and>
     (\<forall>d < 4. nonces p ! d \<le> nonces s ! d) \<and>
     (require_pq (floor p) \<longrightarrow> require_pq (floor s)) \<and>
     (bound (migration p) \<longrightarrow> bound (migration s) \<and>
        destination_vault (migration s) = destination_vault (migration p) \<and>
        destination_vault_code_hash (migration s) = destination_vault_code_hash (migration p)) \<and>
     (safe_state_stored p = SAFE_RETIRED \<longrightarrow> safe_state_stored s = SAFE_RETIRED)"

lemma transp_ratchet: "transp ratchet"
  unfolding ratchet_def by (rule transpI, intro conjI) (auto intro: order_trans)

lemma clean_ratchet:
  assumes "clean_step (Some p) s"
  shows "ratchet p s"
proof -
  have q: "\<not> g_cred_generation_monotonic s (Some p)" "\<not> g_guardian_generation_monotonic s (Some p)"
    "\<not> g_nonces_monotonic s (Some p)" "\<not> g_floor_no_downgrade s (Some p)"
    "\<not> g_migration_binding_immutable s (Some p)" "\<not> g_retired_is_terminal s (Some p)"
    using assms unfolding clean_step_iff by blast+
  from q(3) have "\<forall>d < 4. nonces p ! d \<le> nonces s ! d"
    by (auto simp: g_nonces_monotonic_def after_def list_ex_iff not_less)
  with q show ?thesis
    by (auto simp: ratchet_def g_cred_generation_monotonic_def g_guardian_generation_monotonic_def
        g_floor_no_downgrade_def g_migration_binding_immutable_def g_retired_is_terminal_def after_def
        split: if_splits)
qed

lemma quiet_ratchet:
  assumes "quiet ss" and "i < j" and "j < length ss"
  shows "ratchet (ss ! i) (ss ! j)"
  by (rule across_run [OF transp_ratchet _ assms(2,3)]) (rule clean_ratchet [OF quiet_step [OF assms(1)]])

text \<open>What holds in every snapshot.\<close>

definition sound_state :: "kernel_snapshot \<Rightarrow> bool" where
  "sound_state s \<longleftrightarrow>
     ecdsa_signer s \<noteq> ZERO \<and> guardian_threshold s \<noteq> 0 \<and> guardian_commitment s \<noteq> ZERO_HASH \<and>
     pq_verifier_has_code s \<and> commitment_attestable s \<and>
     (require_pq (floor s) \<longrightarrow> pq_public_key_hash s \<noteq> ZERO_HASH) \<and>
     (active (recovery s) \<longrightarrow> proposed_signer (recovery s) \<noteq> ZERO \<and> proposed_verifier (recovery s) \<noteq> ZERO) \<and>
     (bound (migration s) \<longrightarrow> destination_vault (migration s) \<noteq> ZERO) \<and>
     (safe_state_effective s = SAFE_CONTAINED \<longrightarrow> block_timestamp s < contained_until s)"

lemma clean_sound:
  assumes "clean_step prev s"
  shows "sound_state s"
proof -
  have q: "\<not> g_signer_nonzero s prev" "\<not> g_threshold_sane s prev" "\<not> g_commitment_nonzero s prev"
    "\<not> g_verifier_has_code s prev" "\<not> g_commitment_attested s prev" "\<not> g_pq_commitment_satisfiable s prev"
    "\<not> g_recovery_active_wellformed s prev" "\<not> g_migration_binding_wellformed s prev"
    "\<not> g_effective_state_derivation s prev"
    using assms unfolding clean_step_iff by blast+
  from q(9) have "safe_state_effective s = SAFE_CONTAINED \<Longrightarrow> block_timestamp s < contained_until s"
    by (auto simp: g_effective_state_derivation_def Let_def SAFE_NORMAL_def SAFE_CONTAINED_def split: if_splits)
  with q(1-8) show ?thesis
    by (simp add: sound_state_def g_signer_nonzero_def g_threshold_sane_def g_commitment_nonzero_def
        g_verifier_has_code_def g_commitment_attested_def g_pq_commitment_satisfiable_def
        g_recovery_active_wellformed_def g_migration_binding_wellformed_def)
qed

lemma quiet_sound: "quiet ss \<Longrightarrow> i < length ss \<Longrightarrow> sound_state (ss ! i)"
  using quiet_first clean_sound by blast

section \<open>The challenge budget\<close>

text \<open>Between two guardian recoveries the count of challenges only grows, by at most one per step.\<close>

lemma clean_challenges:
  assumes "clean_step (Some p) s" and "\<not> recovered_this_step s p"
  shows "challenges_used (recovery s) = challenges_used (recovery p) \<or>
    challenges_used (recovery s) = challenges_used (recovery p) + 1"
proof -
  have "\<not> g_challenge_epoch s (Some p)" using assms(1) unfolding clean_step_iff by blast
  then show ?thesis using assms(2) by (auto simp: g_challenge_epoch_def after_def Let_def split: if_splits)
qed

lemma clean_cap: "clean_step prev s \<Longrightarrow> challenges_used (recovery s) \<le> 2"
  unfolding clean_step_iff by (simp add: g_challenge_cap_def)

text \<open>The steps of a run at which the credential challenged.\<close>

definition challenge_steps :: "kernel_snapshot list \<Rightarrow> nat \<Rightarrow> nat \<Rightarrow> nat set" where
  "challenge_steps ss i j =
     {m. i < m \<and> m \<le> j \<and> challenges_used (recovery (ss ! (m - 1))) < challenges_used (recovery (ss ! m))}"

lemma challenge_steps_finite [simp]: "finite (challenge_steps ss i j)"
  by (rule finite_subset [of _ "{..j}"]) (auto simp: challenge_steps_def)

lemma challenge_count:
  assumes "quiet ss" and "i \<le> j" and "j < length ss"
    and "\<And>m. i < m \<Longrightarrow> m \<le> j \<Longrightarrow> \<not> recovered_this_step (ss ! m) (ss ! (m - 1))"
  shows "challenges_used (recovery (ss ! j)) =
    challenges_used (recovery (ss ! i)) + int (card (challenge_steps ss i j))"
  using assms(2,3,4)
proof (induction j rule: dec_induct)
  case base
  have "challenge_steps ss i i = {}" by (auto simp: challenge_steps_def)
  then show ?case by simp
next
  case (step j)
  have IH: "challenges_used (recovery (ss ! j)) =
      challenges_used (recovery (ss ! i)) + int (card (challenge_steps ss i j))"
    using step.IH step.prems by simp
  have "\<not> recovered_this_step (ss ! Suc j) (ss ! j)" using step.prems(2) [of "Suc j"] step.hyps by simp
  then have c: "challenges_used (recovery (ss ! Suc j)) = challenges_used (recovery (ss ! j)) \<or>
      challenges_used (recovery (ss ! Suc j)) = challenges_used (recovery (ss ! j)) + 1"
    using clean_challenges [OF quiet_step [OF assms(1) step.prems(1)]] by blast
  have e: "challenge_steps ss i (Suc j) =
      (if challenges_used (recovery (ss ! j)) < challenges_used (recovery (ss ! Suc j))
       then insert (Suc j) (challenge_steps ss i j) else challenge_steps ss i j)"
    using step.hyps by (auto simp: challenge_steps_def le_Suc_eq)
  have "Suc j \<notin> challenge_steps ss i j" by (simp add: challenge_steps_def)
  then show ?case using c IH e by auto
qed

section \<open>The rolling budget\<close>

text \<open>
  Step \<open>i\<close> of a run opens a containment: it is stored CONTAINED with an expiry the step before did
  not have.
\<close>

definition opens_containment :: "kernel_snapshot list \<Rightarrow> nat \<Rightarrow> bool" where
  "opens_containment ss i \<longleftrightarrow>
     safe_state_stored (ss ! i) = SAFE_CONTAINED \<and>
     (i = 0 \<or> contained_until (ss ! i) \<noteq> contained_until (ss ! (i - 1)))"

abbreviation span :: "kernel_snapshot \<Rightarrow> containment_episode" where
  "span s \<equiv> \<lparr>ce_start = block_timestamp s, ce_end = contained_until s\<rparr>"

lemma setcompr_less_Suc:
  "{f i | i. i < Suc n \<and> P i} = (if P 0 then {f 0} else {}) \<union> {f (Suc i) | i. i < n \<and> P (Suc i)}"
  by (auto simp: less_Suc_eq_0_disj)

lemma recorded_after:
  "set (recorded (Some p) (Some es) ss) =
    set es \<union> {span (ss ! i) | i. i < length ss \<and> safe_state_stored (ss ! i) = SAFE_CONTAINED \<and>
      contained_until (ss ! i) \<noteq> contained_until (if i = 0 then p else ss ! (i - 1))}"
proof (induction ss arbitrary: p es)
  case Nil
  then show ?case by simp
next
  case (Cons s ss)
  have shift: "contained_until (if i = 0 then s else ss ! (i - 1)) = contained_until ((s # ss) ! i)" for i
    by (cases i) simp_all
  show ?case
    by (simp only: recorded.simps Cons.IH list.size add_0_right add_Suc_right setcompr_less_Suc shift)
      (auto simp: rolling_episodes_def rolling_history_def Let_def)
qed

lemma recorded_episodes:
  "set (recorded None None ss) = {span (ss ! i) | i. i < length ss \<and> opens_containment ss i}"
proof (cases ss)
  case Nil
  then show ?thesis by simp
next
  case (Cons s rest)
  have shift: "contained_until (if i = 0 then s else rest ! (i - 1)) = contained_until (ss ! i)" for i
    by (cases i) (simp_all add: Cons)
  have "{span (ss ! i) | i. i < length ss \<and> opens_containment ss i} =
      (if safe_state_stored s = SAFE_CONTAINED then {span s} else {}) \<union>
      {span (rest ! i) | i. i < length rest \<and> safe_state_stored (rest ! i) = SAFE_CONTAINED \<and>
        contained_until (rest ! i) \<noteq> contained_until (ss ! i)}"
    by (simp only: Cons list.size add_0_right add_Suc_right setcompr_less_Suc) (simp add: opens_containment_def)
  then show ?thesis
    by (simp only: Cons recorded.simps recorded_after shift [unfolded Cons])
      (auto simp: rolling_episodes_def rolling_history_def)
qed

lemma quiet_within_budget:
  assumes "list_all (\<lambda>bad. bad = []) (check_trace prev existing ss)" and "ss \<noteq> []"
  shows "w_total (worst_rolling_window (recorded prev existing ss)) \<le> CONTAINMENT_BUDGET"
  using assms
proof (induction ss arbitrary: prev existing)
  case Nil
  then show ?case by simp
next
  case (Cons s ss)
  note q = Cons.prems(1) [unfolded check_trace_Cons_quiet]
  show ?case
  proof (cases "ss = []")
    case True
    then show ?thesis using q by (simp add: g_containment_rolling_budget_def)
  next
    case False
    then show ?thesis using Cons.IH q by simp
  qed
qed

text \<open>The seconds of a window that some episode covers are at most the total the code computes.\<close>

definition covered :: "containment_episode list \<Rightarrow> int \<Rightarrow> int set" where
  "covered es a = {t. a \<le> t \<and> t < a + W \<and> (\<exists>e \<in> set es. ce_start e \<le> t \<and> t < ce_end e)}"

lemma covered_card: "finite (covered es a) \<and> int (card (covered es a)) \<le> window_total es a"
proof (induction es)
  case Nil
  then show ?case by (simp add: covered_def window_total_def)
next
  case (Cons e es)
  let ?I = "{max (ce_start e) a ..< min (ce_end e) (a + W)}"
  have c: "covered (e # es) a = ?I \<union> covered es a" by (auto simp: covered_def)
  have o: "int (card ?I) = overlap a e"
    by (auto simp: overlap_def Let_def max_def min_def split: if_splits)
  have u: "int (card (?I \<union> covered es a)) \<le> int (card ?I) + int (card (covered es a))"
    using card_Un_le [of ?I "covered es a"] by linarith
  have "window_total (e # es) a = overlap a e + window_total es a" by (simp add: window_total_sum)
  then have "int (card (covered (e # es) a)) \<le> window_total (e # es) a"
    using u o Cons.IH unfolding c by linarith
  moreover have "finite (covered (e # es) a)" using Cons.IH unfolding c by simp
  ultimately show ?case by blast
qed

lemma quiet_covered:
  assumes "quiet ss"
  shows "int (card (covered (recorded None None ss) a)) \<le> CONTAINMENT_BUDGET"
proof (cases "ss = []")
  case True
  then show ?thesis by (simp add: covered_def CONTAINMENT_BUDGET_def)
next
  case False
  have "int (card (covered (recorded None None ss) a)) \<le> window_total (recorded None None ss) a"
    using covered_card by blast
  also have "\<dots> \<le> w_total (worst_rolling_window (recorded None None ss))" by (rule worst_window_bound)
  also have "\<dots> \<le> CONTAINMENT_BUDGET" using quiet_within_budget [OF assms [unfolded quiet_def] False] .
  finally show ?thesis .
qed

lemma covered_recorded:
  "covered (recorded None None ss) a =
    {t. a \<le> t \<and> t < a + CONTAINMENT_WINDOW \<and>
       (\<exists>i < length ss. opens_containment ss i \<and> block_timestamp (ss ! i) \<le> t \<and> t < contained_until (ss ! i))}"
  unfolding covered_def recorded_episodes by fastforce

section \<open>Properties\<close>

text \<open>A vault as the witnesses observe it, and two later states of it.\<close>

definition sample_snapshot :: kernel_snapshot where
  "sample_snapshot = snapshot [''0xaa'']
     \<lparr>rd_safe_state = 0, rd_effective_safe_state = 0, rd_contained_until = 0,
      rd_containment_window_start = 0, rd_containment_used_in_window = 0, rd_ecdsa_signer = ''0x01'',
      rd_pq_public_key_hash = ''0xAA'', rd_credential_generation = 1,
      rd_security_floor = \<lparr>require_pq = True, pq_param_level = 2, pq_public_key_length = 1312, pq_signature_length = 2420\<rparr>,
      rd_pq_verifier = ''0x02'', rd_policy_engine = ZERO, rd_guardian_commitment = ''0xcc'',
      rd_guardian_threshold = 2, rd_guardian_generation = 1,
      rd_recovery = \<lparr>proposed_signer = ZERO, proposed_pq_key_hash = ZERO_HASH, proposed_verifier = ZERO,
        executable_at = 0, expires_at = 0, bound_guardian_generation = 0, challenges_used = 0, active = False\<rparr>,
      rd_migration = \<lparr>destination_vault = ZERO, destination_vault_code_hash = ZERO_HASH,
        destination_generation = 0, bound_at = 0, bound = False\<rparr>,
      rd_nonce = (\<lambda>_. 0), rd_code = ''0x60'', rd_block_timestamp = Some 1000000, rd_token_balance = 5,
      rd_native_balance = 7\<rparr>"

definition sample_contained :: kernel_snapshot where
  "sample_contained = sample_snapshot\<lparr>safe_state_stored := 1, safe_state_effective := 1,
     block_timestamp := 1000100, contained_until := 1259300, nonces := [0, 1, 0, 0]\<rparr>"

definition sample_challenged :: kernel_snapshot where
  "sample_challenged = sample_contained\<lparr>block_timestamp := 1000200,
     recovery := \<lparr>proposed_signer = ''0x03'', proposed_pq_key_hash = ''0xaa'', proposed_verifier = ''0x02'',
        executable_at = 9, expires_at = 10, bound_guardian_generation = 1, challenges_used = 1, active = False\<rparr>\<rparr>"

definition sample_run :: "kernel_snapshot list" where
  "sample_run = [sample_snapshot, sample_contained, sample_challenged]"

lemma sample_run_quiet: "quiet sample_run"
  by code_simp

text \<open>C14: When checkGlobals reports nothing along a run, nothing it watches for going back does so between any two steps:
  generations and nonces never fall, a required PQ conjunct (\<open>requirePq\<close>) is never dropped, a bound migration keeps its
  destination and code hash, and RETIRED is final. Of the floor's other fields, whose ratchets the code removed,
  nothing is said.\<close>

theorem quiet_run_ratchets:
  assumes "quiet ss" and "i < j" and "j < length ss"
  shows "credential_generation (ss ! i) \<le> credential_generation (ss ! j) \<and>
    guardian_generation (ss ! i) \<le> guardian_generation (ss ! j) \<and>
    (\<forall>d < 4. nonces (ss ! i) ! d \<le> nonces (ss ! j) ! d) \<and>
    (require_pq (floor (ss ! i)) \<longrightarrow> require_pq (floor (ss ! j))) \<and>
    (bound (migration (ss ! i)) \<longrightarrow> bound (migration (ss ! j)) \<and>
      destination_vault (migration (ss ! j)) = destination_vault (migration (ss ! i)) \<and>
      destination_vault_code_hash (migration (ss ! j)) = destination_vault_code_hash (migration (ss ! i))) \<and>
    (safe_state_stored (ss ! i) = SAFE_RETIRED \<longrightarrow> safe_state_stored (ss ! j) = SAFE_RETIRED)"
  using quiet_ratchet [OF assms] unfolding ratchet_def .

theorem quiet_run_ratchets_witness:
  "nonces (sample_run ! 0) ! 1 \<le> nonces (sample_run ! 2) ! 1 \<and> require_pq (floor (sample_run ! 2))"
proof -
  have b: "(0::nat) < 2" "2 < length sample_run" "require_pq (floor (sample_run ! 0))"
    by (simp_all add: sample_run_def sample_snapshot_def snapshot_def Let_def)
  show ?thesis
    using quiet_run_ratchets [OF sample_run_quiet b(1,2)] b(3) by simp
qed

text \<open>C15: When checkGlobals reports nothing along a run, every 30-day window, wherever it begins, contains at most six
  days of seconds covered by a containment the run opened, however the episodes overlap.\<close>

theorem quiet_run_containment:
  assumes "quiet ss"
  shows "int (card {t. a \<le> t \<and> t < a + CONTAINMENT_WINDOW \<and>
      (\<exists>i < length ss. opens_containment ss i \<and> block_timestamp (ss ! i) \<le> t \<and> t < contained_until (ss ! i))})
    \<le> CONTAINMENT_BUDGET"
  using quiet_covered [OF assms, of a] unfolding covered_recorded .

theorem quiet_run_containment_witness:
  "opens_containment sample_run 1 \<and>
   int (card {t. 0 \<le> t \<and> t < CONTAINMENT_WINDOW \<and>
      (\<exists>i < length sample_run. opens_containment sample_run i \<and> block_timestamp (sample_run ! i) \<le> t \<and>
        t < contained_until (sample_run ! i))}) \<le> CONTAINMENT_BUDGET"
  using quiet_run_containment [OF sample_run_quiet, of 0]
  by (simp add: opens_containment_def sample_run_def sample_contained_def sample_snapshot_def snapshot_def Let_def SAFE_CONTAINED_def)

text \<open>When checkGlobals reports nothing along a run, the credential's challenge budget is exact: over any stretch
  without a guardian recovery the count has grown by the number of steps at which it challenged, and so the
  credential never challenges more than twice in one such stretch that begins with an unused budget.\<close>

theorem quiet_run_challenges:
  assumes "quiet ss" and "i \<le> j" and "j < length ss" and "0 \<le> challenges_used (recovery (ss ! i))"
    and "\<And>m. i < m \<Longrightarrow> m \<le> j \<Longrightarrow> \<not> recovered_this_step (ss ! m) (ss ! (m - 1))"
  shows "challenges_used (recovery (ss ! j)) =
      challenges_used (recovery (ss ! i)) + int (card (challenge_steps ss i j)) \<and>
    card (challenge_steps ss i j) \<le> 2"
proof -
  have c: "challenges_used (recovery (ss ! j)) =
      challenges_used (recovery (ss ! i)) + int (card (challenge_steps ss i j))"
    by (rule challenge_count [OF assms(1,2,3,5)])
  have "challenges_used (recovery (ss ! j)) \<le> 2" using quiet_first [OF assms(1,3)] clean_cap by blast
  then show ?thesis using c assms(4) by linarith
qed

theorem quiet_run_challenges_witness:
  "challenges_used (recovery (sample_run ! 2)) =
    challenges_used (recovery (sample_run ! 0)) + int (card (challenge_steps sample_run 0 2)) \<and>
   card (challenge_steps sample_run 0 2) \<le> 2"
proof (rule quiet_run_challenges [OF sample_run_quiet])
  show "\<not> recovered_this_step (sample_run ! m) (sample_run ! (m - 1))" if "0 < m" "m \<le> 2" for m
  proof -
    have "m = 1 \<or> m = 2" using that by arith
    then show ?thesis
      by (auto simp: recovered_this_step_def sample_run_def sample_challenged_def sample_contained_def
          sample_snapshot_def snapshot_def Let_def)
  qed
qed (simp_all add: sample_run_def sample_snapshot_def snapshot_def Let_def)

end
