(* ===== verification/Prng.thy ===== *)
theory Prng
  imports Vault_Prelude "HOL-Library.Word" "HOL-Library.Multiset"
begin

text \<open>
  The generator of \<open>prototype/vnext-kernel/stateful/prng.ts\<close>. Its state and the value of one draw are
  32-bit words; \<open>next()\<close> is the word divided by \<open>2 ^ 32\<close>. The code multiplies that fraction by a
  bound or a total weight as doubles; with bounds and totals below \<open>2 ^ 21\<close>, as all of the program's
  are, the products and differences are exact, and they are integers here, scaled by \<open>2 ^ 32\<close>.
\<close>

unbundle bit_operations_syntax

section \<open>The code\<close>

datatype prng_error =
    IntBound int
  | BetweenRange int int
  | PickEmpty
  | WeightedEmpty
  | WeightedLengthMismatch
  | WeightedTotal

text \<open>A draw from the stream: what it throws, or its result and the stream's next state.\<close>

type_synonym 'a draw = "32 word \<Rightarrow> prng_error + ('a \<times> 32 word)"

definition retR :: "'a \<Rightarrow> 'a draw" where
  "retR x s = Inr (x, s)"

definition bindR :: "'a draw \<Rightarrow> ('a \<Rightarrow> 'b draw) \<Rightarrow> 'b draw" where
  "bindR m f s = bindE (m s) (\<lambda>(x, s). f x s)"

text \<open>\<open>make_prng\<close> is the coercion of the seed; \<open>next_word\<close> one step of mulberry32.\<close>

definition make_prng :: "int \<Rightarrow> 32 word" where
  "make_prng seed = word_of_int seed"

definition next_word :: "32 word \<Rightarrow> 32 word \<times> 32 word" where
  "next_word s =
     (let s = s + 0x6d2b79f5;
          t = s;
          t = (t XOR drop_bit 15 t) * (t OR 1);
          t = t XOR (t + (t XOR drop_bit 7 t) * (t OR 61))
      in (t XOR drop_bit 14 t, s))"

definition draw_int :: "int \<Rightarrow> int draw" where
  "draw_int bound s =
     (if bound \<le> 0 then Inl (IntBound bound)
      else let (u, s) = next_word s in Inr (uint u * bound div 2 ^ 32, s))"

definition draw_between :: "int \<Rightarrow> int \<Rightarrow> int draw" where
  "draw_between lo hi s =
     (if hi < lo then Inl (BetweenRange lo hi)
      else bindE (draw_int (hi - lo + 1) s) (\<lambda>(i, s). Inr (lo + i, s)))"

definition draw_pick :: "'a list \<Rightarrow> 'a draw" where
  "draw_pick xs s =
     (if xs = [] then Inl PickEmpty
      else bindE (draw_int (int (length xs)) s) (\<lambda>(i, s). Inr (xs ! nat i, s)))"

text \<open>The loop of \<open>weighted\<close> with its remainder \<open>r\<close>; \<open>None\<close> when it runs through.\<close>

fun weighted_loop :: "'a list \<Rightarrow> int list \<Rightarrow> int \<Rightarrow> 'a option" where
  "weighted_loop (x # xs) (w # ws) r =
     (let r = r - w * 2 ^ 32 in if r < 0 then Some x else weighted_loop xs ws r)"
| "weighted_loop _ _ r = None"

definition draw_weighted :: "'a list \<Rightarrow> int list \<Rightarrow> 'a draw" where
  "draw_weighted xs weights s =
     (if xs = [] then Inl WeightedEmpty
      else if length xs \<noteq> length weights then Inl WeightedLengthMismatch
      else let total = sum_list weights
           in if total \<le> 0 then Inl WeightedTotal
              else let (u, s) = next_word s
                   in Inr (case weighted_loop xs weights (uint u * total) of
                             Some x \<Rightarrow> x | None \<Rightarrow> last xs, s))"

text \<open>\<open>chance(p)\<close> for \<open>p = num / den\<close>.\<close>

definition draw_chance :: "int \<Rightarrow> int \<Rightarrow> bool draw" where
  "draw_chance num den s = (let (u, s) = next_word s in Inr (uint u * den < num * 2 ^ 32, s))"

fun shuffle_loop :: "nat \<Rightarrow> 'a list \<Rightarrow> 'a list draw" where
  "shuffle_loop 0 out s = Inr (out, s)"
| "shuffle_loop (Suc i) out s =
     bindE (draw_int (int (Suc i) + 1) s)
       (\<lambda>(j, s). shuffle_loop i (out[Suc i := out ! nat j, nat j := out ! Suc i]) s)"

definition draw_shuffled :: "'a list \<Rightarrow> 'a list draw" where
  "draw_shuffled xs s = shuffle_loop (length xs - 1) xs s"

section \<open>What a draw can be\<close>

lemma draw_int_ok:
  assumes "0 < bound"
  obtains i s' where "draw_int bound s = Inr (i, s')" and "0 \<le> i" and "i < bound"
proof -
  obtain u s' where n: "next_word s = (u, s')" by (cases "next_word s")
  have u: "0 \<le> uint u" "uint u < 2 ^ 32" using uint_lt2p [of u] by simp_all
  have "uint u * bound < 2 ^ 32 * bound" using u(2) assms by (rule mult_strict_right_mono)
  then have "uint u * bound div 2 ^ 32 < bound"
    by (simp add: div_less_iff_less_mult mult.commute)
  moreover have "0 \<le> uint u * bound div 2 ^ 32"
    using u(1) assms by (simp add: pos_imp_zdiv_nonneg_iff)
  ultimately show ?thesis using that [of "uint u * bound div 2 ^ 32" s'] assms n
    by (simp add: draw_int_def)
qed

lemma draw_int_bounds:
  assumes "draw_int bound s = Inr (i, s')"
  shows "0 \<le> i \<and> i < bound"
proof -
  have "0 < bound" using assms by (auto simp: draw_int_def split: if_splits)
  then show ?thesis using assms by (elim draw_int_ok [of bound s]) simp
qed

lemma draw_pick_ok:
  assumes "xs \<noteq> []"
  obtains x s' where "draw_pick xs s = Inr (x, s')" and "x \<in> set xs"
proof -
  have b: "0 < int (length xs)" using assms by simp
  obtain i s' where "draw_int (int (length xs)) s = Inr (i, s')" "0 \<le> i" "i < int (length xs)"
    by (rule draw_int_ok [OF b])
  then show ?thesis using that [of "xs ! nat i" s'] assms by (simp add: draw_pick_def nat_less_iff)
qed

lemma draw_between_ok:
  assumes "lo \<le> hi"
  obtains i s' where "draw_between lo hi s = Inr (i, s')" and "lo \<le> i" and "i \<le> hi"
proof -
  have b: "0 < hi - lo + 1" using assms by simp
  obtain i s' where "draw_int (hi - lo + 1) s = Inr (i, s')" "0 \<le> i" "i < hi - lo + 1"
    by (rule draw_int_ok [OF b])
  then show ?thesis using that [of "lo + i" s'] assms by (simp add: draw_between_def)
qed

lemma draw_chance_ok:
  obtains b s' where "draw_chance num den s = Inr (b, s')"
  using that by (cases "next_word s") (simp add: draw_chance_def)

text \<open>The loop of \<open>weighted\<close> never runs through, and it stops at an element of positive weight.\<close>

lemma weighted_loop_total:
  assumes "length xs = length ws" and "\<forall>w \<in> set ws. 0 \<le> w" and "0 \<le> r" and "r < sum_list ws * 2 ^ 32"
  shows "\<exists>i < length xs. weighted_loop xs ws r = Some (xs ! i) \<and> 0 < ws ! i"
  using assms
proof (induction xs ws r rule: weighted_loop.induct)
  case (1 x xs w ws r)
  show ?case
  proof (cases "r - w * 2 ^ 32 < 0")
    case True
    then have "0 < w" using "1.prems"(2,3) by (cases "w = 0") auto
    then show ?thesis using True by (intro exI [of _ 0]) simp
  next
    case False
    have "\<exists>i < length xs. weighted_loop xs ws (r - w * 2 ^ 32) = Some (xs ! i) \<and> 0 < ws ! i"
      using "1.IH" [OF refl False] "1.prems" False by (simp add: algebra_simps)
    then obtain i where "i < length xs" "weighted_loop xs ws (r - w * 2 ^ 32) = Some (xs ! i)" "0 < ws ! i"
      by blast
    then show ?thesis using False by (intro exI [of _ "Suc i"]) simp
  qed
qed simp_all

lemma draw_weighted_ok:
  assumes "length xs = length ws" and "\<forall>w \<in> set ws. 0 \<le> w" and "0 < sum_list ws"
  obtains x s' where "draw_weighted xs ws s = Inr (x, s')"
    and "\<exists>i < length xs. x = xs ! i \<and> 0 < ws ! i"
proof -
  obtain u s' where n: "next_word s = (u, s')" by (cases "next_word s")
  have "uint u * sum_list ws < sum_list ws * 2 ^ 32"
    using assms(3) uint_lt2p [of u] by (simp add: mult.commute [of "uint u"])
  then obtain i where i: "i < length xs" "weighted_loop xs ws (uint u * sum_list ws) = Some (xs ! i)" "0 < ws ! i"
    using weighted_loop_total [OF assms(1,2), of "uint u * sum_list ws"] assms(3) by auto
  then have "xs \<noteq> []" by auto
  then show ?thesis using that [of "xs ! i" s'] i n assms by (auto simp: draw_weighted_def Let_def)
qed

text \<open>Shuffling only swaps, so it permutes.\<close>

lemma swap_mset: "i < length xs \<Longrightarrow> j < length xs \<Longrightarrow> mset (xs[i := xs ! j, j := xs ! i]) = mset xs"
  by (rule mset_swap)

lemma shuffle_loop_ok:
  assumes "i < length out \<or> i = 0"
  obtains out' s' where "shuffle_loop i out s = Inr (out', s')" and "mset out' = mset out"
  using assms
proof (induction i arbitrary: out s thesis)
  case 0
  then show ?case by simp
next
  case (Suc i)
  obtain j s' where j: "draw_int (int (Suc i) + 1) s = Inr (j, s')" "0 \<le> j" "j < int (Suc i) + 1"
    by (rule draw_int_ok [of "int (Suc i) + 1"]) simp
  have l: "Suc i < length out" "nat j < length out" using Suc.prems(2) j by auto
  obtain out' s'' where o: "shuffle_loop i (out[Suc i := out ! nat j, nat j := out ! Suc i]) s' = Inr (out', s'')"
    "mset out' = mset (out[Suc i := out ! nat j, nat j := out ! Suc i])"
    using l by (elim Suc.IH) simp
  show ?case
    by (rule Suc.prems(1) [of out' s'']) (use o j l in \<open>simp_all add: swap_mset\<close>)
qed

section \<open>Total correctness of draws\<close>

text \<open>From every state of the stream the draw returns, and its result satisfies \<open>P\<close>.\<close>

named_theorems draw_rules \<open>the results of the draws\<close>

definition draws :: "'a draw \<Rightarrow> ('a \<Rightarrow> bool) \<Rightarrow> bool" where
  "draws m P \<longleftrightarrow> (\<forall>s. \<exists>x s'. m s = Inr (x, s') \<and> P x)"

lemma drawsE:
  assumes "draws m P"
  obtains x s' where "m s = Inr (x, s')" and "P x"
  using assms unfolding draws_def by blast

lemma draws_weaken: "draws m P \<Longrightarrow> (\<And>x. P x \<Longrightarrow> Q x) \<Longrightarrow> draws m Q"
  unfolding draws_def by blast

lemma draws_ret: "P x \<Longrightarrow> draws (retR x) P"
  by (simp add: draws_def retR_def)

lemma draws_bind:
  assumes "draws m P" and "\<And>x. P x \<Longrightarrow> draws (f x) Q"
  shows "draws (bindR m f) Q"
  unfolding draws_def
proof
  fix s
  obtain x s' where x: "m s = Inr (x, s')" "P x" by (rule drawsE [OF assms(1)])
  obtain y s'' where "f x s' = Inr (y, s'')" "Q y" by (rule drawsE [OF assms(2) [OF x(2)]])
  then show "\<exists>y s''. bindR m f s = Inr (y, s'') \<and> Q y" using x(1) by (simp add: bindR_def)
qed

lemma draws_int [draw_rules]: "0 < bound \<Longrightarrow> draws (draw_int bound) (\<lambda>i. 0 \<le> i \<and> i < bound)"
  unfolding draws_def using draw_int_ok by metis

lemma draws_between [draw_rules]: "lo \<le> hi \<Longrightarrow> draws (draw_between lo hi) (\<lambda>i. lo \<le> i \<and> i \<le> hi)"
  unfolding draws_def using draw_between_ok by metis

lemma draws_pick [draw_rules]: "xs \<noteq> [] \<Longrightarrow> draws (draw_pick xs) (\<lambda>x. x \<in> set xs)"
  unfolding draws_def using draw_pick_ok by metis

lemma draws_chance [draw_rules]: "draws (draw_chance num den) (\<lambda>b. True)"
  unfolding draws_def using draw_chance_ok by metis

lemma draws_weighted [draw_rules]:
  assumes "length xs = length ws" and "\<forall>w \<in> set ws. 0 \<le> w" and "0 < sum_list ws"
  shows "draws (draw_weighted xs ws) (\<lambda>x. \<exists>i < length xs. x = xs ! i \<and> 0 < ws ! i)"
  unfolding draws_def using draw_weighted_ok [OF assms] by metis

lemma draws_shuffled [draw_rules]: "draws (draw_shuffled xs) (\<lambda>ys. mset ys = mset xs)"
proof -
  have "length xs - 1 < length xs \<or> length xs - 1 = 0" by (cases xs) simp_all
  then have "\<exists>ys s'. shuffle_loop (length xs - 1) xs s = Inr (ys, s') \<and> mset ys = mset xs" for s
    by (elim shuffle_loop_ok [where s = s]) blast
  then show ?thesis unfolding draws_def draw_shuffled_def by blast
qed

section \<open>Properties\<close>

text \<open>Draws stay in their range and never throw on well-formed arguments: an integer below its bound, a weighted
  choice of an element whose weight is positive (the loop of weighted never falls through), a shuffle that is a
  permutation of its input.\<close>

theorem draws_in_range:
  assumes "0 < bound" and "length xs = length ws" and "\<forall>w \<in> set ws. 0 \<le> w" and "0 < sum_list ws"
  shows "(\<exists>i s'. draw_int bound s = Inr (i, s') \<and> 0 \<le> i \<and> i < bound) \<and>
    (\<exists>j s'. draw_weighted xs ws s = Inr (xs ! j, s') \<and> j < length xs \<and> 0 < ws ! j) \<and>
    (\<exists>ys s'. draw_shuffled xs s = Inr (ys, s') \<and> mset ys = mset xs)"
  using draws_int [OF assms(1)] draws_weighted [OF assms(2-4)] draws_shuffled [of xs] unfolding draws_def by metis

theorem draws_in_range_witness:
  "(\<exists>j s'. draw_weighted [CHR ''a'', CHR ''b''] [0, 3] (make_prng 7) = Inr ([CHR ''a'', CHR ''b''] ! j, s') \<and> j < 2 \<and>
      0 < [0, 3 :: int] ! j)"
  using draws_in_range [of 5 "[CHR ''a'', CHR ''b'']" "[0, 3]" "make_prng 7"] by (simp add: numeral_2_eq_2)

end
