(* ===== verification/Campaign_Plan.thy ===== *)
theory Campaign_Plan
  imports Prng
begin

text \<open>
  The experimental design of the stateful authority campaign: the actors of
  \<open>prototype/vnext-kernel/stateful/world.ts\<close>, the profiles of \<open>profiles.ts\<close>, the action vocabulary
  of \<open>actions.ts\<close> and the plan generator of \<open>campaign.ts\<close>. A plan is drawn from the stream of the
  theory \<open>Prng\<close>; the draws are made in the order the code makes them. The prose descriptions of
  the profiles are not kept.
\<close>

section \<open>Actors\<close>

datatype sender = Deployer | Outsider

record actor =
  actor_name :: string
  owned_roles :: "string set"
  owned_labels :: "string set"
  sends_as :: sender

definition ALL_MATERIAL :: string where
  "ALL_MATERIAL = ''*''"

definition make_actor :: "string \<Rightarrow> string list \<Rightarrow> sender \<Rightarrow> actor" where
  "make_actor nm roles sends =
     \<lparr>actor_name = nm, owned_roles = set roles, owned_labels = {}, sends_as = sends\<rparr>"

text \<open>Roles become the key labels of one world.\<close>

definition materialise_actor :: "actor \<Rightarrow> string \<Rightarrow> actor" where
  "materialise_actor a world_label =
     (if ALL_MATERIAL \<in> owned_roles a then a\<lparr>owned_labels := {ALL_MATERIAL}\<rparr>
      else a\<lparr>owned_labels := (\<lambda>role. world_label @ ''-'' @ role) ` owned_roles a\<rparr>)"

definition ALL_MATERIAL_ACTOR :: actor where
  "ALL_MATERIAL_ACTOR = make_actor ''honest'' [ALL_MATERIAL] Deployer"

definition ECDSA_ONLY_ATTACKER :: actor where
  "ECDSA_ONLY_ATTACKER = make_actor ''attacker-ecdsa-only'' [''cred''] Outsider"

definition PQ_ONLY_ATTACKER :: actor where
  "PQ_ONLY_ATTACKER = make_actor ''attacker-pq-only'' [''pq''] Outsider"

definition ONE_GUARDIAN_ATTACKER :: actor where
  "ONE_GUARDIAN_ATTACKER = make_actor ''attacker-one-guardian'' [''guardian-0''] Outsider"

definition MIXED_ATTACKER :: actor where
  "MIXED_ATTACKER = make_actor ''attacker-guardian-plus-credential'' [''guardian-0'', ''cred''] Outsider"

definition TWO_GUARDIAN_ATTACKER :: actor where
  "TWO_GUARDIAN_ATTACKER = make_actor ''attacker-two-guardians'' [''guardian-0'', ''guardian-1''] Outsider"

definition STRANGER :: actor where
  "STRANGER = make_actor ''stranger'' [] Outsider"

section \<open>Actions\<close>

datatype action_kind =
    FUND | SPEND | ROTATE_CREDENTIAL | SET_VERIFIER | SET_POLICY | SET_GUARDIANS | INITIATE_RECOVERY
  | CANCEL_RECOVERY | EXECUTE_RECOVERY | ENTER_CONTAINMENT | BIND_MIGRATION | RETIRE | EGRESS_NATIVE
  | EGRESS_TOKEN | ADVANCE_TIME | REPLAY_PAST_CALL | FACTORY_DEPLOY_TWIN | CANCEL_RECOVERY_BY_QUORUM

definition ACTION_KINDS :: "action_kind list" where
  "ACTION_KINDS =
     [FUND, SPEND, ROTATE_CREDENTIAL, SET_VERIFIER, SET_POLICY, SET_GUARDIANS, INITIATE_RECOVERY,
      CANCEL_RECOVERY, EXECUTE_RECOVERY, ENTER_CONTAINMENT, BIND_MIGRATION, RETIRE, EGRESS_NATIVE,
      EGRESS_TOKEN, ADVANCE_TIME, REPLAY_PAST_CALL, FACTORY_DEPLOY_TWIN, CANCEL_RECOVERY_BY_QUORUM]"

datatype verifier_kind = VHonest | VAlwaysTrue | VAlwaysFalse | VReverting

datatype policy_kind = PolNone | PolAllow | PolDeny | PolStateful | PolCodeless

datatype quorum_shape =
    Honest | ForgeMissing | DuplicateIndex | SentinelMaxIndex | DescendingIndices | OutOfRangeIndex
  | EmptyAttestations

definition QUORUM_SHAPES :: "quorum_shape list" where
  "QUORUM_SHAPES =
     [Honest, ForgeMissing, DuplicateIndex, SentinelMaxIndex, DescendingIndices, OutOfRangeIndex,
      EmptyAttestations]"

text \<open>
  The parameters of an action: the code's object of optional fields, each of one type wherever the
  program writes it. An amount in ether is kept as its decimal string.
\<close>

record params =
  p_eth :: "string option"
  p_seconds :: "int option"
  p_to_self :: "bool option"
  p_target :: "int option"
  p_pop_stale :: "bool option"
  p_verifier :: "verifier_kind option"
  p_bump_level :: "bool option"
  p_shrink_lengths :: "bool option"
  p_raise_pq :: "bool option"
  p_policy :: "policy_kind option"
  p_quorum_shape :: "quorum_shape option"
  p_new_threshold :: "int option"
  p_roster_gen :: "int option"
  p_duplicate_roster :: "bool option"
  p_index :: "int option"

definition no_params :: params where
  "no_params =
     \<lparr>p_eth = None, p_seconds = None, p_to_self = None, p_target = None, p_pop_stale = None,
      p_verifier = None, p_bump_level = None, p_shrink_lengths = None, p_raise_pq = None,
      p_policy = None, p_quorum_shape = None, p_new_threshold = None, p_roster_gen = None,
      p_duplicate_roster = None, p_index = None\<rparr>"

record generated_action =
  a_kind :: action_kind
  a_actor_name :: string
  a_params :: params

section \<open>Profiles\<close>

datatype time_bias_kind = Maturation | DutyCycle | Straddle

record profile =
  prof_name :: string
  prof_actors :: "actor list"
  prof_actor_weights :: "int list"
  prof_weights :: "action_kind \<rightharpoonup> int"
  prof_verifier :: "verifier_kind option"
  ecdsa_only_floor :: bool
  commit_pq_key_on_ecdsa_only_floor :: bool
  fabricate_commitments :: bool
  time_bias :: "time_bias_kind option"
  honest_recovery_bias :: bool

text \<open>A profile that leaves its optional fields out.\<close>

definition plain_profile :: "string \<Rightarrow> actor list \<Rightarrow> int list \<Rightarrow> (action_kind \<rightharpoonup> int) \<Rightarrow> profile" where
  "plain_profile nm actors actor_weights weights =
     \<lparr>prof_name = nm, prof_actors = actors, prof_actor_weights = actor_weights, prof_weights = weights,
      prof_verifier = None, ecdsa_only_floor = False, commit_pq_key_on_ecdsa_only_floor = False,
      fabricate_commitments = False, time_bias = None, honest_recovery_bias = False\<rparr>"

definition BROAD :: "action_kind \<rightharpoonup> int" where
  "BROAD = map_of
     [(FUND, 3), (SPEND, 10), (ROTATE_CREDENTIAL, 6), (SET_VERIFIER, 6), (SET_POLICY, 5), (SET_GUARDIANS,
      5), (INITIATE_RECOVERY, 8), (CANCEL_RECOVERY, 5), (EXECUTE_RECOVERY, 7), (ENTER_CONTAINMENT, 5),
      (BIND_MIGRATION, 3), (RETIRE, 2), (EGRESS_NATIVE, 3), (EGRESS_TOKEN, 2), (ADVANCE_TIME, 12),
      (REPLAY_PAST_CALL, 6), (FACTORY_DEPLOY_TWIN, 1)]"

definition RECOVERY_HEAVY :: "action_kind \<rightharpoonup> int" where
  "RECOVERY_HEAVY = BROAD ++ map_of
     [(INITIATE_RECOVERY, 16), (CANCEL_RECOVERY, 14), (EXECUTE_RECOVERY, 16), (ADVANCE_TIME, 20),
      (ROTATE_CREDENTIAL, 10), (SET_GUARDIANS, 10), (SPEND, 6), (FACTORY_DEPLOY_TWIN, 0)]"

definition REPLAY_HEAVY :: "action_kind \<rightharpoonup> int" where
  "REPLAY_HEAVY = BROAD ++ map_of
     [(REPLAY_PAST_CALL, 22), (ADVANCE_TIME, 14), (ROTATE_CREDENTIAL, 9), (SET_VERIFIER, 9),
      (SET_GUARDIANS, 9), (FACTORY_DEPLOY_TWIN, 0)]"

definition CONTAINMENT_HEAVY :: "action_kind \<rightharpoonup> int" where
  "CONTAINMENT_HEAVY = BROAD ++ map_of
     [(ENTER_CONTAINMENT, 18), (ADVANCE_TIME, 24), (BIND_MIGRATION, 8), (RETIRE, 6), (EGRESS_NATIVE, 6),
      (FACTORY_DEPLOY_TWIN, 0)]"

definition profile_ecdsa_only_attacker :: profile where
  "profile_ecdsa_only_attacker = plain_profile ''ecdsa-only-attacker''
     [ALL_MATERIAL_ACTOR, ECDSA_ONLY_ATTACKER, STRANGER] [4, 5, 2]
     BROAD"

definition profile_one_guardian_attacker :: profile where
  "profile_one_guardian_attacker = plain_profile ''one-guardian-attacker''
     [ALL_MATERIAL_ACTOR, ONE_GUARDIAN_ATTACKER, STRANGER] [4, 5, 2]
     BROAD"

definition profile_mixed_roots_attacker :: profile where
  "profile_mixed_roots_attacker = plain_profile ''mixed-roots-attacker''
     [ALL_MATERIAL_ACTOR, MIXED_ATTACKER, STRANGER] [4, 5, 2]
     BROAD"

definition profile_recovery_composition :: profile where
  "profile_recovery_composition = plain_profile ''recovery-composition''
     [ALL_MATERIAL_ACTOR, ECDSA_ONLY_ATTACKER, STRANGER] [5, 4, 3]
     RECOVERY_HEAVY"

definition profile_recovery_maturation :: profile where
  "profile_recovery_maturation = (plain_profile ''recovery-maturation''
     [ALL_MATERIAL_ACTOR, ECDSA_ONLY_ATTACKER, STRANGER] [6, 2, 2]
     (map_of
     [(FUND, 3), (SPEND, 6), (ROTATE_CREDENTIAL, 4), (SET_VERIFIER, 3), (SET_POLICY, 2), (SET_GUARDIANS,
      0), (INITIATE_RECOVERY, 14), (CANCEL_RECOVERY, 4), (EXECUTE_RECOVERY, 16), (ENTER_CONTAINMENT, 3),
      (BIND_MIGRATION, 1), (RETIRE, 1), (EGRESS_NATIVE, 1), (EGRESS_TOKEN, 1), (ADVANCE_TIME, 22),
      (REPLAY_PAST_CALL, 6), (FACTORY_DEPLOY_TWIN, 0)]))
     \<lparr>time_bias := Some Maturation, honest_recovery_bias := True\<rparr>"

definition profile_replay_composition :: profile where
  "profile_replay_composition = plain_profile ''replay-composition''
     [ALL_MATERIAL_ACTOR, ECDSA_ONLY_ATTACKER, STRANGER] [5, 3, 4]
     REPLAY_HEAVY"

definition profile_containment_composition :: profile where
  "profile_containment_composition = plain_profile ''containment-composition''
     [ALL_MATERIAL_ACTOR, ONE_GUARDIAN_ATTACKER, STRANGER] [5, 3, 4]
     CONTAINMENT_HEAVY"

definition profile_dead_verifier_escape :: profile where
  "profile_dead_verifier_escape = (plain_profile ''dead-verifier-escape''
     [ALL_MATERIAL_ACTOR, ECDSA_ONLY_ATTACKER, STRANGER] [6, 3, 3]
     RECOVERY_HEAVY)
     \<lparr>prof_verifier := Some VReverting\<rparr>"

definition profile_byzantine_verifier :: profile where
  "profile_byzantine_verifier = (plain_profile ''byzantine-verifier''
     [ALL_MATERIAL_ACTOR, ECDSA_ONLY_ATTACKER, ONE_GUARDIAN_ATTACKER, STRANGER] [4, 4, 3, 2]
     BROAD)
     \<lparr>prof_verifier := Some VAlwaysTrue\<rparr>"

definition profile_ecdsa_only_floor :: profile where
  "profile_ecdsa_only_floor = (plain_profile ''ecdsa-only-floor''
     [ALL_MATERIAL_ACTOR, ECDSA_ONLY_ATTACKER, ONE_GUARDIAN_ATTACKER, STRANGER] [5, 3, 2, 2]
     BROAD)
     \<lparr>ecdsa_only_floor := True\<rparr>"

definition profile_quorum_without_credential :: profile where
  "profile_quorum_without_credential = plain_profile ''quorum-without-credential''
     [ALL_MATERIAL_ACTOR, TWO_GUARDIAN_ATTACKER, ONE_GUARDIAN_ATTACKER, STRANGER] [3, 5, 3, 1]
     (BROAD ++ map_of
     [(SET_GUARDIANS, 14), (BIND_MIGRATION, 12), (ENTER_CONTAINMENT, 12), (INITIATE_RECOVERY, 12),
      (ADVANCE_TIME, 14), (SPEND, 6), (FACTORY_DEPLOY_TWIN, 0)])"

definition profile_policy_plane_denial :: profile where
  "profile_policy_plane_denial = plain_profile ''policy-plane-denial''
     [ALL_MATERIAL_ACTOR, ECDSA_ONLY_ATTACKER, STRANGER] [6, 3, 1]
     (BROAD ++ map_of
     [(SET_POLICY, 18), (SPEND, 20), (FUND, 6), (ADVANCE_TIME, 8), (SET_GUARDIANS, 2), (BIND_MIGRATION,
      0), (RETIRE, 0), (EGRESS_NATIVE, 0), (EGRESS_TOKEN, 0), (FACTORY_DEPLOY_TWIN, 0)])"

definition profile_containment_duty_cycle :: profile where
  "profile_containment_duty_cycle = (plain_profile ''containment-duty-cycle''
     [ALL_MATERIAL_ACTOR, TWO_GUARDIAN_ATTACKER, STRANGER] [6, 3, 1]
     (BROAD ++ map_of
     [(ENTER_CONTAINMENT, 26), (ADVANCE_TIME, 26), (SPEND, 6), (SET_GUARDIANS, 2), (BIND_MIGRATION, 0),
      (RETIRE, 0), (FACTORY_DEPLOY_TWIN, 0)]))
     \<lparr>time_bias := Some DutyCycle\<rparr>"

definition profile_containment_straddle :: profile where
  "profile_containment_straddle = (plain_profile ''containment-straddle''
     [ALL_MATERIAL_ACTOR, TWO_GUARDIAN_ATTACKER, STRANGER] [6, 3, 1]
     (BROAD ++ map_of
     [(ENTER_CONTAINMENT, 30), (ADVANCE_TIME, 30), (SPEND, 6), (ROTATE_CREDENTIAL, 1), (SET_VERIFIER, 1),
      (SET_POLICY, 1), (SET_GUARDIANS, 2), (INITIATE_RECOVERY, 2), (CANCEL_RECOVERY, 1),
      (EXECUTE_RECOVERY, 1), (BIND_MIGRATION, 0), (RETIRE, 0), (EGRESS_NATIVE, 0), (EGRESS_TOKEN, 0),
      (REPLAY_PAST_CALL, 2), (FACTORY_DEPLOY_TWIN, 0)]))
     \<lparr>time_bias := Some Straddle\<rparr>"

definition profile_recovery_vs_roster :: profile where
  "profile_recovery_vs_roster = (plain_profile ''recovery-vs-roster''
     [ALL_MATERIAL_ACTOR, ONE_GUARDIAN_ATTACKER, STRANGER] [7, 2, 1]
     (BROAD ++ map_of
     [(INITIATE_RECOVERY, 14), (EXECUTE_RECOVERY, 16), (SET_GUARDIANS, 12), (CANCEL_RECOVERY, 3),
      (ADVANCE_TIME, 22), (SPEND, 4), (BIND_MIGRATION, 0), (RETIRE, 0), (FACTORY_DEPLOY_TWIN, 0)]))
     \<lparr>time_bias := Some Maturation, honest_recovery_bias := True\<rparr>"

definition profile_stranger_only :: profile where
  "profile_stranger_only = plain_profile ''stranger-only''
     [ALL_MATERIAL_ACTOR, STRANGER] [3, 7]
     BROAD"

definition profile_ecdsa_only_committed :: profile where
  "profile_ecdsa_only_committed = (plain_profile ''ecdsa-only-committed''
     [ALL_MATERIAL_ACTOR, ECDSA_ONLY_ATTACKER, ONE_GUARDIAN_ATTACKER, STRANGER] [5, 3, 2, 2]
     (BROAD ++ map_of
     [(SET_VERIFIER, 5), (INITIATE_RECOVERY, 22), (EXECUTE_RECOVERY, 6), (CANCEL_RECOVERY, 3),
      (SET_GUARDIANS, 2), (BIND_MIGRATION, 0), (RETIRE, 0), (FACTORY_DEPLOY_TWIN, 0), (ADVANCE_TIME, 12),
      (SPEND, 4)]))
     \<lparr>ecdsa_only_floor := True, commit_pq_key_on_ecdsa_only_floor := True\<rparr>"

definition profile_commitment_forgery :: profile where
  "profile_commitment_forgery = (plain_profile ''commitment-forgery''
     [ALL_MATERIAL_ACTOR, ECDSA_ONLY_ATTACKER, ONE_GUARDIAN_ATTACKER, STRANGER] [5, 4, 2, 1]
     (BROAD ++ map_of
     [(ROTATE_CREDENTIAL, 26), (SET_VERIFIER, 8), (INITIATE_RECOVERY, 8), (EXECUTE_RECOVERY, 5),
      (CANCEL_RECOVERY, 2), (SET_GUARDIANS, 2), (BIND_MIGRATION, 0), (RETIRE, 0), (FACTORY_DEPLOY_TWIN,
      0), (ADVANCE_TIME, 8), (SPEND, 4)]))
     \<lparr>ecdsa_only_floor := True, commit_pq_key_on_ecdsa_only_floor := True, fabricate_commitments := True\<rparr>"

definition profile_recovery_lifecycle :: profile where
  "profile_recovery_lifecycle = (plain_profile ''recovery-lifecycle''
     [ALL_MATERIAL_ACTOR, ECDSA_ONLY_ATTACKER, TWO_GUARDIAN_ATTACKER, ONE_GUARDIAN_ATTACKER, STRANGER] [5, 3, 3, 2, 1]
     (BROAD ++ map_of
     [(INITIATE_RECOVERY, 18), (CANCEL_RECOVERY, 12), (CANCEL_RECOVERY_BY_QUORUM, 12), (EXECUTE_RECOVERY,
      12), (ADVANCE_TIME, 22), (ROTATE_CREDENTIAL, 6), (SET_GUARDIANS, 2), (SPEND, 4), (SET_VERIFIER, 3),
      (SET_POLICY, 2), (ENTER_CONTAINMENT, 3), (BIND_MIGRATION, 1), (RETIRE, 0), (EGRESS_NATIVE, 0),
      (EGRESS_TOKEN, 0), (REPLAY_PAST_CALL, 6), (FACTORY_DEPLOY_TWIN, 0)]))
     \<lparr>time_bias := Some Maturation, honest_recovery_bias := True\<rparr>"

definition PROFILES :: "profile list" where
  "PROFILES =
     [profile_ecdsa_only_attacker,
      profile_one_guardian_attacker,
      profile_mixed_roots_attacker,
      profile_recovery_composition,
      profile_recovery_maturation,
      profile_replay_composition,
      profile_containment_composition,
      profile_dead_verifier_escape,
      profile_byzantine_verifier,
      profile_ecdsa_only_floor,
      profile_quorum_without_credential,
      profile_policy_plane_denial,
      profile_containment_duty_cycle,
      profile_containment_straddle,
      profile_recovery_vs_roster,
      profile_stranger_only,
      profile_ecdsa_only_committed,
      profile_commitment_forgery,
      profile_recovery_lifecycle]"

section \<open>Plan generation\<close>

definition TIME_DEFAULT :: "int list" where
  "TIME_DEFAULT = [3600, 86400, 3 * 86400, 7 * 86400 + 1, 15 * 86400, 22 * 86400, 31 * 86400]"

definition TIME_MATURATION :: "int list" where
  "TIME_MATURATION =
     [7 * 86400 + 1, 7 * 86400 + 1, 8 * 86400, 10 * 86400, 3600, 15 * 86400, 22 * 86400, 31 * 86400]"

definition TIME_DUTY_CYCLE :: "int list" where
  "TIME_DUTY_CYCLE = [3 * 86400, 3 * 86400, 3 * 86400 + 1, 86400, 7 * 86400 + 1, 31 * 86400]"

definition TIME_STRADDLE :: "int list" where
  "TIME_STRADDLE = [3 * 86400, 3 * 86400, 6 * 86400, 12 * 86400, 21 * 86400, 24 * 86400, 27 * 86400]"

definition time_steps :: "profile \<Rightarrow> int list" where
  "time_steps prof =
     (case time_bias prof of
        Some Maturation \<Rightarrow> TIME_MATURATION
      | Some DutyCycle \<Rightarrow> TIME_DUTY_CYCLE
      | Some Straddle \<Rightarrow> TIME_STRADDLE
      | None \<Rightarrow> TIME_DEFAULT)"

definition QUORUM_WEIGHTS :: "int list" where
  "QUORUM_WEIGHTS = [4, 3, 2, 2, 1, 1, 1]"

definition draw_quorum_shape :: "quorum_shape draw" where
  "draw_quorum_shape = draw_weighted QUORUM_SHAPES QUORUM_WEIGHTS"

definition draw_recovery_verifier :: "profile \<Rightarrow> verifier_kind draw" where
  "draw_recovery_verifier prof =
     (if honest_recovery_bias prof then retR VHonest
      else draw_weighted [VHonest, VAlwaysTrue, VAlwaysFalse, VReverting] [5, 2, 1, 1])"

fun gen_params :: "action_kind \<Rightarrow> profile \<Rightarrow> params draw" where
  "gen_params FUND prof =
     bindR (draw_pick [''0.5'', ''1'', ''2'']) (\<lambda>eth. retR (no_params\<lparr>p_eth := Some eth\<rparr>))"
| "gen_params ADVANCE_TIME prof =
     bindR (draw_pick (time_steps prof)) (\<lambda>secs. retR (no_params\<lparr>p_seconds := Some secs\<rparr>))"
| "gen_params SPEND prof =
     bindR (draw_pick [''0.5'', ''1'', ''2'']) (\<lambda>eth.
     bindR (draw_chance 1 10) (\<lambda>to_self.
     retR (no_params\<lparr>p_eth := Some eth, p_to_self := Some to_self\<rparr>)))"
| "gen_params ROTATE_CREDENTIAL prof =
     bindR (draw_int 3) (\<lambda>target.
     bindR (draw_chance 1 4) (\<lambda>pop_stale.
     retR (no_params\<lparr>p_target := Some target, p_pop_stale := Some pop_stale\<rparr>)))"
| "gen_params SET_VERIFIER prof =
     bindR (draw_pick [VHonest, VAlwaysTrue, VAlwaysFalse, VReverting]) (\<lambda>verifier.
     bindR (draw_chance 3 10) (\<lambda>bump_level.
     bindR (draw_chance 1 4) (\<lambda>shrink_lengths.
     bindR (draw_chance 7 20) (\<lambda>raise_pq.
     retR (no_params\<lparr>p_verifier := Some verifier, p_bump_level := Some bump_level,
             p_shrink_lengths := Some shrink_lengths, p_raise_pq := Some raise_pq\<rparr>)))))"
| "gen_params SET_POLICY prof =
     bindR (draw_pick [PolNone, PolAllow, PolDeny, PolStateful, PolCodeless]) (\<lambda>policy.
     retR (no_params\<lparr>p_policy := Some policy\<rparr>))"
| "gen_params SET_GUARDIANS prof =
     bindR draw_quorum_shape (\<lambda>shape.
     bindR (draw_pick [1, 2, 3]) (\<lambda>new_threshold.
     bindR (draw_between 1 3) (\<lambda>roster_gen.
     bindR (draw_chance 1 5) (\<lambda>duplicate_roster.
     retR (no_params\<lparr>p_quorum_shape := Some shape, p_new_threshold := Some new_threshold,
             p_roster_gen := Some roster_gen, p_duplicate_roster := Some duplicate_roster\<rparr>)))))"
| "gen_params INITIATE_RECOVERY prof =
     bindR draw_quorum_shape (\<lambda>shape.
     bindR (draw_int 3) (\<lambda>target.
     bindR (draw_recovery_verifier prof) (\<lambda>verifier.
     retR (no_params\<lparr>p_quorum_shape := Some shape, p_target := Some target, p_verifier := Some verifier\<rparr>))))"
| "gen_params EXECUTE_RECOVERY prof =
     bindR (if honest_recovery_bias prof then draw_chance 1 10 else draw_chance 3 10) (\<lambda>pop_stale.
     retR (no_params\<lparr>p_pop_stale := Some pop_stale\<rparr>))"
| "gen_params ENTER_CONTAINMENT prof =
     bindR draw_quorum_shape (\<lambda>shape. retR (no_params\<lparr>p_quorum_shape := Some shape\<rparr>))"
| "gen_params BIND_MIGRATION prof =
     bindR draw_quorum_shape (\<lambda>shape. retR (no_params\<lparr>p_quorum_shape := Some shape\<rparr>))"
| "gen_params CANCEL_RECOVERY_BY_QUORUM prof =
     bindR draw_quorum_shape (\<lambda>shape. retR (no_params\<lparr>p_quorum_shape := Some shape\<rparr>))"
| "gen_params REPLAY_PAST_CALL prof =
     bindR (draw_int 64) (\<lambda>index. retR (no_params\<lparr>p_index := Some index\<rparr>))"
| "gen_params _ prof = retR no_params"

definition weight_of :: "profile \<Rightarrow> action_kind \<Rightarrow> int" where
  "weight_of prof k = (case prof_weights prof k of None \<Rightarrow> 0 | Some w \<Rightarrow> w)"

definition plan_kinds :: "profile \<Rightarrow> action_kind list" where
  "plan_kinds prof = filter (\<lambda>k. 0 < weight_of prof k) ACTION_KINDS"

definition gen_action :: "profile \<Rightarrow> generated_action draw" where
  "gen_action prof =
     bindR (draw_weighted (plan_kinds prof) (map (weight_of prof) (plan_kinds prof))) (\<lambda>kind.
     bindR (draw_weighted (map actor_name (prof_actors prof)) (prof_actor_weights prof)) (\<lambda>nm.
     bindR (gen_params kind prof) (\<lambda>ps.
     retR \<lparr>a_kind = kind, a_actor_name = nm, a_params = ps\<rparr>)))"

text \<open>The loop of \<open>generatePlan\<close>, with the plan so far.\<close>

fun plan_loop :: "nat \<Rightarrow> profile \<Rightarrow> generated_action list \<Rightarrow> generated_action list draw" where
  "plan_loop 0 prof plan = retR plan"
| "plan_loop (Suc n) prof plan = bindR (gen_action prof) (\<lambda>a. plan_loop n prof (plan @ [a]))"

definition generate_plan :: "profile \<Rightarrow> int \<Rightarrow> nat \<Rightarrow> prng_error + generated_action list" where
  "generate_plan prof seed depth =
     bindE (plan_loop depth prof [] (make_prng seed)) (\<lambda>(plan, s). Inr plan)"

section \<open>What a plan can hold\<close>

text \<open>
  The parameters of every action: the fields it has, each in its range, and no other field. A recovery's verifier is
  the honest one where the profile must drive recoveries through.
\<close>

definition recovery_verifiers :: "profile \<Rightarrow> verifier_kind set" where
  "recovery_verifiers prof =
     (if honest_recovery_bias prof then {VHonest} else {VHonest, VAlwaysTrue, VAlwaysFalse, VReverting})"

fun params_ok :: "profile \<Rightarrow> action_kind \<Rightarrow> params \<Rightarrow> bool" where
  "params_ok prof FUND ps = (\<exists>eth \<in> set [''0.5'', ''1'', ''2'']. ps = no_params\<lparr>p_eth := Some eth\<rparr>)"
| "params_ok prof ADVANCE_TIME ps = (\<exists>t \<in> set (time_steps prof). ps = no_params\<lparr>p_seconds := Some t\<rparr>)"
| "params_ok prof SPEND ps =
     (\<exists>eth \<in> set [''0.5'', ''1'', ''2'']. \<exists>to_self. ps = no_params\<lparr>p_eth := Some eth, p_to_self := Some to_self\<rparr>)"
| "params_ok prof ROTATE_CREDENTIAL ps =
     (\<exists>i \<in> {i. 0 \<le> i \<and> i < 3}. \<exists>stale. ps = no_params\<lparr>p_target := Some i, p_pop_stale := Some stale\<rparr>)"
| "params_ok prof SET_VERIFIER ps =
     (\<exists>v \<in> set [VHonest, VAlwaysTrue, VAlwaysFalse, VReverting]. \<exists>bump shrink raise.
        ps = no_params\<lparr>p_verifier := Some v, p_bump_level := Some bump, p_shrink_lengths := Some shrink,
               p_raise_pq := Some raise\<rparr>)"
| "params_ok prof SET_POLICY ps =
     (\<exists>pol \<in> set [PolNone, PolAllow, PolDeny, PolStateful, PolCodeless]. ps = no_params\<lparr>p_policy := Some pol\<rparr>)"
| "params_ok prof SET_GUARDIANS ps =
     (\<exists>shape \<in> set QUORUM_SHAPES. \<exists>t \<in> set [1, 2, 3]. \<exists>g \<in> {g. 1 \<le> g \<and> g \<le> 3}. \<exists>twice.
        ps = no_params\<lparr>p_quorum_shape := Some shape, p_new_threshold := Some t, p_roster_gen := Some g,
               p_duplicate_roster := Some twice\<rparr>)"
| "params_ok prof INITIATE_RECOVERY ps =
     (\<exists>shape \<in> set QUORUM_SHAPES. \<exists>i \<in> {i. 0 \<le> i \<and> i < 3}. \<exists>v \<in> recovery_verifiers prof.
        ps = no_params\<lparr>p_quorum_shape := Some shape, p_target := Some i, p_verifier := Some v\<rparr>)"
| "params_ok prof EXECUTE_RECOVERY ps = (\<exists>stale. ps = no_params\<lparr>p_pop_stale := Some stale\<rparr>)"
| "params_ok prof ENTER_CONTAINMENT ps = (\<exists>shape \<in> set QUORUM_SHAPES. ps = no_params\<lparr>p_quorum_shape := Some shape\<rparr>)"
| "params_ok prof BIND_MIGRATION ps = (\<exists>shape \<in> set QUORUM_SHAPES. ps = no_params\<lparr>p_quorum_shape := Some shape\<rparr>)"
| "params_ok prof CANCEL_RECOVERY_BY_QUORUM ps =
     (\<exists>shape \<in> set QUORUM_SHAPES. ps = no_params\<lparr>p_quorum_shape := Some shape\<rparr>)"
| "params_ok prof REPLAY_PAST_CALL ps = (\<exists>i \<in> {i. 0 \<le> i \<and> i < 64}. ps = no_params\<lparr>p_index := Some i\<rparr>)"
| "params_ok prof _ ps = (ps = no_params)"

text \<open>The shape of a profile the generator relies on.\<close>

definition profile_ok :: "profile \<Rightarrow> bool" where
  "profile_ok prof \<longleftrightarrow>
     length (prof_actors prof) = length (prof_actor_weights prof) \<and>
     list_all (\<lambda>w. 0 \<le> w) (prof_actor_weights prof) \<and> 0 < sum_list (prof_actor_weights prof) \<and>
     plan_kinds prof \<noteq> []"

definition action_ok :: "profile \<Rightarrow> generated_action \<Rightarrow> bool" where
  "action_ok prof a \<longleftrightarrow>
     0 < weight_of prof (a_kind a) \<and> a_actor_name a \<in> actor_name ` set (prof_actors prof) \<and>
     params_ok prof (a_kind a) (a_params a)"

lemma draws_weighted_set:
  "length xs = length ws \<Longrightarrow> \<forall>w \<in> set ws. 0 \<le> w \<Longrightarrow> 0 < sum_list ws \<Longrightarrow> draws (draw_weighted xs ws) (\<lambda>x. x \<in> set xs)"
  by (rule draws_weaken [OF draws_weighted]) (auto intro: nth_mem)

lemma draws_if: "draws m P \<Longrightarrow> draws n P \<Longrightarrow> draws (if b then m else n) P"
  by simp

lemma draws_quorum_shape [draw_rules]: "draws draw_quorum_shape (\<lambda>shape. shape \<in> set QUORUM_SHAPES)"
  unfolding draw_quorum_shape_def
  by (rule draws_weighted_set) (simp_all add: QUORUM_SHAPES_def QUORUM_WEIGHTS_def)

lemma draws_verifier [draw_rules]: "draws (draw_recovery_verifier prof) (\<lambda>v. v \<in> recovery_verifiers prof)"
proof (cases "honest_recovery_bias prof")
  case False
  have "draws (draw_weighted [VHonest, VAlwaysTrue, VAlwaysFalse, VReverting] [5, 2, 1, 1])
      (\<lambda>v. v \<in> set [VHonest, VAlwaysTrue, VAlwaysFalse, VReverting])"
    by (rule draws_weighted_set) simp_all
  with False show ?thesis by (simp add: draw_recovery_verifier_def recovery_verifiers_def)
qed (simp add: draw_recovery_verifier_def recovery_verifiers_def draws_ret)

lemma time_steps_not_Nil: "time_steps prof \<noteq> []"
  by (auto simp: time_steps_def TIME_DEFAULT_def TIME_MATURATION_def TIME_DUTY_CYCLE_def TIME_STRADDLE_def
      split: option.splits time_bias_kind.splits)

lemma gen_params_ok: "draws (gen_params kind prof) (params_ok prof kind)"
  by (cases kind; simp only: gen_params.simps)
     (rule draws_bind draws_ret draws_if draw_rules time_steps_not_Nil list.distinct zero_less_numeral one_le_numeral
       | (simp only: params_ok.simps; blast))+

lemma map_nth_positive:
  "(\<exists>i < length xs. x = xs ! i \<and> 0 < map f xs ! i) \<Longrightarrow> x \<in> set xs \<and> 0 < f x"
  by auto

lemma gen_action_ok:
  assumes "profile_ok prof"
  shows "draws (gen_action prof) (action_ok prof)"
proof -
  have k: "\<forall>w \<in> set (map (weight_of prof) (plan_kinds prof)). 0 \<le> w"
    "0 < sum_list (map (weight_of prof) (plan_kinds prof))"
  proof -
    show a: "\<forall>w \<in> set (map (weight_of prof) (plan_kinds prof)). 0 \<le> w"
      by (auto simp: plan_kinds_def)
    obtain x xs where x: "plan_kinds prof = x # xs" using assms by (cases "plan_kinds prof") (auto simp: profile_ok_def)
    then have "0 < weight_of prof x" by (metis (mono_tags) plan_kinds_def filter_eq_ConsD)
    moreover have "0 \<le> sum_list (map (weight_of prof) xs)" using a x by (intro sum_list_nonneg) auto
    ultimately show "0 < sum_list (map (weight_of prof) (plan_kinds prof))" using x by simp
  qed
  have kinds: "draws (draw_weighted (plan_kinds prof) (map (weight_of prof) (plan_kinds prof)))
      (\<lambda>x. 0 < weight_of prof x)"
    by (rule draws_weaken [OF draws_weighted [OF _ k]]) (use map_nth_positive in auto)
  have actors: "draws (draw_weighted (map actor_name (prof_actors prof)) (prof_actor_weights prof))
      (\<lambda>x. x \<in> actor_name ` set (prof_actors prof))"
    by (rule draws_weaken [OF draws_weighted]) (use assms in \<open>auto simp: profile_ok_def list_all_iff\<close>)
  show ?thesis unfolding gen_action_def
    by (rule draws_bind [OF kinds], rule draws_bind [OF actors], rule draws_bind [OF gen_params_ok],
        rule draws_ret) (simp add: action_ok_def)
qed

lemma plan_loop_ok:
  assumes "profile_ok prof"
  shows "draws (plan_loop n prof plan)
    (\<lambda>plan'. \<exists>new. plan' = plan @ new \<and> length new = n \<and> list_all (action_ok prof) new)"
proof (induction n arbitrary: plan)
  case 0
  then show ?case by (simp add: draws_ret)
next
  case (Suc n)
  show ?case unfolding plan_loop.simps
  proof (rule draws_bind [OF gen_action_ok [OF assms]])
    fix a assume a: "action_ok prof a"
    show "draws (plan_loop n prof (plan @ [a]))
        (\<lambda>plan'. \<exists>new. plan' = plan @ new \<and> length new = Suc n \<and> list_all (action_ok prof) new)"
    proof (rule draws_weaken [OF Suc.IH])
      fix plan' assume "\<exists>new. plan' = (plan @ [a]) @ new \<and> length new = n \<and> list_all (action_ok prof) new"
      then obtain new where "plan' = (plan @ [a]) @ new" "length new = n" "list_all (action_ok prof) new" by blast
      then show "\<exists>new. plan' = plan @ new \<and> length new = Suc n \<and> list_all (action_ok prof) new"
        using a by (intro exI [of _ "a # new"]) simp
    qed
  qed
qed

lemma generate_plan_ok:
  assumes "profile_ok prof"
  obtains plan where "generate_plan prof seed depth = Inr plan" and "length plan = depth"
    and "list_all (action_ok prof) plan"
proof -
  obtain plan s' where "plan_loop depth prof [] (make_prng seed) = Inr (plan, s')"
    "\<exists>new. plan = [] @ new \<and> length new = depth \<and> list_all (action_ok prof) new"
    by (rule drawsE [OF plan_loop_ok [OF assms]])
  then show ?thesis using that by (auto simp: generate_plan_def)
qed

text \<open>A deeper plan from the same seed extends the shallower one.\<close>

lemma plan_loop_append:
  "plan_loop (n + m) prof plan s = bindE (plan_loop n prof plan s) (\<lambda>(plan, s). plan_loop m prof plan s)"
proof (induction n arbitrary: plan s)
  case 0
  then show ?case by (simp add: retR_def)
next
  case (Suc n)
  then show ?case by (cases "gen_action prof s") (auto simp: bindR_def)
qed

lemma generate_plan_extends:
  assumes "profile_ok prof" and "generate_plan prof seed n = Inr plan"
  shows "\<exists>more_actions. generate_plan prof seed (n + m) = Inr (plan @ more_actions)"
proof -
  obtain s where s: "plan_loop n prof [] (make_prng seed) = Inr (plan, s)"
    using assms(2) by (auto simp: generate_plan_def bindE_eq_Inr)
  obtain plan' s' where p: "plan_loop m prof plan s = Inr (plan', s')"
    "\<exists>new. plan' = plan @ new \<and> length new = m \<and> list_all (action_ok prof) new"
    by (rule drawsE [OF plan_loop_ok [OF assms(1)]])
  then show ?thesis using s by (auto simp: generate_plan_def plan_loop_append)
qed

section \<open>Properties\<close>

lemmas profile_defs =
  profile_ecdsa_only_attacker_def profile_one_guardian_attacker_def profile_mixed_roots_attacker_def
  profile_recovery_composition_def profile_recovery_maturation_def profile_replay_composition_def
  profile_containment_composition_def profile_dead_verifier_escape_def profile_byzantine_verifier_def
  profile_ecdsa_only_floor_def profile_quorum_without_credential_def profile_policy_plane_denial_def
  profile_containment_duty_cycle_def profile_containment_straddle_def profile_recovery_vs_roster_def
  profile_stranger_only_def profile_ecdsa_only_committed_def profile_commitment_forgery_def
  profile_recovery_lifecycle_def

lemma profiles_ok: "list_all profile_ok PROFILES"
  by code_simp

text \<open>C40: Every shipped profile generates: from any seed and to any depth the plan is produced without an exception, has
  exactly that depth, holds only actions the profile gives a positive weight, issued by its own actors, each
  with exactly the parameters of its kind and each of them in its range, and a deeper plan from the same seed only extends it.\<close>

theorem plans_of_profiles:
  assumes "prof \<in> set PROFILES"
  shows "\<exists>plan. generate_plan prof seed depth = Inr plan \<and> length plan = depth \<and>
    (\<forall>a \<in> set plan. 0 < weight_of prof (a_kind a) \<and> a_actor_name a \<in> actor_name ` set (prof_actors prof) \<and>
      params_ok prof (a_kind a) (a_params a)) \<and>
    (\<forall>m. \<exists>rest. generate_plan prof seed (depth + m) = Inr (plan @ rest))"
proof -
  have ok: "profile_ok prof" using assms profiles_ok by (simp add: list_all_iff)
  obtain plan where "generate_plan prof seed depth = Inr plan" "length plan = depth" "list_all (action_ok prof) plan"
    by (rule generate_plan_ok [OF ok])
  then show ?thesis using generate_plan_extends [OF ok] unfolding list_all_iff action_ok_def by blast
qed

theorem plans_of_profiles_witness:
  "\<exists>plan. generate_plan profile_stranger_only 42 3 = Inr plan \<and> length plan = 3"
  using plans_of_profiles [of profile_stranger_only 42 3] by (simp add: PROFILES_def) blast

end
