(* ===== verification/Authority_Model.thy ===== *)
theory Authority_Model
  imports Vault_Prelude
begin

text \<open>
  The abstract security model of \<open>prototype/vnext-kernel/stateful/model.ts\<close>, the oracle of the
  stateful authority campaign: the declared minimum-compromise cuts, the authority paths an
  outcome may be reached by, and the harness's own record of recovery episodes. The prose of a
  violation is a constructor carrying the values its message interpolates. Timestamps, which the
  code keeps as bigints, are integers.
\<close>

section \<open>Roots and declared cuts\<close>

datatype root = CRED_ECDSA | CRED_PQ | GUARDIAN_0 | GUARDIAN_1 | GUARDIAN_2

definition guardian_roots :: "root list" where
  "guardian_roots = [GUARDIAN_0, GUARDIAN_1, GUARDIAN_2]"

datatype outcome =
    ASSET_MOVEMENT | CREDENTIAL_REPLACEMENT | VERIFIER_REPLACEMENT | POLICY_CHANGE
  | GUARDIAN_TRANSITION | MIGRATION_BINDING | CONTAINMENT | RECOVERY_QUORUM_CANCEL

text \<open>The constants of the published table, for the fixture with \<open>k = 2\<close>.\<close>

fun DECLARED_CUTS :: "outcome \<Rightarrow> nat" where
  "DECLARED_CUTS ASSET_MOVEMENT = 2"
| "DECLARED_CUTS CREDENTIAL_REPLACEMENT = 2"
| "DECLARED_CUTS VERIFIER_REPLACEMENT = 2"
| "DECLARED_CUTS POLICY_CHANGE = 2"
| "DECLARED_CUTS GUARDIAN_TRANSITION = 2"
| "DECLARED_CUTS MIGRATION_BINDING = 3"
| "DECLARED_CUTS CONTAINMENT = 2"
| "DECLARED_CUTS RECOVERY_QUORUM_CANCEL = 2"

definition declared_cuts :: "nat \<Rightarrow> nat \<Rightarrow> outcome \<Rightarrow> nat" where
  "declared_cuts credential_factors k target =
     (let credential_path = min credential_factors k
      in case target of
        ASSET_MOVEMENT \<Rightarrow> credential_path
      | CREDENTIAL_REPLACEMENT \<Rightarrow> credential_path
      | VERIFIER_REPLACEMENT \<Rightarrow> credential_path
      | POLICY_CHANGE \<Rightarrow> credential_path
      | GUARDIAN_TRANSITION \<Rightarrow> k
      | CONTAINMENT \<Rightarrow> k
      | MIGRATION_BINDING \<Rightarrow> k + 1
      | RECOVERY_QUORUM_CANCEL \<Rightarrow> k)"

datatype cut_source = AUTHORITY_md_section_3 | DERIVED_FROM_SOURCE

fun DOCUMENTED :: "outcome \<Rightarrow> cut_source" where
  "DOCUMENTED ASSET_MOVEMENT = AUTHORITY_md_section_3"
| "DOCUMENTED CREDENTIAL_REPLACEMENT = AUTHORITY_md_section_3"
| "DOCUMENTED VERIFIER_REPLACEMENT = AUTHORITY_md_section_3"
| "DOCUMENTED POLICY_CHANGE = DERIVED_FROM_SOURCE"
| "DOCUMENTED GUARDIAN_TRANSITION = AUTHORITY_md_section_3"
| "DOCUMENTED MIGRATION_BINDING = AUTHORITY_md_section_3"
| "DOCUMENTED CONTAINMENT = AUTHORITY_md_section_3"
| "DOCUMENTED RECOVERY_QUORUM_CANCEL = DERIVED_FROM_SOURCE"

section \<open>Authority paths\<close>

record families =
  fam_credential :: nat
  fam_guardians :: nat

definition root_families :: "root set \<Rightarrow> families" where
  "root_families held =
     \<lparr>fam_credential = (if CRED_ECDSA \<in> held then 1 else 0) + (if CRED_PQ \<in> held then 1 else 0),
      fam_guardians = length (filter (\<lambda>g. g \<in> held) guardian_roots)\<rparr>"

record authority_path =
  path_name :: string
  path_credential :: nat
  path_guardians :: nat

definition authority_paths :: "outcome \<Rightarrow> nat \<Rightarrow> nat \<Rightarrow> authority_path list" where
  "authority_paths target credential_factors k =
     (if target \<in> {ASSET_MOVEMENT, CREDENTIAL_REPLACEMENT, VERIFIER_REPLACEMENT, POLICY_CHANGE}
      then [\<lparr>path_name = ''credential'', path_credential = credential_factors, path_guardians = 0\<rparr>,
            \<lparr>path_name = ''guardian-quorum-via-recovery'', path_credential = 0, path_guardians = k\<rparr>]
      else if target \<in> {GUARDIAN_TRANSITION, CONTAINMENT, RECOVERY_QUORUM_CANCEL}
      then [\<lparr>path_name = ''guardian-quorum'', path_credential = 0, path_guardians = k\<rparr>]
      else if target = MIGRATION_BINDING
      then [\<lparr>path_name = ''quorum-and-credential'', path_credential = 1, path_guardians = k\<rparr>]
      else [])"

record cut_judgement =
  entitled :: bool
  j_held :: families
  j_paths :: "authority_path list"

definition judge_cut :: "root set \<Rightarrow> outcome \<Rightarrow> nat \<Rightarrow> nat \<Rightarrow> cut_judgement" where
  "judge_cut held target credential_factors k =
     (let families = root_families held;
          paths = authority_paths target credential_factors k
      in \<lparr>entitled = list_ex (\<lambda>p. path_credential p \<le> fam_credential families \<and>
                                path_guardians p \<le> fam_guardians families) paths,
          j_held = families, j_paths = paths\<rparr>)"

section \<open>Recovery episodes\<close>

text \<open>The states an episode is recorded in; the code's \<open>"NONE"\<close> is never assigned.\<close>

datatype evidence_state = NONE | LIVE | CANCELLED | CONSUMED | SUPERSEDED | EXPIRED

datatype terminal_cause = CREDENTIAL_CHALLENGE | GUARDIAN_QUORUM

definition RECOVERY_WINDOW_SECONDS :: int where
  "RECOVERY_WINDOW_SECONDS = 21 * 86400"

record recovery_evidence =
  ev_id :: nat
  ev_state :: evidence_state
  ev_proposed_signer :: string
  ev_proposed_pq_key_hash :: string
  ev_proposed_verifier :: string
  ev_bound_guardian_generation :: int
  ev_initiated_at_step :: nat
  ev_expires_at :: int
  ev_terminated_by :: "terminal_cause option"
  ev_authorized_by :: "root set"
  ev_guardian_transitions_at_approval :: nat

record abstract_state =
  episodes :: "nat \<rightharpoonup> recovery_evidence"
  live_episode :: "nat option"
  next_episode_id :: nat
  credential_controlled_by :: string
  guardian_transitions :: nat
  credential_replacements :: nat
  migration_bound :: bool
  migration_authorized_by :: "root set"
  retired :: bool

definition fresh_abstract_state :: "string \<Rightarrow> abstract_state" where
  "fresh_abstract_state genesis_controller =
     \<lparr>episodes = Map.empty, live_episode = None, next_episode_id = 1,
      credential_controlled_by = genesis_controller, guardian_transitions = 0,
      credential_replacements = 0, migration_bound = False, migration_authorized_by = {},
      retired = False\<rparr>"

definition current_episode :: "abstract_state \<Rightarrow> recovery_evidence option" where
  "current_episode s = (case live_episode s of None \<Rightarrow> None | Some i \<Rightarrow> episodes s i)"

definition episode_is_live_at :: "abstract_state \<Rightarrow> int \<Rightarrow> bool" where
  "episode_is_live_at s now =
     (case current_episode s of None \<Rightarrow> False | Some ev \<Rightarrow> ev_state ev = LIVE \<and> now < ev_expires_at ev)"

datatype model_violation =
    LiveRequestOverwritten int nat int
  | CancelledWithoutLiveEpisode terminal_cause "(nat \<times> evidence_state) option"
  | CancelledExpired terminal_cause int nat int
  | ExecutedWithoutEvidence
  | ExecutedUnknownEpisode
  | ExecutedTerminated evidence_state
  | ExecutedExpired int nat int

text \<open>
  The map holds the mutable evidence objects; \<open>prev\<close>, \<open>ev\<close> of the code are references into it,
  so changing one is changing the map at its key.
\<close>

definition set_state :: "nat \<Rightarrow> recovery_evidence \<Rightarrow> abstract_state \<Rightarrow> abstract_state" where
  "set_state i ev s = s\<lparr>episodes := (episodes s)(i \<mapsto> ev)\<rparr>"

record initiation =
  in_step :: nat
  in_signer :: string
  in_pq_key_hash :: string
  in_verifier :: string
  in_guardian_generation :: int
  in_authorized_by :: "root set"

definition supersede :: "int \<Rightarrow> abstract_state \<Rightarrow> model_violation option \<times> abstract_state" where
  "supersede at s =
     (case live_episode s of
        None \<Rightarrow> (None, s)
      | Some i \<Rightarrow> (case episodes s i of
          None \<Rightarrow> (None, s)
        | Some prev \<Rightarrow>
            if ev_state prev = LIVE
            then if at < ev_expires_at prev
                 then (Some (LiveRequestOverwritten at (ev_id prev) (ev_expires_at prev)),
                       set_state i (prev\<lparr>ev_state := SUPERSEDED\<rparr>) s)
                 else (None, set_state i (prev\<lparr>ev_state := EXPIRED\<rparr>) s)
            else (None, s)))"

definition record_initiation ::
  "initiation \<Rightarrow> int \<Rightarrow> abstract_state \<Rightarrow> model_violation option \<times> abstract_state" where
  "record_initiation req at s =
     (let (violation, s) = supersede at s;
          ev = \<lparr>ev_id = next_episode_id s, ev_state = LIVE, ev_proposed_signer = in_signer req,
                ev_proposed_pq_key_hash = in_pq_key_hash req, ev_proposed_verifier = in_verifier req,
                ev_bound_guardian_generation = in_guardian_generation req,
                ev_initiated_at_step = in_step req,
                ev_expires_at = at + RECOVERY_WINDOW_SECONDS, ev_terminated_by = None,
                ev_authorized_by = in_authorized_by req,
                ev_guardian_transitions_at_approval = guardian_transitions s\<rparr>
      in (violation, set_state (ev_id ev) ev
           (s\<lparr>next_episode_id := next_episode_id s + 1, live_episode := Some (ev_id ev)\<rparr>)))"

definition record_cancellation ::
  "terminal_cause \<Rightarrow> int \<Rightarrow> abstract_state \<Rightarrow> model_violation option \<times> abstract_state" where
  "record_cancellation by at s =
     (case live_episode s of
        None \<Rightarrow> (Some (CancelledWithoutLiveEpisode by None), s\<lparr>live_episode := None\<rparr>)
      | Some i \<Rightarrow> (case episodes s i of
          None \<Rightarrow> (Some (CancelledWithoutLiveEpisode by None), s\<lparr>live_episode := None\<rparr>)
        | Some ev \<Rightarrow>
            if ev_state ev \<noteq> LIVE
            then (Some (CancelledWithoutLiveEpisode by (Some (ev_id ev, ev_state ev))), s\<lparr>live_episode := None\<rparr>)
            else (if ev_expires_at ev \<le> at
                  then Some (CancelledExpired by at (ev_id ev) (ev_expires_at ev)) else None,
                  set_state i (ev\<lparr>ev_state := CANCELLED, ev_terminated_by := Some by\<rparr>)
                    (s\<lparr>live_episode := None\<rparr>))))"

definition record_execution :: "string \<Rightarrow> abstract_state \<Rightarrow> abstract_state" where
  "record_execution new_controller s =
     (let s = (case live_episode s of
                 None \<Rightarrow> s
               | Some i \<Rightarrow> (case episodes s i of
                   None \<Rightarrow> s | Some ev \<Rightarrow> set_state i (ev\<lparr>ev_state := CONSUMED\<rparr>) s))
      in s\<lparr>live_episode := None, credential_controlled_by := new_controller,
           credential_replacements := credential_replacements s + 1\<rparr>)"

definition judge_recovery_execution :: "abstract_state \<Rightarrow> int \<Rightarrow> model_violation option" where
  "judge_recovery_execution s at =
     (case live_episode s of
        None \<Rightarrow> Some ExecutedWithoutEvidence
      | Some i \<Rightarrow> (case episodes s i of
          None \<Rightarrow> Some ExecutedUnknownEpisode
        | Some ev \<Rightarrow>
            if ev_state ev \<noteq> LIVE then Some (ExecutedTerminated (ev_state ev))
            else if ev_expires_at ev \<le> at then Some (ExecutedExpired at (ev_id ev) (ev_expires_at ev))
            else None))"

section \<open>The cuts are minima over root sets\<close>

lemma UNIV_root: "UNIV = {CRED_ECDSA, CRED_PQ, GUARDIAN_0, GUARDIAN_1, GUARDIAN_2}"
  using root.exhaust by auto

lemma finite_root [simp]: "finite (held :: root set)"
  by (metis UNIV_root finite.emptyI finite.insertI finite_subset subset_UNIV)

text \<open>The two families count every root once.\<close>

lemma families_card: "fam_credential (root_families held) + fam_guardians (root_families held) = card held"
proof -
  have "card held = (\<Sum>r \<in> UNIV. if r \<in> held then 1 else 0)"
    by (simp add: sum.If_cases UNIV_root [symmetric])
  also have "\<dots> = fam_credential (root_families held) + fam_guardians (root_families held)"
    unfolding UNIV_root by (simp add: root_families_def guardian_roots_def)
  finally show ?thesis ..
qed

lemma entitled_iff:
  "entitled (judge_cut held target cf k) \<longleftrightarrow>
    (\<exists>p \<in> set (authority_paths target cf k).
       path_credential p \<le> fam_credential (root_families held) \<and>
       path_guardians p \<le> fam_guardians (root_families held))"
  by (auto simp: judge_cut_def Let_def list_ex_iff)

lemma path_cost: "p \<in> set (authority_paths target cf k) \<Longrightarrow> declared_cuts cf k target \<le> path_credential p + path_guardians p"
  by (cases target) (auto simp: authority_paths_def declared_cuts_def)

lemma cut_necessary: "entitled (judge_cut held target cf k) \<Longrightarrow> declared_cuts cf k target \<le> card held"
  using path_cost families_card [of held] unfolding entitled_iff by fastforce

text \<open>The first credential factors and the first guardians, as many as asked for.\<close>

definition first_roots :: "nat \<Rightarrow> nat \<Rightarrow> root set" where
  "first_roots c g = set (take c [CRED_ECDSA, CRED_PQ]) \<union> set (take g guardian_roots)"

lemma first_roots_families:
  assumes "c \<le> 2" and "g \<le> 3"
  shows "root_families (first_roots c g) = \<lparr>fam_credential = c, fam_guardians = g\<rparr>"
proof -
  have "c = 0 \<or> c = 1 \<or> c = 2" "g = 0 \<or> g = 1 \<or> g = 2 \<or> g = 3" using assms by linarith+
  then show ?thesis
    by (elim disjE) (simp_all add: root_families_def first_roots_def guardian_roots_def numeral_2_eq_2 numeral_3_eq_3)
qed

lemma cut_sufficient:
  assumes "cf \<le> 2" and "k \<le> 3"
  shows "\<exists>held. entitled (judge_cut held target cf k) \<and> card held = declared_cuts cf k target"
proof -
  have "\<exists>p \<in> set (authority_paths target cf k). path_credential p + path_guardians p = declared_cuts cf k target \<and>
      path_credential p \<le> 2 \<and> path_guardians p \<le> 3"
    using assms by (cases target) (simp_all add: authority_paths_def declared_cuts_def min_def)
  then obtain p where p: "p \<in> set (authority_paths target cf k)"
    "path_credential p + path_guardians p = declared_cuts cf k target"
    "path_credential p \<le> 2" "path_guardians p \<le> 3" by blast
  let ?held = "first_roots (path_credential p) (path_guardians p)"
  have "root_families ?held = \<lparr>fam_credential = path_credential p, fam_guardians = path_guardians p\<rparr>"
    by (rule first_roots_families [OF p(3,4)])
  then have "entitled (judge_cut ?held target cf k)" "card ?held = declared_cuts cf k target"
    using p(1,2) families_card [of ?held] unfolding entitled_iff by auto
  then show ?thesis by blast
qed

lemma root_families_mono:
  "held \<subseteq> held' \<Longrightarrow> fam_credential (root_families held) \<le> fam_credential (root_families held') \<and>
    fam_guardians (root_families held) \<le> fam_guardians (root_families held')"
  by (auto simp: root_families_def guardian_roots_def)

section \<open>Runs of the model\<close>

text \<open>What the campaign's actions feed to the model: a call that was accepted, at its block's timestamp.\<close>

datatype recovery_event =
    Initiated initiation int
  | Cancelled terminal_cause int
  | Executed string int

fun model_step :: "recovery_event \<Rightarrow> abstract_state \<Rightarrow> model_violation option \<times> abstract_state" where
  "model_step (Initiated req at) s = record_initiation req at s"
| "model_step (Cancelled by at) s = record_cancellation by at s"
| "model_step (Executed controller at) s = (judge_recovery_execution s at, record_execution controller s)"

fun model_run :: "recovery_event list \<Rightarrow> abstract_state \<Rightarrow> model_violation option list \<times> abstract_state" where
  "model_run [] s = ([], s)"
| "model_run (e # es) s =
     (let (v, s) = model_step e s; (vs, s) = model_run es s in (v # vs, s))"

lemma model_run_Cons [simp]:
  "model_run (e # es) s =
    (fst (model_step e s) # fst (model_run es (snd (model_step e s))), snd (model_run es (snd (model_step e s))))"
  by (simp add: case_prod_beta Let_def)

declare model_run.simps(2) [simp del]

lemma model_run_append:
  "model_run (es @ fs) s =
    (fst (model_run es s) @ fst (model_run fs (snd (model_run es s))), snd (model_run fs (snd (model_run es s))))"
  by (induction es arbitrary: s) simp_all

lemma model_run_length [simp]: "length (fst (model_run es s)) = length es"
  by (induction es arbitrary: s) simp_all

inductive model_reachable :: "abstract_state \<Rightarrow> bool" where
  fresh: "model_reachable (fresh_abstract_state controller)"
| step: "model_reachable s \<Longrightarrow> model_reachable (snd (model_step e s))"

lemma model_run_reachable: "model_reachable s \<Longrightarrow> model_reachable (snd (model_run es s))"
proof (induction es arbitrary: s)
  case (Cons e es)
  from Cons.IH [OF model_reachable.step [OF Cons.prems, of e]] show ?case by simp
qed simp

text \<open>
  The bookkeeping invariant: episodes are numbered from 1, the live one, if any, is the only one in
  state \<open>LIVE\<close>, and exactly the cancelled ones name a cause.
\<close>

definition episode_ok :: "nat \<Rightarrow> recovery_evidence \<Rightarrow> bool" where
  "episode_ok i ev \<longleftrightarrow> ev_id ev = i \<and> ev_state ev \<noteq> NONE \<and> (ev_state ev = CANCELLED \<longleftrightarrow> ev_terminated_by ev \<noteq> None)"

definition model_inv :: "abstract_state \<Rightarrow> bool" where
  "model_inv s \<longleftrightarrow>
     dom (episodes s) = {1..<next_episode_id s} \<and> 1 \<le> next_episode_id s \<and>
     (\<forall>i ev. episodes s i = Some ev \<longrightarrow> episode_ok i ev) \<and>
     (\<forall>i. live_episode s = Some i \<longleftrightarrow> (\<exists>ev. episodes s i = Some ev \<and> ev_state ev = LIVE))"

lemma fresh_inv: "model_inv (fresh_abstract_state c)"
  by (auto simp: model_inv_def fresh_abstract_state_def)

lemma live_episode_SomeD:
  "model_inv s \<Longrightarrow> live_episode s = Some i \<Longrightarrow>
    \<exists>ev. episodes s i = Some ev \<and> ev_state ev = LIVE \<and> ev_id ev = i \<and> i < next_episode_id s \<and> 1 \<le> i \<and>
      ev_terminated_by ev = None"
  unfolding model_inv_def episode_ok_def
  by (metis (no_types, lifting) atLeastLessThan_iff domI evidence_state.distinct(11) evidence_state.distinct(9))

lemma supersede_live:
  "model_inv s \<Longrightarrow> live_episode s = Some i \<Longrightarrow>
    \<exists>ev. episodes s i = Some ev \<and> ev_state ev = LIVE \<and>
      supersede at s =
        (if at < ev_expires_at ev
         then (Some (LiveRequestOverwritten at i (ev_expires_at ev)), set_state i (ev\<lparr>ev_state := SUPERSEDED\<rparr>) s)
         else (None, set_state i (ev\<lparr>ev_state := EXPIRED\<rparr>) s))"
  by (frule (1) live_episode_SomeD) (auto simp: supersede_def)

lemma supersede_inv:
  assumes inv: "model_inv s"
  shows "live_episode (snd (supersede at s)) = live_episode s \<and>
    next_episode_id (snd (supersede at s)) = next_episode_id s \<and>
    dom (episodes (snd (supersede at s))) = dom (episodes s) \<and>
    (\<forall>i ev. episodes (snd (supersede at s)) i = Some ev \<longrightarrow> episode_ok i ev \<and> ev_state ev \<noteq> LIVE)"
proof (cases "live_episode s")
  case None
  then show ?thesis using inv by (auto simp: supersede_def model_inv_def)
next
  case (Some i)
  from live_episode_SomeD [OF inv Some] obtain ev where ev: "episodes s i = Some ev" "ev_state ev = LIVE"
    "ev_id ev = i" "ev_terminated_by ev = None" by blast
  have others: "episode_ok j e \<and> ev_state e \<noteq> LIVE" if "episodes s j = Some e" "j \<noteq> i" for j e
    using inv that Some unfolding model_inv_def by (metis option.inject)
  then show ?thesis using ev Some
    by (auto simp: supersede_def set_state_def episode_ok_def split: if_splits)
qed

lemma record_initiation_inv:
  assumes inv: "model_inv s"
  shows "model_inv (snd (record_initiation req at s))"
proof -
  obtain v t where t: "supersede at s = (v, t)" by (cases "supersede at s")
  with supersede_inv [OF inv, of at] have t': "next_episode_id t = next_episode_id s"
    "dom (episodes t) = {1..<next_episode_id s}" "1 \<le> next_episode_id s"
    "\<And>i ev. episodes t i = Some ev \<Longrightarrow> episode_ok i ev \<and> ev_state ev \<noteq> LIVE"
    using inv by (auto simp: model_inv_def)
  then show ?thesis unfolding model_inv_def record_initiation_def t
    by (auto simp: set_state_def episode_ok_def)
qed

text \<open>Ending the live episode: the two other calls that change the record.\<close>

lemma end_live_inv:
  assumes inv: "model_inv s" and live: "live_episode s = Some i" and ev: "episodes s i = Some ev"
    and ok: "episode_ok i ev'" "ev_state ev' \<noteq> LIVE"
  shows "model_inv ((set_state i ev' s)\<lparr>live_episode := None\<rparr>)"
proof -
  have "i \<in> dom (episodes s)" using ev by blast
  moreover have "ev_state e \<noteq> LIVE" if "episodes s j = Some e" "j \<noteq> i" for j e
    using inv that live unfolding model_inv_def by (metis option.inject)
  ultimately show ?thesis using inv ok unfolding model_inv_def set_state_def by auto
qed

lemma model_inv_cong:
  "model_inv s \<Longrightarrow> episodes t = episodes s \<Longrightarrow> live_episode t = live_episode s \<Longrightarrow>
    next_episode_id t = next_episode_id s \<Longrightarrow> model_inv t"
  by (simp add: model_inv_def)

lemma record_cancellation_inv:
  assumes inv: "model_inv s"
  shows "model_inv (snd (record_cancellation by' at s))"
proof (cases "live_episode s")
  case None
  then show ?thesis using inv by (auto simp: record_cancellation_def elim!: model_inv_cong)
next
  case (Some i)
  from live_episode_SomeD [OF inv Some] obtain ev where ev: "episodes s i = Some ev" "ev_state ev = LIVE"
    "ev_id ev = i" "ev_terminated_by ev = None" by blast
  let ?ev = "ev\<lparr>ev_state := CANCELLED, ev_terminated_by := Some by'\<rparr>"
  have "model_inv ((set_state i ?ev s)\<lparr>live_episode := None\<rparr>)"
    by (rule end_live_inv [OF inv Some ev(1)]) (use ev in \<open>simp_all add: episode_ok_def\<close>)
  then show ?thesis using Some ev
    by (auto simp: record_cancellation_def set_state_def elim!: model_inv_cong)
qed

lemma record_execution_inv:
  assumes inv: "model_inv s"
  shows "model_inv (record_execution c s)"
proof (cases "live_episode s")
  case None
  then show ?thesis using inv by (auto simp: record_execution_def Let_def elim!: model_inv_cong)
next
  case (Some i)
  from live_episode_SomeD [OF inv Some] obtain ev where ev: "episodes s i = Some ev" "ev_state ev = LIVE"
    "ev_id ev = i" "ev_terminated_by ev = None" by blast
  let ?ev = "ev\<lparr>ev_state := CONSUMED\<rparr>"
  have "model_inv ((set_state i ?ev s)\<lparr>live_episode := None\<rparr>)"
    by (rule end_live_inv [OF inv Some ev(1)]) (use ev in \<open>simp_all add: episode_ok_def\<close>)
  then show ?thesis using Some ev
    by (auto simp: record_execution_def set_state_def Let_def elim!: model_inv_cong)
qed

lemma model_step_inv: "model_inv s \<Longrightarrow> model_inv (snd (model_step e s))"
  by (cases e) (simp_all add: record_initiation_inv record_cancellation_inv record_execution_inv)

lemma reachable_inv: "model_reachable s \<Longrightarrow> model_inv s"
  by (induction rule: model_reachable.induct) (simp_all add: fresh_inv model_step_inv)

section \<open>What the model flags\<close>

text \<open>
  The amendment's rule, over the accepted calls alone: a request is live from its initiation until it is
  cancelled, executed or replaced, and at most \<open>RECOVERY_WINDOW_SECONDS\<close>. An initiation is legitimate
  when nothing is live at its instant, a cancellation and an execution when something is.
\<close>

fun event_time :: "recovery_event \<Rightarrow> int" where
  "event_time (Initiated req at) = at"
| "event_time (Cancelled by at) = at"
| "event_time (Executed c at) = at"

fun opens_request :: "recovery_event \<Rightarrow> bool" where
  "opens_request (Initiated req at) = True"
| "opens_request e = False"

definition live_after :: "recovery_event list \<Rightarrow> int \<Rightarrow> bool" where
  "live_after es now \<longleftrightarrow>
     es \<noteq> [] \<and> opens_request (last es) \<and> now < event_time (last es) + RECOVERY_WINDOW_SECONDS"

definition legitimate :: "recovery_event list \<Rightarrow> recovery_event \<Rightarrow> bool" where
  "legitimate es e \<longleftrightarrow>
     (if opens_request e then \<not> live_after es (event_time e) else live_after es (event_time e))"

text \<open>The model's state after a run answers the rule's question.\<close>

lemma step_live:
  assumes inv: "model_inv s"
  shows "episode_is_live_at (snd (model_step e s)) now \<longleftrightarrow>
    opens_request e \<and> now < event_time e + RECOVERY_WINDOW_SECONDS"
proof (cases e)
  case (Initiated req at)
  then show ?thesis
    by (simp add: record_initiation_def episode_is_live_at_def current_episode_def set_state_def split: prod.split)
next
  case (Cancelled by' at)
  have "live_episode (snd (record_cancellation by' at s)) = None"
    by (auto simp: record_cancellation_def set_state_def split: option.splits)
  with Cancelled show ?thesis by (simp add: episode_is_live_at_def current_episode_def)
next
  case (Executed c at)
  have "live_episode (record_execution c s) = None" by (simp add: record_execution_def Let_def)
  with Executed show ?thesis by (simp add: episode_is_live_at_def current_episode_def)
qed

lemma run_live:
  "episode_is_live_at (snd (model_run es (fresh_abstract_state g))) now \<longleftrightarrow> live_after es now"
proof (cases es rule: rev_cases)
  case Nil
  then show ?thesis
    by (simp add: live_after_def episode_is_live_at_def current_episode_def fresh_abstract_state_def)
next
  case (snoc fs e)
  have "model_inv (snd (model_run fs (fresh_abstract_state g)))"
    by (intro reachable_inv model_run_reachable model_reachable.fresh)
  from step_live [OF this] show ?thesis by (simp add: snoc model_run_append live_after_def)
qed

lemma step_flags:
  assumes inv: "model_inv s"
  shows "fst (model_step e s) = None \<longleftrightarrow>
    (if opens_request e then \<not> episode_is_live_at s (event_time e) else episode_is_live_at s (event_time e))"
proof (cases "live_episode s")
  case None
  then show ?thesis
    by (cases e) (simp_all add: record_initiation_def supersede_def record_cancellation_def
        judge_recovery_execution_def episode_is_live_at_def current_episode_def)
next
  case (Some i)
  from live_episode_SomeD [OF inv Some] obtain ev where "episodes s i = Some ev" "ev_state ev = LIVE" by blast
  with Some show ?thesis
    by (cases e) (auto simp: record_initiation_def supersede_def record_cancellation_def
        judge_recovery_execution_def episode_is_live_at_def current_episode_def split: prod.splits if_splits)
qed

lemma run_flags:
  "i < length es \<Longrightarrow>
    fst (model_run es (fresh_abstract_state g)) ! i = None \<longleftrightarrow> legitimate (take i es) (es ! i)"
proof -
  assume i: "i < length es"
  let ?s = "snd (model_run (take i es) (fresh_abstract_state g))"
  have "es = take i es @ es ! i # drop (Suc i) es" using i by (rule id_take_nth_drop)
  then have "fst (model_run es (fresh_abstract_state g)) =
      fst (model_run (take i es) (fresh_abstract_state g)) @
      fst (model_step (es ! i) ?s) # fst (model_run (drop (Suc i) es) (snd (model_step (es ! i) ?s)))"
    using model_run_append [of "take i es" "es ! i # drop (Suc i) es"] by simp
  moreover have "length (fst (model_run (take i es) (fresh_abstract_state g))) = i" using i by simp
  ultimately have nth: "fst (model_run es (fresh_abstract_state g)) ! i = fst (model_step (es ! i) ?s)"
    by (simp add: nth_append)
  have "model_inv ?s" by (intro reachable_inv model_run_reachable model_reachable.fresh)
  from step_flags [OF this] show ?thesis unfolding nth legitimate_def run_live by simp
qed

text \<open>What a step may do to an episode it did not create.\<close>

definition evolves :: "recovery_evidence \<Rightarrow> recovery_evidence \<Rightarrow> bool" where
  "evolves ev ev' \<longleftrightarrow>
     (ev_state ev \<noteq> LIVE \<longrightarrow> ev' = ev) \<and>
     ev' = ev\<lparr>ev_state := ev_state ev', ev_terminated_by := ev_terminated_by ev'\<rparr>"

lemma evolves_refl: "evolves ev ev"
  by (simp add: evolves_def)

lemma model_step_evolves:
  assumes inv: "model_inv s" and ev: "episodes s i = Some ev"
  shows "\<exists>ev'. episodes (snd (model_step e s)) i = Some ev' \<and> evolves ev ev'"
proof -
  have new: "i \<noteq> next_episode_id s"
    using inv ev unfolding model_inv_def by (metis atLeastLessThan_iff domI less_irrefl)
  have "live_episode s = Some j \<Longrightarrow> ev_state ev \<noteq> LIVE \<Longrightarrow> j \<noteq> i" for j
    using inv ev unfolding model_inv_def by auto
  with inv ev new show ?thesis
    by (cases e; cases "live_episode s")
       (auto dest!: live_episode_SomeD simp: record_initiation_def supersede_def record_cancellation_def
         record_execution_def set_state_def evolves_def Let_def split: if_splits option.splits)
qed

lemma model_run_evolves:
  "model_inv s \<Longrightarrow> episodes s i = Some ev \<Longrightarrow>
    \<exists>ev'. episodes (snd (model_run es s)) i = Some ev' \<and> evolves ev ev'"
proof (induction es arbitrary: s ev)
  case Nil
  then show ?case by (auto simp: evolves_refl)
next
  case (Cons e es)
  from model_step_evolves [OF Cons.prems, of e] obtain f where
    f: "episodes (snd (model_step e s)) i = Some f" "evolves ev f" by blast
  from Cons.IH [OF model_step_inv [OF Cons.prems(1)] f(1)] obtain g where
    g: "episodes (snd (model_run es (snd (model_step e s)))) i = Some g" "evolves f g" by blast
  have "evolves ev g" using f(2) g(2) by (cases ev; cases f; cases g) (auto simp: evolves_def)
  with g(1) show ?case by simp
qed

section \<open>Properties\<close>

text \<open>C3: The declared cuts are exactly the minimum number of roots: for at most two credential factors and a threshold
  of at most three, no root set smaller than the declared cut satisfies any authority path of an outcome, and some
  root set of exactly that size does.\<close>

theorem declared_cut_is_minimum:
  assumes "cf \<le> 2" and "k \<le> 3"
  shows "(\<forall>held. card held < declared_cuts cf k target \<longrightarrow> \<not> entitled (judge_cut held target cf k)) \<and>
    (\<exists>held. card held = declared_cuts cf k target \<and> entitled (judge_cut held target cf k))"
  using cut_sufficient [OF assms, of target] cut_necessary leD by blast

theorem declared_cut_is_minimum_witness:
  "\<not> entitled (judge_cut {GUARDIAN_0, CRED_ECDSA} MIGRATION_BINDING 2 2) \<and>
    (\<exists>held. card held = 3 \<and> entitled (judge_cut held MIGRATION_BINDING 2 2))"
  using declared_cut_is_minimum [of 2 2 MIGRATION_BINDING] by (auto simp: declared_cuts_def)

text \<open>C9: The model flags exactly the accepted calls the recovery rule forbids: over any sequence of accepted
  initiations, cancellations and executions, it answers a violation for a call if and only if a request was live
  at an initiation, or none was live (cancelled, consumed, replaced, expired, never made) at a cancellation or an
  execution.\<close>

theorem model_flags_exactly:
  assumes "i < length es"
  shows "fst (model_run es (fresh_abstract_state g)) ! i = None \<longleftrightarrow> legitimate (take i es) (es ! i)"
  by (rule run_flags [OF assms])

text \<open>The request of the witnesses.\<close>

definition sample_initiation :: initiation where
  "sample_initiation =
     \<lparr>in_step = 0, in_signer = ''s'', in_pq_key_hash = ''h'', in_verifier = ''v'',
      in_guardian_generation = 1, in_authorized_by = {GUARDIAN_0, GUARDIAN_1}\<rparr>"

theorem model_flags_exactly_witness:
  "fst (model_run [Initiated sample_initiation 0, Executed ''c'' 1814399] (fresh_abstract_state ''c'')) ! 1 = None \<and>
   fst (model_run [Initiated sample_initiation 0, Executed ''c'' 1814400] (fresh_abstract_state ''c'')) ! 1 \<noteq> None"
  using model_flags_exactly [of 1 "[Initiated sample_initiation 0, Executed ''c'' 1814399]" "''c''"]
    model_flags_exactly [of 1 "[Initiated sample_initiation 0, Executed ''c'' 1814400]" "''c''"]
  by (simp add: legitimate_def live_after_def RECOVERY_WINDOW_SECONDS_def del: model_run_Cons)

text \<open>C7: In every reachable state of the model the episodes are numbered from 1 without gaps under their own ids, the
  live episode is the only one recorded LIVE, and exactly the cancelled episodes name who cancelled them.\<close>

theorem reachable_episodes:
  assumes "model_reachable s"
  shows "dom (episodes s) = {1..<next_episode_id s} \<and>
    (\<forall>i ev. episodes s i = Some ev \<longrightarrow>
      ev_id ev = i \<and> (ev_state ev = LIVE \<longleftrightarrow> live_episode s = Some i) \<and>
      (ev_state ev = CANCELLED \<longleftrightarrow> ev_terminated_by ev \<noteq> None))"
  using reachable_inv [OF assms] unfolding model_inv_def episode_ok_def by (metis option.inject)

theorem reachable_episodes_witness:
  "dom (episodes (snd (model_step (Initiated sample_initiation 5) (fresh_abstract_state ''c'')))) =
    {1..<next_episode_id (snd (model_step (Initiated sample_initiation 5) (fresh_abstract_state ''c'')))}"
  using reachable_episodes [OF model_reachable.step [OF model_reachable.fresh, of "Initiated sample_initiation 5" "''c''"]]
  by (rule conjunct1)

text \<open>C8: A recorded episode is permanent: whatever is accepted later, an episode keeps its id, proposal, authorizing
  roots and window, and once it is cancelled, consumed, superseded or expired it never changes again.\<close>

theorem episodes_permanent:
  assumes "model_reachable s" and "episodes s i = Some ev"
  shows "\<exists>ev'. episodes (snd (model_run es s)) i = Some ev' \<and>
    (ev_state ev \<noteq> LIVE \<longrightarrow> ev' = ev) \<and>
    ev' = ev\<lparr>ev_state := ev_state ev', ev_terminated_by := ev_terminated_by ev'\<rparr>"
  using model_run_evolves [OF reachable_inv [OF assms(1)] assms(2), of es] unfolding evolves_def by blast

theorem episodes_permanent_witness:
  "\<exists>ev'. episodes (snd (model_run [Cancelled GUARDIAN_QUORUM 9, Initiated sample_initiation 10]
      (snd (model_step (Initiated sample_initiation 5) (fresh_abstract_state ''c''))))) 1 = Some ev' \<and>
    ev_proposed_signer ev' = ''s''"
proof -
  let ?s = "snd (model_step (Initiated sample_initiation 5) (fresh_abstract_state ''c''))"
  have r: "model_reachable ?s" by (intro model_reachable.step model_reachable.fresh)
  have e: "\<exists>ev. episodes ?s 1 = Some ev \<and> ev_proposed_signer ev = ''s''"
    by (simp add: record_initiation_def supersede_def fresh_abstract_state_def set_state_def sample_initiation_def)
  then obtain ev where ev: "episodes ?s 1 = Some ev" "ev_proposed_signer ev = ''s''" by blast
  obtain ev' where "episodes (snd (model_run [Cancelled GUARDIAN_QUORUM 9, Initiated sample_initiation 10] ?s)) 1 =
      Some ev'" "ev' = ev\<lparr>ev_state := ev_state ev', ev_terminated_by := ev_terminated_by ev'\<rparr>"
    using episodes_permanent [OF r ev(1)] by blast
  moreover from this(2) have "ev_proposed_signer ev' = ev_proposed_signer ev" by (cases ev; cases ev') simp
  ultimately show ?thesis using ev(2) by auto
qed


end
