(* ===== verification/Campaign_World.thy ===== *)
theory Campaign_World
  imports Campaign_Plan Authority_Model Kernel_Oracle "HOL-Library.Countable"
begin

text \<open>
  The world of the stateful authority campaign: the key material and digests of
  \<open>prototype/vnext-kernel/stateful/world.ts\<close>, and the live context of \<open>actions.ts\<close> with the roots an
  actor holds, the keys it signs with and the quorum proofs it builds.

  The functions of the ethers library (hashing, ABI encoding, signing, the address of a key) are
  the record \<open>ethers\<close>, an argument of the definitions; \<open>'k\<close> is the type of its signing keys.
\<close>

section \<open>The ethers library\<close>

text \<open>A value with the ABI type the code gives it.\<close>

datatype abi =
    ABytes32 string
  | AUint nat int
  | AAddress string
  | ABool bool
  | AAddresses "string list"
  | ABools "bool list"
  | ATuple "abi list"

record 'k ethers =
  key_of :: "string \<Rightarrow> 'k"
  addr_of :: "'k \<Rightarrow> string"
  sign :: "'k \<Rightarrow> string \<Rightarrow> string"
  keccak :: "string \<Rightarrow> string"
  eth_id :: "string \<Rightarrow> string"
  abi_encode :: "abi list \<Rightarrow> string"
  hex_concat :: "string list \<Rightarrow> string"
  parse_ether :: "string \<Rightarrow> int"
  addr_int :: "string \<Rightarrow> int"

section \<open>Digests\<close>

definition FAR_DEADLINE :: int where
  "FAR_DEADLINE = 2 ^ 40"

text \<open>\<open>ACTION\<close> and \<open>DOMAIN\<close>.\<close>

datatype action_type = A_SPEND | A_ROTATE | A_SET_VERIFIER | A_SET_POLICY | A_SET_GUARDIANS | A_RECOVER | A_BIND_MIGRATION

fun action_label :: "action_type \<Rightarrow> string" where
  "action_label A_SPEND = ''SPEND''"
| "action_label A_ROTATE = ''ROTATE_CREDENTIAL''"
| "action_label A_SET_VERIFIER = ''SET_VERIFIER''"
| "action_label A_SET_POLICY = ''SET_POLICY''"
| "action_label A_SET_GUARDIANS = ''SET_GUARDIANS''"
| "action_label A_RECOVER = ''RECOVER''"
| "action_label A_BIND_MIGRATION = ''BIND_MIGRATION''"

definition DOMAIN_SPEND :: nat where "DOMAIN_SPEND = 0"
definition DOMAIN_CREDENTIAL :: nat where "DOMAIN_CREDENTIAL = 1"
definition DOMAIN_GUARDIAN :: nat where "DOMAIN_GUARDIAN = 2"
definition DOMAIN_MIGRATION :: nat where "DOMAIN_MIGRATION = 3"

definition HONEST_FLOOR :: kernel_floor where
  "HONEST_FLOOR = \<lparr>require_pq = True, pq_param_level = 3, pq_public_key_length = 32, pq_signature_length = 65\<rparr>"

definition ECDSA_ONLY_FLOOR :: kernel_floor where
  "ECDSA_ONLY_FLOOR = \<lparr>require_pq = False, pq_param_level = 0, pq_public_key_length = 0, pq_signature_length = 0\<rparr>"

record digest_parts =
  d_chain_id :: int
  d_vault :: string
  d_kernel_generation :: int
  d_action_type :: string
  d_authority_generation :: int
  d_params :: string
  d_domain :: nat
  d_nonce :: int
  d_deadline :: int

definition domain_separator :: "'k ethers \<Rightarrow> int \<Rightarrow> string \<Rightarrow> string" where
  "domain_separator E chain_id vault =
     keccak E (abi_encode E
       [ABytes32 (eth_id E ''EIP712Domain(string name,string version,uint256 chainId,address verifyingContract)''),
        ABytes32 (eth_id E ''WalletWallVaultKernel''), ABytes32 (eth_id E ''0-prototype''),
        AUint 256 chain_id, AAddress vault])"

definition struct_hash :: "'k ethers \<Rightarrow> digest_parts \<Rightarrow> string" where
  "struct_hash E p =
     keccak E (abi_encode E
       [ABytes32 (d_action_type p), AUint 64 (d_kernel_generation p), AUint 64 (d_authority_generation p),
        ABytes32 (d_params p), AUint 8 (int (d_domain p)), AUint 256 (d_nonce p), AUint 64 (d_deadline p)])"

definition digest_of :: "'k ethers \<Rightarrow> digest_parts \<Rightarrow> string" where
  "digest_of E p =
     keccak E (hex_concat E [''0x1901'', domain_separator E (d_chain_id p) (d_vault p), struct_hash E p])"

definition pq_key_bytes :: "'k ethers \<Rightarrow> 'k \<Rightarrow> string" where
  "pq_key_bytes E k = abi_encode E [AAddress (addr_of E k)]"

definition pq_hash :: "'k ethers \<Rightarrow> 'k \<Rightarrow> string" where
  "pq_hash E k = keccak E (pq_key_bytes E k)"

definition spend_params :: "'k ethers \<Rightarrow> string \<Rightarrow> int \<Rightarrow> string" where
  "spend_params E to amount = keccak E (abi_encode E [AAddress to, AUint 256 amount])"

definition floor_tuple :: "kernel_floor \<Rightarrow> abi" where
  "floor_tuple f =
     ATuple [ABool (require_pq f), AUint 16 (pq_param_level f), AUint 32 (pq_public_key_length f),
             AUint 32 (pq_signature_length f)]"

definition set_verifier_params :: "'k ethers \<Rightarrow> string \<Rightarrow> kernel_floor \<Rightarrow> string" where
  "set_verifier_params E verifier f = keccak E (abi_encode E [AAddress verifier, floor_tuple f])"

definition set_policy_params :: "'k ethers \<Rightarrow> string \<Rightarrow> string" where
  "set_policy_params E policy = keccak E (abi_encode E [AAddress policy])"

definition roster_commitment :: "'k ethers \<Rightarrow> int \<Rightarrow> string list \<Rightarrow> bool list \<Rightarrow> string" where
  "roster_commitment E threshold members is_contract =
     keccak E (abi_encode E [AUint 64 threshold, AAddresses members, ABools is_contract])"

definition recover_params :: "'k ethers \<Rightarrow> string \<Rightarrow> string \<Rightarrow> string \<Rightarrow> string" where
  "recover_params E signer pq_key_hash verifier =
     keccak E (abi_encode E [AAddress signer, ABytes32 pq_key_hash, AAddress verifier])"

definition migration_params :: "'k ethers \<Rightarrow> string \<Rightarrow> string \<Rightarrow> int \<Rightarrow> string" where
  "migration_params E vault code_hash generation =
     keccak E (abi_encode E [AAddress vault, ABytes32 code_hash, AUint 64 generation])"

section \<open>The world\<close>

record world_options =
  o_verifier :: verifier_kind
  o_threshold :: int
  o_label :: string
  o_ecdsa_only_floor :: bool
  o_commit_pq_key :: bool

text \<open>The addresses the deployments answered.\<close>

record deployment =
  dp_chain_id :: int
  dp_recipient :: string
  dp_vault :: string
  dp_verifiers :: "verifier_kind \<Rightarrow> string"
  dp_policies :: "policy_kind \<Rightarrow> string"
  dp_destination :: string
  dp_destination_code_hash :: string
  dp_token :: string

record 'k world =
  w_opts :: world_options
  w_chain_id :: int
  w_recipient :: string
  w_cred_key :: 'k
  w_pq_key :: 'k
  w_g_keys :: "'k list"
  w_guardians :: "string list"
  w_guardian_is_contract :: "bool list"
  w_threshold :: int
  w_vault_address :: string
  w_spare_cred :: "'k list"
  w_spare_pq :: "'k list"
  w_verifiers :: "verifier_kind \<Rightarrow> string"
  w_policies :: "policy_kind \<Rightarrow> string"
  w_destination :: string
  w_destination_code_hash :: string
  w_token :: string

text \<open>\<open>prefix + i\<close> of the code.\<close>

definition numbered :: "string \<Rightarrow> nat \<Rightarrow> string" where
  "numbered prefix i = prefix @ num_string 10 i"

text \<open>The roster in the ascending address order the kernel demands.\<close>

definition ascending :: "'k ethers \<Rightarrow> 'k list \<Rightarrow> 'k list" where
  "ascending E ks = sort_key (\<lambda>k. addr_int E (addr_of E k)) ks"

definition world_of :: "'k ethers \<Rightarrow> world_options \<Rightarrow> deployment \<Rightarrow> 'k world" where
  "world_of E opts dp =
     (let label = o_label opts;
          g_keys = ascending E (map (\<lambda>i. key_of E (numbered (label @ ''-guardian-'') i)) [0, 1, 2])
      in \<lparr>w_opts = opts, w_chain_id = dp_chain_id dp, w_recipient = dp_recipient dp,
          w_cred_key = key_of E (label @ ''-cred''), w_pq_key = key_of E (label @ ''-pq''),
          w_g_keys = g_keys, w_guardians = map (addr_of E) g_keys,
          w_guardian_is_contract = [False, False, False], w_threshold = o_threshold opts,
          w_vault_address = dp_vault dp,
          w_spare_cred = map (\<lambda>i. key_of E (numbered (label @ ''-spare-cred-'') i)) [0, 1, 2],
          w_spare_pq = map (\<lambda>i. key_of E (numbered (label @ ''-spare-pq-'') i)) [0, 1, 2],
          w_verifiers = dp_verifiers dp, w_policies = dp_policies dp,
          w_destination = dp_destination dp, w_destination_code_hash = dp_destination_code_hash dp,
          w_token = dp_token dp\<rparr>)"

text \<open>The genesis arguments of \<open>deployWorld\<close>.\<close>

record genesis =
  gen_signer :: string
  gen_pq_key_hash :: string
  gen_verifier :: string
  gen_threshold :: int
  gen_guardians :: "string list"
  gen_guardian_is_contract :: "bool list"
  gen_floor :: kernel_floor

definition genesis_of :: "'k ethers \<Rightarrow> 'k world \<Rightarrow> genesis" where
  "genesis_of E w =
     (let opts = w_opts w
      in \<lparr>gen_signer = addr_of E (w_cred_key w),
          gen_pq_key_hash = (if o_ecdsa_only_floor opts \<and> \<not> o_commit_pq_key opts then ZERO_HASH
                             else pq_hash E (w_pq_key w)),
          gen_verifier = w_verifiers w (o_verifier opts), gen_threshold = o_threshold opts,
          gen_guardians = w_guardians w, gen_guardian_is_contract = w_guardian_is_contract w,
          gen_floor = (if o_ecdsa_only_floor opts then ECDSA_ONLY_FLOOR else HONEST_FLOOR)\<rparr>)"

definition genesis_witness :: "'k ethers \<Rightarrow> 'k world \<Rightarrow> string" where
  "genesis_witness E w =
     (if gen_pq_key_hash (genesis_of E w) = ZERO_HASH then ''0x'' else pq_key_bytes E (w_pq_key w))"

section \<open>The live context\<close>

record quorum_proof =
  q_members :: "string list"
  q_is_contract :: "bool list"
  attesting_indices :: "int list"
  attestations :: "string list"

record credential_change =
  new_signer :: string
  new_pq_key_hash :: string
  new_pq_key :: string
  new_ecdsa_pop :: string
  new_pq_pop :: string

text \<open>
  The calls of the kernel's interface. A call stands for its calldata: the encoding by the ethers
  interface, which the code only ever resubmits or decodes again, is not modelled.
\<close>

datatype call =
    Execute string int int int string string string
  | RotateCredential credential_change int int string string string
  | SetVerifier string kernel_floor int int string string string
  | SetPolicy string int int string string string
  | SetGuardians int "string list" "bool list" quorum_proof int int
  | InitiateRecovery string string string quorum_proof int int
  | CancelRecovery int int string
  | CancelRecoveryByQuorum quorum_proof int int
  | ExecuteRecovery credential_change
  | EnterContainment quorum_proof int int
  | BindMigration string string int quorum_proof int int string
  | Retire
  | Egress string

record recorded_call =
  r_step :: nat
  r_kind :: action_kind
  r_actor :: string
  r_author_roots :: "root set"
  r_data :: call
  r_ok :: bool

record 'k ctx =
  c_world :: "'k world"
  c_abstract :: abstract_state
  c_cred_key :: 'k
  c_cred_label :: string
  c_pq_key :: 'k
  c_pq_label :: string
  c_guardian_keys :: "'k list"
  c_guardian_labels :: "string list"
  c_guardian_is_contract :: "bool list"
  c_threshold :: int
  c_verifier_kind :: verifier_kind
  c_require_pq_now :: bool
  c_policy_kind :: policy_kind
  c_fabricate_commitments :: bool
  c_history :: "recorded_call list"
  c_step :: nat

text \<open>The label behind each seat of the sorted roster; \<open>None\<close> is the harness-bug exception.\<close>

definition seat_label :: "'k ethers \<Rightarrow> string \<Rightarrow> 'k \<Rightarrow> string option" where
  "seat_label E label k =
     find (\<lambda>l. addr_of E (key_of E l) = addr_of E k)
       (map (\<lambda>i. numbered (label @ ''-guardian-'') i) [0, 1, 2])"

fun seat_labels_of :: "'k ethers \<Rightarrow> string \<Rightarrow> 'k list \<Rightarrow> string list option" where
  "seat_labels_of E label [] = Some []"
| "seat_labels_of E label (k # ks) =
     (case seat_label E label k of None \<Rightarrow> None
      | Some l \<Rightarrow> (case seat_labels_of E label ks of None \<Rightarrow> None | Some ls \<Rightarrow> Some (l # ls)))"

definition seat_labels :: "'k ethers \<Rightarrow> 'k world \<Rightarrow> string list option" where
  "seat_labels E w = seat_labels_of E (o_label (w_opts w)) (w_g_keys w)"

definition fresh_ctx :: "'k ethers \<Rightarrow> 'k world \<Rightarrow> bool \<Rightarrow> 'k ctx option" where
  "fresh_ctx E w fabricate =
     (let label = o_label (w_opts w)
      in case seat_labels E w of
           None \<Rightarrow> None
         | Some labels \<Rightarrow> Some
            \<lparr>c_world = w, c_abstract = fresh_abstract_state (label @ ''-cred''),
             c_cred_key = w_cred_key w, c_cred_label = label @ ''-cred'',
             c_pq_key = w_pq_key w, c_pq_label = label @ ''-pq'',
             c_guardian_keys = w_g_keys w, c_guardian_labels = labels,
             c_guardian_is_contract = w_guardian_is_contract w, c_threshold = w_threshold w,
             c_verifier_kind = o_verifier (w_opts w),
             c_require_pq_now = (\<not> o_ecdsa_only_floor (w_opts w)), c_policy_kind = PolNone,
             c_fabricate_commitments = fabricate, c_history = [], c_step = 0\<rparr>)"

definition owns :: "actor \<Rightarrow> string \<Rightarrow> bool" where
  "owns a label \<longleftrightarrow> ALL_MATERIAL \<in> owned_labels a \<or> label \<in> owned_labels a"

text \<open>
  The addresses of the seats whose label the actor owns; a seat without a key contributes none.
\<close>

definition owned_addresses :: "'k ethers \<Rightarrow> actor \<Rightarrow> 'k ctx \<Rightarrow> string list" where
  "owned_addresses E a ctx =
     remdups (map (\<lambda>(label, k). lower (addr_of E k))
       (filter (\<lambda>(label, k). owns a label) (zip (c_guardian_labels ctx) (c_guardian_keys ctx))))"

text \<open>
  The roots an actor holds now. The code gives the sorted owned addresses the guardian roots by
  position; only how many there are matters. Its name for a fourth address, which no root has, does
  not arise on rosters of three seats.
\<close>

definition roots_now :: "'k ethers \<Rightarrow> actor \<Rightarrow> 'k ctx \<Rightarrow> root set" where
  "roots_now E a ctx =
     (if owns a (c_cred_label ctx) then {CRED_ECDSA} else {}) \<union>
     (if c_require_pq_now ctx \<and> (owns a (c_pq_label ctx) \<or> c_verifier_kind ctx = VAlwaysTrue)
      then {CRED_PQ} else {}) \<union>
     set (take (length (owned_addresses E a ctx)) guardian_roots)"

section \<open>Signing\<close>

definition cred_signing_key :: "'k ethers \<Rightarrow> actor \<Rightarrow> 'k ctx \<Rightarrow> 'k" where
  "cred_signing_key E a ctx =
     (if owns a (c_cred_label ctx) then c_cred_key ctx else key_of E (actor_name a @ ''-decoy-ecdsa''))"

definition pq_signing_key :: "'k ethers \<Rightarrow> actor \<Rightarrow> 'k ctx \<Rightarrow> 'k" where
  "pq_signing_key E a ctx =
     (if owns a (c_pq_label ctx) then c_pq_key ctx else key_of E (actor_name a @ ''-decoy-pq''))"

definition guardian_signing_key :: "'k ethers \<Rightarrow> actor \<Rightarrow> 'k ctx \<Rightarrow> nat \<Rightarrow> 'k" where
  "guardian_signing_key E a ctx seat =
     (if owns a (c_guardian_labels ctx ! seat) then c_guardian_keys ctx ! seat
      else key_of E (numbered (actor_name a @ ''-decoy-guardian-'') seat))"

definition MAX_UINT256 :: int where
  "MAX_UINT256 = 2 ^ 256 - 1"

text \<open>The seats a shape attests for, as the indices it claims and the seats it signs with.\<close>

definition quorum_seats :: "actor \<Rightarrow> 'k ctx \<Rightarrow> quorum_shape \<Rightarrow> (int \<times> nat) list draw" where
  "quorum_seats a ctx shape =
     (let seats = [0..<length (c_guardian_keys ctx)]
      in case shape of
           Honest \<Rightarrow> retR (map (\<lambda>s. (int s, s)) (filter (\<lambda>s. owns a (c_guardian_labels ctx ! s)) seats))
         | ForgeMissing \<Rightarrow> retR (map (\<lambda>s. (int s, s)) seats)
         | DuplicateIndex \<Rightarrow> bindR (draw_pick seats) (\<lambda>s. retR [(int s, s), (int s, s)])
         | SentinelMaxIndex \<Rightarrow> bindR (draw_pick seats) (\<lambda>s. retR [(MAX_UINT256, s), (int s, s), (int s, s)])
         | DescendingIndices \<Rightarrow> retR (map (\<lambda>s. (int s, s)) (rev seats))
         | OutOfRangeIndex \<Rightarrow> retR [(0, 0), (int (length seats) + 3, 0)]
         | EmptyAttestations \<Rightarrow> retR [])"

definition build_quorum ::
  "'k ethers \<Rightarrow> actor \<Rightarrow> 'k ctx \<Rightarrow> string \<Rightarrow> quorum_shape \<Rightarrow> quorum_proof draw" where
  "build_quorum E a ctx digest shape =
     bindR (quorum_seats a ctx shape) (\<lambda>attesting.
     retR \<lparr>q_members = map (addr_of E) (c_guardian_keys ctx),
            q_is_contract = c_guardian_is_contract ctx,
            attesting_indices = map fst attesting,
            attestations = map (\<lambda>(index, s). sign E (guardian_signing_key E a ctx s) digest) attesting\<rparr>)"

section \<open>Digests bind their fields\<close>

text \<open>Values encoded under the same ABI types.\<close>

fun same_type :: "abi \<Rightarrow> abi \<Rightarrow> bool" where
  "same_type (ABytes32 a) (ABytes32 b) = True"
| "same_type (AUint m a) (AUint n b) = (m = n)"
| "same_type (AAddress a) (AAddress b) = True"
| "same_type (ABool a) (ABool b) = True"
| "same_type (AAddresses a) (AAddresses b) = True"
| "same_type (ABools a) (ABools b) = True"
| "same_type (ATuple vs) (ATuple ws) = list_all2 same_type vs ws"
| "same_type _ _ = False"

text \<open>The ABI encoding determines the values, given their types.\<close>

definition abi_faithful :: "'k ethers \<Rightarrow> bool" where
  "abi_faithful E \<longleftrightarrow>
     (\<forall>vs ws. list_all2 same_type vs ws \<longrightarrow> abi_encode E vs = abi_encode E ws \<longrightarrow> vs = ws)"

text \<open>Hashes have one length, so three concatenated parts of fixed length can be read back.\<close>

definition concat_faithful :: "'k ethers \<Rightarrow> bool" where
  "concat_faithful E \<longleftrightarrow>
     (\<forall>x y x' y'. hex_concat E [''0x1901'', keccak E x, keccak E y] = hex_concat E [''0x1901'', keccak E x', keccak E y']
        \<longrightarrow> keccak E x = keccak E x' \<and> keccak E y = keccak E y')"

definition domain_preimage :: "'k ethers \<Rightarrow> digest_parts \<Rightarrow> string" where
  "domain_preimage E p =
     abi_encode E
       [ABytes32 (eth_id E ''EIP712Domain(string name,string version,uint256 chainId,address verifyingContract)''),
        ABytes32 (eth_id E ''WalletWallVaultKernel''), ABytes32 (eth_id E ''0-prototype''),
        AUint 256 (d_chain_id p), AAddress (d_vault p)]"

definition struct_preimage :: "'k ethers \<Rightarrow> digest_parts \<Rightarrow> string" where
  "struct_preimage E p =
     abi_encode E
       [ABytes32 (d_action_type p), AUint 64 (d_kernel_generation p), AUint 64 (d_authority_generation p),
        ABytes32 (d_params p), AUint 8 (int (d_domain p)), AUint 256 (d_nonce p), AUint 64 (d_deadline p)]"

definition outer_preimage :: "'k ethers \<Rightarrow> digest_parts \<Rightarrow> string" where
  "outer_preimage E p =
     hex_concat E [''0x1901'', keccak E (domain_preimage E p), keccak E (struct_preimage E p)]"

definition digest_preimages :: "'k ethers \<Rightarrow> digest_parts \<Rightarrow> string set" where
  "digest_preimages E p = {domain_preimage E p, struct_preimage E p, outer_preimage E p}"

lemma digest_of_preimage: "digest_of E p = keccak E (outer_preimage E p)"
  by (simp add: digest_of_def outer_preimage_def domain_separator_def struct_hash_def domain_preimage_def
      struct_preimage_def)

lemma preimages_binding:
  assumes "abi_faithful E" and "domain_preimage E p = domain_preimage E q"
    and "struct_preimage E p = struct_preimage E q"
  shows "p = q"
proof -
  have f: "list_all2 same_type vs ws \<Longrightarrow> abi_encode E vs = abi_encode E ws \<Longrightarrow> vs = ws" for vs ws
    using assms(1) by (simp add: abi_faithful_def)
  have "d_chain_id p = d_chain_id q \<and> d_vault p = d_vault q"
    using f [OF _ assms(2) [unfolded domain_preimage_def]] by simp
  moreover have "d_action_type p = d_action_type q \<and> d_kernel_generation p = d_kernel_generation q \<and>
      d_authority_generation p = d_authority_generation q \<and> d_params p = d_params q \<and>
      d_domain p = d_domain q \<and> d_nonce p = d_nonce q \<and> d_deadline p = d_deadline q"
    using f [OF _ assms(3) [unfolded struct_preimage_def]] by simp
  ultimately show ?thesis by (intro digest_parts.equality) simp_all
qed

lemma digest_binding:
  assumes "digest_of E p = digest_of E q" and "abi_faithful E" and "concat_faithful E"
    and "inj_on (keccak E) (digest_preimages E p \<union> digest_preimages E q)"
  shows "p = q"
proof -
  have k: "keccak E x = keccak E y \<Longrightarrow> x \<in> digest_preimages E p \<Longrightarrow> y \<in> digest_preimages E q \<Longrightarrow> x = y" for x y
    using assms(4) by (auto dest: inj_onD)
  have "outer_preimage E p = outer_preimage E q"
    using k [of "outer_preimage E p" "outer_preimage E q"] assms(1)
    by (simp add: digest_of_preimage digest_preimages_def)
  then have h: "keccak E (domain_preimage E p) = keccak E (domain_preimage E q)"
    "keccak E (struct_preimage E p) = keccak E (struct_preimage E q)"
    using assms(3) by (simp_all add: concat_faithful_def outer_preimage_def)
  show ?thesis
    by (rule preimages_binding [OF assms(2)]) (rule k [OF h(1)] k [OF h(2)]; simp add: digest_preimages_def)+
qed

section \<open>Attestations and roots\<close>

text \<open>The harness's bookkeeping is in step: every label names the key it stands beside.\<close>

definition labels_ok :: "'k ethers \<Rightarrow> 'k ctx \<Rightarrow> bool" where
  "labels_ok E ctx \<longleftrightarrow>
     c_cred_key ctx = key_of E (c_cred_label ctx) \<and> c_pq_key ctx = key_of E (c_pq_label ctx) \<and>
     c_guardian_keys ctx = map (key_of E) (c_guardian_labels ctx)"

lemma guardian_roots_length: "length guardian_roots = 3"
  by (simp add: guardian_roots_def)

lemma guardian_families:
  "fam_guardians (root_families (roots_now E a ctx)) = min (length (owned_addresses E a ctx)) 3"
proof -
  have "set (take n guardian_roots) \<inter> {CRED_ECDSA, CRED_PQ} = {}" for n
    using set_take_subset [of n guardian_roots] by (auto simp: guardian_roots_def)
  then have "length (filter (\<lambda>g. g \<in> roots_now E a ctx) guardian_roots) =
      length (filter (\<lambda>g. g \<in> set (take (length (owned_addresses E a ctx)) guardian_roots)) guardian_roots)"
    by (intro arg_cong [where f = length] filter_cong)
      (auto simp: roots_now_def guardian_roots_def split: if_splits)
  also have "\<dots> = min (length (owned_addresses E a ctx)) 3"
  proof -
    have "length (filter (\<lambda>g. g \<in> set (take n guardian_roots)) guardian_roots) = min n 3" for n
    proof -
      have "n = 0 \<or> n = 1 \<or> n = 2 \<or> 3 \<le> n" by linarith
      then show ?thesis by (elim disjE) (simp_all add: guardian_roots_def numeral_2_eq_2 numeral_3_eq_3)
    qed
    then show ?thesis .
  qed
  finally show ?thesis by (simp add: root_families_def)
qed

text \<open>
  The principals a proof can speak for: the members at its claimed indices whose signature verifies.
  \<open>recover digest sig\<close> is the address a signature recovers to.
\<close>

definition principals ::
  "(string \<Rightarrow> string \<Rightarrow> string) \<Rightarrow> string \<Rightarrow> quorum_proof \<Rightarrow> string set" where
  "principals recover digest q =
     {q_members q ! nat i | i sig. (i, sig) \<in> set (zip (attesting_indices q) (attestations q)) \<and>
        0 \<le> i \<and> i < int (length (q_members q)) \<and> recover digest sig = q_members q ! nat i}"

lemma pick_ret: "bindR (draw_pick xs) (\<lambda>x. retR (f x)) s = Inr (y, s') \<Longrightarrow> \<exists>x. y = f x"
  by (auto simp: bindR_def retR_def bindE_eq_Inr)

text \<open>Every attestation of a proof is signed with the guardian key of the seat it was made for.\<close>

lemma quorum_seats_in:
  assumes "quorum_seats a ctx shape s = Inr (att, s')" and "(i, seat) \<in> set att"
    and "0 \<le> i" and "i < int (length (c_guardian_keys ctx))" and "length (c_guardian_keys ctx) < 100"
  shows "nat i = seat"
proof -
  have m: "int (length (c_guardian_keys ctx)) < MAX_UINT256" using assms(5) by (simp add: MAX_UINT256_def)
  note pick = pick_ret [of _ _ s att s']
  show ?thesis
  proof (cases shape)
    case Honest
    then show ?thesis using assms by (auto simp: quorum_seats_def retR_def)
  next
    case ForgeMissing
    then show ?thesis using assms by (auto simp: quorum_seats_def retR_def)
  next
    case DuplicateIndex
    then obtain x where "att = [(int x, x), (int x, x)]"
      using pick [of _ "\<lambda>x. [(int x, x), (int x, x)]"] assms(1) by (auto simp: quorum_seats_def Let_def)
    then show ?thesis using assms(2) by auto
  next
    case SentinelMaxIndex
    then obtain x where "att = [(MAX_UINT256, x), (int x, x), (int x, x)]"
      using pick [of _ "\<lambda>x. [(MAX_UINT256, x), (int x, x), (int x, x)]"] assms(1)
      by (auto simp: quorum_seats_def Let_def)
    then show ?thesis using assms(2,4) m by auto
  next
    case DescendingIndices
    then show ?thesis using assms by (auto simp: quorum_seats_def retR_def)
  next
    case OutOfRangeIndex
    then show ?thesis using assms by (auto simp: quorum_seats_def retR_def)
  next
    case EmptyAttestations
    then show ?thesis using assms by (auto simp: quorum_seats_def retR_def)
  qed
qed

text \<open>The addresses of the seats an actor owns.\<close>

definition owned_seats :: "'k ethers \<Rightarrow> actor \<Rightarrow> 'k ctx \<Rightarrow> string set" where
  "owned_seats E a ctx =
     {addr_of E (c_guardian_keys ctx ! i) | i. i < length (c_guardian_keys ctx) \<and> owns a (c_guardian_labels ctx ! i)}"

lemma owned_addresses_seats:
  assumes "length (c_guardian_labels ctx) = length (c_guardian_keys ctx)"
  shows "set (owned_addresses E a ctx) = lower ` owned_seats E a ctx"
proof -
  have "set (owned_addresses E a ctx) =
      (\<lambda>(label, k). lower (addr_of E k)) ` {x \<in> set (zip (c_guardian_labels ctx) (c_guardian_keys ctx)). owns a (fst x)}"
    by (auto simp: owned_addresses_def)
  also have "\<dots> = lower ` owned_seats E a ctx"
    using assms by (fastforce simp: owned_seats_def set_zip image_iff)
  finally show ?thesis .
qed

text \<open>What a real signature scheme promises the harness, for one actor and context.\<close>

definition decoys_useless :: "'k ethers \<Rightarrow> (string \<Rightarrow> string \<Rightarrow> string) \<Rightarrow> actor \<Rightarrow> 'k ctx \<Rightarrow> bool" where
  "decoys_useless E recover a ctx \<longleftrightarrow>
     (\<forall>k digest. recover digest (sign E k digest) = addr_of E k) \<and>
     (\<forall>seat < length (c_guardian_keys ctx).
        addr_of E (key_of E (numbered (actor_name a @ ''-decoy-guardian-'') seat)) \<notin>
          addr_of E ` set (c_guardian_keys ctx))"

lemma proof_attestations:
  assumes "build_quorum E a ctx digest shape s = Inr (q, s')"
  obtains att where "quorum_seats a ctx shape s = Inr (att, s')"
    and "q_members q = map (addr_of E) (c_guardian_keys ctx)" and "attesting_indices q = map fst att"
    and "attestations q = map (\<lambda>(i, seat). sign E (guardian_signing_key E a ctx seat) digest) att"
  using assms by (auto simp: build_quorum_def bindR_def retR_def bindE_eq_Inr)

lemma proof_zip:
  "set (zip (map fst att) (map (\<lambda>(i, seat). f seat) att)) = (\<lambda>(i, seat). (i, f seat)) ` set att"
  by (induction att) auto

lemma principals_owned:
  assumes "build_quorum E a ctx digest shape s = Inr (q, s')" and "decoys_useless E recover a ctx"
    and "length (c_guardian_keys ctx) < 100"
  shows "principals recover digest q \<subseteq> owned_seats E a ctx"
proof
  fix x assume "x \<in> principals recover digest q"
  moreover obtain att where att: "quorum_seats a ctx shape s = Inr (att, s')"
    "q_members q = map (addr_of E) (c_guardian_keys ctx)" "attesting_indices q = map fst att"
    "attestations q = map (\<lambda>(i, seat). sign E (guardian_signing_key E a ctx seat) digest) att"
    by (rule proof_attestations [OF assms(1)])
  ultimately obtain i seat where i: "(i, seat) \<in> set att" "0 \<le> i" "i < int (length (c_guardian_keys ctx))"
    "recover digest (sign E (guardian_signing_key E a ctx seat) digest) = addr_of E (c_guardian_keys ctx ! nat i)"
    "x = addr_of E (c_guardian_keys ctx ! nat i)"
    by (auto simp: principals_def proof_zip nat_less_iff)
  have seat: "nat i = seat" by (rule quorum_seats_in [OF att(1) i(1-3) assms(3)])
  have lt: "seat < length (c_guardian_keys ctx)" using i(2,3) seat by auto
  have "addr_of E (guardian_signing_key E a ctx seat) = addr_of E (c_guardian_keys ctx ! seat)"
    using assms(2) i(4) seat by (simp add: decoys_useless_def)
  moreover have "addr_of E (c_guardian_keys ctx ! seat) \<in> addr_of E ` set (c_guardian_keys ctx)" using lt by simp
  ultimately have "owns a (c_guardian_labels ctx ! seat)"
    using assms(2) lt by (auto simp: guardian_signing_key_def decoys_useless_def split: if_splits)
  then show "x \<in> owned_seats E a ctx" using i(5) seat lt by (auto simp: owned_seats_def)
qed

lemma honest_principals:
  assumes "build_quorum E a ctx digest Honest s = Inr (q, s')" and "decoys_useless E recover a ctx"
  shows "owned_seats E a ctx \<subseteq> principals recover digest q"
proof
  fix x assume "x \<in> owned_seats E a ctx"
  then obtain i where i: "x = addr_of E (c_guardian_keys ctx ! i)" "i < length (c_guardian_keys ctx)"
    "owns a (c_guardian_labels ctx ! i)" by (auto simp: owned_seats_def)
  obtain att where att: "quorum_seats a ctx Honest s = Inr (att, s')"
    "q_members q = map (addr_of E) (c_guardian_keys ctx)" "attesting_indices q = map fst att"
    "attestations q = map (\<lambda>(i, seat). sign E (guardian_signing_key E a ctx seat) digest) att"
    by (rule proof_attestations [OF assms(1)])
  have "(int i, i) \<in> set att" using att(1) i by (auto simp: quorum_seats_def retR_def)
  then have "(int i, sign E (guardian_signing_key E a ctx i) digest) \<in> set (zip (attesting_indices q) (attestations q))"
    unfolding att(3,4) proof_zip by force
  moreover have "recover digest (sign E (guardian_signing_key E a ctx i) digest) = q_members q ! nat (int i)"
    using assms(2) i att(2) by (simp add: decoys_useless_def guardian_signing_key_def)
  moreover have "0 \<le> int i" "int i < int (length (q_members q))" using i(2) att(2) by simp_all
  moreover have "x = q_members q ! nat (int i)" using i(1,2) att(2) by simp
  ultimately show "x \<in> principals recover digest q"
    unfolding principals_def by (intro CollectI exI conjI)
qed

lemma owned_seats_count:
  assumes "length (c_guardian_labels ctx) = length (c_guardian_keys ctx)" and "length (c_guardian_keys ctx) = 3"
    and "inj_on lower (addr_of E ` set (c_guardian_keys ctx))"
  shows "card (owned_seats E a ctx) = fam_guardians (root_families (roots_now E a ctx))"
proof -
  have sub: "owned_seats E a ctx \<subseteq> addr_of E ` set (c_guardian_keys ctx)" by (auto simp: owned_seats_def)
  have "card (owned_seats E a ctx) = card (lower ` owned_seats E a ctx)"
    using assms(3) sub by (metis card_image inj_on_subset)
  also have "\<dots> = length (owned_addresses E a ctx)"
    by (simp only: owned_addresses_seats [OF assms(1), symmetric]) (rule distinct_card, simp only: owned_addresses_def distinct_remdups)
  finally have e: "card (owned_seats E a ctx) = length (owned_addresses E a ctx)" .
  have "card (owned_seats E a ctx) \<le> card (addr_of E ` set (c_guardian_keys ctx))" by (rule card_mono [OF _ sub]) simp
  also have "\<dots> \<le> 3" using card_image_le [of "set (c_guardian_keys ctx)" "addr_of E"] card_length [of "c_guardian_keys ctx"] assms(2)
    by simp
  finally show ?thesis using e guardian_families [of E a ctx] by simp
qed

section \<open>Properties\<close>

text \<open>The ethers functions of the witnesses: keys are their labels, signatures name their key.\<close>

definition toy_ethers :: "string ethers" where
  "toy_ethers =
     \<lparr>key_of = (\<lambda>l. l), addr_of = (\<lambda>k. k), sign = (\<lambda>k d. k), keccak = (\<lambda>b. b), eth_id = (\<lambda>l. l),
      abi_encode = (\<lambda>vs. []), hex_concat = concat, parse_ether = (\<lambda>s. 0), addr_int = (\<lambda>a. int (length a))\<rparr>"

definition toy_deployment :: deployment where
  "toy_deployment =
     \<lparr>dp_chain_id = 31337, dp_recipient = ''0xr'', dp_vault = ''0xv'', dp_verifiers = (\<lambda>k. ''0xa''),
      dp_policies = (\<lambda>k. ''0xp''), dp_destination = ''0xd'', dp_destination_code_hash = ''0xc'', dp_token = ''0xt''\<rparr>"

definition toy_options :: world_options where
  "toy_options =
     \<lparr>o_verifier = VHonest, o_threshold = 2, o_label = ''w'', o_ecdsa_only_floor = False, o_commit_pq_key = False\<rparr>"

definition toy_world :: "string world" where
  "toy_world = world_of toy_ethers toy_options toy_deployment"

definition toy_ctx :: "string ctx" where
  "toy_ctx = the (fresh_ctx toy_ethers toy_world False)"



text \<open>A signed digest binds every field: when two digests are equal and the hash does not collide on the preimages
  involved, the chain, the vault, the kernel generation, the action, the authority generation, the parameters, the
  nonce domain, the nonce and the deadline are all equal.\<close>

theorem digest_binds:
  assumes "digest_of E p = digest_of E q" and "abi_faithful E" and "concat_faithful E"
    and "inj_on (keccak E) (digest_preimages E p \<union> digest_preimages E q)"
  shows "p = q"
  by (rule digest_binding [OF assms])

instance abi :: countable
  by countable_datatype

text \<open>An injective encoding for the witness.\<close>

definition injective_ethers :: "string ethers" where
  "injective_ethers = toy_ethers
     \<lparr>abi_encode := (\<lambda>vs. replicate (to_nat vs) CHR ''a''), hex_concat := (\<lambda>ps. replicate (to_nat ps) CHR ''a'')\<rparr>"

definition toy_digest :: "int \<Rightarrow> digest_parts" where
  "toy_digest n =
     \<lparr>d_chain_id = 31337, d_vault = ''0xv'', d_kernel_generation = 1, d_action_type = ''SPEND'',
      d_authority_generation = 1, d_params = ''0xp'', d_domain = DOMAIN_SPEND, d_nonce = n, d_deadline = FAR_DEADLINE\<rparr>"

theorem digest_binds_witness:
  "digest_of injective_ethers (toy_digest 0) \<noteq> digest_of injective_ethers (toy_digest 1)"
proof
  assume e: "digest_of injective_ethers (toy_digest 0) = digest_of injective_ethers (toy_digest 1)"
  have "abi_faithful injective_ethers" "concat_faithful injective_ethers"
    by (simp_all add: abi_faithful_def concat_faithful_def injective_ethers_def toy_ethers_def replicate_eq_replicate)
  moreover have "inj_on (keccak injective_ethers) S" for S by (simp add: injective_ethers_def toy_ethers_def)
  ultimately have "toy_digest 0 = toy_digest 1" using digest_binds [OF e] by blast
  then show False by (simp add: toy_digest_def)
qed

end
