(* ===== verification/Campaign_Actions.thy ===== *)
theory Campaign_Actions
  imports Campaign_World
begin

text \<open>
  \<open>executeAction\<close> of \<open>prototype/vnext-kernel/stateful/actions.ts\<close>: how each generated action builds
  its call, submits it, and updates the harness's bookkeeping and abstract model. What the chain
  answers during one action is the record \<open>chain\<close>, an argument; \<open>Inl\<close> of a read is the exception
  it throws. The revert names are those \<open>errName\<close> extracts.
\<close>

section \<open>What the chain answers\<close>

text \<open>Sending, waiting for the receipt and reading the block's timestamp.\<close>

datatype tx_result = Reverted string | Mined int

record chain =
  ch_nonce :: "nat \<Rightarrow> string + int"
  ch_credential_generation :: "string + int"
  ch_guardian_generation :: "string + int"
  ch_floor :: "string + kernel_floor"
  ch_recovery :: "string + (string \<times> string \<times> string)"
  ch_credential_possession_digest :: "string \<Rightarrow> string \<Rightarrow> string + string"
  ch_recovery_possession_digest :: "string + string"
  ch_send :: "sender \<Rightarrow> call \<Rightarrow> tx_result"
  ch_fund :: "sender \<Rightarrow> int \<Rightarrow> string option"
  ch_guardian_generation_after :: "string + int"
  ch_predict_vault :: "genesis \<Rightarrow> string + string"
  ch_deploy_vault :: "genesis \<Rightarrow> string \<Rightarrow> string option"

datatype harness_error = ReadError string | DrawError prng_error

datatype revert = HarnessEncode harness_error | Revert string | NoHistory

datatype harness_violation = ModelViolation model_violation | IdentityBinding

record exec_outcome =
  ex_ok :: bool
  ex_revert :: "revert option"
  ex_used_stale :: bool
  ex_attributed :: "root set"
  ex_model_violation :: "harness_violation option"
  ex_mined_at :: "int option"

definition succeeded :: "root set \<Rightarrow> int option \<Rightarrow> exec_outcome" where
  "succeeded roots at =
     \<lparr>ex_ok = True, ex_revert = None, ex_used_stale = False, ex_attributed = roots,
      ex_model_violation = None, ex_mined_at = at\<rparr>"

definition failed :: "root set \<Rightarrow> revert \<Rightarrow> exec_outcome" where
  "failed roots why =
     \<lparr>ex_ok = False, ex_revert = Some why, ex_used_stale = False, ex_attributed = roots,
      ex_model_violation = None, ex_mined_at = None\<rparr>"

definition PERMISSIONLESS_FINALISERS :: "action_kind list" where
  "PERMISSIONLESS_FINALISERS = [EGRESS_NATIVE, EGRESS_TOKEN, RETIRE]"

section \<open>Submitting a call\<close>

definition record_call ::
  "action_kind \<Rightarrow> actor \<Rightarrow> root set \<Rightarrow> call \<Rightarrow> bool \<Rightarrow> 'k ctx \<Rightarrow> 'k ctx" where
  "record_call kind a held data okay ctx =
     ctx\<lparr>c_history := c_history ctx @
       [\<lparr>r_step = c_step ctx, r_kind = kind, r_actor = actor_name a, r_author_roots = held,
         r_data = data, r_ok = okay\<rparr>]\<rparr>"

text \<open>\<open>attempt\<close>: the built call, and what to do to the context when it succeeds.\<close>

definition attempt ::
  "chain \<Rightarrow> action_kind \<Rightarrow> actor \<Rightarrow> root set \<Rightarrow> harness_error + call \<Rightarrow> ('k ctx \<Rightarrow> 'k ctx) \<Rightarrow> 'k ctx \<Rightarrow>
   exec_outcome \<times> 'k ctx" where
  "attempt ch kind a held built on_success ctx =
     (case built of
        Inl e \<Rightarrow> (failed held (HarnessEncode e), ctx)
      | Inr data \<Rightarrow> (case ch_send ch (sends_as a) data of
          Reverted why \<Rightarrow> (failed held (Revert why), record_call kind a held data False ctx)
        | Mined at \<Rightarrow> (succeeded held (Some at), on_success (record_call kind a held data True ctx))))"

definition read :: "string + 'a \<Rightarrow> harness_error + 'a" where
  "read r = (case r of Inl e \<Rightarrow> Inl (ReadError e) | Inr x \<Rightarrow> Inr x)"

text \<open>A build that ends with a quorum proof over its digest.\<close>

definition with_quorum ::
  "'k ethers \<Rightarrow> actor \<Rightarrow> 'k ctx \<Rightarrow> quorum_shape \<Rightarrow> harness_error + string \<Rightarrow> (quorum_proof \<Rightarrow> call) \<Rightarrow> 32 word \<Rightarrow>
   (harness_error + call) \<times> 32 word" where
  "with_quorum E a ctx shape digest mk s =
     (case digest of
        Inl e \<Rightarrow> (Inl e, s)
      | Inr d \<Rightarrow> (case build_quorum E a ctx d shape s of
          Inl e \<Rightarrow> (Inl (DrawError e), s)
        | Inr (q, s') \<Rightarrow> (Inr (mk q), s')))"

definition digest_for ::
  "'k ethers \<Rightarrow> 'k ctx \<Rightarrow> action_type \<Rightarrow> int \<Rightarrow> string \<Rightarrow> nat \<Rightarrow> int \<Rightarrow> string" where
  "digest_for E ctx action authority pars domain nonce =
     digest_of E
       \<lparr>d_chain_id = w_chain_id (c_world ctx), d_vault = w_vault_address (c_world ctx), d_kernel_generation = 1,
        d_action_type = eth_id E (action_label action), d_authority_generation = authority,
        d_params = pars, d_domain = domain, d_nonce = nonce, d_deadline = FAR_DEADLINE\<rparr>"

text \<open>The PQ conjunct of a credential-gated call, present when the floor demands it.\<close>

definition pq_sig :: "'k ethers \<Rightarrow> actor \<Rightarrow> 'k ctx \<Rightarrow> kernel_floor \<Rightarrow> string \<Rightarrow> string" where
  "pq_sig E a ctx fl digest = (if require_pq fl then sign E (pq_signing_key E a ctx) digest else ''0x'')"

definition pq_key :: "'k ethers \<Rightarrow> actor \<Rightarrow> 'k ctx \<Rightarrow> kernel_floor \<Rightarrow> string" where
  "pq_key E a ctx fl = (if require_pq fl then pq_key_bytes E (pq_signing_key E a ctx) else ''0x'')"

definition option_or :: "'a option \<Rightarrow> 'a \<Rightarrow> 'a" where
  "option_or x d = (case x of None \<Rightarrow> d | Some v \<Rightarrow> v)"

section \<open>Credential-gated actions\<close>

definition build_spend :: "'k ethers \<Rightarrow> chain \<Rightarrow> actor \<Rightarrow> params \<Rightarrow> 'k ctx \<Rightarrow> harness_error + call" where
  "build_spend E ch a ps ctx =
     bindE (read (ch_floor ch)) (\<lambda>fl.
     bindE (read (ch_nonce ch DOMAIN_SPEND)) (\<lambda>nonce.
     bindE (read (ch_credential_generation ch)) (\<lambda>cred_gen.
     let w = c_world ctx;
         to = (if option_or (p_to_self ps) False then w_vault_address w else w_recipient w);
         amount = parse_ether E (option_or (p_eth ps) ''1'');
         digest = digest_for E ctx A_SPEND cred_gen (spend_params E to amount) DOMAIN_SPEND nonce
     in Inr (Execute to amount nonce FAR_DEADLINE (sign E (cred_signing_key E a ctx) digest)
               (pq_sig E a ctx fl digest) (pq_key E a ctx fl)))))"

definition rotate_target :: "'k ctx \<Rightarrow> params \<Rightarrow> nat" where
  "rotate_target ctx ps = nat (option_or (p_target ps) 0 mod int (length (w_spare_cred (c_world ctx))))"

definition rotate_fabricates :: "'k ctx \<Rightarrow> params \<Rightarrow> bool" where
  "rotate_fabricates ctx ps \<longleftrightarrow> c_fabricate_commitments ctx \<and> rotate_target ctx ps = 0"

definition rotate_hash :: "'k ethers \<Rightarrow> 'k ctx \<Rightarrow> params \<Rightarrow> string" where
  "rotate_hash E ctx ps =
     (if rotate_fabricates ctx ps
      then eth_id E (numbered (o_label (w_opts (c_world ctx)) @ ''-fabricated-'') (c_step ctx))
      else pq_hash E (w_spare_pq (c_world ctx) ! rotate_target ctx ps))"

definition build_rotate :: "'k ethers \<Rightarrow> chain \<Rightarrow> actor \<Rightarrow> params \<Rightarrow> 'k ctx \<Rightarrow> harness_error + call" where
  "build_rotate E ch a ps ctx =
     (let w = c_world ctx;
          new_cred = w_spare_cred w ! rotate_target ctx ps;
          new_pq = w_spare_pq w ! rotate_target ctx ps;
          fabricate = rotate_fabricates ctx ps;
          installed_hash = rotate_hash E ctx ps;
          stale = option_or (p_pop_stale ps) False
      in bindE (read (ch_floor ch)) (\<lambda>fl.
         bindE (read (ch_nonce ch DOMAIN_CREDENTIAL)) (\<lambda>nonce.
         bindE (read (ch_credential_generation ch)) (\<lambda>cred_gen.
         bindE (read (ch_credential_possession_digest ch (addr_of E new_cred) installed_hash)) (\<lambda>pop.
         let digest = digest_for E ctx A_ROTATE cred_gen
               (keccak E (abi_encode E [AAddress (addr_of E new_cred), ABytes32 installed_hash]))
               DOMAIN_CREDENTIAL nonce
         in Inr (RotateCredential
              \<lparr>new_signer = addr_of E new_cred, new_pq_key_hash = installed_hash,
               new_pq_key = pq_key_bytes E (if fabricate then c_pq_key ctx else new_pq),
               new_ecdsa_pop = sign E (if stale then c_cred_key ctx else new_cred) pop,
               new_pq_pop = (if fabricate then ''0x'' else sign E (if stale then c_pq_key ctx else new_pq) pop)\<rparr>
              nonce FAR_DEADLINE (sign E (cred_signing_key E a ctx) digest)
              (pq_sig E a ctx fl digest) (pq_key E a ctx fl)))))))"

definition count_replacement :: "'k ctx \<Rightarrow> 'k ctx" where
  "count_replacement ctx = ctx\<lparr>c_abstract := (c_abstract ctx)
     \<lparr>credential_replacements := credential_replacements (c_abstract ctx) + 1\<rparr>\<rparr>"

definition install_rotated :: "params \<Rightarrow> 'k ctx \<Rightarrow> 'k ctx" where
  "install_rotated ps ctx =
     (let w = c_world ctx; i = rotate_target ctx ps; label = o_label (w_opts w); fabricate = rotate_fabricates ctx ps;
          ctx = ctx\<lparr>c_cred_key := w_spare_cred w ! i, c_cred_label := numbered (label @ ''-spare-cred-'') i\<rparr>;
          ctx = (if fabricate then ctx
                 else ctx\<lparr>c_pq_key := w_spare_pq w ! i, c_pq_label := numbered (label @ ''-spare-pq-'') i\<rparr>)
      in count_replacement ctx)"

definition do_rotate ::
  "'k ethers \<Rightarrow> chain \<Rightarrow> actor \<Rightarrow> params \<Rightarrow> 'k ctx \<Rightarrow> exec_outcome \<times> 'k ctx" where
  "do_rotate E ch a ps ctx =
     (let (res, ctx') = attempt ch ROTATE_CREDENTIAL a (roots_now E a ctx) (build_rotate E ch a ps ctx)
            (install_rotated ps) ctx
      in (res\<lparr>ex_used_stale := option_or (p_pop_stale ps) False \<and>
            addr_of E (c_cred_key ctx) \<noteq> addr_of E (w_spare_cred (c_world ctx) ! rotate_target ctx ps)\<rparr>, ctx'))"

definition next_floor :: "params \<Rightarrow> kernel_floor \<Rightarrow> kernel_floor" where
  "next_floor ps fl =
     (let require_after = (require_pq fl \<or> option_or (p_raise_pq ps) False);
          shrink = option_or (p_shrink_lengths ps) False
      in \<lparr>require_pq = require_after,
          pq_param_level = pq_param_level fl + (if option_or (p_bump_level ps) False then 1 else 0),
          pq_public_key_length =
            (if shrink then (if require_pq fl then pq_public_key_length fl + 1 else 1)
             else if require_after \<and> pq_public_key_length fl = 0 then 32 else pq_public_key_length fl),
          pq_signature_length =
            (if shrink then (if require_pq fl then pq_signature_length fl + 1 else 1)
             else if require_after \<and> pq_signature_length fl = 0 then 65 else pq_signature_length fl)\<rparr>)"

definition build_set_verifier :: "'k ethers \<Rightarrow> chain \<Rightarrow> actor \<Rightarrow> params \<Rightarrow> 'k ctx \<Rightarrow> harness_error + call" where
  "build_set_verifier E ch a ps ctx =
     bindE (read (ch_floor ch)) (\<lambda>fl.
     bindE (read (ch_nonce ch DOMAIN_CREDENTIAL)) (\<lambda>nonce.
     bindE (read (ch_credential_generation ch)) (\<lambda>cred_gen.
     let w = c_world ctx; verifier = w_verifiers w (option_or (p_verifier ps) VHonest); nxt = next_floor ps fl;
         digest = digest_for E ctx A_SET_VERIFIER cred_gen (set_verifier_params E verifier nxt) DOMAIN_CREDENTIAL nonce
     in Inr (SetVerifier verifier nxt nonce FAR_DEADLINE (sign E (cred_signing_key E a ctx) digest)
               (pq_sig E a ctx fl digest)
               (if require_pq fl then pq_key_bytes E (pq_signing_key E a ctx)
                else if require_pq nxt then pq_key_bytes E (w_pq_key w) else ''0x'')))))"

definition do_set_verifier ::
  "'k ethers \<Rightarrow> chain \<Rightarrow> actor \<Rightarrow> params \<Rightarrow> 'k ctx \<Rightarrow> exec_outcome \<times> 'k ctx" where
  "do_set_verifier E ch a ps ctx =
     (let require_after = (case ch_floor ch of Inl e \<Rightarrow> False | Inr fl \<Rightarrow> require_pq (next_floor ps fl))
      in attempt ch SET_VERIFIER a (roots_now E a ctx) (build_set_verifier E ch a ps ctx)
           (\<lambda>ctx. ctx\<lparr>c_verifier_kind := option_or (p_verifier ps) VHonest, c_require_pq_now := require_after\<rparr>) ctx)"

definition build_set_policy :: "'k ethers \<Rightarrow> chain \<Rightarrow> actor \<Rightarrow> params \<Rightarrow> 'k ctx \<Rightarrow> harness_error + call" where
  "build_set_policy E ch a ps ctx =
     (let which = option_or (p_policy ps) PolAllow;
          target = (if which = PolNone then ZERO else w_policies (c_world ctx) which)
      in bindE (read (ch_floor ch)) (\<lambda>fl.
         bindE (read (ch_nonce ch DOMAIN_CREDENTIAL)) (\<lambda>nonce.
         bindE (read (ch_credential_generation ch)) (\<lambda>cred_gen.
         let digest = digest_for E ctx A_SET_POLICY cred_gen (set_policy_params E target) DOMAIN_CREDENTIAL nonce
         in Inr (SetPolicy target nonce FAR_DEADLINE (sign E (cred_signing_key E a ctx) digest)
                   (pq_sig E a ctx fl digest) (pq_key E a ctx fl))))))"

definition do_set_policy ::
  "'k ethers \<Rightarrow> chain \<Rightarrow> actor \<Rightarrow> params \<Rightarrow> 'k ctx \<Rightarrow> exec_outcome \<times> 'k ctx" where
  "do_set_policy E ch a ps ctx =
     attempt ch SET_POLICY a (roots_now E a ctx) (build_set_policy E ch a ps ctx)
       (\<lambda>ctx. ctx\<lparr>c_policy_kind := option_or (p_policy ps) PolAllow\<rparr>) ctx"

section \<open>Guardian-gated actions\<close>

definition shape_of :: "params \<Rightarrow> quorum_shape" where
  "shape_of ps = option_or (p_quorum_shape ps) Honest"

text \<open>The prefix of the labels of a fresh roster.\<close>

definition fresh_roster_prefix :: "'k ctx \<Rightarrow> params \<Rightarrow> string" where
  "fresh_roster_prefix ctx ps =
     numbered (o_label (w_opts (c_world ctx)) @ ''-guardian-g'') (nat (option_or (p_roster_gen ps) 1)) @ ''-''"

definition new_roster :: "'k ethers \<Rightarrow> 'k ctx \<Rightarrow> params \<Rightarrow> 'k list" where
  "new_roster E ctx ps =
     (if option_or (p_duplicate_roster ps) False
      then [c_guardian_keys ctx ! 0, c_guardian_keys ctx ! 0, c_guardian_keys ctx ! 1]
      else ascending E (map (\<lambda>i. key_of E (numbered (fresh_roster_prefix ctx ps) i)) [0, 1, 2]))"

text \<open>
  A member that already sits keeps its label; the code's \<open>Map\<close> keeps the last of two seats with one
  address. Any other is one of the fresh keys.
\<close>

definition new_roster_label :: "'k ethers \<Rightarrow> 'k ctx \<Rightarrow> params \<Rightarrow> 'k \<Rightarrow> string" where
  "new_roster_label E ctx ps k =
     (case map_of (rev (zip (map (addr_of E) (c_guardian_keys ctx)) (c_guardian_labels ctx))) (addr_of E k) of
        Some label \<Rightarrow> label
      | None \<Rightarrow>
          (case find (\<lambda>i. addr_of E (key_of E (numbered (fresh_roster_prefix ctx ps) i)) = addr_of E k) [0, 1, 2] of
             Some i \<Rightarrow> numbered (fresh_roster_prefix ctx ps) i
           | None \<Rightarrow> fresh_roster_prefix ctx ps @ ''undefined''))"

definition set_guardians_digest :: "'k ethers \<Rightarrow> chain \<Rightarrow> params \<Rightarrow> 'k ctx \<Rightarrow> harness_error + (int \<times> string)" where
  "set_guardians_digest E ch ps ctx =
     (let members = map (addr_of E) (new_roster E ctx ps)
      in bindE (read (ch_nonce ch DOMAIN_GUARDIAN)) (\<lambda>nonce.
         bindE (read (ch_guardian_generation ch)) (\<lambda>g_gen.
         Inr (nonce, digest_for E ctx A_SET_GUARDIANS g_gen
           (roster_commitment E (option_or (p_new_threshold ps) 2) members [False, False, False])
           DOMAIN_GUARDIAN nonce))))"

text \<open>A build whose digest comes with the nonce it was made for.\<close>

definition quorum_call ::
  "'k ethers \<Rightarrow> actor \<Rightarrow> 'k ctx \<Rightarrow> quorum_shape \<Rightarrow> harness_error + (int \<times> string) \<Rightarrow> (int \<Rightarrow> quorum_proof \<Rightarrow> call) \<Rightarrow>
   32 word \<Rightarrow> (harness_error + call) \<times> 32 word" where
  "quorum_call E a ctx shape nd mk s =
     with_quorum E a ctx shape (bindE nd (\<lambda>(nonce, digest). Inr digest))
       (mk (case nd of Inl e \<Rightarrow> 0 | Inr (nonce, digest) \<Rightarrow> nonce)) s"

definition install_roster :: "'k ethers \<Rightarrow> 'k ctx \<Rightarrow> params \<Rightarrow> 'k ctx \<Rightarrow> 'k ctx" where
  "install_roster E before ps ctx =
     ctx\<lparr>c_guardian_keys := new_roster E before ps,
         c_guardian_labels := map (new_roster_label E before ps) (new_roster E before ps),
         c_guardian_is_contract := [False, False, False],
         c_threshold := option_or (p_new_threshold ps) 2,
         c_abstract := (c_abstract ctx)\<lparr>guardian_transitions := guardian_transitions (c_abstract ctx) + 1\<rparr>\<rparr>"

definition do_set_guardians ::
  "'k ethers \<Rightarrow> chain \<Rightarrow> actor \<Rightarrow> params \<Rightarrow> 'k ctx \<Rightarrow> 32 word \<Rightarrow> exec_outcome \<times> 'k ctx \<times> 32 word" where
  "do_set_guardians E ch a ps ctx s =
     (let (built, s) = quorum_call E a ctx (shape_of ps) (set_guardians_digest E ch ps ctx)
            (\<lambda>nonce q. SetGuardians (option_or (p_new_threshold ps) 2) (map (addr_of E) (new_roster E ctx ps))
               [False, False, False] q nonce FAR_DEADLINE) s;
          (res, ctx) = attempt ch SET_GUARDIANS a (roots_now E a ctx) built (install_roster E ctx ps) ctx
      in (res, ctx, s))"

section \<open>The recovery lifecycle\<close>

text \<open>The index \<open>Number(p.target ?? 1)\<close> names, and the recovery it proposes.\<close>

definition recovery_target :: "'k ctx \<Rightarrow> params \<Rightarrow> nat" where
  "recovery_target ctx ps = nat (option_or (p_target ps) 1 mod int (length (w_spare_cred (c_world ctx))))"

definition proposal :: "'k ethers \<Rightarrow> params \<Rightarrow> 'k ctx \<Rightarrow> string \<times> string \<times> string" where
  "proposal E ps ctx =
     (let w = c_world ctx
      in (addr_of E (w_spare_cred w ! recovery_target ctx ps), pq_hash E (w_spare_pq w ! recovery_target ctx ps),
          w_verifiers w (option_or (p_verifier ps) VHonest)))"

definition initiate_digest :: "'k ethers \<Rightarrow> chain \<Rightarrow> params \<Rightarrow> 'k ctx \<Rightarrow> harness_error + (int \<times> string)" where
  "initiate_digest E ch ps ctx =
     (let (signer, hash, verifier) = proposal E ps ctx
      in bindE (read (ch_nonce ch DOMAIN_GUARDIAN)) (\<lambda>nonce.
         bindE (read (ch_guardian_generation ch)) (\<lambda>bound_gen.
         Inr (nonce, digest_for E ctx A_RECOVER bound_gen (recover_params E signer hash verifier)
                DOMAIN_GUARDIAN nonce))))"

definition initiated_episode :: "'k ctx \<Rightarrow> string \<times> string \<times> string \<Rightarrow> int \<Rightarrow> root set \<Rightarrow> initiation" where
  "initiated_episode ctx prop gen roots =
     \<lparr>in_step = c_step ctx, in_signer = fst prop, in_pq_key_hash = fst (snd prop), in_verifier = snd (snd prop),
      in_guardian_generation = gen, in_authorized_by = roots\<rparr>"

text \<open>What a recording function of the model answers, put beside the outcome it judges.\<close>

definition judged ::
  "exec_outcome \<Rightarrow> 'k ctx \<Rightarrow> model_violation option \<times> abstract_state \<Rightarrow> exec_outcome \<times> 'k ctx" where
  "judged res ctx v =
     (res\<lparr>ex_model_violation := map_option ModelViolation (fst v)\<rparr>, ctx\<lparr>c_abstract := snd v\<rparr>)"

definition do_initiate ::
  "'k ethers \<Rightarrow> chain \<Rightarrow> actor \<Rightarrow> params \<Rightarrow> 'k ctx \<Rightarrow> 32 word \<Rightarrow> exec_outcome \<times> 'k ctx \<times> 32 word" where
  "do_initiate E ch a ps ctx s =
     (let held = roots_now E a ctx; prop = proposal E ps ctx;
          bound_gen = (case ch_guardian_generation ch of Inl e \<Rightarrow> 0 | Inr g \<Rightarrow> g);
          (built, s) = quorum_call E a ctx (shape_of ps) (initiate_digest E ch ps ctx)
            (\<lambda>nonce q. InitiateRecovery (fst prop) (fst (snd prop)) (snd (snd prop)) q nonce FAR_DEADLINE) s;
          (res, ctx) = attempt ch INITIATE_RECOVERY a held built id ctx
      in if \<not> ex_ok res then (res, ctx, s)
         else let (res, ctx) = judged res ctx
                (record_initiation (initiated_episode ctx prop bound_gen held) (option_or (ex_mined_at res) 0)
                   (c_abstract ctx))
              in (res, ctx, s))"

definition build_cancel :: "'k ethers \<Rightarrow> chain \<Rightarrow> actor \<Rightarrow> 'k ctx \<Rightarrow> harness_error + call" where
  "build_cancel E ch a ctx =
     bindE (read (ch_nonce ch DOMAIN_CREDENTIAL)) (\<lambda>nonce.
     bindE (read (ch_credential_generation ch)) (\<lambda>cred_gen.
     let digest = digest_for E ctx A_RECOVER cred_gen (eth_id E ''CANCEL'') DOMAIN_CREDENTIAL nonce
     in Inr (CancelRecovery nonce FAR_DEADLINE (sign E (cred_signing_key E a ctx) digest))))"

definition do_cancel :: "'k ethers \<Rightarrow> chain \<Rightarrow> actor \<Rightarrow> 'k ctx \<Rightarrow> exec_outcome \<times> 'k ctx" where
  "do_cancel E ch a ctx =
     (let (res, ctx) = attempt ch CANCEL_RECOVERY a (roots_now E a ctx) (build_cancel E ch a ctx) id ctx
      in if \<not> ex_ok res then (res, ctx)
         else judged res ctx (record_cancellation CREDENTIAL_CHALLENGE (option_or (ex_mined_at res) 0) (c_abstract ctx)))"

text \<open>A digest over one of the constant parameters, in the guardian domain.\<close>

definition guardian_digest :: "'k ethers \<Rightarrow> chain \<Rightarrow> string \<Rightarrow> 'k ctx \<Rightarrow> harness_error + (int \<times> string)" where
  "guardian_digest E ch label ctx =
     bindE (read (ch_nonce ch DOMAIN_GUARDIAN)) (\<lambda>nonce.
     bindE (read (ch_guardian_generation ch)) (\<lambda>g_gen.
     Inr (nonce, digest_for E ctx A_RECOVER g_gen (eth_id E label) DOMAIN_GUARDIAN nonce)))"

definition do_cancel_by_quorum ::
  "'k ethers \<Rightarrow> chain \<Rightarrow> actor \<Rightarrow> params \<Rightarrow> 'k ctx \<Rightarrow> 32 word \<Rightarrow> exec_outcome \<times> 'k ctx \<times> 32 word" where
  "do_cancel_by_quorum E ch a ps ctx s =
     (let (built, s) = quorum_call E a ctx (shape_of ps) (guardian_digest E ch ''QUORUM_CANCEL_RECOVERY'' ctx)
            (\<lambda>nonce q. CancelRecoveryByQuorum q nonce FAR_DEADLINE) s;
          (res, ctx) = attempt ch CANCEL_RECOVERY_BY_QUORUM a (roots_now E a ctx) built id ctx
      in if \<not> ex_ok res then (res, ctx, s)
         else let (res, ctx) = judged res ctx
                (record_cancellation GUARDIAN_QUORUM (option_or (ex_mined_at res) 0) (c_abstract ctx))
              in (res, ctx, s))"

text \<open>The roots that authorized the live episode.\<close>

definition live_authors :: "abstract_state \<Rightarrow> root set" where
  "live_authors s = (case current_episode s of None \<Rightarrow> {} | Some ev \<Rightarrow> ev_authorized_by ev)"

fun index_where :: "('a \<Rightarrow> bool) \<Rightarrow> 'a list \<Rightarrow> nat option" where
  "index_where P [] = None"
| "index_where P (x # xs) = (if P x then Some 0 else map_option Suc (index_where P xs))"

text \<open>\<open>installedIdx\<close>, once \<open>vault.recovery()\<close> has answered.\<close>

definition installed_index :: "'k ethers \<Rightarrow> chain \<Rightarrow> 'k ctx \<Rightarrow> nat option" where
  "installed_index E ch ctx =
     (case ch_recovery ch of
        Inl e \<Rightarrow> None
      | Inr (signer, hash, verifier) \<Rightarrow> index_where (\<lambda>k. addr_of E k = signer) (w_spare_cred (c_world ctx)))"

definition build_execute :: "'k ethers \<Rightarrow> chain \<Rightarrow> params \<Rightarrow> 'k ctx \<Rightarrow> harness_error + call" where
  "build_execute E ch ps ctx =
     bindE (read (ch_recovery ch)) (\<lambda>(signer, hash, verifier).
     bindE (read (ch_recovery_possession_digest ch)) (\<lambda>pop.
     let w = c_world ctx; idx = installed_index E ch ctx; stale = option_or (p_pop_stale ps) False;
         spare_cred = (case idx of None \<Rightarrow> c_cred_key ctx | Some i \<Rightarrow> w_spare_cred w ! i);
         spare_pq = (case idx of None \<Rightarrow> c_pq_key ctx | Some i \<Rightarrow> w_spare_pq w ! i)
     in Inr (ExecuteRecovery
          \<lparr>new_signer = signer, new_pq_key_hash = hash, new_pq_key = pq_key_bytes E spare_pq,
           new_ecdsa_pop = sign E (if stale then c_cred_key ctx else spare_cred) pop,
           new_pq_pop = sign E (if stale then c_pq_key ctx else spare_pq) pop\<rparr>)))"

definition verifier_kind_of :: "'k world \<Rightarrow> string \<Rightarrow> verifier_kind" where
  "verifier_kind_of w address =
     (case find (\<lambda>k. lower (w_verifiers w k) = lower address) [VHonest, VAlwaysTrue, VAlwaysFalse, VReverting] of
        Some k \<Rightarrow> k | None \<Rightarrow> VHonest)"

definition install_recovered :: "nat option \<Rightarrow> string \<Rightarrow> 'k ctx \<Rightarrow> 'k ctx" where
  "install_recovered idx verifier ctx =
     (let w = c_world ctx; label = o_label (w_opts w);
          ctx = (case idx of
                   None \<Rightarrow> ctx
                 | Some i \<Rightarrow> ctx\<lparr>c_cred_key := w_spare_cred w ! i, c_cred_label := numbered (label @ ''-spare-cred-'') i,
                       c_pq_key := w_spare_pq w ! i, c_pq_label := numbered (label @ ''-spare-pq-'') i\<rparr>)
      in ctx\<lparr>c_verifier_kind := verifier_kind_of w verifier\<rparr>)"

definition do_execute_recovery ::
  "'k ethers \<Rightarrow> chain \<Rightarrow> actor \<Rightarrow> params \<Rightarrow> 'k ctx \<Rightarrow> exec_outcome \<times> 'k ctx" where
  "do_execute_recovery E ch a ps ctx =
     (let attributed = live_authors (c_abstract ctx);
          idx = installed_index E ch ctx;
          verifier = (case ch_recovery ch of Inl e \<Rightarrow> [] | Inr (signer, hash, verifier) \<Rightarrow> verifier);
          stale = (option_or (p_pop_stale ps) False \<and>
            (case idx of None \<Rightarrow> False
             | Some i \<Rightarrow> addr_of E (c_cred_key ctx) \<noteq> addr_of E (w_spare_cred (c_world ctx) ! i)));
          (res, ctx) = attempt ch EXECUTE_RECOVERY a (roots_now E a ctx) (build_execute E ch ps ctx)
            (install_recovered idx verifier) ctx;
          (res, ctx) =
            (if ex_ok res
             then judged res ctx
               (judge_recovery_execution (c_abstract ctx) (option_or (ex_mined_at res) 0),
                record_execution (c_cred_label ctx) (c_abstract ctx))
             else (res, ctx))
      in (res\<lparr>ex_attributed := attributed, ex_used_stale := stale\<rparr>, ctx))"

section \<open>Containment, migration, replay and the factory\<close>

definition do_enter_containment ::
  "'k ethers \<Rightarrow> chain \<Rightarrow> actor \<Rightarrow> params \<Rightarrow> 'k ctx \<Rightarrow> 32 word \<Rightarrow> exec_outcome \<times> 'k ctx \<times> 32 word" where
  "do_enter_containment E ch a ps ctx s =
     (let (built, s) = quorum_call E a ctx (shape_of ps) (guardian_digest E ch ''CONTAIN'' ctx)
            (\<lambda>nonce q. EnterContainment q nonce FAR_DEADLINE) s;
          (res, ctx) = attempt ch ENTER_CONTAINMENT a (roots_now E a ctx) built id ctx
      in (res, ctx, s))"

definition bind_digest :: "'k ethers \<Rightarrow> chain \<Rightarrow> 'k ctx \<Rightarrow> harness_error + (int \<times> string)" where
  "bind_digest E ch ctx =
     (let w = c_world ctx
      in bindE (read (ch_nonce ch DOMAIN_MIGRATION)) (\<lambda>nonce.
         bindE (read (ch_guardian_generation ch)) (\<lambda>g_gen.
         Inr (nonce, digest_for E ctx A_BIND_MIGRATION g_gen
           (migration_params E (w_destination w) (w_destination_code_hash w) 2) DOMAIN_MIGRATION nonce))))"

definition do_bind_migration ::
  "'k ethers \<Rightarrow> chain \<Rightarrow> actor \<Rightarrow> params \<Rightarrow> 'k ctx \<Rightarrow> 32 word \<Rightarrow> exec_outcome \<times> 'k ctx \<times> 32 word" where
  "do_bind_migration E ch a ps ctx s =
     (let w = c_world ctx; held = roots_now E a ctx; nd = bind_digest E ch ctx;
          digest = (case nd of Inl e \<Rightarrow> [] | Inr (nonce, digest) \<Rightarrow> digest);
          (built, s) = quorum_call E a ctx (shape_of ps) nd
            (\<lambda>nonce q. BindMigration (w_destination w) (w_destination_code_hash w) 2 q nonce FAR_DEADLINE
               (sign E (cred_signing_key E a ctx) digest)) s;
          (res, ctx) = attempt ch BIND_MIGRATION a held built id ctx
      in if ex_ok res
         then (res, ctx\<lparr>c_abstract := (c_abstract ctx)\<lparr>migration_bound := True, migration_authorized_by := held\<rparr>\<rparr>, s)
         else (res, ctx, s))"

definition do_retire :: "'k ethers \<Rightarrow> chain \<Rightarrow> actor \<Rightarrow> 'k ctx \<Rightarrow> exec_outcome \<times> 'k ctx" where
  "do_retire E ch a ctx =
     (let (res, ctx) = attempt ch RETIRE a (roots_now E a ctx) (Inr Retire) id ctx;
          ctx = (if ex_ok res then ctx\<lparr>c_abstract := (c_abstract ctx)\<lparr>retired := True\<rparr>\<rparr> else ctx)
      in (res\<lparr>ex_attributed := migration_authorized_by (c_abstract ctx)\<rparr>, ctx))"

definition do_egress :: "'k ethers \<Rightarrow> chain \<Rightarrow> action_kind \<Rightarrow> actor \<Rightarrow> 'k ctx \<Rightarrow> exec_outcome \<times> 'k ctx" where
  "do_egress E ch kind a ctx =
     (let asset = (if kind = EGRESS_NATIVE then ZERO else w_token (c_world ctx));
          (res, ctx) = attempt ch kind a (roots_now E a ctx) (Inr (Egress asset)) id ctx
      in (res\<lparr>ex_attributed := migration_authorized_by (c_abstract ctx)\<rparr>, ctx))"

definition replay_attribution :: "recorded_call \<Rightarrow> root set \<Rightarrow> abstract_state \<Rightarrow> root set" where
  "replay_attribution target held st =
     (if r_kind target \<in> set PERMISSIONLESS_FINALISERS then migration_authorized_by st
      else if r_kind target = EXECUTE_RECOVERY then live_authors st
      else if r_ok target then held else r_author_roots target)"

text \<open>What a replay that was mined makes the model record; \<open>Inl\<close> is an exception on the way.\<close>

definition replay_record ::
  "chain \<Rightarrow> recorded_call \<Rightarrow> int \<Rightarrow> 'k ctx \<Rightarrow> string + (model_violation option \<times> abstract_state)" where
  "replay_record ch target at ctx =
     (let st = c_abstract ctx
      in case r_kind target of
           EXECUTE_RECOVERY \<Rightarrow>
             Inr (judge_recovery_execution st at, record_execution (c_cred_label ctx) st)
         | INITIATE_RECOVERY \<Rightarrow>
             (case r_data target of
                InitiateRecovery signer hash verifier q nonce deadline \<Rightarrow>
                  bindE (ch_guardian_generation_after ch) (\<lambda>g_gen.
                  Inr (record_initiation
                    (initiated_episode ctx (signer, hash, verifier) g_gen (r_author_roots target)) at st))
              | _ \<Rightarrow> Inl ''data signature mismatch'')
         | CANCEL_RECOVERY \<Rightarrow> Inr (record_cancellation CREDENTIAL_CHALLENGE at st)
         | CANCEL_RECOVERY_BY_QUORUM \<Rightarrow> Inr (record_cancellation GUARDIAN_QUORUM at st)
         | _ \<Rightarrow> Inr (None, st))"

definition do_replay ::
  "'k ethers \<Rightarrow> chain \<Rightarrow> actor \<Rightarrow> params \<Rightarrow> 'k ctx \<Rightarrow> exec_outcome \<times> 'k ctx" where
  "do_replay E ch a ps ctx =
     (let prior = filter (\<lambda>h. r_kind h \<noteq> REPLAY_PAST_CALL \<and> r_kind h \<noteq> FUND) (c_history ctx)
      in if prior = [] then (failed {} NoHistory, ctx)
         else let target = prior ! nat (option_or (p_index ps) 0 mod int (length prior));
                  attributed = replay_attribution target (roots_now E a ctx) (c_abstract ctx)
              in case ch_send ch (sends_as a) (r_data target) of
                   Reverted why \<Rightarrow> (failed attributed (Revert why), ctx)
                 | Mined at \<Rightarrow> (case replay_record ch target at ctx of
                     Inl why \<Rightarrow> (failed attributed (Revert why), ctx)
                   | Inr v \<Rightarrow> judged (succeeded attributed (Some at)) ctx v))"

definition hostile_genesis :: "'k ethers \<Rightarrow> actor \<Rightarrow> 'k world \<Rightarrow> genesis" where
  "hostile_genesis E a w =
     \<lparr>gen_signer = addr_of E (key_of E (actor_name a @ ''-hostile'')),
      gen_pq_key_hash = pq_hash E (key_of E (actor_name a @ ''-hostile-pq'')),
      gen_verifier = w_verifiers w VAlwaysTrue, gen_threshold = 2,
      gen_guardians = map (addr_of E)
        (ascending E (map (\<lambda>i. key_of E (numbered (actor_name a @ ''-hostile-g'') i)) [0, 1, 2])),
      gen_guardian_is_contract = [False, False, False],
      gen_floor = \<lparr>require_pq = True, pq_param_level = 3, pq_public_key_length = 32, pq_signature_length = 65\<rparr>\<rparr>"

definition do_factory_twin :: "'k ethers \<Rightarrow> chain \<Rightarrow> actor \<Rightarrow> 'k ctx \<Rightarrow> exec_outcome" where
  "do_factory_twin E ch a ctx =
     (let w = c_world ctx; hostile = hostile_genesis E a w
      in case ch_predict_vault ch hostile of
           Inl why \<Rightarrow> failed {} (Revert why)
         | Inr predicted \<Rightarrow>
             if lower predicted = lower (w_vault_address w)
             then (succeeded {} None)\<lparr>ex_model_violation := Some IdentityBinding\<rparr>
             else (case ch_deploy_vault ch hostile (pq_key_bytes E (key_of E (actor_name a @ ''-hostile-pq''))) of
                     Some why \<Rightarrow> failed {} (Revert why)
                   | None \<Rightarrow> succeeded {} None))"

definition do_fund :: "'k ethers \<Rightarrow> chain \<Rightarrow> actor \<Rightarrow> params \<Rightarrow> exec_outcome" where
  "do_fund E ch a ps =
     (case ch_fund ch (sends_as a) (parse_ether E (option_or (p_eth ps) ''1'')) of
        Some why \<Rightarrow> failed {} (Revert why) | None \<Rightarrow> succeeded {} None)"

section \<open>The dispatch\<close>

definition execute_action ::
  "'k ethers \<Rightarrow> chain \<Rightarrow> generated_action \<Rightarrow> actor \<Rightarrow> 'k ctx \<Rightarrow> 32 word \<Rightarrow> exec_outcome \<times> 'k ctx \<times> 32 word" where
  "execute_action E ch act a ctx s =
     (let ps = a_params act; without_draws = (\<lambda>(res, ctx). (res, ctx, s))
      in case a_kind act of
           FUND \<Rightarrow> (do_fund E ch a ps, ctx, s)
         | ADVANCE_TIME \<Rightarrow> (succeeded {} None, ctx, s)
         | SPEND \<Rightarrow> without_draws (attempt ch SPEND a (roots_now E a ctx) (build_spend E ch a ps ctx) id ctx)
         | ROTATE_CREDENTIAL \<Rightarrow> without_draws (do_rotate E ch a ps ctx)
         | SET_VERIFIER \<Rightarrow> without_draws (do_set_verifier E ch a ps ctx)
         | SET_POLICY \<Rightarrow> without_draws (do_set_policy E ch a ps ctx)
         | SET_GUARDIANS \<Rightarrow> do_set_guardians E ch a ps ctx s
         | INITIATE_RECOVERY \<Rightarrow> do_initiate E ch a ps ctx s
         | CANCEL_RECOVERY \<Rightarrow> without_draws (do_cancel E ch a ctx)
         | CANCEL_RECOVERY_BY_QUORUM \<Rightarrow> do_cancel_by_quorum E ch a ps ctx s
         | EXECUTE_RECOVERY \<Rightarrow> without_draws (do_execute_recovery E ch a ps ctx)
         | ENTER_CONTAINMENT \<Rightarrow> do_enter_containment E ch a ps ctx s
         | BIND_MIGRATION \<Rightarrow> do_bind_migration E ch a ps ctx s
         | RETIRE \<Rightarrow> without_draws (do_retire E ch a ctx)
         | EGRESS_NATIVE \<Rightarrow> without_draws (do_egress E ch EGRESS_NATIVE a ctx)
         | EGRESS_TOKEN \<Rightarrow> without_draws (do_egress E ch EGRESS_TOKEN a ctx)
         | REPLAY_PAST_CALL \<Rightarrow> without_draws (do_replay E ch a ps ctx)
         | FACTORY_DEPLOY_TWIN \<Rightarrow> (do_factory_twin E ch a ctx, ctx, s))"

section \<open>Invariants of the bookkeeping\<close>

text \<open>What an accepted action does to the abstract model.\<close>

inductive model_update :: "abstract_state \<Rightarrow> abstract_state \<Rightarrow> bool" where
  initiated: "model_update s (snd (record_initiation req at s))"
| cancelled: "model_update s (snd (record_cancellation cause at s))"
| executed: "model_update s (record_execution controller s)"
| bound: "model_update s (s\<lparr>migration_bound := True, migration_authorized_by := held\<rparr>)"
| retired: "model_update s (s\<lparr>retired := True\<rparr>)"

lemma attempt_cases [case_names unsent refused mined]:
  assumes "attempt ch kind a held built f ctx = (res, ctx')"
  obtains e where "built = Inl e" and "res = failed held (HarnessEncode e)" and "ctx' = ctx"
  | data why where "built = Inr data" and "ch_send ch (sends_as a) data = Reverted why"
      and "res = failed held (Revert why)" and "ctx' = record_call kind a held data False ctx"
  | data at where "built = Inr data" and "ch_send ch (sends_as a) data = Mined at"
      and "res = succeeded held (Some at)" and "ctx' = f (record_call kind a held data True ctx)"
  using assms by (auto simp: attempt_def split: sum.splits tx_result.splits)

lemma record_call_unchanged [simp]:
  "c_world (record_call kind a held data okay ctx) = c_world ctx"
  "c_abstract (record_call kind a held data okay ctx) = c_abstract ctx"
  "c_cred_key (record_call kind a held data okay ctx) = c_cred_key ctx"
  "c_cred_label (record_call kind a held data okay ctx) = c_cred_label ctx"
  "c_pq_key (record_call kind a held data okay ctx) = c_pq_key ctx"
  "c_pq_label (record_call kind a held data okay ctx) = c_pq_label ctx"
  "c_guardian_keys (record_call kind a held data okay ctx) = c_guardian_keys ctx"
  "c_guardian_labels (record_call kind a held data okay ctx) = c_guardian_labels ctx"
  "c_require_pq_now (record_call kind a held data okay ctx) = c_require_pq_now ctx"
  "c_verifier_kind (record_call kind a held data okay ctx) = c_verifier_kind ctx"
  "c_step (record_call kind a held data okay ctx) = c_step ctx"
  by (simp_all add: record_call_def)

lemma roster_record [simp]:
  "fresh_roster_prefix (record_call kind a held data okay ctx) ps = fresh_roster_prefix ctx ps"
  "new_roster E (record_call kind a held data okay ctx) ps = new_roster E ctx ps"
  "new_roster_label E (record_call kind a held data okay ctx) ps = new_roster_label E ctx ps"
proof -
  show prefix: "fresh_roster_prefix (record_call kind a held data okay ctx) ps = fresh_roster_prefix ctx ps"
    by (simp add: fresh_roster_prefix_def)
  show "new_roster E (record_call kind a held data okay ctx) ps = new_roster E ctx ps"
    by (simp only: new_roster_def prefix record_call_unchanged)
  show "new_roster_label E (record_call kind a held data okay ctx) ps = new_roster_label E ctx ps"
    by (rule ext) (simp only: new_roster_label_def prefix record_call_unchanged)
qed

lemma install_roster_record:
  "install_roster E ctx ps (record_call kind a held data okay ctx) =
    install_roster E (record_call kind a held data okay ctx) ps (record_call kind a held data okay ctx)"
  by (simp add: install_roster_def)

lemma index_where_Some: "index_where P xs = Some i \<Longrightarrow> i < length xs \<and> P (xs ! i)"
  by (induction xs arbitrary: i) (auto split: if_splits)

lemma replay_record_update:
  assumes "replay_record ch target at ctx = Inr v"
  shows "snd v = c_abstract ctx \<or> model_update (c_abstract ctx) (snd v)"
proof (cases "r_kind target")
  case INITIATE_RECOVERY
  then obtain signer hash verifier q nonce deadline where
    "r_data target = InitiateRecovery signer hash verifier q nonce deadline"
    using assms by (cases "r_data target") (simp_all add: replay_record_def)
  then show ?thesis using INITIATE_RECOVERY assms
    by (auto simp: replay_record_def bindE_eq_Inr intro: model_update.initiated)
qed (use assms in \<open>auto simp: replay_record_def Let_def intro: model_update.intros\<close>)

lemma replay_cases:
  assumes "do_replay E ch a ps ctx = (res, ctx')"
  obtains "ctx' = ctx" | target at v where "replay_record ch target at ctx = Inr v" and "ctx' = ctx\<lparr>c_abstract := snd v\<rparr>"
proof -
  let ?prior = "filter (\<lambda>h. r_kind h \<noteq> REPLAY_PAST_CALL \<and> r_kind h \<noteq> FUND) (c_history ctx)"
  let ?target = "?prior ! nat (option_or (p_index ps) 0 mod int (length ?prior))"
  show ?thesis
  proof (cases "?prior = []")
    case True
    note r = assms [unfolded do_replay_def Let_def if_P [OF True]]
    then show ?thesis using that(1) by (simp only: prod.inject)
  next
    case False
    note r = assms [unfolded do_replay_def Let_def if_not_P [OF False]]
    show ?thesis
    proof (cases "ch_send ch (sends_as a) (r_data ?target)")
      case (Reverted why)
      then show ?thesis using r that(1) by (simp only: tx_result.case prod.inject)
    next
      case (Mined at)
      note r = r [unfolded Mined tx_result.case]
      show ?thesis
      proof (cases "replay_record ch ?target at ctx")
        case (Inl why)
        then show ?thesis using r that(1) by (simp only: sum.case prod.inject)
      next
        case (Inr v)
        then show ?thesis using r that(2) [OF Inr] by (simp only: sum.case judged_def prod.inject)
      qed
    qed
  qed
qed

text \<open>
  A property of the context that each of the harness's updates keeps is kept by every action: an
  action that fails only records its call, and one that succeeds makes one update more.
\<close>

locale action_invariant =
  fixes E :: "'k ethers" and I :: "'k ctx \<Rightarrow> bool"
  assumes recording: "I ctx \<Longrightarrow> I (record_call kind a (roots_now E a ctx) data okay ctx)"
    and rotating: "I ctx \<Longrightarrow> I (install_rotated ps ctx)"
    and verifying: "I ctx \<Longrightarrow> I (ctx\<lparr>c_verifier_kind := v, c_require_pq_now := b\<rparr>)"
    and governing: "I ctx \<Longrightarrow> I (ctx\<lparr>c_policy_kind := pol\<rparr>)"
    and rostering: "I ctx \<Longrightarrow> I (install_roster E ctx ps ctx)"
    and recovering: "I ctx \<Longrightarrow> (\<And>i. idx = Some i \<Longrightarrow> i < length (w_spare_cred (c_world ctx))) \<Longrightarrow>
      I (install_recovered idx verifier ctx)"
    and modelling: "I ctx \<Longrightarrow> model_update (c_abstract ctx) st \<Longrightarrow> I (ctx\<lparr>c_abstract := st\<rparr>)"
    and stepping: "I ctx \<Longrightarrow> I (ctx\<lparr>c_step := i\<rparr>)"
begin

lemma attempt_keeps:
  assumes "attempt ch kind a (roots_now E a ctx) built f ctx = (res, ctx')" and "I ctx"
    and "\<And>data. I (record_call kind a (roots_now E a ctx) data True ctx) \<Longrightarrow>
      I (f (record_call kind a (roots_now E a ctx) data True ctx))"
  shows "I ctx'"
  using assms(1)
proof (cases rule: attempt_cases)
  case unsent
  then show ?thesis using assms(2) by simp
next
  case refused
  then show ?thesis using assms(2) by (simp add: recording)
next
  case mined
  then show ?thesis using assms(2,3) by (simp add: recording)
qed

lemma attempt_id_keeps:
  "attempt ch kind a (roots_now E a ctx) built id ctx = (res, ctx') \<Longrightarrow> I ctx \<Longrightarrow> I ctx'"
  by (erule (1) attempt_keeps) simp

lemma judged_keeps:
  "judged res ctx v = (res', ctx') \<Longrightarrow> I ctx \<Longrightarrow> model_update (c_abstract ctx) (snd v) \<Longrightarrow> I ctx'"
  by (auto simp: judged_def modelling)

lemma do_rotate_keeps: "do_rotate E ch a ps ctx = (res, ctx') \<Longrightarrow> I ctx \<Longrightarrow> I ctx'"
  by (auto simp: do_rotate_def split: prod.splits elim!: attempt_keeps intro: rotating)

lemma do_set_verifier_keeps: "do_set_verifier E ch a ps ctx = (res, ctx') \<Longrightarrow> I ctx \<Longrightarrow> I ctx'"
  unfolding do_set_verifier_def Let_def by (erule (1) attempt_keeps) (rule verifying)

lemma do_set_policy_keeps: "do_set_policy E ch a ps ctx = (res, ctx') \<Longrightarrow> I ctx \<Longrightarrow> I ctx'"
  unfolding do_set_policy_def by (erule (1) attempt_keeps) (rule governing)

lemma do_set_guardians_keeps: "do_set_guardians E ch a ps ctx s = (res, ctx', s') \<Longrightarrow> I ctx \<Longrightarrow> I ctx'"
  by (auto simp: do_set_guardians_def Let_def split: prod.splits elim!: attempt_keeps)
    (simp add: install_roster_record rostering)

lemma do_initiate_keeps: "do_initiate E ch a ps ctx s = (res, ctx', s') \<Longrightarrow> I ctx \<Longrightarrow> I ctx'"
  by (auto simp: do_initiate_def Let_def split: prod.splits if_splits
      dest: attempt_id_keeps elim!: judged_keeps intro: model_update.initiated)

lemma do_cancel_keeps: "do_cancel E ch a ctx = (res, ctx') \<Longrightarrow> I ctx \<Longrightarrow> I ctx'"
  by (auto simp: do_cancel_def Let_def split: prod.splits if_splits
      dest: attempt_id_keeps elim!: judged_keeps intro: model_update.cancelled)

lemma do_cancel_by_quorum_keeps:
  "do_cancel_by_quorum E ch a ps ctx s = (res, ctx', s') \<Longrightarrow> I ctx \<Longrightarrow> I ctx'"
  by (auto simp: do_cancel_by_quorum_def Let_def split: prod.splits if_splits
      dest: attempt_id_keeps elim!: judged_keeps intro: model_update.cancelled)

lemma do_execute_recovery_keeps:
  assumes "do_execute_recovery E ch a ps ctx = (res, ctx')" and "I ctx"
  shows "I ctx'"
proof -
  obtain verifier r c where c: "attempt ch EXECUTE_RECOVERY a (roots_now E a ctx) (build_execute E ch ps ctx)
      (install_recovered (installed_index E ch ctx) verifier) ctx = (r, c)"
    and c': "ctx' = c \<or> ctx' = c\<lparr>c_abstract := record_execution (c_cred_label c) (c_abstract c)\<rparr>"
    using assms(1) by (auto simp: do_execute_recovery_def Let_def judged_def split: prod.splits if_splits)
  have idx: "i < length (w_spare_cred (c_world ctx))" if "installed_index E ch ctx = Some i" for i
    using that by (auto simp: installed_index_def split: sum.splits dest: index_where_Some)
  have "I c" by (rule attempt_keeps [OF c assms(2)]) (auto intro!: recovering dest: idx)
  then show ?thesis using c' modelling [OF _ model_update.executed] by auto
qed

lemma do_enter_containment_keeps:
  "do_enter_containment E ch a ps ctx s = (res, ctx', s') \<Longrightarrow> I ctx \<Longrightarrow> I ctx'"
  by (auto simp: do_enter_containment_def Let_def split: prod.splits dest: attempt_id_keeps)

lemma do_bind_migration_keeps: "do_bind_migration E ch a ps ctx s = (res, ctx', s') \<Longrightarrow> I ctx \<Longrightarrow> I ctx'"
  by (auto simp: do_bind_migration_def Let_def split: prod.splits if_splits
      dest: attempt_id_keeps intro!: modelling model_update.bound)

lemma do_retire_keeps: "do_retire E ch a ctx = (res, ctx') \<Longrightarrow> I ctx \<Longrightarrow> I ctx'"
  by (auto simp: do_retire_def Let_def split: prod.splits if_splits
      dest: attempt_id_keeps intro!: modelling model_update.retired)

lemma do_egress_keeps: "do_egress E ch kind a ctx = (res, ctx') \<Longrightarrow> I ctx \<Longrightarrow> I ctx'"
  by (auto simp: do_egress_def Let_def split: prod.splits dest: attempt_id_keeps)

lemma do_replay_keeps:
  assumes "do_replay E ch a ps ctx = (res, ctx')" and "I ctx"
  shows "I ctx'"
proof -
  consider "ctx' = ctx" | target at v where "replay_record ch target at ctx = Inr v"
      "ctx' = ctx\<lparr>c_abstract := snd v\<rparr>"
    by (rule replay_cases [OF assms(1)])
  then show ?thesis
  proof cases
    case 1
    then show ?thesis using assms(2) by simp
  next
    case 2
    then show ?thesis using replay_record_update [OF 2(1)] assms(2) modelling [OF assms(2)] by auto
  qed
qed

theorem execute_action_keeps:
  assumes "execute_action E ch act a ctx s = (res, ctx', s')" and "I ctx"
  shows "I ctx'"
  using assms
  by (cases "a_kind act")
    (auto simp: execute_action_def Let_def split: prod.splits
      dest: attempt_id_keeps do_rotate_keeps do_set_verifier_keeps do_set_policy_keeps do_set_guardians_keeps
        do_initiate_keeps do_cancel_keeps do_cancel_by_quorum_keeps do_execute_recovery_keeps
        do_enter_containment_keeps do_bind_migration_keeps do_retire_keeps do_egress_keeps do_replay_keeps)

end

section \<open>Labels name the installed keys\<close>

text \<open>No two key labels have one address.\<close>

definition addresses_distinct :: "'k ethers \<Rightarrow> bool" where
  "addresses_distinct E \<longleftrightarrow>
     (\<forall>l l'. addr_of E (key_of E l) = addr_of E (key_of E l') \<longrightarrow> key_of E l = key_of E l')"

definition world_named :: "'k ethers \<Rightarrow> 'k world \<Rightarrow> bool" where
  "world_named E w \<longleftrightarrow>
     w_spare_cred w = map (\<lambda>i. key_of E (numbered (o_label (w_opts w) @ ''-spare-cred-'') i)) [0, 1, 2] \<and>
     w_spare_pq w = map (\<lambda>i. key_of E (numbered (o_label (w_opts w) @ ''-spare-pq-'') i)) [0, 1, 2]"

definition keys_named :: "'k ethers \<Rightarrow> 'k ctx \<Rightarrow> bool" where
  "keys_named E ctx \<longleftrightarrow> labels_ok E ctx \<and> length (c_guardian_keys ctx) = 3 \<and> world_named E (c_world ctx)"

lemma spare_named:
  assumes "world_named E w" and "i < length (w_spare_cred w)"
  shows "w_spare_cred w ! i = key_of E (numbered (o_label (w_opts w) @ ''-spare-cred-'') i)"
    and "w_spare_pq w ! i = key_of E (numbered (o_label (w_opts w) @ ''-spare-pq-'') i)"
proof -
  have "i < 3" using assms by (simp add: world_named_def)
  then have "i = 0 \<or> i = 1 \<or> i = 2" by linarith
  then show "w_spare_cred w ! i = key_of E (numbered (o_label (w_opts w) @ ''-spare-cred-'') i)"
    "w_spare_pq w ! i = key_of E (numbered (o_label (w_opts w) @ ''-spare-pq-'') i)"
    using assms(1) unfolding world_named_def by auto
qed

lemma rotate_target_less:
  "world_named E (c_world ctx) \<Longrightarrow> rotate_target ctx ps < length (w_spare_cred (c_world ctx))"
  by (simp add: rotate_target_def world_named_def nat_less_iff)

lemma new_roster_length [simp]: "length (new_roster E ctx ps) = 3"
  by (simp add: new_roster_def ascending_def)

lemma new_roster_label_names:
  assumes "addresses_distinct E" and "keys_named E ctx" and "k \<in> set (new_roster E ctx ps)"
  shows "key_of E (new_roster_label E ctx ps k) = k"
proof -
  let ?seats = "zip (map (addr_of E) (c_guardian_keys ctx)) (c_guardian_labels ctx)"
  let ?fresh = "\<lambda>i. numbered (fresh_roster_prefix ctx ps) i"
  have keys: "c_guardian_keys ctx = map (key_of E) (c_guardian_labels ctx)" "length (c_guardian_labels ctx) = 3"
    using assms(2) by (auto simp: keys_named_def labels_ok_def dest: arg_cong [where f = length])
  have in_keys: "c_guardian_keys ctx ! 0 \<in> set (c_guardian_keys ctx)" "c_guardian_keys ctx ! 1 \<in> set (c_guardian_keys ctx)"
    using assms(2) by (simp_all add: keys_named_def)
  have k: "k \<in> set (c_guardian_keys ctx) \<or> k \<in> (\<lambda>i. key_of E (?fresh i)) ` set [0, 1, 2]"
    using assms(3) in_keys by (auto simp: new_roster_def ascending_def split: if_splits)
  then obtain l where l: "k = key_of E l" using keys(1) by auto
  have same: "addr_of E (key_of E l') = addr_of E k \<Longrightarrow> key_of E l' = k" for l'
    using assms(1) l unfolding addresses_distinct_def by blast
  show ?thesis
  proof (cases "map_of (rev ?seats) (addr_of E k)")
    case (Some label)
    then have "(addr_of E k, label) \<in> set ?seats" by (metis map_of_SomeD set_rev)
    then have "addr_of E (key_of E label) = addr_of E k" using keys(1) by (auto simp: set_zip)
    then show ?thesis using Some same by (simp add: new_roster_label_def)
  next
    case None
    then have "addr_of E k \<notin> set (map fst ?seats)" by (simp add: map_of_eq_None_iff)
    moreover have "map fst ?seats = map (addr_of E) (c_guardian_keys ctx)" using keys by simp
    ultimately have "k \<notin> set (c_guardian_keys ctx)" by auto
    with k have "k \<in> (\<lambda>i. key_of E (?fresh i)) ` set [0, 1, 2]" by blast
    then obtain i where i: "k = key_of E (?fresh i)" "i \<in> set [0, 1, 2]" by (rule imageE)
    let ?P = "\<lambda>i. addr_of E (key_of E (?fresh i)) = addr_of E k"
    have "?P i" unfolding i(1) ..
    then have "find ?P [0, 1, 2] \<noteq> None" using i(2) unfolding find_None_set by blast
    then obtain j where j: "find ?P [0, 1, 2] = Some j" by blast
    then have "addr_of E (key_of E (?fresh j)) = addr_of E k" using find_Some_set [OF j] by blast
    then show ?thesis using None j same by (simp add: new_roster_label_def)
  qed
qed

interpretation keys: action_invariant E "\<lambda>ctx. addresses_distinct E \<longrightarrow> keys_named E ctx" for E :: "'k ethers"
proof
  fix ctx :: "'k ctx" and ps
  assume I: "addresses_distinct E \<longrightarrow> keys_named E ctx"
  show "addresses_distinct E \<longrightarrow> keys_named E (install_rotated ps ctx)"
  proof
    assume "addresses_distinct E"
    with I have n: "keys_named E ctx" ..
    then have w: "world_named E (c_world ctx)" by (simp add: keys_named_def)
    show "keys_named E (install_rotated ps ctx)"
      using n spare_named [OF w rotate_target_less [OF w]]
      by (auto simp: install_rotated_def count_replacement_def keys_named_def labels_ok_def Let_def)
  qed
  show "addresses_distinct E \<longrightarrow> keys_named E (install_roster E ctx ps ctx)"
  proof
    assume d: "addresses_distinct E"
    with I have n: "keys_named E ctx" ..
    have "map (key_of E) (map (new_roster_label E ctx ps) (new_roster E ctx ps)) = new_roster E ctx ps"
      using new_roster_label_names [OF d n] by (simp add: map_idI)
    then show "keys_named E (install_roster E ctx ps ctx)"
      using n by (simp add: install_roster_def keys_named_def labels_ok_def)
  qed
next
  fix ctx :: "'k ctx" and idx verifier
  assume I: "addresses_distinct E \<longrightarrow> keys_named E ctx"
    and idx: "\<And>i. idx = Some i \<Longrightarrow> i < length (w_spare_cred (c_world ctx))"
  show "addresses_distinct E \<longrightarrow> keys_named E (install_recovered idx verifier ctx)"
    using I spare_named [OF _ idx]
    by (cases idx) (auto simp: install_recovered_def keys_named_def labels_ok_def Let_def)
qed (auto simp: keys_named_def labels_ok_def)

interpretation episodes: action_invariant E "\<lambda>ctx. model_inv (c_abstract ctx)" for E :: "'k ethers"
proof
  fix ctx :: "'k ctx" and st
  assume "model_inv (c_abstract ctx)" and "model_update (c_abstract ctx) st"
  then have "model_inv st"
    by (cases rule: model_update.cases [OF \<open>model_update (c_abstract ctx) st\<close>])
      (auto intro: record_initiation_inv record_cancellation_inv record_execution_inv elim: model_inv_cong)
  then show "model_inv (c_abstract (ctx\<lparr>c_abstract := st\<rparr>))" by simp
qed (auto simp: install_rotated_def count_replacement_def install_roster_def install_recovered_def Let_def
    split: option.splits elim!: model_inv_cong)

end
