(* ===== verification/Campaign_Run.thy ===== *)
theory Campaign_Run
  imports Campaign_Actions "HOL-Library.Sublist"
begin

text \<open>
  The campaign engine of \<open>prototype/vnext-kernel/stateful/campaign.ts\<close>: outcome detection by state
  difference, the lifecycle seams, the judgements made after every step, shrinking, the positive
  controls and \<open>runCampaign\<close>. What the chain answers at each step is an argument; the prose of a
  violation is not modelled.
\<close>

section \<open>Outcomes and seams\<close>

definition moved_assets :: "kernel_snapshot \<Rightarrow> kernel_snapshot \<Rightarrow> bool" where
  "moved_assets pre post \<longleftrightarrow>
     native_balance post < native_balance pre \<or> token_balance post < token_balance pre"

definition quorum_cancelled :: "kernel_snapshot \<Rightarrow> kernel_snapshot \<Rightarrow> bool" where
  "quorum_cancelled pre post \<longleftrightarrow>
     active (recovery pre) \<and> \<not> active (recovery post) \<and>
     challenges_used (recovery post) = challenges_used (recovery pre) \<and>
     credential_generation post = credential_generation pre \<and>
     proposed_signer (recovery post) = proposed_signer (recovery pre) \<and>
     expires_at (recovery post) = expires_at (recovery pre)"

definition detect_outcomes :: "kernel_snapshot \<Rightarrow> kernel_snapshot \<Rightarrow> outcome list" where
  "detect_outcomes pre post =
     (if moved_assets pre post then [ASSET_MOVEMENT] else []) @
     (if ecdsa_signer post \<noteq> ecdsa_signer pre \<or> pq_public_key_hash post \<noteq> pq_public_key_hash pre
      then [CREDENTIAL_REPLACEMENT] else []) @
     (if pq_verifier post \<noteq> pq_verifier pre then [VERIFIER_REPLACEMENT] else []) @
     (if policy_engine post \<noteq> policy_engine pre then [POLICY_CHANGE] else []) @
     (if guardian_commitment post \<noteq> guardian_commitment pre then [GUARDIAN_TRANSITION] else []) @
     (if \<not> bound (migration pre) \<and> bound (migration post) then [MIGRATION_BINDING] else []) @
     (if safe_state_stored pre \<noteq> SAFE_CONTAINED \<and> safe_state_stored post = SAFE_CONTAINED
      then [CONTAINMENT] else []) @
     (if quorum_cancelled pre post then [RECOVERY_QUORUM_CANCEL] else [])"

datatype lifecycle_seam =
    ExhaustedBudgetRefusal | ExpiredRequestObserved | ReinitiationAfterCancellation | ReinitiationAfterExpiry
  | LiveOverwriteRefused | QuorumCancelSucceeded | QuorumCancelRefusedBelowQuorum
  | ExpiredCancellationRefused | RecoveryAfterRecovery | ChallengeAfterRecoveryReset

definition lifecycle_seams_hit ::
  "action_kind \<Rightarrow> bool \<Rightarrow> revert option \<Rightarrow> kernel_snapshot \<Rightarrow> bool \<Rightarrow> lifecycle_seam list" where
  "lifecycle_seams_hit kind okay why pre had_recovery =
     (let stored_active = active (recovery pre);
          expired_stored = (stored_active \<and> \<not> recovery_effectively_live pre);
          prior_request = (proposed_signer (recovery pre) \<noteq> ZERO);
          seam = (\<lambda>c s. if c then [s] else [])
      in seam expired_stored ExpiredRequestObserved @
         seam (kind = CANCEL_RECOVERY \<and> why = Some (Revert ''ChallengeExhausted'')) ExhaustedBudgetRefusal @
         (if kind = INITIATE_RECOVERY
          then seam (okay \<and> prior_request \<and> \<not> stored_active) ReinitiationAfterCancellation @
               seam (okay \<and> expired_stored) ReinitiationAfterExpiry @
               seam (\<not> okay \<and> why = Some (Revert ''BadState'') \<and> recovery_effectively_live pre)
                 LiveOverwriteRefused @
               seam (okay \<and> had_recovery) RecoveryAfterRecovery
          else []) @
         (if kind = CANCEL_RECOVERY_BY_QUORUM
          then seam okay QuorumCancelSucceeded @
               seam (\<not> okay \<and> why = Some (Revert ''QuorumNotMet'') \<and> recovery_effectively_live pre)
                 QuorumCancelRefusedBelowQuorum
          else []) @
         seam ((kind = CANCEL_RECOVERY \<or> kind = CANCEL_RECOVERY_BY_QUORUM) \<and> \<not> okay \<and>
               why = Some (Revert ''NoRecovery'') \<and> expired_stored) ExpiredCancellationRefused @
         seam (kind = CANCEL_RECOVERY \<and> okay \<and> had_recovery) ChallengeAfterRecoveryReset)"

section \<open>One step\<close>

text \<open>What the chain answers during one step: the action's reads, the state after it, the recovery digest.\<close>

record step_answers =
  sa_chain :: chain
  sa_post :: kernel_snapshot
  sa_recovery_digest :: string

record property_violation =
  v_property :: string
  v_step :: int

text \<open>\<open>String(outcome)\<close>.\<close>

fun outcome_name :: "outcome \<Rightarrow> string" where
  "outcome_name ASSET_MOVEMENT = ''ASSET_MOVEMENT''"
| "outcome_name CREDENTIAL_REPLACEMENT = ''CREDENTIAL_REPLACEMENT''"
| "outcome_name VERIFIER_REPLACEMENT = ''VERIFIER_REPLACEMENT''"
| "outcome_name POLICY_CHANGE = ''POLICY_CHANGE''"
| "outcome_name GUARDIAN_TRANSITION = ''GUARDIAN_TRANSITION''"
| "outcome_name MIGRATION_BINDING = ''MIGRATION_BINDING''"
| "outcome_name CONTAINMENT = ''CONTAINMENT''"
| "outcome_name RECOVERY_QUORUM_CANCEL = ''RECOVERY_QUORUM_CANCEL''"

definition P_CUT :: "outcome \<Rightarrow> string" where
  "P_CUT target = ''P-CUT/'' @ outcome_name target"

definition credential_factors :: "kernel_snapshot \<Rightarrow> nat" where
  "credential_factors pre = (if require_pq (kernel_snapshot.floor pre) then 2 else 1)"

definition live_threshold :: "kernel_snapshot \<Rightarrow> nat" where
  "live_threshold pre = nat (guardian_threshold pre)"

text \<open>The clock and the balances are masked before a refused action is compared.\<close>

definition masked :: "kernel_snapshot \<Rightarrow> kernel_snapshot" where
  "masked s = s\<lparr>block_timestamp := 0, native_balance := 0, token_balance := 0\<rparr>"

definition possession_digest :: "'k ethers \<Rightarrow> int \<Rightarrow> string \<Rightarrow> int \<Rightarrow> recovery_slot \<Rightarrow> string" where
  "possession_digest E chain_id vault generation r =
     keccak E (abi_encode E
       [ABytes32 (eth_id E ''INCOMING_CREDENTIAL_POSSESSION''), AUint 256 chain_id, AAddress vault,
        AUint 64 generation, AAddress (proposed_signer r), ABytes32 (proposed_pq_key_hash r),
        AAddress (proposed_verifier r), AUint 64 (bound_guardian_generation r), AUint 64 (executable_at r)])"

record 'k observation =
  ob_pre :: kernel_snapshot
  ob_held :: "root set"
  ob_result :: exec_outcome
  ob_post :: kernel_snapshot
  ob_ctx :: "'k ctx"
  ob_prng :: "32 word"

text \<open>The properties judged at the end of a step, in the order the code pushes them.\<close>

definition cut_violations :: "kernel_snapshot \<Rightarrow> kernel_snapshot \<Rightarrow> root set \<Rightarrow> string list" where
  "cut_violations pre post charged =
     map P_CUT (filter (\<lambda>target. \<not> entitled (judge_cut charged target (credential_factors pre) (live_threshold pre)))
       (detect_outcomes pre post))"

definition step_violations ::
  "(kernel_snapshot \<Rightarrow> string) \<Rightarrow> action_kind \<Rightarrow> 'k observation \<Rightarrow> string list" where
  "step_violations digest kind ob =
     (let pre = ob_pre ob; post = ob_post ob; res = ob_result ob
      in cut_violations pre post (ex_attributed res) @
         (if ex_ok res \<and> ex_used_stale res then [''P-INCOMING-POSSESSION''] else []) @
         (if c_policy_kind (ob_ctx ob) = PolDeny \<and> kind = SPEND \<and> ASSET_MOVEMENT \<in> set (detect_outcomes pre post) \<and>
             native_balance post < native_balance pre
          then [''P-PLANE-SUBTRACTIVE''] else []) @
         (if ex_model_violation res \<noteq> None then [''P-MODEL''] else []) @
         (if \<not> ex_ok res \<and> kind \<noteq> ADVANCE_TIME \<and> kind \<noteq> FUND \<and> digest (masked pre) \<noteq> digest (masked post)
          then [''P-ATOMICITY''] else []))"

definition SAFE_STATE_NAMES :: "string list" where
  "SAFE_STATE_NAMES = [''NORMAL'', ''CONTAINED'', ''RECOVERY_ONLY'', ''MIGRATION_ONLY'', ''RETIRED'']"

definition state_name :: "nat \<Rightarrow> string" where
  "state_name i = (if i < length SAFE_STATE_NAMES then SAFE_STATE_NAMES ! i else ''?'')"

record step_record =
  s_step :: nat
  s_kind :: action_kind
  s_caller :: string
  s_caller_roots :: "root set"
  s_params :: params
  s_ok :: bool
  s_revert :: "revert option"
  s_outcomes :: "outcome list"
  s_pre_digest :: string
  s_post_digest :: string
  s_pre_state :: string
  s_post_state :: string

text \<open>The variables of the loop of \<open>runPlan\<close>. The counters' objects are functions, absent keys being 0.\<close>

record 'k run_state =
  st_ctx :: "'k ctx"
  st_prng :: "32 word"
  st_prev :: "kernel_snapshot option"
  st_rolling :: "containment_episode list option"
  st_steps :: "step_record list"
  st_violations :: "property_violation list"
  st_successful :: nat
  st_outcomes :: "outcome \<Rightarrow> nat"
  st_reverts :: "revert \<Rightarrow> nat"
  st_coverage :: "action_kind \<Rightarrow> nat"
  st_lifecycle :: "lifecycle_seam \<Rightarrow> nat"

definition counted :: "'a list \<Rightarrow> ('a \<Rightarrow> nat) \<Rightarrow> 'a \<Rightarrow> nat" where
  "counted xs f = fold (\<lambda>x f. f(x := f x + 1)) xs f"

text \<open>Some episode was consumed; the map's keys are the ids given out.\<close>

definition had_successful_recovery :: "abstract_state \<Rightarrow> bool" where
  "had_successful_recovery s =
     list_ex (\<lambda>i. case episodes s i of None \<Rightarrow> False | Some ev \<Rightarrow> ev_state ev = CONSUMED) [1..<next_episode_id s]"

text \<open>What stays the same during a run.\<close>

record 'k run_config =
  rc_ethers :: "'k ethers"
  rc_digest :: "kernel_snapshot \<Rightarrow> string"
  rc_profile :: profile
  rc_collect :: bool

text \<open>\<open>byName.get(name)\<close>: the last actor of a name, or the all-material one.\<close>

definition actor_for :: "profile \<Rightarrow> string \<Rightarrow> string \<Rightarrow> actor" where
  "actor_for prof world_label nm =
     (case find (\<lambda>a. actor_name a = nm) (rev (prof_actors prof)) of
        Some a \<Rightarrow> materialise_actor a world_label
      | None \<Rightarrow> materialise_actor ALL_MATERIAL_ACTOR world_label)"

definition observe ::
  "'k run_config \<Rightarrow> kernel_snapshot \<Rightarrow> step_answers \<Rightarrow> nat \<Rightarrow> generated_action \<Rightarrow> 'k run_state \<Rightarrow> 'k observation" where
  "observe rc first ans i act st =
     (let E = rc_ethers rc; ctx = (st_ctx st)\<lparr>c_step := i\<rparr>;
          a = actor_for (rc_profile rc) (o_label (w_opts (c_world ctx))) (a_actor_name act);
          pre = option_or (st_prev st) first;
          (res, ctx', s) = execute_action E (sa_chain ans) act a ctx (st_prng st)
      in \<lparr>ob_pre = pre, ob_held = roots_now E a ctx, ob_result = res, ob_post = sa_post ans, ob_ctx = ctx', ob_prng = s\<rparr>)"

definition step_bad ::
  "'k run_config \<Rightarrow> kernel_snapshot option \<Rightarrow> containment_episode list option \<Rightarrow> string \<Rightarrow> action_kind \<Rightarrow>
   'k observation \<Rightarrow> string list" where
  "step_bad rc prev rolling recovery_digest kind ob =
     (let w = c_world (ob_ctx ob)
      in step_violations (rc_digest rc) kind ob @ fst (check_globals (ob_post ob) prev rolling) @
         check_recovery_commitment (possession_digest (rc_ethers rc)) (w_chain_id w) (w_vault_address w)
           recovery_digest (ob_post ob))"

definition run_step ::
  "'k run_config \<Rightarrow> kernel_snapshot \<Rightarrow> step_answers \<Rightarrow> nat \<Rightarrow> generated_action \<Rightarrow> 'k run_state \<Rightarrow> 'k run_state" where
  "run_step rc first ans i act st =
     (let ob = observe rc first ans i act st; ctx = ob_ctx ob; res = ob_result ob; pre = ob_pre ob; post = ob_post ob;
          w = c_world ctx;
          outs = detect_outcomes pre post;
          seams = lifecycle_seams_hit (a_kind act) (ex_ok res) (ex_revert res) pre
                    (had_successful_recovery (c_abstract ctx));
          bad = step_bad rc (st_prev st) (st_rolling st) (sa_recovery_digest ans) (a_kind act) ob;
          record =
            \<lparr>s_step = i, s_kind = a_kind act,
             s_caller = actor_name (actor_for (rc_profile rc) (o_label (w_opts w)) (a_actor_name act)),
             s_caller_roots = ob_held ob, s_params = a_params act, s_ok = ex_ok res, s_revert = ex_revert res,
             s_outcomes = outs, s_pre_digest = rc_digest rc pre, s_post_digest = rc_digest rc post,
             s_pre_state = state_name (safe_state_effective pre), s_post_state = state_name (safe_state_effective post)\<rparr>
      in st\<lparr>st_ctx := ctx, st_prng := ob_prng ob, st_prev := Some post, st_rolling := Some (snd (check_globals post (st_prev st) (st_rolling st))),
            st_steps := st_steps st @ (if rc_collect rc then [record] else []),
            st_violations := st_violations st @ map (\<lambda>p. \<lparr>v_property = p, v_step = int i\<rparr>) bad,
            st_successful := st_successful st + (if ex_ok res then 1 else 0),
            st_outcomes := counted outs (st_outcomes st),
            st_reverts := counted (case ex_revert res of None \<Rightarrow> [] | Some why \<Rightarrow> [why]) (st_reverts st),
            st_coverage := counted [a_kind act] (st_coverage st),
            st_lifecycle := counted seams (st_lifecycle st)\<rparr>)"

section \<open>A run\<close>

definition initial_run :: "'k ctx \<Rightarrow> int \<Rightarrow> 'k run_state" where
  "initial_run ctx seed =
     \<lparr>st_ctx = ctx, st_prng = make_prng seed XOR 0x5f3759df, st_prev = None, st_rolling = None, st_steps = [],
      st_violations = [], st_successful = 0, st_outcomes = (\<lambda>_. 0), st_reverts = (\<lambda>_. 0),
      st_coverage = (\<lambda>_. 0), st_lifecycle = (\<lambda>_. 0)\<rparr>"

text \<open>The loop over the rest of a plan, from step \<open>i\<close>; \<open>answers i\<close> is what the chain says at step \<open>i\<close>.\<close>

fun run_steps ::
  "'k run_config \<Rightarrow> kernel_snapshot \<Rightarrow> (nat \<Rightarrow> step_answers) \<Rightarrow> nat \<Rightarrow> generated_action list \<Rightarrow> 'k run_state \<Rightarrow> 'k run_state" where
  "run_steps rc first answers i [] st = st"
| "run_steps rc first answers i (act # plan) st =
     run_steps rc first answers (Suc i) plan (run_step rc first (answers i) i act st)"

definition run_plan ::
  "'k run_config \<Rightarrow> 'k world \<Rightarrow> kernel_snapshot \<Rightarrow> (nat \<Rightarrow> step_answers) \<Rightarrow> generated_action list \<Rightarrow> int \<Rightarrow>
   'k run_state option" where
  "run_plan rc w first answers plan seed =
     (case fresh_ctx (rc_ethers rc) w (fabricate_commitments (rc_profile rc)) of
        None \<Rightarrow> None
      | Some ctx \<Rightarrow> Some (run_steps rc first answers 0 plan (initial_run ctx seed)))"

section \<open>Shrinking\<close>

definition without_nth :: "nat \<Rightarrow> 'a list \<Rightarrow> 'a list" where
  "without_nth i xs = take i xs @ drop (Suc i) xs"

text \<open>
  One scan over the actions of \<open>best\<close>: the first removal that still reproduces, and the number of
  attempts made so far.
\<close>

function shrink_scan :: "('a list \<Rightarrow> bool) \<Rightarrow> nat \<Rightarrow> 'a list \<Rightarrow> nat \<Rightarrow> nat \<Rightarrow> 'a list option \<times> nat" where
  "shrink_scan reproduces max_attempts best i attempts =
     (if i < length best \<and> attempts < max_attempts
      then if reproduces (without_nth i best) then (Some (without_nth i best), attempts + 1)
           else shrink_scan reproduces max_attempts best (i + 1) (attempts + 1)
      else (None, attempts))"
  by auto
termination by (relation "measure (\<lambda>(r, m, best, i, n). length best - i)") auto

declare shrink_scan.simps [simp del]

lemma shrink_scan_spec:
  assumes "shrink_scan R m best i n = (res, n')"
  shows "(case res of
      None \<Rightarrow> n' < m \<longrightarrow> (\<forall>j. i \<le> j \<and> j < length best \<longrightarrow> \<not> R (without_nth j best))
    | Some c \<Rightarrow> R c \<and> (\<exists>j < length best. c = without_nth j best)) \<and> n \<le> n' \<and> (n \<le> m \<longrightarrow> n' \<le> m)"
  using assms
proof (induction R m best i n rule: shrink_scan.induct)
  case (1 R m best i n)
  show ?case
  proof (cases "i < length best \<and> n < m \<and> \<not> R (without_nth i best)")
    case True
    then have IH: "(case res of
        None \<Rightarrow> n' < m \<longrightarrow> (\<forall>j. i + 1 \<le> j \<and> j < length best \<longrightarrow> \<not> R (without_nth j best))
      | Some c \<Rightarrow> R c \<and> (\<exists>j < length best. c = without_nth j best)) \<and> n + 1 \<le> n' \<and> (n + 1 \<le> m \<longrightarrow> n' \<le> m)"
      using "1.IH" "1.prems" by (simp add: shrink_scan.simps [of R m best i])
    have "\<not> R (without_nth j best)" if "i \<le> j" "j < length best" "res = None" "n' < m" for j
      using IH True that by (cases "i = j") auto
    then show ?thesis using IH True by (cases res) auto
  next
    case False
    then show ?thesis using "1.prems" by (auto simp: shrink_scan.simps [of R m best i] split: if_splits)
  qed
qed

lemma without_nth_length: "i < length xs \<Longrightarrow> length (without_nth i xs) < length xs"
  by (simp add: without_nth_def)

function shrink_loop :: "('a list \<Rightarrow> bool) \<Rightarrow> nat \<Rightarrow> 'a list \<Rightarrow> nat \<Rightarrow> 'a list \<times> nat" where
  "shrink_loop reproduces max_attempts best attempts =
     (if attempts < max_attempts
      then (case shrink_scan reproduces max_attempts best 0 attempts of
              (Some candidate, n) \<Rightarrow> shrink_loop reproduces max_attempts candidate n
            | (None, n) \<Rightarrow> (best, n))
      else (best, attempts))"
  by auto
termination
proof (relation "measure (\<lambda>(r, m, best, n). length best)", goal_cases)
  case (2 R m best n x y c)
  then show ?case using shrink_scan_spec [of R m best 0 n "Some c" y] without_nth_length by auto
qed simp

declare shrink_loop.simps [simp del]

definition shrink :: "('a list \<Rightarrow> bool) \<Rightarrow> 'a list \<Rightarrow> nat \<Rightarrow> nat \<Rightarrow> 'a list \<times> nat" where
  "shrink reproduces plan first_violation_step max_attempts =
     (let truncated = take (min (length plan) (first_violation_step + 1)) plan
      in if length truncated < length plan
         then if reproduces truncated then shrink_loop reproduces max_attempts truncated 1
              else shrink_loop reproduces max_attempts plan 1
         else shrink_loop reproduces max_attempts plan 0)"

lemma without_nth_subseq: "subseq (without_nth i xs) xs"
proof -
  have "subseq (take i xs @ drop (Suc i) xs) (take i xs @ drop i xs)"
    by (intro list_emb_append_mono subseq_order.refl) (metis drop_Suc suffix_drop suffix_imp_subseq drop_drop add.commute plus_1_eq_Suc)
  then show ?thesis by (simp add: without_nth_def)
qed

definition minimal :: "('a list \<Rightarrow> bool) \<Rightarrow> 'a list \<Rightarrow> bool" where
  "minimal R xs \<longleftrightarrow> (\<forall>i < length xs. \<not> R (without_nth i xs))"

lemma shrink_loop_spec:
  assumes "shrink_loop R m best n = (res, n')"
  shows "subseq res best \<and> (res = best \<or> R res) \<and> (n' < m \<longrightarrow> minimal R res) \<and> (n \<le> m \<longrightarrow> n' \<le> m)"
  using assms
proof (induction R m best n rule: shrink_loop.induct)
  case (1 R m best n)
  obtain r k where s: "shrink_scan R m best 0 n = (r, k)" by (cases "shrink_scan R m best 0 n")
  note spec = shrink_scan_spec [OF s]
  show ?case
  proof (cases "n < m")
    case False
    then show ?thesis using "1.prems" by (simp add: shrink_loop.simps [of R m best n])
  next
    case True
    show ?thesis
    proof (cases r)
      case None
      then show ?thesis using "1.prems" True s spec by (auto simp: shrink_loop.simps [of R m best n] minimal_def)
    next
      case (Some c)
      have e: "shrink_loop R m c k = (res, n')" using "1.prems" True s Some by (simp add: shrink_loop.simps [of R m best n])
      have IH: "subseq res c \<and> (res = c \<or> R res) \<and> (n' < m \<longrightarrow> minimal R res) \<and> (k \<le> m \<longrightarrow> n' \<le> m)"
        using "1.IH" [OF True s [symmetric] Some] e by blast
      have "subseq c best" "R c" "k \<le> m" using spec Some True without_nth_subseq by auto
      then show ?thesis using IH subseq_order.trans by blast
    qed
  qed
qed

section \<open>Positive controls\<close>

record control =
  k_name :: string
  k_plan :: "generated_action list"
  k_expect :: outcome
  k_needs_live_verifier :: bool

definition honest_action :: "action_kind \<Rightarrow> params \<Rightarrow> generated_action" where
  "honest_action kind ps = \<lparr>a_kind = kind, a_actor_name = actor_name ALL_MATERIAL_ACTOR, a_params = ps\<rparr>"

definition honest_quorum :: params where
  "honest_quorum = no_params\<lparr>p_quorum_shape := Some Honest\<rparr>"

definition honest_proposal :: params where
  "honest_proposal = honest_quorum\<lparr>p_target := Some 1, p_verifier := Some VHonest\<rparr>"

definition CONTROLS :: "control list" where
  "CONTROLS =
     [\<lparr>k_name = ''honest spend moves value'',
       k_plan = [honest_action SPEND (no_params\<lparr>p_eth := Some ''1''\<rparr>)],
       k_expect = ASSET_MOVEMENT, k_needs_live_verifier = True\<rparr>,
      \<lparr>k_name = ''honest rotation replaces the credential'',
       k_plan = [honest_action ROTATE_CREDENTIAL (no_params\<lparr>p_target := Some 0\<rparr>)],
       k_expect = CREDENTIAL_REPLACEMENT, k_needs_live_verifier = True\<rparr>,
      \<lparr>k_name = ''honest quorum enters containment'',
       k_plan = [honest_action ENTER_CONTAINMENT honest_quorum],
       k_expect = CONTAINMENT, k_needs_live_verifier = False\<rparr>,
      \<lparr>k_name = ''honest quorum recovers end-to-end and the NEW credential can spend (R6 / verifier escape)'',
       k_plan =
         [honest_action INITIATE_RECOVERY honest_proposal,
          honest_action ADVANCE_TIME (no_params\<lparr>p_seconds := Some (7 * 86400 + 1)\<rparr>),
          honest_action EXECUTE_RECOVERY no_params,
          honest_action SPEND (no_params\<lparr>p_eth := Some ''1''\<rparr>)],
       k_expect = ASSET_MOVEMENT, k_needs_live_verifier = False\<rparr>,
      \<lparr>k_name = ''honest quorum plus credential binds a migration'',
       k_plan = [honest_action BIND_MIGRATION honest_quorum],
       k_expect = MIGRATION_BINDING, k_needs_live_verifier = True\<rparr>,
      \<lparr>k_name = ''honest quorum cancels a live recovery (K-9 mechanism B)'',
       k_plan =
         [honest_action INITIATE_RECOVERY honest_proposal,
          honest_action CANCEL_RECOVERY_BY_QUORUM honest_quorum],
       k_expect = RECOVERY_QUORUM_CANCEL, k_needs_live_verifier = False\<rparr>]"

definition honest_profile :: profile where
  "honest_profile = plain_profile ''positive-control'' [ALL_MATERIAL_ACTOR] [1] Map.empty"

record control_tally =
  t_attempted :: nat
  t_passed :: nat
  t_failures :: "string list"
  t_skipped :: "string list"

definition no_controls :: control_tally where
  "no_controls = \<lparr>t_attempted = 0, t_passed = 0, t_failures = [], t_skipped = []\<rparr>"

definition credential_path_dead :: "'k world \<Rightarrow> bool" where
  "credential_path_dead w \<longleftrightarrow> o_verifier (w_opts w) = VReverting \<or> o_verifier (w_opts w) = VAlwaysFalse"

text \<open>
  \<open>chain_of plan\<close>: the state before the first step and the answers of the chain when \<open>plan\<close> is run on
  the restored fixture.
\<close>

type_synonym chain_model = "generated_action list \<Rightarrow> kernel_snapshot \<times> (nat \<Rightarrow> step_answers)"

definition saw_outcome :: "outcome \<Rightarrow> step_record list \<Rightarrow> bool" where
  "saw_outcome target steps = list_ex (\<lambda>s. target \<in> set (s_outcomes s)) steps"

definition run_control ::
  "'k ethers \<Rightarrow> (kernel_snapshot \<Rightarrow> string) \<Rightarrow> 'k world \<Rightarrow> chain_model \<Rightarrow> control_tally \<Rightarrow> control \<Rightarrow> control_tally option" where
  "run_control E digest w chain_of t c =
     (if k_needs_live_verifier c \<and> credential_path_dead w
      then Some (t\<lparr>t_skipped := t_skipped t @ [k_name c]\<rparr>)
      else (case run_plan \<lparr>rc_ethers = E, rc_digest = digest, rc_profile = honest_profile, rc_collect = True\<rparr> w
                   (fst (chain_of (k_plan c))) (snd (chain_of (k_plan c))) (k_plan c) 1 of
              None \<Rightarrow> None
            | Some st \<Rightarrow>
                let t = t\<lparr>t_attempted := t_attempted t + 1\<rparr>
                in Some (if saw_outcome (k_expect c) (st_steps st)
                         then t\<lparr>t_passed := t_passed t + 1\<rparr>
                         else t\<lparr>t_failures := t_failures t @ [k_name c]\<rparr>)))"

fun run_controls ::
  "'k ethers \<Rightarrow> (kernel_snapshot \<Rightarrow> string) \<Rightarrow> 'k world \<Rightarrow> chain_model \<Rightarrow> control list \<Rightarrow> control_tally \<Rightarrow> control_tally option" where
  "run_controls E digest w chain_of [] t = Some t"
| "run_controls E digest w chain_of (c # cs) t =
     (case run_control E digest w chain_of t c of None \<Rightarrow> None | Some t \<Rightarrow> run_controls E digest w chain_of cs t)"

section \<open>The campaign\<close>

text \<open>The ledger of sustained defects: the identifier, and the property it explains.\<close>

record sustained_defect =
  sd_id :: string
  sd_property :: "string option"

definition SUSTAINED_DEFECTS :: "sustained_defect list" where
  "SUSTAINED_DEFECTS =
     [\<lparr>sd_id = ''SD-8-genesis-exhibit-cannot-prove-well-formedness'', sd_property = None\<rparr>,
      \<lparr>sd_id = ''SD-4-ecdsa-only-shape-declaration-is-uncounted'',
       sd_property = Some ''G-DECLARATION-SUBORDINATE-TO-RECOVERY''\<rparr>]"

definition KNOWN_DEFECT_PROPERTIES :: "string list" where
  "KNOWN_DEFECT_PROPERTIES = concat (map (\<lambda>d. case sd_property d of None \<Rightarrow> [] | Some p \<Rightarrow> [p]) SUSTAINED_DEFECTS)"

definition explains :: "string \<Rightarrow> sustained_defect option" where
  "explains property = find (\<lambda>d. sd_property d = Some property) SUSTAINED_DEFECTS"

datatype campaign_error = UnknownProfile string | PlanFailed prng_error | UnknownSeat

record campaign_result =
  cr_profile :: string
  cr_steps :: "step_record list"
  cr_violations :: "property_violation list"
  cr_known_defect_hits :: "(property_violation \<times> string) list"
  cr_controls :: control_tally
  cr_minimal :: "generated_action list option"

definition find_profile :: "string \<Rightarrow> campaign_error + profile" where
  "find_profile nm = (case find (\<lambda>p. prof_name p = nm) PROFILES of None \<Rightarrow> Inl (UnknownProfile nm) | Some p \<Rightarrow> Inr p)"

definition campaign_options :: "profile \<Rightarrow> string \<Rightarrow> world_options" where
  "campaign_options prof label =
     \<lparr>o_verifier = option_or (prof_verifier prof) VHonest, o_threshold = 2, o_label = label,
      o_ecdsa_only_floor = ecdsa_only_floor prof, o_commit_pq_key = commit_pq_key_on_ecdsa_only_floor prof\<rparr>"

definition or_error :: "'e \<Rightarrow> 'a option \<Rightarrow> 'e + 'a" where
  "or_error e x = (case x of None \<Rightarrow> Inl e | Some v \<Rightarrow> Inr v)"

definition violates :: "string \<Rightarrow> 'k run_state option \<Rightarrow> bool" where
  "violates property st =
     (case st of None \<Rightarrow> False | Some st \<Rightarrow> list_ex (\<lambda>v. v_property v = property) (st_violations st))"

definition shrunk ::
  "(generated_action list \<Rightarrow> 'k run_state option) \<Rightarrow> generated_action list \<Rightarrow> property_violation list \<Rightarrow>
   generated_action list option" where
  "shrunk run plan vs =
     (case vs of [] \<Rightarrow> None
      | v # _ \<Rightarrow> Some (fst (shrink (\<lambda>candidate. violates (v_property v) (run candidate)) plan (nat (v_step v)) 120)))"

definition run_campaign ::
  "'k ethers \<Rightarrow> (kernel_snapshot \<Rightarrow> string) \<Rightarrow> deployment \<Rightarrow> chain_model \<Rightarrow> bool \<Rightarrow> string \<Rightarrow> int \<Rightarrow> nat \<Rightarrow> string \<Rightarrow>
   campaign_error + campaign_result" where
  "run_campaign E digest dp chain_of impl_override profile_name seed depth label =
     bindE (find_profile profile_name) (\<lambda>prof.
     let w = world_of E (campaign_options prof label) dp;
         run = (\<lambda>collect plan. run_plan \<lparr>rc_ethers = E, rc_digest = digest, rc_profile = prof, rc_collect = collect\<rparr> w
                  (fst (chain_of plan)) (snd (chain_of plan)) plan seed)
     in bindE (case generate_plan prof seed depth of Inl e \<Rightarrow> Inl (PlanFailed e) | Inr plan \<Rightarrow> Inr plan) (\<lambda>plan.
        bindE (or_error UnknownSeat (run True plan)) (\<lambda>st.
        bindE (or_error UnknownSeat
                 (if impl_override then Some no_controls else run_controls E digest w chain_of CONTROLS no_controls)) (\<lambda>t.
        let vs = st_violations st @ map (\<lambda>f. \<lparr>v_property = ''P-VACUITY'', v_step = -1\<rparr>) (t_failures t)
        in Inr \<lparr>cr_profile = profile_name, cr_steps = st_steps st,
                cr_violations = filter (\<lambda>v. v_property v \<notin> set KNOWN_DEFECT_PROPERTIES) vs,
                cr_known_defect_hits =
                  map (\<lambda>v. (v, case explains (v_property v) of Some d \<Rightarrow> sd_id d | None \<Rightarrow> ''unknown''))
                    (filter (\<lambda>v. v_property v \<in> set KNOWN_DEFECT_PROPERTIES) vs),
                cr_controls = t,
                cr_minimal = shrunk (run False) plan (st_violations st)\<rparr>))))"

section \<open>Where violations come from\<close>

lemma run_steps_append:
  "run_steps rc first ans i (xs @ ys) st =
    run_steps rc first ans (i + length xs) ys (run_steps rc first ans i xs st)"
  by (induction xs arbitrary: i st) simp_all

text \<open>What is reported at step \<open>j\<close> of a plan that starts at step \<open>i\<close> in \<open>st\<close>.\<close>

definition reported_at ::
  "'k run_config \<Rightarrow> kernel_snapshot \<Rightarrow> (nat \<Rightarrow> step_answers) \<Rightarrow> nat \<Rightarrow> generated_action list \<Rightarrow> 'k run_state \<Rightarrow> nat \<Rightarrow>
   string list" where
  "reported_at rc first ans i plan st j =
     (let st = run_steps rc first ans i (take j plan) st
      in step_bad rc (st_prev st) (st_rolling st) (sa_recovery_digest (ans (i + j))) (a_kind (plan ! j))
           (observe rc first (ans (i + j)) (i + j) (plan ! j) st))"

lemma run_step_violations:
  "st_violations (run_step rc first ans i act st) =
    st_violations st @ map (\<lambda>p. \<lparr>v_property = p, v_step = int i\<rparr>)
      (step_bad rc (st_prev st) (st_rolling st) (sa_recovery_digest ans) (a_kind act) (observe rc first ans i act st))"
  by (simp add: run_step_def Let_def)

lemma run_steps_violations:
  "set (st_violations (run_steps rc first ans i plan st)) =
    set (st_violations st) \<union>
    (\<Union>j < length plan. (\<lambda>p. \<lparr>v_property = p, v_step = int (i + j)\<rparr>) ` set (reported_at rc first ans i plan st j))"
proof (induction plan arbitrary: i st)
  case Nil
  then show ?case by simp
next
  case (Cons act plan)
  let ?st = "run_step rc first (ans i) i act st"
  have shift: "reported_at rc first ans i (act # plan) st (Suc j) = reported_at rc first ans (Suc i) plan ?st j" for j
    by (simp add: reported_at_def)
  have zero: "reported_at rc first ans i (act # plan) st 0 =
      step_bad rc (st_prev st) (st_rolling st) (sa_recovery_digest (ans i)) (a_kind act) (observe rc first (ans i) i act st)"
    by (simp add: reported_at_def)
  show ?case
    by (simp add: Cons.IH run_step_violations lessThan_Suc_eq_insert_0 zero [symmetric] shift Un_assoc add.left_commute)
qed

text \<open>The names of the properties.\<close>

lemma outcome_name_inject [simp]: "outcome_name t = outcome_name u \<longleftrightarrow> t = u"
  by (cases t; cases u) simp_all

lemma P_CUT_inject [simp]: "P_CUT t = P_CUT u \<longleftrightarrow> t = u"
  by (simp add: P_CUT_def)

lemma violated_names: "n \<in> set (violated invs s prev) \<Longrightarrow> n \<in> fst ` set invs"
  by (auto simp: violated_def)

lemma check_globals_names:
  assumes "n \<in> set (fst (check_globals s prev existing))"
  shows "\<exists>rest. n = CHR ''G'' # rest"
proof -
  have "n \<in> fst ` set (invariants_before @ (''G-CONTAINMENT-ROLLING-BUDGET'', g_signer_nonzero) # invariants_after)"
    using assms by (auto simp: check_globals_def Let_def dest!: violated_names split: if_splits)
  then show ?thesis by (auto simp: invariants_before_def invariants_after_def)
qed

lemma cut_in_step:
  "P_CUT t \<in> set (step_bad rc prev rolling d kind ob) \<longleftrightarrow>
    t \<in> set (detect_outcomes (ob_pre ob) (ob_post ob)) \<and>
    \<not> entitled (judge_cut (ex_attributed (ob_result ob)) t (credential_factors (ob_pre ob)) (live_threshold (ob_pre ob)))"
proof -
  have "P_CUT t \<notin> set (fst (check_globals (ob_post ob) prev rolling))"
    using check_globals_names by (fastforce simp: P_CUT_def)
  moreover have "P_CUT t \<notin> set (check_recovery_commitment f c v d s)" for f c v d s
    by (simp add: check_recovery_commitment_def P_CUT_def)
  ultimately have "P_CUT t \<in> set (step_bad rc prev rolling d kind ob) \<longleftrightarrow>
      P_CUT t \<in> set (cut_violations (ob_pre ob) (ob_post ob) (ex_attributed (ob_result ob)))"
    by (auto simp: step_bad_def step_violations_def Let_def P_CUT_def split: if_splits)
  then show ?thesis by (auto simp: cut_violations_def)
qed

section \<open>Invariants of a run\<close>

context action_invariant
begin

lemma run_step_keeps:
  assumes "I (st_ctx st)" and "rc_ethers rc = E"
  shows "I (st_ctx (run_step rc first ans i act st))"
proof -
  have "I ((st_ctx st)\<lparr>c_step := i\<rparr>)" by (rule stepping [OF assms(1)])
  then have "I (ob_ctx (observe rc first ans i act st))"
    by (auto simp: observe_def Let_def assms(2) split: prod.splits intro: execute_action_keeps)
  then show ?thesis by (simp add: run_step_def Let_def)
qed

lemma run_steps_keep:
  "I (st_ctx st) \<Longrightarrow> rc_ethers rc = E \<Longrightarrow> I (st_ctx (run_steps rc first ans i plan st))"
  by (induction plan arbitrary: i st) (simp_all add: run_step_keeps)

end

end
