(* ===== verification/Campaign_Laws.thy ===== *)
theory Campaign_Laws
  imports Campaign_Run
begin

text \<open>
  What the campaign engine guarantees: which outcomes it reports and which it lets pass, that its
  bookkeeping names the installed keys throughout a run, what shrinking returns, what a campaign
  without violations has shown, and where the attribution of a relayed call goes wrong.
\<close>

section \<open>Runs\<close>

lemma run_plan_fresh:
  assumes "run_plan rc w first answers plan seed = Some st"
  obtains ctx where "fresh_ctx (rc_ethers rc) w (fabricate_commitments (rc_profile rc)) = Some ctx"
    and "st = run_steps rc first answers 0 plan (initial_run ctx seed)"
  using assms by (auto simp: run_plan_def split: option.splits)

lemma run_plan_reports:
  assumes "run_plan rc w first answers plan seed = Some st"
    and "run_plan rc w first answers (take i plan) seed = Some before" and "i < length plan"
  shows "\<lparr>v_property = p, v_step = int i\<rparr> \<in> set (st_violations st) \<longleftrightarrow>
    p \<in> set (step_bad rc (st_prev before) (st_rolling before) (sa_recovery_digest (answers i)) (a_kind (plan ! i))
      (observe rc first (answers i) i (plan ! i) before))"
proof -
  obtain ctx where ctx: "fresh_ctx (rc_ethers rc) w (fabricate_commitments (rc_profile rc)) = Some ctx"
    and st: "st = run_steps rc first answers 0 plan (initial_run ctx seed)"
    by (rule run_plan_fresh [OF assms(1)])
  have before: "before = run_steps rc first answers 0 (take i plan) (initial_run ctx seed)"
    using assms(2) ctx by (simp add: run_plan_def)
  have "st_violations (initial_run ctx seed) = []" by (simp add: initial_run_def)
  then show ?thesis
    using assms(3) unfolding st before run_steps_violations by (auto simp: reported_at_def Let_def)
qed

text \<open>The step a run makes after its first \<open>i\<close> actions.\<close>

definition observed ::
  "'k run_config \<Rightarrow> 'k world \<Rightarrow> kernel_snapshot \<Rightarrow> (nat \<Rightarrow> step_answers) \<Rightarrow> generated_action list \<Rightarrow> int \<Rightarrow> nat \<Rightarrow>
   'k observation option" where
  "observed rc w first answers plan seed i =
     map_option (observe rc first (answers i) i (plan ! i)) (run_plan rc w first answers (take i plan) seed)"

lemma observed_cases:
  assumes "observed rc w first answers plan seed i = Some ob"
  obtains before where "run_plan rc w first answers (take i plan) seed = Some before"
    and "ob = observe rc first (answers i) i (plan ! i) before"
  using assms by (auto simp: observed_def)

definition charged_in_full :: "'k observation \<Rightarrow> outcome \<Rightarrow> bool" where
  "charged_in_full ob t \<longleftrightarrow>
     entitled (judge_cut (ex_attributed (ob_result ob)) t (credential_factors (ob_pre ob)) (live_threshold (ob_pre ob)))"

lemma cut_reported:
  assumes "run_plan rc w first answers plan seed = Some st" and "i < length plan"
    and "observed rc w first answers plan seed i = Some ob"
  shows "\<lparr>v_property = P_CUT t, v_step = int i\<rparr> \<in> set (st_violations st) \<longleftrightarrow>
    t \<in> set (detect_outcomes (ob_pre ob) (ob_post ob)) \<and> \<not> charged_in_full ob t"
proof -
  obtain before where b: "run_plan rc w first answers (take i plan) seed = Some before"
    "ob = observe rc first (answers i) i (plan ! i) before" by (rule observed_cases [OF assms(3)])
  show ?thesis
    unfolding run_plan_reports [OF assms(1) b(1) assms(2)] b(2) [symmetric] charged_in_full_def by (rule cut_in_step)
qed

section \<open>Bookkeeping of a run\<close>

lemma seat_labels_of_keys:
  "addresses_distinct E \<Longrightarrow> seat_labels_of E label ks = Some ls \<Longrightarrow> set ks \<subseteq> range (key_of E) \<Longrightarrow>
    ks = map (key_of E) ls"
proof (induction ks arbitrary: ls)
  case Nil
  then show ?case by simp
next
  case (Cons k ks)
  obtain l ls' where l: "seat_label E label k = Some l" "seat_labels_of E label ks = Some ls'" "ls = l # ls'"
    using Cons.prems(2) by (auto split: option.splits)
  have "addr_of E (key_of E l) = addr_of E k" using find_Some_set [OF l(1) [unfolded seat_label_def]] by blast
  then have "key_of E l = k" using Cons.prems(1,3) unfolding addresses_distinct_def by auto
  then show ?case using Cons.IH [OF Cons.prems(1) l(2)] Cons.prems(3) l(3) by simp
qed

lemma world_of_simps [simp]:
  "w_opts (world_of E opts dp) = opts"
  "w_cred_key (world_of E opts dp) = key_of E (o_label opts @ ''-cred'')"
  "w_pq_key (world_of E opts dp) = key_of E (o_label opts @ ''-pq'')"
  "w_g_keys (world_of E opts dp) = ascending E (map (\<lambda>i. key_of E (numbered (o_label opts @ ''-guardian-'') i)) [0, 1, 2])"
  "world_named E (world_of E opts dp)"
  by (simp_all add: world_of_def Let_def world_named_def)

lemma fresh_ctx_keys_named:
  assumes "addresses_distinct E" and "fresh_ctx E (world_of E opts dp) b = Some ctx"
  shows "keys_named E ctx"
proof -
  let ?w = "world_of E opts dp"
  obtain ls where ls: "seat_labels E ?w = Some ls" using assms(2) by (auto simp: fresh_ctx_def Let_def split: option.splits)
  have "w_g_keys ?w = map (key_of E) ls"
    by (rule seat_labels_of_keys [OF assms(1) ls [unfolded seat_labels_def]]) (auto simp: ascending_def)
  moreover have "length (w_g_keys ?w) = 3"
    by (simp only: world_of_simps ascending_def length_sort length_map) simp
  ultimately show ?thesis using assms(2) ls
    by (auto simp: fresh_ctx_def Let_def keys_named_def labels_ok_def simp del: world_of_simps(4))
qed

lemma fresh_ctx_model_inv: "fresh_ctx E w b = Some ctx \<Longrightarrow> model_inv (c_abstract ctx)"
  by (auto simp: fresh_ctx_def Let_def fresh_inv split: option.splits)

section \<open>Positive controls\<close>

definition tally_ok :: "'k world \<Rightarrow> nat \<Rightarrow> control_tally \<Rightarrow> bool" where
  "tally_ok w n t \<longleftrightarrow>
     t_attempted t + length (t_skipped t) = n \<and> t_passed t + length (t_failures t) = t_attempted t \<and>
     (t_skipped t \<noteq> [] \<longrightarrow> credential_path_dead w)"

lemma run_control_tally:
  assumes "run_control E digest w chain_of t c = Some t'" and "tally_ok w n t"
  shows "tally_ok w (Suc n) t'"
  using assms by (auto simp: run_control_def tally_ok_def Let_def split: if_splits option.splits)

lemma run_controls_tally:
  "run_controls E digest w chain_of cs t = Some t' \<Longrightarrow> tally_ok w n t \<Longrightarrow> tally_ok w (n + length cs) t'"
proof (induction cs arbitrary: t n)
  case (Cons c cs)
  then obtain u where u: "run_control E digest w chain_of t c = Some u" "run_controls E digest w chain_of cs u = Some t'"
    by (auto split: option.splits)
  show ?case using Cons.IH [OF u(2) run_control_tally [OF u(1) Cons.prems(2)]] by simp
qed simp

lemma run_campaign_cases:
  assumes "run_campaign E digest dp chain_of False nm seed depth label = Inr r"
  obtains prof plan st t where "find_profile nm = Inr prof" and "generate_plan prof seed depth = Inr plan"
    and "run_plan \<lparr>rc_ethers = E, rc_digest = digest, rc_profile = prof, rc_collect = True\<rparr>
      (world_of E (campaign_options prof label) dp) (fst (chain_of plan)) (snd (chain_of plan)) plan seed = Some st"
    and "run_controls E digest (world_of E (campaign_options prof label) dp) chain_of CONTROLS no_controls = Some t"
    and "cr_controls r = t"
    and "cr_violations r = filter (\<lambda>v. v_property v \<notin> set KNOWN_DEFECT_PROPERTIES)
      (st_violations st @ map (\<lambda>f. \<lparr>v_property = ''P-VACUITY'', v_step = -1\<rparr>) (t_failures t))"
  using assms
  by (auto simp: run_campaign_def bindE_eq_Inr or_error_def Let_def split: option.splits sum.splits)

section \<open>Properties\<close>

text \<open>A chain for the witnesses: every call is mined and every outcome shows in the state after it.\<close>

definition toy_chain :: chain where
  "toy_chain =
     \<lparr>ch_nonce = (\<lambda>d. Inr 0), ch_credential_generation = Inr 1, ch_guardian_generation = Inr 1,
      ch_floor = Inr HONEST_FLOOR, ch_recovery = Inr (''0x1'', ''0x2'', ''0x3''),
      ch_credential_possession_digest = (\<lambda>a h. Inr ''0x4''), ch_recovery_possession_digest = Inr ''0x5'',
      ch_send = (\<lambda>from c. Mined 1000), ch_fund = (\<lambda>from v. None), ch_guardian_generation_after = Inr 1,
      ch_predict_vault = (\<lambda>g. Inr ''0x6''), ch_deploy_vault = (\<lambda>g b. None)\<rparr>"

definition toy_before :: kernel_snapshot where
  "toy_before = snapshot [''0xaa'']
     \<lparr>rd_safe_state = 0, rd_effective_safe_state = 0, rd_contained_until = 0,
      rd_containment_window_start = 0, rd_containment_used_in_window = 0, rd_ecdsa_signer = ''0x01'',
      rd_pq_public_key_hash = ''0xAA'', rd_credential_generation = 1, rd_security_floor = HONEST_FLOOR,
      rd_pq_verifier = ''0x02'', rd_policy_engine = ZERO, rd_guardian_commitment = ''0xcc'',
      rd_guardian_threshold = 2, rd_guardian_generation = 1,
      rd_recovery = \<lparr>proposed_signer = ''0x03'', proposed_pq_key_hash = ZERO_HASH, proposed_verifier = ''0x02'',
        executable_at = 0, expires_at = 5000, bound_guardian_generation = 0, challenges_used = 0, active = True\<rparr>,
      rd_migration = \<lparr>destination_vault = ZERO, destination_vault_code_hash = ZERO_HASH,
        destination_generation = 0, bound_at = 0, bound = False\<rparr>,
      rd_nonce = (\<lambda>_. 0), rd_code = ''0x60'', rd_block_timestamp = Some 1000, rd_token_balance = 5,
      rd_native_balance = 7\<rparr>"

definition toy_after :: kernel_snapshot where
  "toy_after = toy_before
     \<lparr>native_balance := 6, ecdsa_signer := ''0x09'', safe_state_stored := 1, safe_state_effective := 1,
      contained_until := 9000, recovery := (recovery toy_before)\<lparr>active := False\<rparr>,
      migration := (migration toy_before)\<lparr>destination_vault := ''0x8'', destination_vault_code_hash := ''0x7'', bound := True\<rparr>\<rparr>"

definition toy_answers :: "nat \<Rightarrow> step_answers" where
  "toy_answers i = \<lparr>sa_chain = toy_chain, sa_post = toy_after, sa_recovery_digest = []\<rparr>"

definition toy_config :: "string run_config" where
  "toy_config =
     \<lparr>rc_ethers = toy_ethers, rc_digest = (\<lambda>s. []), rc_profile = profile_stranger_only, rc_collect = False\<rparr>"

definition toy_plan :: "generated_action list" where
  "toy_plan = [\<lparr>a_kind = SPEND, a_actor_name = ''stranger'', a_params = no_params\<rparr>]"

definition toy_run :: "string run_state" where
  "toy_run = the (run_plan toy_config toy_world toy_before toy_answers toy_plan 1)"

lemma toy_run_plan: "run_plan toy_config toy_world toy_before toy_answers toy_plan 1 = Some toy_run"
proof -
  have "fresh_ctx toy_ethers toy_world False \<noteq> None" by code_simp
  then show ?thesis
    by (auto simp: toy_run_def run_plan_def toy_config_def profile_stranger_only_def plain_profile_def)
qed

definition toy_observation :: "string observation" where
  "toy_observation = the (observed toy_config toy_world toy_before toy_answers toy_plan 1 0)"

lemma toy_observed: "observed toy_config toy_world toy_before toy_answers toy_plan 1 0 = Some toy_observation"
proof -
  have "fresh_ctx toy_ethers toy_world False \<noteq> None" by code_simp
  then show ?thesis
    by (auto simp: toy_observation_def observed_def run_plan_def toy_config_def profile_stranger_only_def
        plain_profile_def)
qed

text \<open>C2: P-CUT is exact: at every step of a run, the campaign reports a cut violation for an outcome if and only if the
  state difference shows that outcome and the roots charged with the action satisfy no authority path to it in full.\<close>

theorem cut_reported_iff:
  assumes "run_plan rc w first answers plan seed = Some st" and "i < length plan"
    and "observed rc w first answers plan seed i = Some ob"
  shows "\<lparr>v_property = P_CUT t, v_step = int i\<rparr> \<in> set (st_violations st) \<longleftrightarrow>
    t \<in> set (detect_outcomes (ob_pre ob) (ob_post ob)) \<and>
    \<not> entitled (judge_cut (ex_attributed (ob_result ob)) t (credential_factors (ob_pre ob)) (live_threshold (ob_pre ob)))"
  using cut_reported [OF assms, of t] unfolding charged_in_full_def .

theorem cut_reported_iff_witness:
  "\<lparr>v_property = P_CUT ASSET_MOVEMENT, v_step = int 0\<rparr> \<in> set (st_violations toy_run) \<and>
   \<lparr>v_property = P_CUT POLICY_CHANGE, v_step = int 0\<rparr> \<notin> set (st_violations toy_run)"
proof -
  have n: "(0::nat) < length toy_plan" by (simp add: toy_plan_def)
  have "ASSET_MOVEMENT \<in> set (detect_outcomes (ob_pre toy_observation) (ob_post toy_observation)) \<and>
      POLICY_CHANGE \<notin> set (detect_outcomes (ob_pre toy_observation) (ob_post toy_observation)) \<and>
      \<not> entitled (judge_cut (ex_attributed (ob_result toy_observation)) ASSET_MOVEMENT
          (credential_factors (ob_pre toy_observation)) (live_threshold (ob_pre toy_observation)))"
    by code_simp
  then show ?thesis
    using cut_reported_iff [OF toy_run_plan n toy_observed, of ASSET_MOVEMENT]
      cut_reported_iff [OF toy_run_plan n toy_observed, of POLICY_CHANGE] by blast
qed

text \<open>C4: In a run without a cut violation no protected outcome is ever reached below its declared cut: whenever a step
  shows the outcome, the roots charged with it number at least the cut declared for the vault's live floor and
  threshold.\<close>

theorem run_respects_cuts:
  assumes "run_plan rc w first answers plan seed = Some st" and "i < length plan"
    and "observed rc w first answers plan seed i = Some ob"
    and "\<And>v. v \<in> set (st_violations st) \<Longrightarrow> v_property v \<noteq> P_CUT t"
    and "t \<in> set (detect_outcomes (ob_pre ob) (ob_post ob))"
  shows "declared_cuts (credential_factors (ob_pre ob)) (live_threshold (ob_pre ob)) t \<le>
    card (ex_attributed (ob_result ob))"
proof -
  have "charged_in_full ob t" using cut_reported [OF assms(1-3), of t] assms(4,5) by fastforce
  then show ?thesis unfolding charged_in_full_def by (rule cut_necessary)
qed

text \<open>C5: The bookkeeping never drifts: after any run of any plan, from any seed and against any chain, every label the
  harness keeps names the key it stands beside, the roster has three seats, and the recovery episodes are consistent,
  provided no two key labels share an address.\<close>

theorem run_bookkeeping:
  assumes "run_plan rc (world_of (rc_ethers rc) opts dp) first answers plan seed = Some st"
    and "addresses_distinct (rc_ethers rc)"
  shows "keys_named (rc_ethers rc) (st_ctx st) \<and> model_inv (c_abstract (st_ctx st))"
proof -
  obtain ctx where ctx: "fresh_ctx (rc_ethers rc) (world_of (rc_ethers rc) opts dp)
      (fabricate_commitments (rc_profile rc)) = Some ctx"
    and st: "st = run_steps rc first answers 0 plan (initial_run ctx seed)"
    by (rule run_plan_fresh [OF assms(1)])
  have init: "st_ctx (initial_run ctx seed) = ctx" by (simp add: initial_run_def)
  have "keys_named (rc_ethers rc) (st_ctx st)"
    using keys.run_steps_keep [of "rc_ethers rc" "initial_run ctx seed" rc first answers 0 plan]
      fresh_ctx_keys_named [OF assms(2) ctx] assms(2) by (simp add: st init)
  moreover have "model_inv (c_abstract (st_ctx st))"
    using episodes.run_steps_keep [of "initial_run ctx seed" rc "rc_ethers rc" first answers 0 plan]
      fresh_ctx_model_inv [OF ctx] by (simp add: st init)
  ultimately show ?thesis ..
qed

theorem run_bookkeeping_witness:
  "keys_named toy_ethers (st_ctx toy_run) \<and> model_inv (c_abstract (st_ctx toy_run))"
proof -
  have e: "rc_ethers toy_config = toy_ethers" by (simp add: toy_config_def)
  have "addresses_distinct toy_ethers" by (simp add: addresses_distinct_def toy_ethers_def)
  then show ?thesis
    using run_bookkeeping [of toy_config toy_options toy_deployment toy_before toy_answers toy_plan 1 toy_run]
      toy_run_plan by (simp add: e toy_world_def)
qed

text \<open>The same spend, by the honest actor.\<close>

definition honest_plan :: "generated_action list" where
  "honest_plan = [\<lparr>a_kind = SPEND, a_actor_name = ''honest'', a_params = no_params\<rparr>]"

theorem run_respects_cuts_witness:
  "\<exists>st ob. run_plan toy_config toy_world toy_before toy_answers honest_plan 1 = Some st \<and>
    observed toy_config toy_world toy_before toy_answers honest_plan 1 0 = Some ob \<and>
    2 \<le> card (ex_attributed (ob_result ob))"
proof -
  let ?run = "run_plan toy_config toy_world toy_before toy_answers honest_plan 1"
  let ?ob = "observed toy_config toy_world toy_before toy_answers honest_plan 1 0"
  have "?run \<noteq> None \<and> ?ob \<noteq> None" by code_simp
  then obtain st ob where st: "?run = Some st" and ob: "?ob = Some ob" by blast
  have "list_all (\<lambda>v. v_property v \<noteq> P_CUT ASSET_MOVEMENT) (st_violations (the ?run))" by code_simp
  then have ok: "v \<in> set (st_violations st) \<Longrightarrow> v_property v \<noteq> P_CUT ASSET_MOVEMENT" for v
    by (simp add: st list_all_iff)
  have "ASSET_MOVEMENT \<in> set (detect_outcomes (ob_pre (the ?ob)) (ob_post (the ?ob))) \<and>
      declared_cuts (credential_factors (ob_pre (the ?ob))) (live_threshold (ob_pre (the ?ob))) ASSET_MOVEMENT = 2"
    by code_simp
  then show ?thesis
    using run_respects_cuts [OF st _ ob ok] st ob by (simp add: ob honest_plan_def)
qed

text \<open>C17: Shrinking is sound, bounded and minimal: the result is a subsequence of the plan that still reproduces the
  violation whenever the plan does, at most maxAttempts runs are made, and when fewer were needed no single action
  of the result can be removed.\<close>

theorem shrink_correct:
  assumes "shrink reproduces plan first_step max_attempts = (best, attempts)" and "1 \<le> max_attempts"
  shows "subseq best plan \<and> (reproduces plan \<longrightarrow> reproduces best) \<and> attempts \<le> max_attempts \<and>
    (attempts < max_attempts \<longrightarrow> (\<forall>i < length best. \<not> reproduces (without_nth i best)))"
proof -
  let ?t = "take (min (length plan) (first_step + 1)) plan"
  obtain start n where s: "shrink_loop reproduces max_attempts start n = (best, attempts)" "n \<le> max_attempts"
    and start: "start = plan \<or> (start = ?t \<and> reproduces ?t)"
    using assms by (auto simp: shrink_def Let_def split: if_splits)
  have spec: "subseq best start \<and> (best = start \<or> reproduces best) \<and>
      (attempts < max_attempts \<longrightarrow> minimal reproduces best) \<and> (n \<le> max_attempts \<longrightarrow> attempts \<le> max_attempts)"
    by (rule shrink_loop_spec [OF s(1)])
  moreover have "subseq start plan" using start by (auto intro: prefix_imp_subseq take_is_prefix)
  ultimately show ?thesis using start s(2) unfolding minimal_def by (metis subseq_order.trans)
qed

theorem shrink_correct_witness:
  "subseq (fst (shrink (\<lambda>xs. 3 \<in> set xs) [1, 2, 3, 4, 5 :: nat] 2 120)) [1, 2, 3, 4, 5] \<and>
   3 \<in> set (fst (shrink (\<lambda>xs. 3 \<in> set xs) [1, 2, 3, 4, 5 :: nat] 2 120))"
proof -
  obtain best attempts where s: "shrink (\<lambda>xs. 3 \<in> set xs) [1, 2, 3, 4, 5 :: nat] 2 120 = (best, attempts)"
    by (cases "shrink (\<lambda>xs. 3 \<in> set xs) [1, 2, 3, 4, 5 :: nat] 2 120")
  then show ?thesis using shrink_correct [OF s] by simp
qed

text \<open>C11: A campaign that answers no violation has shown what it set out to: it ran to completion on one of the shipped
  profiles, all six positive controls were run and passed except those skipped because the vault's own verifier is
  declared dead, and every step of its plan met the declared cuts.\<close>

theorem clean_campaign:
  assumes "run_campaign E digest dp chain_of False nm seed depth label = Inr r" and "cr_violations r = []"
  shows "\<exists>prof plan st. prof \<in> set PROFILES \<and> prof_name prof = nm \<and> generate_plan prof seed depth = Inr plan \<and>
    run_plan \<lparr>rc_ethers = E, rc_digest = digest, rc_profile = prof, rc_collect = True\<rparr>
      (world_of E (campaign_options prof label) dp) (fst (chain_of plan)) (snd (chain_of plan)) plan seed = Some st \<and>
    (\<forall>v \<in> set (st_violations st). v_property v = ''G-DECLARATION-SUBORDINATE-TO-RECOVERY'') \<and>
    t_failures (cr_controls r) = [] \<and> t_passed (cr_controls r) = t_attempted (cr_controls r) \<and>
    t_attempted (cr_controls r) + length (t_skipped (cr_controls r)) = 6 \<and>
    (t_skipped (cr_controls r) \<noteq> [] \<longrightarrow> prof_verifier prof = Some VReverting \<or> prof_verifier prof = Some VAlwaysFalse)"
proof -
  obtain prof plan st t where r: "find_profile nm = Inr prof" "generate_plan prof seed depth = Inr plan"
    "run_plan \<lparr>rc_ethers = E, rc_digest = digest, rc_profile = prof, rc_collect = True\<rparr>
      (world_of E (campaign_options prof label) dp) (fst (chain_of plan)) (snd (chain_of plan)) plan seed = Some st"
    "run_controls E digest (world_of E (campaign_options prof label) dp) chain_of CONTROLS no_controls = Some t"
    "cr_controls r = t"
    "cr_violations r = filter (\<lambda>v. v_property v \<notin> set KNOWN_DEFECT_PROPERTIES)
      (st_violations st @ map (\<lambda>f. \<lparr>v_property = ''P-VACUITY'', v_step = -1\<rparr>) (t_failures t))"
    by (rule run_campaign_cases [OF assms(1)])
  have known: "set KNOWN_DEFECT_PROPERTIES = {''G-DECLARATION-SUBORDINATE-TO-RECOVERY''}"
    by (simp add: KNOWN_DEFECT_PROPERTIES_def SUSTAINED_DEFECTS_def)
  have prof: "prof \<in> set PROFILES \<and> prof_name prof = nm"
    using r(1) find_Some_set by (fastforce simp: find_profile_def split: option.splits)
  have "tally_ok (world_of E (campaign_options prof label) dp) (0 + length CONTROLS) t"
    by (rule run_controls_tally [OF r(4)]) (simp add: tally_ok_def no_controls_def)
  then have t: "t_attempted t + length (t_skipped t) = 6" "t_passed t + length (t_failures t) = t_attempted t"
    "t_skipped t \<noteq> [] \<longrightarrow> prof_verifier prof = Some VReverting \<or> prof_verifier prof = Some VAlwaysFalse"
    by (auto simp: tally_ok_def CONTROLS_def credential_path_dead_def campaign_options_def option_or_def split: option.splits)
  note all_known = assms(2) [unfolded r(6) filter_empty_conv known]
  have none: "\<forall>v \<in> set (st_violations st). v_property v = ''G-DECLARATION-SUBORDINATE-TO-RECOVERY''"
    using all_known by auto
  have "t_failures t = []" using all_known by (cases "t_failures t") simp_all
  note none = none this
  then show ?thesis using prof r(2,3,5) t by (intro exI conjI) simp_all
qed

definition toy_chain_model :: chain_model where
  "toy_chain_model plan = (toy_before, toy_answers)"

theorem clean_campaign_witness:
  "\<exists>r. run_campaign toy_ethers (\<lambda>s. []) toy_deployment toy_chain_model False ''stranger-only'' 7 0 ''w'' = Inr r \<and>
    t_passed (cr_controls r) = 6"
proof -
  let ?r = "run_campaign toy_ethers (\<lambda>s. []) toy_deployment toy_chain_model False ''stranger-only'' 7 0 ''w''"
  have "case ?r of Inl e \<Rightarrow> False | Inr r \<Rightarrow> cr_violations r = [] \<and> t_skipped (cr_controls r) = []" by code_simp
  then obtain r where r: "?r = Inr r" "cr_violations r = []" "t_skipped (cr_controls r) = []" by (cases ?r) auto
  then show ?thesis using clean_campaign [OF r(1,2)] by auto
qed

section \<open>A relayed binding\<close>

text \<open>The call a replay resubmits.\<close>

definition replay_target :: "'k ctx \<Rightarrow> params \<Rightarrow> recorded_call" where
  "replay_target ctx ps =
     (let prior = filter (\<lambda>h. r_kind h \<noteq> REPLAY_PAST_CALL \<and> r_kind h \<noteq> FUND) (c_history ctx)
      in prior ! nat (option_or (p_index ps) 0 mod int (length prior)))"

lemma do_replay_mined:
  assumes "h \<in> set (c_history ctx)" and "r_kind h \<noteq> REPLAY_PAST_CALL" and "r_kind h \<noteq> FUND"
    and "ch_send ch (sends_as a) (r_data (replay_target ctx ps)) = Mined at"
    and "replay_record ch (replay_target ctx ps) at ctx = Inr v"
  shows "do_replay E ch a ps ctx =
    judged (succeeded (replay_attribution (replay_target ctx ps) (roots_now E a ctx) (c_abstract ctx)) (Some at)) ctx v"
proof -
  have "filter (\<lambda>h. r_kind h \<noteq> REPLAY_PAST_CALL \<and> r_kind h \<noteq> FUND) (c_history ctx) \<noteq> []"
    using assms(1-3) by (auto simp: filter_empty_conv)
  then show ?thesis using assms(4,5) by (simp add: do_replay_def replay_target_def Let_def)
qed

text \<open>C38: A binding that reaches the chain as a relay is not booked: when a migration binding that was first refused is
  resubmitted and mined, it is charged to the roots that signed it, but the model does not record whose decision it
  was, so the permissionless egress that follows is charged to nobody and fails the asset cut for every floor and every
  positive threshold - a cut violation, although the binding was fully authorized.\<close>

theorem relayed_binding_uncharged:
  assumes "h = replay_target ctx ps" and "h \<in> set (c_history ctx)"
    and "r_kind h = BIND_MIGRATION" and "\<not> r_ok h" and "migration_authorized_by (c_abstract ctx) = {}"
    and "ch_send ch (sends_as a) (r_data h) = Mined at"
    and "do_replay E ch a ps ctx = (res, ctx')"
    and "do_egress E ch' EGRESS_NATIVE a' ctx' = (res', ctx'')"
    and "1 \<le> cf" and "1 \<le> k"
  shows "ex_ok res \<and> ex_attributed res = r_author_roots h \<and> ex_attributed res' = {} \<and>
    \<not> entitled (judge_cut (ex_attributed res') ASSET_MOVEMENT cf k)"
proof -
  have "replay_record ch (replay_target ctx ps) at ctx = Inr (None, c_abstract ctx)"
    using assms(1,3) by (simp add: replay_record_def Let_def)
  note r = do_replay_mined [of h ctx ch a ps at "(None, c_abstract ctx)" E, OF assms(2), simplified assms(3), simplified,
      OF _ this]
  have "do_replay E ch a ps ctx = (succeeded (r_author_roots h) (Some at), ctx)"
    using r assms(1,3,4,6)
    by (simp add: judged_def replay_attribution_def PERMISSIONLESS_FINALISERS_def succeeded_def)
  then have res: "res = succeeded (r_author_roots h) (Some at)" "ctx' = ctx" using assms(7) by simp_all
  have "migration_authorized_by (c_abstract c) = {}"
    if "attempt ch' EGRESS_NATIVE a' (roots_now E a' ctx) (Inr (Egress ZERO)) id ctx = (r, c)" for r c
    using that by (cases rule: attempt_cases) (simp_all add: assms(5) record_call_def)
  then have e: "ex_attributed res' = {}"
    using assms(8) res(2) by (auto simp: do_egress_def Let_def split: prod.splits)
  then show ?thesis
    using assms(9,10) by (simp add: res succeeded_def judge_cut_def authority_paths_def root_families_def Let_def)
qed

text \<open>Two guardians and the credential signed the binding; a stranger relays it and then sweeps.\<close>

definition refused_binding :: recorded_call where
  "refused_binding =
     \<lparr>r_step = 0, r_kind = BIND_MIGRATION, r_actor = ''honest'', r_author_roots = {CRED_ECDSA, GUARDIAN_0, GUARDIAN_1},
      r_data = BindMigration ''0x8'' ''0x7'' 2
        \<lparr>q_members = [], q_is_contract = [], attesting_indices = [], attestations = []\<rparr> 0 FAR_DEADLINE ''0x'',
      r_ok = False\<rparr>"

theorem relayed_binding_uncharged_witness:
  "\<exists>res ctx' res' ctx''.
    do_replay toy_ethers toy_chain STRANGER no_params (toy_ctx\<lparr>c_history := [refused_binding]\<rparr>) = (res, ctx') \<and>
    do_egress toy_ethers toy_chain EGRESS_NATIVE STRANGER ctx' = (res', ctx'') \<and>
    card (ex_attributed res) = 3 \<and> ex_attributed res' = {}"
proof -
  let ?ctx = "toy_ctx\<lparr>c_history := [refused_binding]\<rparr>"
  obtain res ctx' where r: "do_replay toy_ethers toy_chain STRANGER no_params ?ctx = (res, ctx')"
    by (metis surj_pair)
  obtain res' ctx'' where e: "do_egress toy_ethers toy_chain EGRESS_NATIVE STRANGER ctx' = (res', ctx'')"
    by (metis surj_pair)
  have h: "refused_binding = replay_target ?ctx no_params" "r_kind refused_binding = BIND_MIGRATION"
    "\<not> r_ok refused_binding" "card (r_author_roots refused_binding) = 3"
    by (simp_all add: replay_target_def refused_binding_def no_params_def option_or_def)
  have "migration_authorized_by (c_abstract toy_ctx) = {}" by code_simp
  then show ?thesis
    using relayed_binding_uncharged [OF h(1) _ h(2,3) _ _ r e, of 1000 1 1] h(4) r e by (auto simp: toy_chain_def)
qed

end
