(* ===== verification/File_Tree.thy ===== *)
theory File_Tree
  imports Tar_Header "HOL-Library.Multiset"
begin

text \<open>
  A directory tree as \<open>scripts/lib/sp1-circuit-install.ts\<close> sees it through \<open>node:fs\<close>: the nodes of a
  directory, what \<open>openSync\<close>, \<open>mkdirSync\<close> and \<open>writeSync\<close> do beneath it, \<open>readdirSync\<close> and the walk of a
  tree. A tree is listed as items, one for each path, so that what an operation does to it is what it
  does to the list.
\<close>

section \<open>Nodes\<close>

text \<open>
  A regular file has a mode, a number of links and its bytes (\<open>None\<close>: the process may not open it); a
  directory has a mode and its entries, in no order; where a link leads is not part of the tree.
\<close>

datatype node =
    NFile nat nat "buffer option"
  | NDir nat "(string \<times> node) list"
  | NLink
  | NSpecial

type_synonym entries = "(string \<times> node) list"

primrec weight :: "node \<Rightarrow> nat" where
  "weight (NFile m k c) = 0"
| "weight (NDir m es) = Suc (sum_list (map (\<lambda>(n, w). Suc w) (map (map_prod id weight) es)))"
| "weight NLink = 0"
| "weight NSpecial = 0"

definition entries_weight :: "entries \<Rightarrow> nat" where
  "entries_weight es = sum_list (map (\<lambda>(n, x). Suc (weight x)) es)"

lemma weight_NDir [simp]: "weight (NDir m es) = Suc (entries_weight es)"
proof -
  have "map (\<lambda>(n, w). Suc w) (map (map_prod id weight) es) = map (\<lambda>(n, x). Suc (weight x)) es" by auto
  then show ?thesis by (simp only: weight.simps entries_weight_def)
qed

declare weight.simps(2) [simp del]

lemma entries_weight_simps [simp]:
  "entries_weight [] = 0" "entries_weight ((n, x) # es) = Suc (weight x + entries_weight es)"
  by (simp_all add: entries_weight_def)

lemma entries_weight_mset: "mset es = mset fs \<Longrightarrow> entries_weight es = entries_weight fs"
proof -
  have "entries_weight es = sum_mset (image_mset (\<lambda>(n, x). Suc (weight x)) (mset es))" for es
    by (simp only: entries_weight_def mset_map [symmetric] sum_mset_sum_list)
  then show "mset es = mset fs \<Longrightarrow> entries_weight es = entries_weight fs" by simp
qed

text \<open>Names are distinct within a directory, not empty and without a separator, as the system keeps them.\<close>

function wf_entries :: "entries \<Rightarrow> bool" where
  "wf_entries [] = True"
| "wf_entries ((n, x) # es) =
     (n \<noteq> [] \<and> CHR ''/'' \<notin> set n \<and> n \<notin> fst ` set es \<and>
      (case x of NDir m sub \<Rightarrow> wf_entries sub | _ \<Rightarrow> True) \<and> wf_entries es)"
  by pat_completeness auto
termination by (relation "measure entries_weight") auto

section \<open>What lies at a path\<close>

fun lookup_at :: "entries \<Rightarrow> string list \<Rightarrow> node option" where
  "lookup_at es [] = None"
| "lookup_at es [c] = map_of es c"
| "lookup_at es (c # cs) = (case map_of es c of Some (NDir m sub) \<Rightarrow> lookup_at sub cs | _ \<Rightarrow> None)"

text \<open>The path of an entry below \<open>rel\<close>.\<close>

definition below :: "string \<Rightarrow> string \<Rightarrow> string" where
  "below rel name = (if rel = [] then name else rel @ ''/'' @ name)"

datatype item = IFile nat nat "buffer option" | IDir nat | ILink | ISpecial

primrec item_of :: "node \<Rightarrow> item" where
  "item_of (NFile m k c) = IFile m k c"
| "item_of (NDir m es) = IDir m"
| "item_of NLink = ILink"
| "item_of NSpecial = ISpecial"

lemma item_of_iff:
  "item_of x = IFile m k c \<longleftrightarrow> x = NFile m k c" "item_of x = IDir m \<longleftrightarrow> (\<exists>es. x = NDir m es)"
  "item_of x = ILink \<longleftrightarrow> x = NLink" "item_of x = ISpecial \<longleftrightarrow> x = NSpecial"
  by (cases x; simp; blast?)+

function items :: "string \<Rightarrow> entries \<Rightarrow> (string \<times> item) list" where
  "items rel [] = []"
| "items rel ((n, x) # es) =
     (below rel n, item_of x) #
     (case x of NDir m sub \<Rightarrow> items (below rel n) sub | _ \<Rightarrow> []) @ items rel es"
  by pat_completeness auto
termination by (relation "measure (entries_weight \<circ> snd)") auto

lemma items_concat:
  "items rel es = concat (map (\<lambda>(n, x). (below rel n, item_of x) #
     (case x of NDir m sub \<Rightarrow> items (below rel n) sub | _ \<Rightarrow> [])) es)"
  by (induction es) auto

lemma items_mset:
  assumes "mset es = mset fs"
  shows "set (items rel es) = set (items rel fs)"
  by (simp only: items_concat [of rel es] items_concat [of rel fs] set_concat set_map mset_eq_setD [OF assms])

section \<open>Operations\<close>

text \<open>
  What a call answers when it fails: something is there already, a directory on the way is missing, a
  file is on the way; or a link is on the way, and the call would act on a place outside the tree.
\<close>

datatype fs_error = EEXIST | ENOENT | ENOTDIR | Outside

definition put_entry :: "string \<Rightarrow> node \<Rightarrow> entries \<Rightarrow> entries" where
  "put_entry n x es = map (\<lambda>(k, y). if k = n then (k, x) else (k, y)) es"

text \<open>\<open>openSync(path, "wx", mode)\<close> and \<open>mkdirSync(path)\<close>: a new node, never in place of one that is there.\<close>

fun create_at :: "node \<Rightarrow> string list \<Rightarrow> entries \<Rightarrow> fs_error + entries" where
  "create_at x [] es = Inl EEXIST"
| "create_at x [c] es = (if map_of es c = None then Inr (es @ [(c, x)]) else Inl EEXIST)"
| "create_at x (c # cs) es =
     (case map_of es c of
        None \<Rightarrow> Inl ENOENT
      | Some (NDir m sub) \<Rightarrow> bindE (create_at x cs sub) (\<lambda>sub. Inr (put_entry c (NDir m sub) es))
      | Some NLink \<Rightarrow> Inl Outside
      | Some _ \<Rightarrow> Inl ENOTDIR)"

text \<open>\<open>writeSync\<close> through the descriptor of the file created at the path: its bytes grow.\<close>

fun append_at :: "buffer \<Rightarrow> string list \<Rightarrow> entries \<Rightarrow> fs_error + entries" where
  "append_at d [] es = Inl ENOENT"
| "append_at d [c] es =
     (case map_of es c of
        Some (NFile m k (Some a)) \<Rightarrow> Inr (put_entry c (NFile m k (Some (a @ d))) es)
      | _ \<Rightarrow> Inl ENOENT)"
| "append_at d (c # cs) es =
     (case map_of es c of
        Some (NDir m sub) \<Rightarrow> bindE (append_at d cs sub) (\<lambda>sub. Inr (put_entry c (NDir m sub) es))
      | _ \<Rightarrow> Inl ENOENT)"

text \<open>\<open>chmodTree\<close>: every file and every directory, never through a link.\<close>

primrec chmod_tree :: "nat \<Rightarrow> nat \<Rightarrow> node \<Rightarrow> node" where
  "chmod_tree fm dm (NFile m k c) = NFile fm k c"
| "chmod_tree fm dm (NDir m es) = NDir dm (map (map_prod id (chmod_tree fm dm)) es)"
| "chmod_tree fm dm NLink = NLink"
| "chmod_tree fm dm NSpecial = NSpecial"

section \<open>Walking a tree\<close>

text \<open>\<open>entries.sort((a, b) => (a.name < b.name ? -1 : 1))\<close>; names are distinct, so any sort gives this order.\<close>

fun insert_entry :: "string \<times> node \<Rightarrow> entries \<Rightarrow> entries" where
  "insert_entry e [] = [e]"
| "insert_entry e (f # es) = (if str_less (fst e) (fst f) then e # f # es else f # insert_entry e es)"

definition sort_entries :: "entries \<Rightarrow> entries" where
  "sort_entries es = foldr insert_entry es []"

lemma mset_insert_entry: "mset (insert_entry e es) = add_mset e (mset es)"
  by (induction es) auto

lemma mset_sort_entries: "mset (sort_entries es) = mset es"
  by (induction es) (auto simp: sort_entries_def mset_insert_entry)

text \<open>
  \<open>walk\<close>: the files and the directories below, in the order they are met; a link or a special file ends
  the walk.
\<close>

function walk :: "refusal_code \<Rightarrow> string \<Rightarrow> entries \<Rightarrow> refusal + string list \<times> string list" where
  "walk why rel [] = Inr ([], [])"
| "walk why rel ((n, x) # es) =
     (case x of
        NLink \<Rightarrow> Inl (refuse why ''LINK_IN_TREE'')
      | NSpecial \<Rightarrow> Inl (refuse why ''SPECIAL_FILE_IN_TREE'')
      | NFile m k c \<Rightarrow>
          bindE (walk why rel es) (\<lambda>(files, directories). Inr (below rel n # files, directories))
      | NDir m sub \<Rightarrow>
          bindE (walk why (below rel n) (sort_entries sub)) (\<lambda>(files, directories).
          bindE (walk why rel es) (\<lambda>(files', directories').
          Inr (files @ files', below rel n # directories @ directories'))))"
  by pat_completeness auto
termination
  by (relation "measure (\<lambda>(_, _, es). entries_weight es)")
     (auto simp: entries_weight_mset [OF mset_sort_entries])

definition walk_tree :: "refusal_code \<Rightarrow> entries \<Rightarrow> refusal + string list \<times> string list" where
  "walk_tree why es = walk why [] (sort_entries es)"

section \<open>A tree as a map from paths\<close>

text \<open>What lies at each path. The calls that succeed change it at one path, and nowhere else.\<close>

definition look :: "entries \<Rightarrow> string list \<Rightarrow> item option" where
  "look es cs = map_option item_of (lookup_at es cs)"

lemma look_Nil [simp]: "look es [] = None"
  by (simp add: look_def)

lemma path_cases:
  obtains (Nil) "cs = []" | (name) c where "cs = [c]" | (more) c d ds where "cs = c # d # ds"
  by (metis neq_Nil_conv)

lemma look_empty [simp]: "look [] cs = None"
  by (cases cs rule: path_cases) (auto simp: look_def)

lemma look_single: "look es [c] = map_option item_of (map_of es c)"
  by (simp add: look_def)

lemma look_Cons:
  "cs \<noteq> [] \<Longrightarrow> look es (c # cs) = (case map_of es c of Some (NDir m sub) \<Rightarrow> look sub cs | _ \<Rightarrow> None)"
  by (cases cs) (auto simp: look_def split: option.splits node.splits)

lemma map_of_put_entry:
  "map_of (put_entry n x es) k = (if k = n \<and> map_of es n \<noteq> None then Some x else map_of es k)"
  by (induction es) (auto simp: put_entry_def)

lemma fst_put_entry [simp]: "map fst (put_entry n x es) = map fst es"
  by (auto simp: put_entry_def)

lemma put_entry_twice [simp]: "put_entry n x (put_entry n y es) = put_entry n x es"
  by (auto simp: put_entry_def)

text \<open>A node with nothing below it, as one is created.\<close>

definition leaf :: "node \<Rightarrow> bool" where
  "leaf x \<longleftrightarrow> (case x of NDir m sub \<Rightarrow> sub = [] | _ \<Rightarrow> True)"

lemma create_at_look:
  "leaf x \<Longrightarrow> create_at x cs es = Inr es' \<Longrightarrow> look es' = (look es)(cs \<mapsto> item_of x) \<and> look es cs = None"
proof (induction x cs es arbitrary: es' rule: create_at.induct)
  case (2 x c es)
  then have new: "map_of es c = None" "es' = es @ [(c, x)]" by (auto split: if_splits)
  have "look es' ds = ((look es)([c] \<mapsto> item_of x)) ds" for ds
  proof (cases ds rule: path_cases)
    case Nil
    then show ?thesis by simp
  next
    case (name d)
    then show ?thesis using new by (auto simp: look_single map_add_def split: option.splits)
  next
    case (more d e ds')
    then show ?thesis
      using new 2(1) by (auto simp: look_Cons map_add_def leaf_def split: option.splits node.splits)
  qed
  then show ?case using new by (auto simp: look_single)
next
  case (3 x c d cs es)
  then obtain m sub sub' where c: "map_of es c = Some (NDir m sub)" "create_at x (d # cs) sub = Inr sub'"
    and es': "es' = put_entry c (NDir m sub') es"
    by (auto simp: bindE_eq_Inr split: option.splits node.splits)
  from 3 c have IH: "look sub' = (look sub)(d # cs \<mapsto> item_of x)" "look sub (d # cs) = None" by auto
  have "look es' ds = ((look es)(c # d # cs \<mapsto> item_of x)) ds" for ds
    by (cases ds rule: path_cases)
       (auto simp: es' look_single look_Cons map_of_put_entry c(1) IH)
  then show ?case using c(1) IH(2) by (auto simp: look_Cons)
qed auto

text \<open>A call fails exactly for what lies at the path or on the way.\<close>

lemma create_at_Some:
  "cs \<noteq> [] \<Longrightarrow> look es cs = None \<Longrightarrow> (\<forall>k \<in> {1..<length cs}. \<exists>m. look es (take k cs) = Some (IDir m)) \<Longrightarrow>
    \<exists>es'. create_at x cs es = Inr es'"
proof (induction x cs es rule: create_at.induct)
  case (3 x c d cs es)
  from "3.prems"(3) obtain m where "look es (take 1 (c # d # cs)) = Some (IDir m)" by force
  then obtain sub where sub: "map_of es c = Some (NDir m sub)"
    by (auto simp: look_single item_of_iff)
  have "\<forall>k \<in> {1..<length (d # cs)}. \<exists>m. look sub (take k (d # cs)) = Some (IDir m)"
  proof
    fix k assume "k \<in> {1..<length (d # cs)}"
    then have "Suc k \<in> {1..<length (c # d # cs)}" "take k (d # cs) \<noteq> []" by (cases k; auto)+
    with "3.prems"(3) sub show "\<exists>m. look sub (take k (d # cs)) = Some (IDir m)"
      by (force simp: look_Cons)
  qed
  moreover have "look sub (d # cs) = None" using "3.prems"(2) sub by (simp add: look_Cons)
  ultimately obtain sub' where "create_at x (d # cs) sub = Inr sub'" using "3.IH" [OF sub refl] by auto
  then show ?case using sub by simp
qed (auto simp: look_single)

lemma append_at_look:
  "look es cs = Some (IFile m k (Some a)) \<Longrightarrow>
    \<exists>es'. append_at d cs es = Inr es' \<and> look es' = (look es)(cs \<mapsto> IFile m k (Some (a @ d)))"
proof (induction d cs es rule: append_at.induct)
  case (2 d c es)
  then have c: "map_of es c = Some (NFile m k (Some a))"
    by (auto simp: look_single item_of_iff)
  have "look (put_entry c (NFile m k (Some (a @ d))) es) ds = ((look es)([c] \<mapsto> IFile m k (Some (a @ d)))) ds" for ds
    by (cases ds rule: path_cases) (auto simp: look_single look_Cons map_of_put_entry c)
  then show ?case using c by auto
next
  case (3 d c e cs es)
  then obtain m' sub where sub: "map_of es c = Some (NDir m' sub)" and l: "look sub (e # cs) = Some (IFile m k (Some a))"
    by (auto simp: look_Cons split: option.splits node.splits)
  from "3.IH" [OF sub refl l] obtain sub' where s: "append_at d (e # cs) sub = Inr sub'"
    "look sub' = (look sub)(e # cs \<mapsto> IFile m k (Some (a @ d)))" by blast
  have "look (put_entry c (NDir m' sub') es) ds = ((look es)(c # e # cs \<mapsto> IFile m k (Some (a @ d)))) ds" for ds
    by (cases ds rule: path_cases) (auto simp: look_single look_Cons map_of_put_entry sub s(2))
  then show ?case using sub s(1) by auto
qed simp

text \<open>Well-formed trees stay so.\<close>

definition name_ok :: "string \<Rightarrow> bool" where
  "name_ok n \<longleftrightarrow> n \<noteq> [] \<and> CHR ''/'' \<notin> set n"

definition node_wf :: "node \<Rightarrow> bool" where
  "node_wf x \<longleftrightarrow> (case x of NDir m sub \<Rightarrow> wf_entries sub | _ \<Rightarrow> True)"

lemma node_wf_simps [simp]: "node_wf (NDir m sub) = wf_entries sub" "node_wf (NFile m k c)"
  by (simp_all add: node_wf_def)

lemma wf_entries_Cons: "wf_entries ((n, x) # es) \<longleftrightarrow> name_ok n \<and> n \<notin> fst ` set es \<and> node_wf x \<and> wf_entries es"
  by (simp add: name_ok_def node_wf_def)

declare wf_entries.simps(2) [simp del]

lemma wf_entries_iff:
  "wf_entries es \<longleftrightarrow> distinct (map fst es) \<and> (\<forall>e \<in> set es. name_ok (fst e) \<and> node_wf (snd e))"
proof (induction es)
  case (Cons e es)
  then show ?case by (cases e) (auto simp: wf_entries_Cons)
qed simp

lemma wf_entries_sub: "wf_entries es \<Longrightarrow> map_of es c = Some (NDir m sub) \<Longrightarrow> wf_entries sub"
  unfolding wf_entries_iff [of es] by (force dest!: map_of_SomeD)

lemma wf_put_entry:
  assumes "wf_entries es" and "node_wf x"
  shows "wf_entries (put_entry n x es)"
proof -
  have "\<forall>e \<in> set (put_entry n x es). name_ok (fst e) \<and> node_wf (snd e)"
    using assms unfolding wf_entries_iff [of es] by (auto simp: put_entry_def)
  then show ?thesis using assms(1) unfolding wf_entries_iff fst_put_entry by simp
qed

lemma create_at_cases:
  assumes "create_at x cs es = Inr es'"
  obtains (here) c where "cs = [c]" "map_of es c = None" "es' = es @ [(c, x)]"
  | (inside) c ds m sub sub' where "cs = c # ds" "map_of es c = Some (NDir m sub)" "create_at x ds sub = Inr sub'"
      "es' = put_entry c (NDir m sub') es"
  using assms
  by (cases cs rule: path_cases) (auto simp: bindE_eq_Inr split: if_splits option.splits node.splits)

lemma append_at_cases:
  assumes "append_at d cs es = Inr es'"
  obtains (here) c m k a where "cs = [c]" "map_of es c = Some (NFile m k (Some a))"
      "es' = put_entry c (NFile m k (Some (a @ d))) es"
  | (inside) c ds m sub sub' where "cs = c # ds" "map_of es c = Some (NDir m sub)" "append_at d ds sub = Inr sub'"
      "es' = put_entry c (NDir m sub') es"
  using assms
  by (cases cs rule: path_cases) (auto simp: bindE_eq_Inr split: option.splits node.splits)

lemma wf_snoc: "wf_entries es \<Longrightarrow> map_of es c = None \<Longrightarrow> name_ok c \<Longrightarrow> node_wf x \<Longrightarrow> wf_entries (es @ [(c, x)])"
  unfolding wf_entries_iff by (auto simp: map_of_eq_None_iff)

lemma create_at_wf:
  "wf_entries es \<Longrightarrow> list_all name_ok cs \<Longrightarrow> node_wf x \<Longrightarrow> create_at x cs es = Inr es' \<Longrightarrow> wf_entries es'"
proof (induction cs arbitrary: es es')
  case (Cons c cs)
  from Cons.prems(4) show ?case
  proof (cases rule: create_at_cases)
    case (here c')
    with Cons.prems show ?thesis by (simp add: wf_snoc)
  next
    case (inside c' ds m sub sub')
    have sub: "wf_entries sub" by (rule wf_entries_sub [OF Cons.prems(1) inside(2)])
    have "create_at x cs sub = Inr sub'" "list_all name_ok cs" using inside(1,3) Cons.prems(2) by simp_all
    then have "wf_entries sub'" using Cons.IH [OF sub _ Cons.prems(3)] by blast
    then show ?thesis unfolding inside(4) by (intro wf_put_entry [OF Cons.prems(1)]) simp
  qed
qed simp

lemma append_at_wf: "wf_entries es \<Longrightarrow> append_at d cs es = Inr es' \<Longrightarrow> wf_entries es'"
proof (induction cs arbitrary: es es')
  case (Cons c cs)
  from Cons.prems(2) show ?case
  proof (cases rule: append_at_cases)
    case here
    then show ?thesis using Cons.prems(1) by (simp add: wf_put_entry)
  next
    case (inside c' ds m sub sub')
    have sub: "wf_entries sub" by (rule wf_entries_sub [OF Cons.prems(1) inside(2)])
    have "append_at d cs sub = Inr sub'" using inside(1,3) by simp
    then have "wf_entries sub'" using Cons.IH [OF sub] by blast
    then show ?thesis unfolding inside(4) by (intro wf_put_entry [OF Cons.prems(1)]) simp
  qed
qed simp

lemma leaf_wf: "leaf x \<Longrightarrow> node_wf x"
  by (auto simp: leaf_def node_wf_def split: node.splits)

text \<open>The items of a tree are what the map holds.\<close>

lemma below_join:
  "name_ok n \<Longrightarrow> cs \<noteq> [] \<Longrightarrow> below (below rel n) (join_with ''/'' cs) = below rel (join_with ''/'' (n # cs))"
  by (cases cs) (auto simp: below_def name_ok_def)

lemma items_look:
  "wf_entries es \<Longrightarrow> (p, i) \<in> set (items rel es) \<longleftrightarrow> (\<exists>cs. look es cs = Some i \<and> p = below rel (join_with ''/'' cs))"
proof (induction rel es arbitrary: p rule: items.induct)
  case (1 rel)
  then show ?case by simp
next
  case (2 rel n x es)
  note wf = "2.prems"
  then have n: "name_ok n" "n \<notin> fst ` set es" "wf_entries es" by (auto simp: wf_entries_Cons)
  have other: "look es (n # cs) = None" for cs
    using n(2) by (cases cs rule: path_cases) (auto simp: look_single look_Cons map_of_eq_None_iff [THEN iffD2])
  have at: "look ((n, x) # es) cs = (case cs of [] \<Rightarrow> None | c # ds \<Rightarrow> if c = n
      then (if ds = [] then Some (item_of x) else (case x of NDir m sub \<Rightarrow> look sub ds | _ \<Rightarrow> None)) else look es cs)" for cs
    by (cases cs rule: path_cases) (auto simp: look_single look_Cons split: node.splits)
  have sub: "(p, i) \<in> set (items (below rel n) sub) \<longleftrightarrow>
      (\<exists>cs. look sub cs = Some i \<and> p = below (below rel n) (join_with ''/'' cs))" if "x = NDir m sub" for m sub
    using "2.IH"(1) [OF that] wf that by (auto simp: wf_entries_Cons)
  have rest: "(p, i) \<in> set (items rel es) \<longleftrightarrow> (\<exists>cs. look es cs = Some i \<and> p = below rel (join_with ''/'' cs))"
    using "2.IH"(2) n(3) by auto
  have "(\<exists>cs. look ((n, x) # es) cs = Some i \<and> p = below rel (join_with ''/'' cs)) \<longleftrightarrow>
      (i = item_of x \<and> p = below rel n) \<or>
      (\<exists>ds. ds \<noteq> [] \<and> (case x of NDir m sub \<Rightarrow> look sub ds | _ \<Rightarrow> None) = Some i \<and> p = below rel (join_with ''/'' (n # ds))) \<or>
      (\<exists>cs. look es cs = Some i \<and> p = below rel (join_with ''/'' cs))" (is "?l \<longleftrightarrow> ?a \<or> ?b \<or> ?c")
  proof
    assume ?l
    then obtain cs where cs: "look ((n, x) # es) cs = Some i" "p = below rel (join_with ''/'' cs)" by blast
    then show "?a \<or> ?b \<or> ?c" unfolding at by (cases cs) (auto split: if_splits)
  next
    assume "?a \<or> ?b \<or> ?c"
    then show ?l
    proof (elim disjE exE conjE)
      assume "i = item_of x" "p = below rel n"
      then show ?l by (intro exI [of _ "[n]"]) (simp add: at)
    next
      fix ds assume "ds \<noteq> []" "(case x of NDir m sub \<Rightarrow> look sub ds | _ \<Rightarrow> None) = Some i"
        "p = below rel (join_with ''/'' (n # ds))"
      then show ?l by (intro exI [of _ "n # ds"]) (simp add: at)
    next
      fix cs assume cs: "look es cs = Some i" "p = below rel (join_with ''/'' cs)"
      moreover from cs(1) other obtain c ds where "cs = c # ds" "c \<noteq> n"
        by (cases cs) (simp, metis option.distinct(1))
      ultimately show ?l by (intro exI [of _ cs]) (simp add: at)
    qed
  qed
  also have "?b \<longleftrightarrow> (\<exists>m sub. x = NDir m sub \<and> (p, i) \<in> set (items (below rel n) sub))"
  proof (cases x)
    case (NDir m sub)
    have "(\<exists>ds. ds \<noteq> [] \<and> look sub ds = Some i \<and> p = below rel (join_with ''/'' (n # ds))) \<longleftrightarrow>
        (\<exists>ds. look sub ds = Some i \<and> p = below (below rel n) (join_with ''/'' ds))"
      by (metis below_join [OF n(1)] look_Nil option.distinct(1))
    then show ?thesis using sub [OF NDir] by (simp add: NDir)
  qed auto
  also have "(i = item_of x \<and> p = below rel n) \<or>
      (\<exists>m sub. x = NDir m sub \<and> (p, i) \<in> set (items (below rel n) sub)) \<or> ?c \<longleftrightarrow>
      (p, i) \<in> set (items rel ((n, x) # es))"
    using rest by (auto split: node.splits)
  finally show ?case by blast
qed

section \<open>What a walk finds\<close>

definition plain_item :: "item \<Rightarrow> bool" where
  "plain_item i \<longleftrightarrow> (case i of IFile m k c \<Rightarrow> True | IDir m \<Rightarrow> True | _ \<Rightarrow> False)"

definition file_paths :: "(string \<times> item) set \<Rightarrow> string set" where
  "file_paths is = {p. \<exists>m k c. (p, IFile m k c) \<in> is}"

definition dir_paths :: "(string \<times> item) set \<Rightarrow> string set" where
  "dir_paths is = {p. \<exists>m. (p, IDir m) \<in> is}"

lemma item_paths [simp]:
  "file_paths {} = {}" "dir_paths {} = {}"
  "file_paths (is \<union> js) = file_paths is \<union> file_paths js" "dir_paths (is \<union> js) = dir_paths is \<union> dir_paths js"
  "file_paths (insert (p, IFile m k c) is) = insert p (file_paths is)"
  "dir_paths (insert (p, IFile m k c) is) = dir_paths is"
  "file_paths (insert (p, IDir m) is) = file_paths is"
  "dir_paths (insert (p, IDir m) is) = insert p (dir_paths is)"
  by (auto simp: file_paths_def dir_paths_def)

lemma items_sort: "set (items rel (sort_entries es)) = set (items rel es)"
  by (rule items_mset [OF mset_sort_entries])

lemma walk_complete: "(\<exists>r. walk why rel es = Inr r) \<longleftrightarrow> (\<forall>e \<in> set (items rel es). plain_item (snd e))"
proof (induction why rel es rule: walk.induct)
  case (2 why rel n x es)
  show ?case
  proof (cases x)
    case (NFile m k c)
    have "(\<exists>r. walk why rel ((n, x) # es) = Inr r) \<longleftrightarrow> (\<exists>r. walk why rel es = Inr r)"
      by (auto simp: NFile bindE_eq_Inr)
    then show ?thesis using "2.IH"(1) [OF NFile] by (simp add: NFile plain_item_def)
  next
    case (NDir m sub)
    have "(\<exists>r. walk why rel ((n, x) # es) = Inr r) \<longleftrightarrow>
        (\<exists>r. walk why (below rel n) (sort_entries sub) = Inr r) \<and> (\<exists>r. walk why rel es = Inr r)"
      by (force simp: NDir bindE_eq_Inr)
    moreover have "(\<exists>r. walk why (below rel n) (sort_entries sub) = Inr r) \<longleftrightarrow> (\<forall>e \<in> set (items (below rel n) sub). plain_item (snd e))"
      using "2.IH"(2) [OF NDir] by (simp only: items_sort)
    moreover have "(\<exists>r. walk why rel es = Inr r) \<longleftrightarrow> (\<forall>e \<in> set (items rel es). plain_item (snd e))"
      if "\<exists>r. walk why (below rel n) (sort_entries sub) = Inr r"
      using "2.IH"(3) [OF NDir] that by force
    moreover have "(\<forall>e \<in> set (items rel ((n, x) # es)). plain_item (snd e)) \<longleftrightarrow>
        (\<forall>e \<in> set (items (below rel n) sub). plain_item (snd e)) \<and> (\<forall>e \<in> set (items rel es). plain_item (snd e))"
      by (auto simp: NDir plain_item_def [of "IDir m"])
    ultimately show ?thesis by blast
  qed (simp_all add: plain_item_def)
qed simp

lemma walk_found:
  "walk why rel es = Inr (files, directories) \<Longrightarrow>
     set files = file_paths (set (items rel es)) \<and> set directories = dir_paths (set (items rel es))"
proof (induction why rel es arbitrary: files directories rule: walk.induct)
  case (2 why rel n x es)
  show ?case
  proof (cases x)
    case (NFile m k c)
    with "2.prems" obtain fs where fs: "walk why rel es = Inr (fs, directories)" "files = below rel n # fs"
      by (auto simp: bindE_eq_Inr)
    show ?thesis using "2.IH"(1) [OF NFile fs(1)] by (simp add: NFile fs(2))
  next
    case (NDir m sub)
    with "2.prems" obtain fs ds fs' ds' where w: "walk why (below rel n) (sort_entries sub) = Inr (fs, ds)"
      "walk why rel es = Inr (fs', ds')" "files = fs @ fs'" "directories = below rel n # ds @ ds'"
      by (auto simp: bindE_eq_Inr)
    show ?thesis
      using "2.IH"(2) [OF NDir w(1)] "2.IH"(3) [OF NDir w(1) refl w(2)] by (simp add: NDir w(3,4) items_sort)
  qed (use "2.prems" in simp_all)
qed simp

lemma walk_tree_found:
  assumes "walk_tree why es = Inr (files, directories)"
  shows "set files = file_paths (set (items [] es))" "set directories = dir_paths (set (items [] es))"
    "\<forall>e \<in> set (items [] es). plain_item (snd e)"
  using walk_found [OF assms [unfolded walk_tree_def]] walk_complete [of why "[]" "sort_entries es"] assms
  by (auto simp: walk_tree_def items_sort)

end
