(* ===== verification/JSON_Values.thy ===== *)
theory JSON_Values
  imports JS_Regex
begin

text \<open>
  Values read by \<open>JSON.parse\<close>, before any type is known, and what the program does with them:
  \<open>String(x)\<close>, \<open>===\<close>, \<open>typeof\<close> tests, property access. Numbers are integers or, where the text has a
  fraction or an exponent that makes one, the text itself. An object is the list of its own
  properties, without duplicates, in the order of \<open>Object.keys\<close>.
\<close>

datatype json =
    JNull
  | JBool bool
  | JNum int
  | JFrac string
  | JStr string
  | JArr "json list"
  | JObj "(string \<times> json) list"

definition int_string :: "int \<Rightarrow> string" where
  "int_string n = (if n < 0 then CHR ''-'' # num_string 10 (nat (- n)) else num_string 10 (nat n))"

text \<open>
  \<open>String(x)\<close>: an array joins its elements with commas, null elements as nothing. Integers are below
  \<open>10 ^ 21\<close>, from where on JavaScript writes an exponent; an object has no \<open>toString\<close> of its own.
\<close>

fun js_string :: "json \<Rightarrow> string" where
  "js_string JNull = ''null''"
| "js_string (JBool b) = (if b then ''true'' else ''false'')"
| "js_string (JNum n) = int_string n"
| "js_string (JFrac s) = s"
| "js_string (JStr s) = s"
| "js_string (JArr xs) = join_with '','' (map (\<lambda>x. if x = JNull then [] else js_string x) xs)"
| "js_string (JObj kvs) = ''[object Object]''"

text \<open>
  \<open>x === y\<close> for values at two different places of one parsed document: arrays and objects are compared
  by identity, so those never are the same. \<open>Set.has\<close> compares the same way.
\<close>

fun strict_eq :: "json \<Rightarrow> json \<Rightarrow> bool" where
  "strict_eq JNull JNull = True"
| "strict_eq (JBool a) (JBool b) = (a = b)"
| "strict_eq (JNum a) (JNum b) = (a = b)"
| "strict_eq (JFrac a) (JFrac b) = (a = b)"
| "strict_eq (JStr a) (JStr b) = (a = b)"
| "strict_eq _ _ = False"

text \<open>\<open>x?.k\<close>, \<open>None\<close> being \<open>undefined\<close>.\<close>

fun lookup :: "json \<Rightarrow> string \<Rightarrow> json option" where
  "lookup (JObj kvs) k = map_of kvs k"
| "lookup _ k = None"

text \<open>\<open>o.k\<close> of an object known to have the property.\<close>

definition field :: "json \<Rightarrow> string \<Rightarrow> json" where
  "field j k = (case lookup j k of None \<Rightarrow> JNull | Some v \<Rightarrow> v)"

text \<open>\<open>x === y?.k\<close> and \<open>String(x?.k)\<close>.\<close>

definition strict_eq_opt :: "json \<Rightarrow> json option \<Rightarrow> bool" where
  "strict_eq_opt x y = (case y of None \<Rightarrow> False | Some v \<Rightarrow> strict_eq x v)"

definition js_string_opt :: "json option \<Rightarrow> string" where
  "js_string_opt x = (case x of None \<Rightarrow> ''undefined'' | Some v \<Rightarrow> js_string v)"

fun elements :: "json \<Rightarrow> json list option" where
  "elements (JArr xs) = Some xs"
| "elements _ = None"

definition max_safe :: int where
  "max_safe = 2 ^ 53 - 1"

text \<open>\<open>isCount\<close> and \<open>isText\<close>.\<close>

fun is_count :: "json \<Rightarrow> bool" where
  "is_count (JNum n) = (0 \<le> n \<and> n \<le> max_safe)"
| "is_count _ = False"

fun is_text :: "json \<Rightarrow> bool" where
  "is_text (JStr s) = (s \<noteq> [])"
| "is_text _ = False"

text \<open>The refusals of \<open>exactly\<close>: an object with these keys and no others.\<close>

definition exactly :: "json \<Rightarrow> string list \<Rightarrow> string list" where
  "exactly j keys =
     (case j of
        JObj kvs \<Rightarrow>
          (if list_ex (\<lambda>(k, v). k \<notin> set keys) kvs then [''UNKNOWN_FIELD''] else []) @
          (if list_ex (\<lambda>k. map_of kvs k = None) keys then [''MISSING_FIELD''] else [])
      | _ \<Rightarrow> [''SHAPE''])"

definition checked :: "json \<Rightarrow> string list \<Rightarrow> string list \<Rightarrow> string list" where
  "checked j keys body = (if exactly j keys = [] then body else exactly j keys)"

section \<open>Facts\<close>

lemma strict_eq_JStr [simp]: "strict_eq (JStr s) x \<longleftrightarrow> x = JStr s" "strict_eq x (JStr s) \<longleftrightarrow> x = JStr s"
  by (cases x; auto)+

lemma strict_eq_JNum [simp]: "strict_eq (JNum n) x \<longleftrightarrow> x = JNum n" "strict_eq x (JNum n) \<longleftrightarrow> x = JNum n"
  by (cases x; auto)+

lemma strict_eq_imp_eq: "strict_eq x y \<Longrightarrow> x = y"
  by (induction x y rule: strict_eq.induct) auto

lemma strict_eq_opt_iff: "strict_eq_opt x y \<longleftrightarrow> (\<exists>v. y = Some v \<and> strict_eq x v)"
  by (simp add: strict_eq_opt_def split: option.splits)

lemma is_text_iff: "is_text x \<longleftrightarrow> (\<exists>s. x = JStr s \<and> s \<noteq> [])"
  by (cases x) auto

lemma is_count_iff: "is_count x \<longleftrightarrow> (\<exists>n. x = JNum n \<and> 0 \<le> n \<and> n \<le> max_safe)"
  by (cases x) auto

lemma elements_Some: "elements j = Some xs \<longleftrightarrow> j = JArr xs"
  by (cases j) auto

lemma exactly_Nil: "exactly j keys = [] \<longleftrightarrow> (\<exists>kvs. j = JObj kvs \<and> fst ` set kvs = set keys)"
proof (cases j)
  case (JObj kvs)
  show ?thesis
    by (auto simp: JObj exactly_def list_ex_iff map_of_eq_None_iff rev_image_eqI split: if_splits)
qed (simp_all add: exactly_def)

lemma checked_Nil: "checked j keys body = [] \<longleftrightarrow> exactly j keys = [] \<and> body = []"
  by (auto simp: checked_def)

lemma exactly_lookup:
  assumes "exactly j keys = []" and "k \<in> set keys"
  shows "lookup j k = Some (field j k)"
proof -
  obtain kvs where "j = JObj kvs" "fst ` set kvs = set keys" using assms(1) by (auto simp: exactly_Nil)
  moreover from this assms(2) have "map_of kvs k \<noteq> None" by (simp add: map_of_eq_None_iff)
  ultimately show ?thesis by (auto simp: field_def)
qed

end
