(* ===== verification/Archive_Record.thy ===== *)
theory Archive_Record
  imports JSON_Values Member_Tree Tar_Parser
begin

text \<open>
  The archive record of \<open>scripts/lib/sp1-circuit-archive.ts\<close>: \<open>archiveRecordErrors\<close>, which judges an
  untyped record against the designation's anchor, and \<open>acceptedRecord\<close>. A refusal is its reason; the
  prose of its detail is not kept. Whether a text is an https URL is the argument \<open>https\<close>, the
  platform's URL parser.
\<close>

section \<open>Anchor and fields\<close>

definition archive_record_schema :: string where
  "archive_record_schema = ''walletwall.sp1-proving-archive.v2''"

definition circuit_system :: string where
  "circuit_system = ''groth16''"

definition archive_format :: string where
  "archive_format = ''tar+gzip''"

definition provenance_only :: string where
  "provenance_only = ''PROVENANCE_ONLY''"

definition agrees :: string where
  "agrees = ''AGREES''"

definition min_acquisitions :: nat where
  "min_acquisitions = 2"

definition min_mirrors :: nat where
  "min_mirrors = 2"

definition ignored_appledouble_metadata :: string where
  "ignored_appledouble_metadata = ''IGNORED_APPLEDOUBLE_METADATA''"

record verifier_anchor =
  va_version :: string
  va_runtime_code_keccak :: string
  va_verifier_hash :: string

record archive_anchor =
  an_designation :: string
  an_circuit_version :: string
  an_program_vkey :: string
  an_verifier :: verifier_anchor
  an_vk_sha256 :: string
  an_vk_bytes :: nat

definition RECORD_FIELDS :: "string list" where
  "RECORD_FIELDS =
     [''schema'', ''subject'', ''archive'', ''acquisitions'', ''members'', ''metadata'', ''gnark'', ''mirrors'']"

definition SUBJECT_FIELDS :: "string list" where
  "SUBJECT_FIELDS =
     [''circuitSystem'', ''circuitVersion'', ''designation'', ''programVKey'', ''verifier'', ''verifyingKey'']"

definition VERIFIER_FIELDS :: "string list" where
  "VERIFIER_FIELDS = [''version'', ''runtimeCodeKeccak'', ''verifierHash'']"

definition VERIFYING_KEY_FIELDS :: "string list" where
  "VERIFYING_KEY_FIELDS = [''file'', ''sha256'', ''bytes'']"

definition ARCHIVE_FIELDS :: "string list" where
  "ARCHIVE_FIELDS =
     [''file'', ''format'', ''bytes'', ''sha256'', ''acquiredAtUtc'', ''sourceUrl'', ''sourceUrlRole'']"

definition ACQUISITION_FIELDS :: "string list" where
  "ACQUISITION_FIELDS = [''host'', ''observedAtUtc'', ''bytes'', ''sha256'', ''agreement'']"

definition MEMBER_FIELDS :: "string list" where
  "MEMBER_FIELDS = [''path'', ''bytes'', ''sha256'']"

definition METADATA_FIELDS :: "string list" where
  "METADATA_FIELDS = [''path'', ''bytes'', ''sha256'', ''disposition'']"

definition GNARK_FIELDS :: "string list" where
  "GNARK_FIELDS = [''repository'', ''tag'', ''tagRole'', ''digest'', ''observation'', ''mirror'']"

definition GNARK_OBSERVATION_FIELDS :: "string list" where
  "GNARK_OBSERVATION_FIELDS = [''host'', ''observedAtUtc'', ''method'']"

definition GNARK_MIRROR_FIELDS :: "string list" where
  "GNARK_MIRROR_FIELDS = [''location'', ''digest'']"

definition MIRROR_FIELDS :: "string list" where
  "MIRROR_FIELDS = [''location'', ''sha256'']"

lemmas record_field_defs =
  RECORD_FIELDS_def SUBJECT_FIELDS_def VERIFIER_FIELDS_def VERIFYING_KEY_FIELDS_def ARCHIVE_FIELDS_def
  ACQUISITION_FIELDS_def MEMBER_FIELDS_def METADATA_FIELDS_def GNARK_FIELDS_def GNARK_OBSERVATION_FIELDS_def
  GNARK_MIRROR_FIELDS_def MIRROR_FIELDS_def

section \<open>Patterns\<close>

definition hex64 :: "string \<Rightarrow> bool" where
  "hex64 s \<longleftrightarrow> rx_match (rx_rep 64 (RCls is_lower_hex)) s"

lemma hex64_code [code]: "hex64 s \<longleftrightarrow> length s = 64 \<and> list_all is_lower_hex s"
  by (simp add: hex64_def rx_match_rep_cls)

text \<open>\<open>/^\d{4}-\d{2}-\d{2}T\d{2}:\d{2}:\d{2}Z$/\<close>.\<close>

definition utc_rx :: "char rx" where
  "utc_rx =
     (let d = (\<lambda>n. rx_rep n (RCls is_digit))
      in rx_seq [d 4, rx_chr CHR ''-'', d 2, rx_chr CHR ''-'', d 2, rx_chr CHR ''T'', d 2, rx_chr CHR '':'', d 2,
           rx_chr CHR '':'', d 2, rx_chr CHR ''Z''])"

text \<open>\<open>/^[a-z0-9](?:[a-z0-9-]{0,61}[a-z0-9])?$/\<close>.\<close>

definition host_char :: "char \<Rightarrow> bool" where
  "host_char c \<longleftrightarrow> is_lower_alnum c \<or> c = CHR ''-''"

definition host_label :: "string \<Rightarrow> bool" where
  "host_label s \<longleftrightarrow>
     (let alnum = RCls is_lower_alnum
      in rx_match (RSeq alnum (rx_opt (RSeq (rx_alt (map (\<lambda>n. rx_rep n (RCls host_char)) [0..<62])) alnum))) s)"

lemma rx_match_alt_list: "rx_match (rx_alt rs) w \<longleftrightarrow> (\<exists>r \<in> set rs. rx_match r w)"
  by (induction rs rule: rx_alt.induct) (simp_all add: rx_match_alt rx_match_lang)

lemma host_label_code [code]:
  "host_label s \<longleftrightarrow>
    s \<noteq> [] \<and> is_lower_alnum (hd s) \<and> (tl s = [] \<or> is_lower_alnum (last s) \<and> list_all host_char (butlast (tl s))) \<and>
    length s \<le> 63"
proof (cases s)
  case Nil
  then show ?thesis by (simp add: host_label_def Let_def rx_match_seq rx_match_cls)
next
  case (Cons c cs)
  have "host_label s \<longleftrightarrow>
      is_lower_alnum c \<and>
      (cs = [] \<or> (\<exists>u d. cs = u @ [d] \<and> length u < 62 \<and> list_all host_char u \<and> is_lower_alnum d))"
    unfolding Cons host_label_def Let_def rx_match_seq_cls rx_opt_def
    by (auto simp: rx_match_seq rx_match_alt rx_match_cls rx_match_eps rx_match_alt_list rx_match_rep_cls)
  then show ?thesis by (cases cs rule: rev_cases) (auto simp: Cons)
qed

text \<open>\<open>/^[A-Za-z0-9._-]+\.tar\.gz$/\<close>.\<close>

definition archive_file_rx :: "char rx" where
  "archive_file_rx = RSeq (rx_plus (RCls portable_char)) (rx_lit ''.tar.gz'')"

section \<open>The record, part by part\<close>

definition no :: "bool \<Rightarrow> string \<Rightarrow> string list" where
  "no bad reason = (if bad then [reason] else [])"

definition subject_errors :: "archive_anchor \<Rightarrow> json \<Rightarrow> string list" where
  "subject_errors an s =
     (let is = (\<lambda>j k v. strict_eq (field j k) (JStr v)); v = field s ''verifier''; vk = field s ''verifyingKey''
      in checked s SUBJECT_FIELDS
           (no (\<not> is s ''circuitSystem'' circuit_system) ''CIRCUIT_SYSTEM_MISMATCH'' @
            no (\<not> is s ''circuitVersion'' (an_circuit_version an)) ''CIRCUIT_VERSION_MISMATCH'' @
            no (\<not> is s ''designation'' (an_designation an)) ''SUBJECT_MISMATCH'' @
            no (\<not> is s ''programVKey'' (an_program_vkey an)) ''SUBJECT_MISMATCH'' @
            checked v VERIFIER_FIELDS
              (no (\<not> is v ''version'' (va_version (an_verifier an))) ''SUBJECT_MISMATCH'' @
               no (\<not> is v ''runtimeCodeKeccak'' (va_runtime_code_keccak (an_verifier an))) ''SUBJECT_MISMATCH'' @
               no (\<not> is v ''verifierHash'' (va_verifier_hash (an_verifier an))) ''SUBJECT_MISMATCH'') @
            checked vk VERIFYING_KEY_FIELDS
              (no (\<not> is vk ''file'' vk_file \<or> \<not> is vk ''sha256'' (an_vk_sha256 an) \<or>
                   \<not> strict_eq (field vk ''bytes'') (JNum (int (an_vk_bytes an)))) ''VK_MISMATCH'')))"

definition archive_errors :: "(string \<Rightarrow> bool) \<Rightarrow> json \<Rightarrow> string list" where
  "archive_errors https a =
     checked a ARCHIVE_FIELDS
       (no (\<not> rx_match archive_file_rx (js_string (field a ''file''))) ''ARCHIVE_FIELD'' @
        no (\<not> strict_eq (field a ''format'') (JStr archive_format)) ''ARCHIVE_FIELD'' @
        no (\<not> is_count (field a ''bytes'') \<or> field a ''bytes'' = JNum 0) ''ARCHIVE_FIELD'' @
        no (\<not> hex64 (js_string (field a ''sha256''))) ''ARCHIVE_FIELD'' @
        no (\<not> rx_match utc_rx (js_string (field a ''acquiredAtUtc''))) ''ARCHIVE_FIELD'' @
        no (\<not> (case field a ''sourceUrl'' of JStr url \<Rightarrow> https url | _ \<Rightarrow> False)) ''ARCHIVE_FIELD'' @
        no (\<not> strict_eq (field a ''sourceUrlRole'') (JStr provenance_only)) ''SOURCE_IS_AUTHORITY'')"

text \<open>The hosts already seen are the set of the loop; a malformed observation adds none.\<close>

fun acquisition_errors :: "json \<Rightarrow> json list \<Rightarrow> json list \<Rightarrow> string list" where
  "acquisition_errors a hosts [] = []"
| "acquisition_errors a hosts (q # qs) =
     (if exactly q ACQUISITION_FIELDS \<noteq> [] then exactly q ACQUISITION_FIELDS @ acquisition_errors a hosts qs
      else no (\<not> host_label (js_string (field q ''host''))) ''ACQUISITION_FIELD'' @
           no (list_ex (strict_eq (field q ''host'')) hosts) ''ACQUISITION_NOT_INDEPENDENT'' @
           no (\<not> rx_match utc_rx (js_string (field q ''observedAtUtc''))) ''ACQUISITION_FIELD'' @
           no (\<not> strict_eq (field q ''agreement'') (JStr agrees) \<or>
               \<not> strict_eq_opt (field q ''sha256'') (lookup a ''sha256'') \<or>
               \<not> strict_eq_opt (field q ''bytes'') (lookup a ''bytes'')) ''ACQUISITION_DISAGREES'' @
           acquisition_errors a (hosts @ [field q ''host'']) qs)"

text \<open>The reason a member's path is refused; \<open>None\<close> for a canonical path.\<close>

fun json_path_error :: "json \<Rightarrow> string option" where
  "json_path_error (JStr path) = member_path_error path"
| "json_path_error _ = Some ''NOT_A_STRING''"

definition out_of_order :: "json option \<Rightarrow> string \<Rightarrow> bool" where
  "out_of_order prev path =
     (case prev of None \<Rightarrow> False | Some m \<Rightarrow> \<not> str_less (js_string_opt (lookup m ''path'')) path)"

text \<open>The loop over the members: the previous element, the tree and the total so far.\<close>

fun member_errors :: "json option \<Rightarrow> member_tree \<Rightarrow> int \<Rightarrow> json list \<Rightarrow> string list \<times> int" where
  "member_errors prev tree tot [] = ([], tot)"
| "member_errors prev tree tot (m # ms) =
     (let path = js_string (field m ''path'')
      in if exactly m MEMBER_FIELDS \<noteq> []
         then map_prod ((@) (exactly m MEMBER_FIELDS)) id (member_errors (Some m) tree tot ms)
         else if json_path_error (field m ''path'') \<noteq> None
         then map_prod ((#) ''MEMBER_PATH_INVALID'') id (member_errors (Some m) tree tot ms)
         else if is_appledouble_shaped path
         then map_prod ((#) ''APPLEDOUBLE_AS_MEMBER'') id (member_errors (Some m) tree tot ms)
         else let (clash, tree) = tree_add path File tree;
                  tot = (case field m ''bytes'' of JNum n \<Rightarrow> if is_count (JNum n) then tot + n else tot
                           | _ \<Rightarrow> tot)
              in map_prod
                   ((@) (no (clash \<noteq> None) ''MEMBER_PATH_COLLISION'' @
                         no (out_of_order prev path) ''MEMBERS_NOT_SORTED'' @
                         no (\<not> is_count (field m ''bytes'')) ''MEMBER_FIELD'' @
                         no (\<not> hex64 (js_string (field m ''sha256''))) ''MEMBER_FIELD'')) id
                   (member_errors (Some m) tree tot ms))"

definition names_path :: "string \<Rightarrow> json \<Rightarrow> bool" where
  "names_path path m \<longleftrightarrow> lookup m ''path'' = Some (JStr path)"

definition too_large :: "int \<Rightarrow> bool" where
  "too_large tot \<longleftrightarrow> tot > int (max_total_bytes default_limits)"

lemma too_large_code [code]: "too_large tot \<longleftrightarrow> tot > 68719476736"
  by (simp add: too_large_def default_limits_def)

definition members_errors :: "archive_anchor \<Rightarrow> json \<Rightarrow> string list" where
  "members_errors an j =
     (case elements j of
        None \<Rightarrow> [''MEMBERS_MISSING'']
      | Some ms \<Rightarrow>
          if ms = [] then [''MEMBERS_MISSING'']
          else let (errors, tot) = member_errors None [] 0 ms
               in errors @ no (too_large tot) ''MEMBERS_TOO_LARGE'' @
                  concat (map (\<lambda>req. no (\<not> list_ex (names_path req) ms) ''REQUIRED_MEMBER_MISSING'') required_members) @
                  (case find (names_path vk_file) ms of
                     None \<Rightarrow> []
                   | Some vk \<Rightarrow> no (''0x'' @ js_string_opt (lookup vk ''sha256'') \<noteq> an_vk_sha256 an \<or>
                       lookup vk ''bytes'' \<noteq> Some (JNum (int (an_vk_bytes an)))) ''VK_MISMATCH''))"

definition metadatum_body :: "json \<Rightarrow> bool" where
  "metadatum_body m \<longleftrightarrow>
     list_ex (\<lambda>(n, sha). field m ''bytes'' = JNum (int n) \<and> field m ''sha256'' = JStr sha) appledouble_bodies"

fun metadatum_companion :: "json \<Rightarrow> string option" where
  "metadatum_companion (JStr path) = appledouble_companion path"
| "metadatum_companion _ = None"

fun metadatum_errors :: "json list \<Rightarrow> json option \<Rightarrow> json list \<Rightarrow> string list" where
  "metadatum_errors members prev [] = []"
| "metadatum_errors members prev (m # ms) =
     (if exactly m METADATA_FIELDS \<noteq> [] then exactly m METADATA_FIELDS
      else case metadatum_companion (field m ''path'') of
             None \<Rightarrow> [''METADATA_PATH_INVALID'']
           | Some companion \<Rightarrow>
               no (companion \<noteq> [] \<and> \<not> list_ex (names_path companion) members) ''METADATA_WITHOUT_COMPANION'' @
               no (out_of_order prev (js_string (field m ''path''))) ''METADATA_NOT_SORTED'' @
               no (\<not> metadatum_body m) ''METADATA_BODY_UNEXPECTED'' @
               no (\<not> strict_eq (field m ''disposition'') (JStr ignored_appledouble_metadata)) ''METADATA_DISPOSITION'') @
     metadatum_errors members (Some m) ms"

definition metadata_errors :: "json \<Rightarrow> json \<Rightarrow> string list" where
  "metadata_errors members j =
     (case elements j of
        None \<Rightarrow> [''METADATA_MISSING'']
      | Some ms \<Rightarrow> metadatum_errors (case elements members of None \<Rightarrow> [] | Some xs \<Rightarrow> xs) None ms)"

definition gnark_image :: "json \<Rightarrow> string" where
  "gnark_image g = js_string (field g ''repository'') @ ''@'' @ js_string (field g ''digest'')"

definition gnark_errors :: "json \<Rightarrow> string list" where
  "gnark_errors g =
     (let ob = field g ''observation''; mirror = field g ''mirror''
      in checked g GNARK_FIELDS
           (no (image_ref_error (gnark_image g) \<noteq> None) ''GNARK_NOT_DIGEST_PINNED'' @
            no (\<not> is_text (field g ''tag'') \<or> \<not> strict_eq (field g ''tagRole'') (JStr provenance_only))
              ''TAG_IS_AUTHORITY'' @
            checked ob GNARK_OBSERVATION_FIELDS
              (no (\<not> host_label (js_string (field ob ''host'')) \<or>
                   \<not> rx_match utc_rx (js_string (field ob ''observedAtUtc'')) \<or> \<not> is_text (field ob ''method''))
                 ''GNARK_FIELD'') @
            (if mirror = JNull then []
             else checked mirror GNARK_MIRROR_FIELDS
               (no (\<not> is_text (field mirror ''location'') \<or> \<not> strict_eq (field mirror ''digest'') (field g ''digest''))
                  ''GNARK_FIELD''))))"

fun mirror_errors :: "json \<Rightarrow> json list \<Rightarrow> json list \<Rightarrow> string list" where
  "mirror_errors a seen [] = []"
| "mirror_errors a seen (m # ms) =
     (if exactly m MIRROR_FIELDS \<noteq> [] then exactly m MIRROR_FIELDS @ mirror_errors a seen ms
      else no (\<not> is_text (field m ''location'') \<or> list_ex (strict_eq (field m ''location'')) seen) ''MIRROR_FIELD'' @
           no (\<not> strict_eq_opt (field m ''sha256'') (lookup a ''sha256'')) ''MIRROR_DIGEST_MISMATCH'' @
           mirror_errors a (seen @ [field m ''location'']) ms)"

text \<open>A list of at least so many elements, each judged by the loop.\<close>

definition at_least :: "nat \<Rightarrow> string \<Rightarrow> (json list \<Rightarrow> string list) \<Rightarrow> json \<Rightarrow> string list" where
  "at_least n missing judge j =
     (case elements j of None \<Rightarrow> [missing] | Some xs \<Rightarrow> if length xs < n then [missing] else judge xs)"

definition archive_record_errors :: "(string \<Rightarrow> bool) \<Rightarrow> archive_anchor \<Rightarrow> json \<Rightarrow> string list" where
  "archive_record_errors https an r =
     (let a = field r ''archive''
      in checked r RECORD_FIELDS
           (no (\<not> strict_eq (field r ''schema'') (JStr archive_record_schema)) ''SCHEMA'' @
            subject_errors an (field r ''subject'') @
            archive_errors https a @
            at_least min_acquisitions ''ACQUISITIONS_MISSING'' (acquisition_errors a []) (field r ''acquisitions'') @
            members_errors an (field r ''members'') @
            metadata_errors (field r ''members'') (field r ''metadata'') @
            gnark_errors (field r ''gnark'') @
            at_least min_mirrors ''MIRRORS_MISSING'' (mirror_errors a []) (field r ''mirrors'')))"

section \<open>An accepted record\<close>

text \<open>
  What the program reads of a record once it is accepted. The digests stay JSON values: their text was
  checked, their type was not.
\<close>

record record_member =
  rm_path :: string
  rm_bytes :: nat
  rm_sha256 :: json

record archive_record =
  ar_bytes :: nat
  ar_sha256 :: json
  ar_members :: "record_member list"
  ar_metadata :: "record_member list"
  ar_image :: string

definition json_nat :: "json \<Rightarrow> nat" where
  "json_nat j = (case j of JNum n \<Rightarrow> nat n | _ \<Rightarrow> 0)"

definition typed_member :: "json \<Rightarrow> record_member" where
  "typed_member m =
     \<lparr>rm_path = js_string (field m ''path''), rm_bytes = json_nat (field m ''bytes''), rm_sha256 = field m ''sha256''\<rparr>"

definition typed_members :: "json \<Rightarrow> record_member list" where
  "typed_members j = (case elements j of None \<Rightarrow> [] | Some ms \<Rightarrow> map typed_member ms)"

definition typed_record :: "json \<Rightarrow> archive_record" where
  "typed_record r =
     \<lparr>ar_bytes = json_nat (field (field r ''archive'') ''bytes''), ar_sha256 = field (field r ''archive'') ''sha256'',
      ar_members = typed_members (field r ''members''), ar_metadata = typed_members (field r ''metadata''),
      ar_image = gnark_image (field r ''gnark'')\<rparr>"

definition accepted_record :: "(string \<Rightarrow> bool) \<Rightarrow> archive_anchor \<Rightarrow> json \<Rightarrow> refusal + archive_record" where
  "accepted_record https an r =
     (case archive_record_errors https an r of
        [] \<Rightarrow> Inr (typed_record r)
      | reason # _ \<Rightarrow> Inl (refuse RECORD_INVALID reason))"

section \<open>What acceptance gives\<close>

lemma no_Nil [simp]: "no bad reason = [] \<longleftrightarrow> \<not> bad"
  by (simp add: no_def)

abbreviation host_of :: "json \<Rightarrow> json" where
  "host_of q \<equiv> field q ''host''"

lemma acquisition_errors_Nil:
  "acquisition_errors a hosts qs = [] \<Longrightarrow>
    (\<forall>q \<in> set qs. lookup a ''sha256'' = Some (field q ''sha256'') \<and> strict_eq (field q ''sha256'') (field q ''sha256'')) \<and>
    (\<forall>q \<in> set qs. \<forall>h \<in> set hosts. \<not> strict_eq (host_of q) h) \<and>
    sorted_wrt (\<lambda>p q. \<not> strict_eq (host_of q) (host_of p)) qs"
proof (induction qs arbitrary: hosts)
  case (Cons q qs)
  then have "acquisition_errors a (hosts @ [host_of q]) qs = []" by (simp split: if_splits)
  note IH = Cons.IH [OF this]
  have "\<not> list_ex (strict_eq (host_of q)) hosts" "strict_eq_opt (field q ''sha256'') (lookup a ''sha256'')"
    using Cons.prems by (simp_all split: if_splits)
  moreover from this(2) have "lookup a ''sha256'' = Some (field q ''sha256'')"
    "strict_eq (field q ''sha256'') (field q ''sha256'')"
    by (auto simp: strict_eq_opt_iff dest: strict_eq_imp_eq)
  ultimately show ?case using IH by (auto simp: list_ex_iff)
qed simp

lemma text_hosts_distinct:
  "sorted_wrt (\<lambda>p q. \<not> strict_eq (host_of q) (host_of p)) qs \<Longrightarrow> list_all (is_text \<circ> host_of) qs \<Longrightarrow>
    distinct (map host_of qs)"
  by (induction qs) (fastforce simp: is_text_iff)+

text \<open>A member as the loop leaves it unchallenged.\<close>

definition member_json_ok :: "json \<Rightarrow> bool" where
  "member_json_ok m \<longleftrightarrow>
     (\<exists>path n. lookup m ''path'' = Some (JStr path) \<and> member_path_error path = None \<and> \<not> is_appledouble_shaped path \<and>
       lookup m ''bytes'' = Some (JNum n) \<and> 0 \<le> n \<and> n \<le> max_safe \<and>
       lookup m ''sha256'' = Some (field m ''sha256'') \<and>
       hex64 (js_string (field m ''sha256'')))"

lemma json_path_error_None: "json_path_error j = None \<longleftrightarrow> (\<exists>path. j = JStr path \<and> member_path_error path = None)"
  by (cases j) auto

lemma member_fields: "exactly m MEMBER_FIELDS = [] \<Longrightarrow>
    lookup m ''path'' = Some (field m ''path'') \<and> lookup m ''bytes'' = Some (field m ''bytes'') \<and>
    lookup m ''sha256'' = Some (field m ''sha256'')"
  using exactly_lookup [of m MEMBER_FIELDS] by (simp add: MEMBER_FIELDS_def)

lemma member_errors_Cons:
  assumes "member_errors prev tree tot (m # ms) = ([], tot')"
  obtains "member_json_ok m" and "fst (tree_add (rm_path (typed_member m)) File tree) = None"
    and "\<not> out_of_order prev (rm_path (typed_member m))"
    and "member_errors (Some m) (snd (tree_add (rm_path (typed_member m)) File tree))
      (tot + int (rm_bytes (typed_member m))) ms = ([], tot')"
proof -
  let ?path = "js_string (field m ''path'')"
  have e: "exactly m MEMBER_FIELDS = []" "json_path_error (field m ''path'') = None" "\<not> is_appledouble_shaped ?path"
    using assms by (auto simp: Let_def map_prod_def split: if_splits prod.splits)
  note r = assms [unfolded member_errors.simps Let_def, simplified e, simplified]
  obtain clash t where t: "tree_add ?path File tree = (clash, t)" by (metis surj_pair)
  have f: "clash = None" "\<not> out_of_order prev ?path" "is_count (field m ''bytes'')"
    "hex64 (js_string (field m ''sha256''))"
    using r unfolding t by (auto simp: map_prod_def split: prod.splits)
  then obtain n where n: "field m ''bytes'' = JNum n" "0 \<le> n" "n \<le> max_safe" by (auto simp: is_count_iff)
  have rest: "member_errors (Some m) t (tot + n) ms = ([], tot')"
    using r f n unfolding t by (auto simp: map_prod_def split: prod.splits)
  have "member_json_ok m"
    using member_fields [OF e(1)] e(2,3) f(4) n by (auto simp: member_json_ok_def json_path_error_None)
  then show ?thesis
    using that f rest n by (simp add: typed_member_def t json_nat_def)
qed

lemma member_errors_Nil:
  assumes "member_errors prev tree tot ms = ([], tot')" and "tree_rep tree es"
  shows "list_all member_json_ok ms \<and>
    compatible (es @ map (\<lambda>m. (rm_path (typed_member m), File)) ms) \<and>
    tot' = tot + int (sum_list (map (rm_bytes \<circ> typed_member) ms)) \<and>
    sorted_wrt str_less (map (rm_path \<circ> typed_member) ms) \<and>
    (ms \<noteq> [] \<longrightarrow> \<not> out_of_order prev (rm_path (typed_member (hd ms))))"
  using assms
proof (induction ms arbitrary: prev tree tot es)
  case Nil
  then show ?case using tree_rep_compatible by simp
next
  case (Cons m ms)
  let ?p = "rm_path (typed_member m)"
  obtain c: "member_json_ok m" "fst (tree_add ?p File tree) = None" "\<not> out_of_order prev ?p"
    "member_errors (Some m) (snd (tree_add ?p File tree)) (tot + int (rm_bytes (typed_member m))) ms = ([], tot')"
    using Cons.prems(1) by (rule member_errors_Cons)
  note IH = Cons.IH [OF c(4) tree_add_rep [OF Cons.prems(2) c(2)]]
  obtain path where path: "lookup m ''path'' = Some (JStr path)" "?p = path"
    using c(1) by (auto simp: member_json_ok_def typed_member_def field_def)
  have "str_less ?p q" if "q \<in> set (map (rm_path \<circ> typed_member) ms)" for q
  proof (cases ms)
    case Nil
    then show ?thesis using that by simp
  next
    case (Cons m' ms')
    then have "str_less ?p (rm_path (typed_member m'))"
      using IH path by (simp add: out_of_order_def js_string_opt_def)
    moreover have "q = rm_path (typed_member m') \<or> str_less (rm_path (typed_member m')) q"
      using that IH Cons by auto
    ultimately show ?thesis by (blast intro: str_less_trans)
  qed
  then show ?case using IH c by simp
qed

lemma typed_member_path: "names_path path m \<Longrightarrow> rm_path (typed_member m) = path"
  by (simp add: names_path_def typed_member_def field_def)

text \<open>The members an accepted record names.\<close>

definition members_ok :: "archive_anchor \<Rightarrow> record_member list \<Rightarrow> bool" where
  "members_ok an ms \<longleftrightarrow>
     compatible (map (\<lambda>m. (rm_path m, File)) ms) \<and> sorted_wrt str_less (map rm_path ms) \<and>
     list_all (\<lambda>m. member_path_error (rm_path m) = None \<and> \<not> is_appledouble_shaped (rm_path m) \<and>
       hex64 (js_string (rm_sha256 m))) ms \<and>
     sum_list (map rm_bytes ms) \<le> max_total_bytes default_limits \<and>
     set required_members \<subseteq> set (map rm_path ms) \<and>
     list_ex (\<lambda>m. rm_path m = vk_file \<and> ''0x'' @ js_string (rm_sha256 m) = an_vk_sha256 an \<and>
       rm_bytes m = an_vk_bytes an) ms"

lemma find_if_ex: "\<exists>x \<in> set xs. P x \<Longrightarrow> \<exists>x. find P xs = Some x"
  using find_None_set [of P xs] by (cases "find P xs") auto

lemma members_errors_Nil:
  assumes "members_errors an j = []"
  shows "members_ok an (typed_members j)"
proof -
  obtain ms where ms: "elements j = Some ms" "ms \<noteq> []"
    using assms by (auto simp: members_errors_def split: option.splits if_splits)
  obtain errors tot where loop: "member_errors None [] 0 ms = (errors, tot)" by (metis surj_pair)
  have e: "errors = []" and le: "tot \<le> int (max_total_bytes default_limits)"
    and req: "\<forall>req \<in> set required_members. list_ex (names_path req) ms"
    and vk: "(case find (names_path vk_file) ms of None \<Rightarrow> []
      | Some vk \<Rightarrow> no (''0x'' @ js_string_opt (lookup vk ''sha256'') \<noteq> an_vk_sha256 an \<or>
          lookup vk ''bytes'' \<noteq> Some (JNum (int (an_vk_bytes an)))) ''VK_MISMATCH'') = []"
    using assms ms loop by (auto simp: members_errors_def Let_def too_large_def)
  note inv = member_errors_Nil [OF loop [unfolded e] tree_rep_Nil]
  have ok: "list_all member_json_ok ms" and tot: "tot = int (sum_list (map (rm_bytes \<circ> typed_member) ms))"
    using inv by simp_all
  have named: "\<exists>m \<in> set ms. names_path req m" if "req \<in> set required_members" for req
    using req that by (auto simp: list_ex_iff)
  have all: "set required_members \<subseteq> set (map rm_path (map typed_member ms))"
  proof
    fix req assume "req \<in> set required_members"
    then obtain m where "m \<in> set ms" "names_path req m" using named by blast
    then show "req \<in> set (map rm_path (map typed_member ms))" using typed_member_path by force
  qed
  have "vk_file \<in> set required_members" by (simp add: required_members_def)
  then obtain v where v: "find (names_path vk_file) ms = Some v" using find_if_ex [OF named] by blast
  then have m: "v \<in> set ms" "names_path vk_file v" using find_Some_set by fastforce+
  then obtain sha where "lookup v ''sha256'' = Some sha" using ok by (auto simp: list_all_iff member_json_ok_def)
  then have "rm_path (typed_member v) = vk_file \<and> ''0x'' @ js_string (rm_sha256 (typed_member v)) = an_vk_sha256 an \<and>
      rm_bytes (typed_member v) = an_vk_bytes an"
    using vk v typed_member_path [OF m(2)] by (simp add: typed_member_def json_nat_def js_string_opt_def field_def)
  then have key: "list_ex (\<lambda>m. rm_path m = vk_file \<and> ''0x'' @ js_string (rm_sha256 m) = an_vk_sha256 an \<and>
      rm_bytes m = an_vk_bytes an) (map typed_member ms)"
    using m(1) by (auto simp: list_ex_iff)
  have each: "list_all (\<lambda>m. member_path_error (rm_path m) = None \<and> \<not> is_appledouble_shaped (rm_path m) \<and>
       hex64 (js_string (rm_sha256 m))) (map typed_member ms)"
    using ok by (fastforce simp: list_all_iff member_json_ok_def typed_member_def field_def)
  show ?thesis
    using inv le tot all key each
    by (simp add: members_ok_def typed_members_def ms(1) o_def)
qed

text \<open>The metadata of an accepted record.\<close>

definition metadatum_ok :: "record_member list \<Rightarrow> record_member \<Rightarrow> bool" where
  "metadatum_ok ms d \<longleftrightarrow>
     list_ex (\<lambda>(n, sha). rm_bytes d = n \<and> rm_sha256 d = JStr sha) appledouble_bodies \<and>
     (case appledouble_companion (rm_path d) of
        None \<Rightarrow> False | Some companion \<Rightarrow> companion = [] \<or> companion \<in> set (map rm_path ms))"

lemma metadatum_errors_Nil:
  "metadatum_errors members prev ds = [] \<Longrightarrow>
    list_all (metadatum_ok (map typed_member members)) (map typed_member ds) \<and>
    sorted_wrt str_less (map (rm_path \<circ> typed_member) ds) \<and>
    (ds \<noteq> [] \<longrightarrow> \<not> out_of_order prev (rm_path (typed_member (hd ds))))"
proof (induction ds arbitrary: prev)
  case (Cons d ds)
  obtain path companion where p: "field d ''path'' = JStr path" "appledouble_companion path = Some companion"
    using Cons.prems by (cases "field d ''path''") (auto split: if_splits option.splits)
  have e: "exactly d METADATA_FIELDS = []" using Cons.prems by (auto split: if_splits)
  then have l: "lookup d ''path'' = Some (JStr path)"
    using exactly_lookup [of d METADATA_FIELDS "''path''"] p(1) by (simp add: METADATA_FIELDS_def)
  have c: "companion = [] \<or> list_ex (names_path companion) members" "\<not> out_of_order prev path" "metadatum_body d"
    "metadatum_errors members (Some d) ds = []"
    using Cons.prems e p by auto
  note IH = Cons.IH [OF c(4)]
  have "companion \<in> set (map rm_path (map typed_member members))" if "companion \<noteq> []"
    using c(1) that typed_member_path by (force simp: list_ex_iff)
  then have ok: "metadatum_ok (map typed_member members) (typed_member d)"
    using p c(3) by (auto simp: metadatum_ok_def metadatum_body_def typed_member_def json_nat_def list_ex_iff)
  have path: "rm_path (typed_member d) = path" by (simp add: typed_member_def p)
  have "str_less path q" if "q \<in> set (map (rm_path \<circ> typed_member) ds)" for q
  proof (cases ds)
    case Nil
    then show ?thesis using that by simp
  next
    case (Cons d' ds')
    then have "str_less path (rm_path (typed_member d'))"
      using IH l by (simp add: out_of_order_def js_string_opt_def)
    moreover have "q = rm_path (typed_member d') \<or> str_less (rm_path (typed_member d')) q"
      using that IH Cons by auto
    ultimately show ?thesis by (blast intro: str_less_trans)
  qed
  then show ?case using IH c(2) ok path by simp
qed simp

lemma metadata_errors_Nil:
  assumes "metadata_errors members j = []"
  shows "list_all (metadatum_ok (typed_members members)) (typed_members j) \<and>
    sorted_wrt str_less (map rm_path (typed_members j))"
proof -
  obtain ds where ds: "elements j = Some ds" using assms by (auto simp: metadata_errors_def split: option.splits)
  let ?ms = "case elements members of None \<Rightarrow> [] | Some xs \<Rightarrow> xs"
  have ms: "typed_members members = map typed_member ?ms" by (simp add: typed_members_def split: option.splits)
  have "metadatum_errors ?ms None ds = []" using assms ds by (simp add: metadata_errors_def)
  from metadatum_errors_Nil [OF this] show ?thesis unfolding ms by (simp add: typed_members_def ds o_def)
qed

section \<open>Properties\<close>

lemma gnark_errors_Nil: "gnark_errors g = [] \<Longrightarrow> image_ref_error (gnark_image g) = None"
  by (simp add: gnark_errors_def checked_Nil Let_def)

lemma subject_errors_Nil:
  assumes "subject_errors an s = []"
  shows "field s ''circuitSystem'' = JStr circuit_system \<and> field s ''circuitVersion'' = JStr (an_circuit_version an) \<and>
    field s ''designation'' = JStr (an_designation an) \<and> field s ''programVKey'' = JStr (an_program_vkey an)"
  using assms by (simp add: subject_errors_def checked_Nil Let_def)

lemma accepted_record_Inr:
  "accepted_record https an r = Inr rec \<longleftrightarrow> archive_record_errors https an r = [] \<and> rec = typed_record r"
  by (auto simp: accepted_record_def split: list.splits)

definition acquisitions_of :: "json \<Rightarrow> json list" where
  "acquisitions_of r = (case elements (field r ''acquisitions'') of None \<Rightarrow> [] | Some qs \<Rightarrow> qs)"

lemma record_acquisitions:
  assumes "archive_record_errors https an r = []"
  shows "2 \<le> length (acquisitions_of r) \<and>
    (list_all (is_text \<circ> host_of) (acquisitions_of r) \<longrightarrow> distinct (map host_of (acquisitions_of r)))"
proof -
  obtain qs where qs: "field r ''acquisitions'' = JArr qs" "2 \<le> length qs"
    "acquisition_errors (field r ''archive'') [] qs = []"
    using assms
    by (auto simp: archive_record_errors_def checked_Nil at_least_def min_acquisitions_def Let_def elements_Some
        split: option.splits if_splits)
  have "sorted_wrt (\<lambda>p q. \<not> strict_eq (host_of q) (host_of p)) qs"
    using acquisition_errors_Nil [OF qs(3)] by simp
  then show ?thesis using qs(1,2) text_hosts_distinct by (simp add: acquisitions_of_def)
qed

text \<open>C36: A record acceptedRecord returns is about the anchor's circuit and safe to install from: its members are canonical,
  never AppleDouble-shaped, compatible paths in strictly ascending order within the size limit, with the required files
  and a verifying key that is the anchor's; its metadata describes members (or the root) by one of the allowed
  AppleDouble paths and bodies; its gnark image is pinned by digest; and it names two acquisitions, from different
  hosts when the hosts are text.\<close>

theorem accepted_record_sound:
  assumes "accepted_record https an r = Inr rec"
  shows "members_ok an (ar_members rec) \<and> list_all (metadatum_ok (ar_members rec)) (ar_metadata rec) \<and>
    sorted_wrt str_less (map rm_path (ar_metadata rec)) \<and> image_ref_error (ar_image rec) = None \<and>
    field (field r ''subject'') ''circuitVersion'' = JStr (an_circuit_version an) \<and>
    field (field r ''subject'') ''designation'' = JStr (an_designation an) \<and>
    2 \<le> length (acquisitions_of r) \<and>
    (list_all (is_text \<circ> host_of) (acquisitions_of r) \<longrightarrow> distinct (map host_of (acquisitions_of r)))"
proof -
  have e: "archive_record_errors https an r = []" and rec: "rec = typed_record r"
    using assms by (simp_all add: accepted_record_Inr)
  then have parts: "members_errors an (field r ''members'') = []"
    "metadata_errors (field r ''members'') (field r ''metadata'') = []"
    "gnark_errors (field r ''gnark'') = []" "subject_errors an (field r ''subject'') = []"
    by (simp_all add: archive_record_errors_def checked_Nil Let_def)
  show ?thesis
    using members_errors_Nil [OF parts(1)] metadata_errors_Nil [OF parts(2)] gnark_errors_Nil [OF parts(3)]
      subject_errors_Nil [OF parts(4)] record_acquisitions [OF e]
    by (simp add: rec typed_record_def)
qed

text \<open>A record in the form the code writes, for two acquisitions from the given hosts.\<close>

definition sample_hex :: string where
  "sample_hex = replicate 64 CHR ''0''"

definition sample_anchor :: archive_anchor where
  "sample_anchor =
     \<lparr>an_designation = ''d'', an_circuit_version = ''v6.1.0'', an_program_vkey = ''0x1'',
      an_verifier = \<lparr>va_version = ''v6'', va_runtime_code_keccak = ''0x2'', va_verifier_hash = ''0x3''\<rparr>,
      an_vk_sha256 = ''0x'' @ sample_hex, an_vk_bytes = 396\<rparr>"

definition sample_member :: "string \<Rightarrow> json" where
  "sample_member path = JObj [(''path'', JStr path), (''bytes'', JNum 396), (''sha256'', JStr sample_hex)]"

definition sample_record :: "json list \<Rightarrow> json" where
  "sample_record hosts =
     (let utc = JStr ''2026-01-02T03:04:05Z''; sha = JStr sample_hex
      in JObj
       [(''schema'', JStr archive_record_schema),
        (''subject'', JObj
          [(''circuitSystem'', JStr circuit_system), (''circuitVersion'', JStr ''v6.1.0''), (''designation'', JStr ''d''),
           (''programVKey'', JStr ''0x1''),
           (''verifier'', JObj [(''version'', JStr ''v6''), (''runtimeCodeKeccak'', JStr ''0x2''), (''verifierHash'', JStr ''0x3'')]),
           (''verifyingKey'', JObj [(''file'', JStr vk_file), (''sha256'', JStr (''0x'' @ sample_hex)), (''bytes'', JNum 396)])]),
        (''archive'', JObj
          [(''file'', JStr ''a.tar.gz''), (''format'', JStr archive_format), (''bytes'', JNum 7), (''sha256'', sha),
           (''acquiredAtUtc'', utc), (''sourceUrl'', JStr ''https://x''), (''sourceUrlRole'', JStr provenance_only)]),
        (''acquisitions'', JArr (map (\<lambda>h. JObj
          [(''host'', h), (''observedAtUtc'', utc), (''bytes'', JNum 7), (''sha256'', sha), (''agreement'', JStr agrees)]) hosts)),
        (''members'', JArr (map sample_member required_members)),
        (''metadata'', JArr []),
        (''gnark'', JObj
          [(''repository'', JStr ''ghcr.io/succinctlabs/sp1-gnark''), (''tag'', JStr ''v6''), (''tagRole'', JStr provenance_only),
           (''digest'', JStr (''sha256:'' @ sample_hex)),
           (''observation'', JObj [(''host'', JStr ''h''), (''observedAtUtc'', utc), (''method'', JStr ''m'')]),
           (''mirror'', JNull)]),
        (''mirrors'', JArr (map (\<lambda>l. JObj [(''location'', JStr l), (''sha256'', sha)]) [''m1'', ''m2'']))])"

theorem accepted_record_sound_witness:
  "\<exists>rec. accepted_record (\<lambda>_. True) sample_anchor (sample_record [JStr ''a'', JStr ''b'']) = Inr rec \<and>
    members_ok sample_anchor (ar_members rec)"
proof -
  have "archive_record_errors (\<lambda>_. True) sample_anchor (sample_record [JStr ''a'', JStr ''b'']) = []" by code_simp
  then have r: "accepted_record (\<lambda>_. True) sample_anchor (sample_record [JStr ''a'', JStr ''b'']) =
      Inr (typed_record (sample_record [JStr ''a'', JStr ''b'']))"
    by (simp add: accepted_record_Inr)
  then show ?thesis using accepted_record_sound [OF r] by blast
qed

section \<open>One host, twice\<close>

text \<open>\<open>j\<close> with another value of a property it has; a record with one host in every acquisition.\<close>

definition with_field :: "string \<Rightarrow> json \<Rightarrow> json \<Rightarrow> json" where
  "with_field k v j =
     (case j of JObj kvs \<Rightarrow> JObj (map (\<lambda>(n, x). if n = k then (n, v) else (n, x)) kvs) | _ \<Rightarrow> j)"

definition same_host :: "json \<Rightarrow> json \<Rightarrow> json" where
  "same_host h r = with_field ''acquisitions'' (JArr (map (with_field ''host'' h) (acquisitions_of r))) r"

lemma map_of_with:
  "map_of (map (\<lambda>(n, x). if n = k then (n, v) else (n, x)) kvs) k' =
    (if k' = k then map_option (\<lambda>_. v) (map_of kvs k) else map_of kvs k')"
  by (induction kvs) auto

lemma lookup_with_field:
  "lookup (with_field k v j) k' = (if k' = k then map_option (\<lambda>_. v) (lookup j k) else lookup j k')"
  by (cases j) (simp_all add: with_field_def map_of_with)

lemma field_with_field_other [simp]: "k' \<noteq> k \<Longrightarrow> field (with_field k v j) k' = field j k'"
  by (simp add: field_def lookup_with_field)

lemma field_with_field: "exactly j keys = [] \<Longrightarrow> k \<in> set keys \<Longrightarrow> field (with_field k v j) k = v"
  using exactly_lookup [of j keys k] unfolding field_def lookup_with_field by (cases "lookup j k") auto

lemma exactly_with_field [simp]: "exactly (with_field k v j) keys = [] \<longleftrightarrow> exactly j keys = []"
proof -
  have "fst ` set (map (\<lambda>(n, x). if n = k then (n, v) else (n, x)) kvs) = fst ` set kvs" for kvs :: "(string \<times> json) list"
    by (induction kvs) auto
  then show ?thesis by (cases j) (simp_all add: exactly_Nil with_field_def)
qed

text \<open>An array passes as a host whatever hosts came before; a name that came before is refused.\<close>

lemma acquisitions_array_host:
  assumes "acquisition_errors a hosts qs = []" and "host_label h"
  shows "acquisition_errors a hosts' (map (with_field ''host'' (JArr [JStr h])) qs) = []"
  using assms(1)
proof (induction qs arbitrary: hosts hosts')
  case (Cons q qs)
  have e: "exactly q ACQUISITION_FIELDS = []" using Cons.prems by (simp split: if_splits)
  have h: "field (with_field ''host'' (JArr [JStr h]) q) ''host'' = JArr [JStr h]"
    by (rule field_with_field [OF e]) (simp add: ACQUISITION_FIELDS_def)
  have "acquisition_errors a (hosts @ [host_of q]) qs = []" using Cons.prems e by simp
  note IH = Cons.IH [OF this]
  have "\<not> list_ex (strict_eq (JArr [JStr h])) xs" for xs by (induction xs) auto
  moreover have "js_string (JArr [JStr h]) = h" by simp
  ultimately show ?case using Cons.prems assms(2) e IH by (simp add: h del: js_string.simps)
qed simp

lemma acquisitions_text_host:
  assumes "acquisition_errors a hosts qs = []" and "2 \<le> length qs"
  shows "''ACQUISITION_NOT_INDEPENDENT'' \<in> set (acquisition_errors a hosts' (map (with_field ''host'' (JStr h)) qs))"
proof -
  obtain q q' rest where qs: "qs = q # q' # rest" using assms(2) by (cases qs; cases "tl qs") auto
  have e: "exactly q ACQUISITION_FIELDS = []" "exactly q' ACQUISITION_FIELDS = []"
    using assms(1) by (auto simp: qs split: if_splits)
  have "field (with_field ''host'' (JStr h) x) ''host'' = JStr h" if "exactly x ACQUISITION_FIELDS = []" for x
    by (rule field_with_field [OF that]) (simp add: ACQUISITION_FIELDS_def)
  with e show ?thesis by (simp add: qs no_def)
qed

lemma acquisitions_exact: "acquisition_errors a hosts qs = [] \<Longrightarrow> q \<in> set qs \<Longrightarrow> exactly q ACQUISITION_FIELDS = []"
  by (induction qs arbitrary: hosts) (auto split: if_splits)

lemma acquisitions_of_same_host:
  assumes "archive_record_errors https an r = []"
  shows "acquisitions_of (same_host h r) = map (with_field ''host'' h) (acquisitions_of r)"
proof -
  have "field (same_host h r) ''acquisitions'' = JArr (map (with_field ''host'' h) (acquisitions_of r))"
    unfolding same_host_def
    by (rule field_with_field [of r RECORD_FIELDS])
       (use assms in \<open>simp_all add: archive_record_errors_def checked_Nil Let_def RECORD_FIELDS_def\<close>)
  then show ?thesis by (simp add: acquisitions_of_def)
qed

lemma same_host_errors:
  assumes "archive_record_errors https an r = []"
  shows "archive_record_errors https an (same_host h r) =
    acquisition_errors (field r ''archive'') [] (map (with_field ''host'' h) (acquisitions_of r))"
    and "acquisition_errors (field r ''archive'') [] (acquisitions_of r) = []"
proof -
  have e: "exactly r RECORD_FIELDS = []" using assms by (simp add: archive_record_errors_def checked_Nil Let_def)
  have "field (same_host h r) ''acquisitions'' = JArr (map (with_field ''host'' h) (acquisitions_of r))"
    unfolding same_host_def by (rule field_with_field [OF e]) (simp add: RECORD_FIELDS_def)
  moreover have "field (same_host h r) k = field r k" if "k \<noteq> ''acquisitions''" for k
    using that by (simp add: same_host_def)
  moreover have "exactly (same_host h r) RECORD_FIELDS = []" using e by (simp add: same_host_def)
  moreover obtain qs where qs: "field r ''acquisitions'' = JArr qs" "\<not> length qs < min_acquisitions"
    and ok: "acquisition_errors (field r ''archive'') [] qs = []"
    using assms
    by (auto simp: archive_record_errors_def checked_Nil at_least_def Let_def elements_Some split: option.splits if_splits)
  ultimately show "archive_record_errors https an (same_host h r) =
      acquisition_errors (field r ''archive'') [] (map (with_field ''host'' h) (acquisitions_of r))"
    using assms e by (simp add: archive_record_errors_def checked_def Let_def at_least_def acquisitions_of_def)
  show "acquisition_errors (field r ''archive'') [] (acquisitions_of r) = []"
    using ok by (simp add: acquisitions_of_def qs(1))
qed

text \<open>C37: The acquisitions of a record need not be independent: a host's pattern is tested on \<open>String(host)\<close>, its uniqueness
  on the value itself, and an array of one name passes the first while no two arrays are the same value. Whatever record
  is accepted, it still is when every acquisition names one and the same host, written as an array; written as text, the
  same host is refused as counted twice.\<close>

theorem one_host_counted_twice:
  assumes "archive_record_errors https an r = []" and "host_label h"
  shows "archive_record_errors https an (same_host (JArr [JStr h]) r) = [] \<and>
    2 \<le> length (acquisitions_of (same_host (JArr [JStr h]) r)) \<and>
    list_all (\<lambda>q. js_string (host_of q) = h) (acquisitions_of (same_host (JArr [JStr h]) r)) \<and>
    ''ACQUISITION_NOT_INDEPENDENT'' \<in> set (archive_record_errors https an (same_host (JStr h) r))"
proof -
  note ok = same_host_errors(2) [OF assms(1)]
  have two: "2 \<le> length (acquisitions_of r)" using record_acquisitions [OF assms(1)] by blast
  have "host_of (with_field ''host'' (JArr [JStr h]) q) = JArr [JStr h]" if "q \<in> set (acquisitions_of r)" for q
    using acquisitions_exact [OF ok] that by (intro field_with_field) (auto simp: ACQUISITION_FIELDS_def)
  then have "list_all (\<lambda>q. js_string (host_of q) = h) (acquisitions_of (same_host (JArr [JStr h]) r))"
    by (simp add: acquisitions_of_same_host [OF assms(1)] list_all_iff)
  then show ?thesis
    using acquisitions_array_host [OF ok assms(2)] acquisitions_text_host [OF ok two] two
    by (simp add: same_host_errors(1) [OF assms(1)] acquisitions_of_same_host [OF assms(1)])
qed

theorem one_host_counted_twice_witness:
  "archive_record_errors (\<lambda>_. True) sample_anchor (same_host (JArr [JStr ''h'']) (sample_record [JStr ''a'', JStr ''b''])) = [] \<and>
   ''ACQUISITION_NOT_INDEPENDENT'' \<in>
     set (archive_record_errors (\<lambda>_. True) sample_anchor (same_host (JStr ''h'') (sample_record [JStr ''a'', JStr ''b''])))"
proof -
  have "archive_record_errors (\<lambda>_. True) sample_anchor (sample_record [JStr ''a'', JStr ''b'']) = []" "host_label ''h''"
    by code_simp+
  from one_host_counted_twice [OF this] show ?thesis by blast
qed

end
