(* ===== verification/Circuit_Inspect.thy ===== *)
theory Circuit_Inspect
  imports Archive_Record Tar_Writer
begin

text \<open>
  The inspection of an archive in \<open>scripts/lib/sp1-circuit-archive.ts\<close>: \<open>measureArchive\<close>, \<open>scanArchive\<close>,
  \<open>memberSetErrors\<close>, \<open>vkError\<close> and \<open>inspectArchive\<close>. A file is what one reading of it gives; the two passes
  over an archive get two readings, since the file may change between them. The decompression by zlib
  is part of the reading.
\<close>

section \<open>Reading an archive\<close>

datatype read_end = ReadDone | ReadFailed | GzipFailed

record reading =
  rd_raw :: buffer
  rd_chunks :: "buffer list"
  rd_end :: read_end

datatype archive_file = CannotOpen | NotRegular | Regular reading

text \<open>
  \<open>Refused\<close>: a \<open>CircuitToolingError\<close>; \<open>Thrown\<close>: any other exception. \<open>Diverged\<close> would be a call that does
  not return; no function below answers it.
\<close>

datatype tool_error = Refused refusal | Thrown | Diverged

record measurement =
  ms_sha256 :: string
  ms_bytes :: nat

text \<open>\<open>measureArchive\<close>: the raw bytes, none of them parsed. A failing read is thrown as it is.\<close>

definition measure_archive :: "(buffer \<Rightarrow> string) \<Rightarrow> archive_file \<Rightarrow> tool_error + measurement" where
  "measure_archive sha f =
     (case f of
        CannotOpen \<Rightarrow> Inl (Refused (refuse ARCHIVE_UNREADABLE ''OPEN''))
      | NotRegular \<Rightarrow> Inl (Refused (refuse ARCHIVE_UNREADABLE ''NOT_A_FILE''))
      | Regular rd \<Rightarrow>
          if rd_end rd = ReadFailed then Inl Thrown
          else Inr \<lparr>ms_sha256 = sha (rd_raw rd), ms_bytes = length (rd_raw rd)\<rparr>)"

record 'w scan_result =
  sc_raw :: measurement
  sc_members :: "scanned_member list"
  sc_directories :: "string list"
  sc_metadata :: "scanned_member list"
  sc_provenance :: "string list"
  sc_world :: 'w

text \<open>
  \<open>scanArchive\<close>. The caller's sink has been written to when the scan throws, so a failure is answered with the state
  the sink was left in.
\<close>

definition scan_reading :: "'w parser_opts \<Rightarrow> 'w \<Rightarrow> reading \<Rightarrow> (tool_error \<times> 'w) + 'w scan_result" where
  "scan_reading opts w rd =
     (case feed_all opts (0, new_parser w) (rd_chunks rd) of
        None \<Rightarrow> Inl (Diverged, w)
      | Some (Inl (e, w)) \<Rightarrow> Inl (Refused e, w)
      | Some (Inr (n, p)) \<Rightarrow>
          (case rd_end rd of
             GzipFailed \<Rightarrow> Inl (Refused (corrupt ''GZIP''), p_world p)
           | ReadFailed \<Rightarrow> Inl (Refused (refuse ARCHIVE_UNREADABLE ''READ''), p_world p)
           | ReadDone \<Rightarrow>
               bindE (map_sum (\<lambda>e. (Refused e, p_world p)) id (finish p)) (\<lambda>u.
               Inr \<lparr>sc_raw = \<lparr>ms_sha256 = o_sha256 opts (rd_raw rd), ms_bytes = length (rd_raw rd)\<rparr>,
                    sc_members = p_members p, sc_directories = p_directories p, sc_metadata = p_metadata p,
                    sc_provenance = p_provenance p, sc_world = p_world p\<rparr>)))"

definition scan_archive :: "'w parser_opts \<Rightarrow> 'w \<Rightarrow> archive_file \<Rightarrow> (tool_error \<times> 'w) + 'w scan_result" where
  "scan_archive opts w f =
     (case f of
        CannotOpen \<Rightarrow> Inl (Refused (refuse ARCHIVE_UNREADABLE ''OPEN''), w)
      | NotRegular \<Rightarrow> Inl (Refused (refuse ARCHIVE_UNREADABLE ''NOT_A_FILE''), w)
      | Regular rd \<Rightarrow> scan_reading opts w rd)"

section \<open>Members against a record\<close>

text \<open>\<open>new Map(xs.map((m) => [m.path, m]))\<close>: of two entries with one path the later counts.\<close>

definition path_map :: "record_member list \<Rightarrow> string \<rightharpoonup> record_member" where
  "path_map ms = map_of (rev (map (\<lambda>m. (rm_path m, m)) ms))"

definition vk_error :: "scanned_member list \<Rightarrow> archive_anchor \<Rightarrow> refusal option" where
  "vk_error ms an =
     (case find (\<lambda>m. m_path m = vk_file) ms of
        Some vk \<Rightarrow> if ''0x'' @ m_sha256 vk = an_vk_sha256 an \<and> m_bytes vk = an_vk_bytes an then None
                   else Some (refuse VK_MISMATCH ''VK_MISMATCH'')
      | None \<Rightarrow> Some (refuse VK_MISMATCH ''VK_MISMATCH''))"

definition member_mismatch :: "(string \<rightharpoonup> record_member) \<Rightarrow> scanned_member \<Rightarrow> refusal list" where
  "member_mismatch want a =
     (case want (m_path a) of
        None \<Rightarrow> [refuse ARCHIVE_MEMBER_MISMATCH ''UNEXPECTED_MEMBER'']
      | Some w \<Rightarrow>
          if m_bytes a \<noteq> rm_bytes w then [refuse ARCHIVE_MEMBER_MISMATCH ''SIZE_MISMATCH'']
          else if \<not> strict_eq (JStr (m_sha256 a)) (rm_sha256 w) then [refuse ARCHIVE_MEMBER_MISMATCH ''DIGEST_MISMATCH'']
          else [])"

definition member_set_errors :: "scanned_member list \<Rightarrow> record_member list \<Rightarrow> archive_anchor \<Rightarrow> refusal list" where
  "member_set_errors actual wanted an =
     concat (map (member_mismatch (path_map wanted)) actual) @
     concat (map (\<lambda>w. if rm_path w \<in> set (map m_path actual) then []
                      else [refuse ARCHIVE_MEMBER_MISMATCH ''MISSING_MEMBER'']) wanted) @
     (case vk_error actual an of None \<Rightarrow> [] | Some e \<Rightarrow> [e])"

section \<open>Inspection\<close>

record inspection =
  is_archive :: measurement
  is_members :: "scanned_member list"
  is_directories :: "string list"
  is_metadata :: "scanned_member list"
  is_provenance :: "string list"
  matches_record :: bool

text \<open>The members and the metadata the parser is told to expect, of an accepted record.\<close>

definition expect_members :: "record_member list \<Rightarrow> string \<rightharpoonup> nat" where
  "expect_members ms path = map_option rm_bytes (path_map ms path)"

definition expect_metadata :: "record_member list \<Rightarrow> string \<rightharpoonup> body" where
  "expect_metadata ms path = map_option (\<lambda>m. (rm_bytes m, js_string (rm_sha256 m))) (path_map ms path)"

definition check_measured :: "archive_record option \<Rightarrow> measurement \<Rightarrow> tool_error + unit" where
  "check_measured rec first =
     (case rec of
        None \<Rightarrow> Inr ()
      | Some r \<Rightarrow>
          if ms_bytes first \<noteq> ar_bytes r then Inl (Refused (refuse ARCHIVE_SIZE_MISMATCH ''SIZE''))
          else if \<not> strict_eq (JStr (ms_sha256 first)) (ar_sha256 r)
          then Inl (Refused (refuse ARCHIVE_DIGEST_MISMATCH ''SHA256''))
          else Inr ())"

definition check_scanned :: "archive_anchor \<Rightarrow> archive_record option \<Rightarrow> 'w scan_result \<Rightarrow> tool_error + unit" where
  "check_scanned an rec scan =
     (case rec of
        Some r \<Rightarrow>
          (case member_set_errors (sc_members scan) (ar_members r) an of
             e # _ \<Rightarrow> Inl (Refused e)
           | [] \<Rightarrow>
               if list_ex (\<lambda>m. rm_path m \<notin> set (map m_path (sc_metadata scan))) (ar_metadata r)
               then Inl (Refused (refuse ARCHIVE_MEMBER_MISMATCH ''MISSING_METADATA''))
               else Inr ())
      | None \<Rightarrow>
          if list_ex (\<lambda>p. p \<notin> set (map m_path (sc_members scan))) required_members
          then Inl (Refused (refuse ARCHIVE_MEMBER_MISMATCH ''MISSING_MEMBER''))
          else (case vk_error (sc_members scan) an of Some e \<Rightarrow> Inl (Refused e) | None \<Rightarrow> Inr ()))"

text \<open>\<open>inspectArchive\<close> once the record, if any, is accepted.\<close>

definition inspect_with ::
  "(buffer \<Rightarrow> string) \<Rightarrow> limits \<Rightarrow> archive_anchor \<Rightarrow> archive_record option \<Rightarrow> archive_file \<Rightarrow> archive_file \<Rightarrow>
   tool_error + inspection" where
  "inspect_with sha lim an rec first_file second_file =
     bindE (measure_archive sha first_file) (\<lambda>first.
     bindE (check_measured rec first) (\<lambda>u.
     bindE (map_sum fst id (scan_archive
              (scan_opts lim sha (map_option (\<lambda>r. expect_members (ar_members r)) rec)
                 (map_option (\<lambda>r. expect_metadata (ar_metadata r)) rec)) () second_file)) (\<lambda>scan.
     bindE (if ms_sha256 (sc_raw scan) \<noteq> ms_sha256 first
            then Inl (Refused (refuse ARCHIVE_CHANGED_DURING_USE ''REREAD'')) else Inr ()) (\<lambda>u.
     bindE (check_scanned an rec scan) (\<lambda>u.
     Inr \<lparr>is_archive = first, is_members = sc_members scan, is_directories = sc_directories scan,
          is_metadata = sc_metadata scan,
          is_provenance = map (\<lambda>p. if p = [] then ''.'' else p) (sc_provenance scan),
          matches_record = (rec \<noteq> None)\<rparr>)))))"

definition inspect_archive ::
  "(buffer \<Rightarrow> string) \<Rightarrow> (string \<Rightarrow> bool) \<Rightarrow> limits \<Rightarrow> archive_anchor \<Rightarrow> json option \<Rightarrow> archive_file \<Rightarrow> archive_file \<Rightarrow>
   tool_error + inspection" where
  "inspect_archive sha https lim an untyped first_file second_file =
     bindE (case untyped of None \<Rightarrow> Inr None | Some r \<Rightarrow> map_sum Refused Some (accepted_record https an r)) (\<lambda>rec.
     inspect_with sha lim an rec first_file second_file)"

section \<open>What the comparison decides\<close>

text \<open>A scanned member as a record would name it.\<close>

definition as_record :: "scanned_member \<Rightarrow> record_member" where
  "as_record m = \<lparr>rm_path = m_path m, rm_bytes = m_bytes m, rm_sha256 = JStr (m_sha256 m)\<rparr>"

lemma path_map_Some:
  "distinct (map rm_path ms) \<Longrightarrow> path_map ms path = Some m \<longleftrightarrow> m \<in> set ms \<and> rm_path m = path"
  by (force simp: path_map_def map_of_eq_Some_iff rev_map [symmetric] o_def)

lemma path_map_None: "path_map ms path = None \<longleftrightarrow> path \<notin> set (map rm_path ms)"
  by (force simp: path_map_def map_of_eq_None_iff)

lemma member_mismatch_Nil:
  assumes "distinct (map rm_path ms)"
  shows "member_mismatch (path_map ms) a = [] \<longleftrightarrow> as_record a \<in> set ms"
proof (cases "path_map ms (m_path a)")
  case None
  then have "as_record a \<notin> set ms" by (force simp: path_map_None as_record_def)
  then show ?thesis by (simp add: member_mismatch_def None)
next
  case (Some w)
  then have w: "w \<in> set ms" "rm_path w = m_path a" using path_map_Some [OF assms] by auto
  have "as_record a \<in> set ms \<longleftrightarrow> as_record a = w"
    using w path_map_Some [OF assms, of "m_path a" "as_record a"] Some by (auto simp: as_record_def)
  also have "\<dots> \<longleftrightarrow> m_bytes a = rm_bytes w \<and> JStr (m_sha256 a) = rm_sha256 w"
    using w(2) by (cases w) (auto simp: as_record_def)
  finally show ?thesis by (auto simp: member_mismatch_def Some)
qed

lemma member_set_errors_Nil:
  assumes "distinct (map rm_path wanted)"
  shows "member_set_errors actual wanted an = [] \<longleftrightarrow>
    set (map as_record actual) = set wanted \<and> vk_error actual an = None"
proof -
  have "concat (map (\<lambda>w. if rm_path w \<in> set (map m_path actual) then []
      else [refuse ARCHIVE_MEMBER_MISMATCH ''MISSING_MEMBER'']) wanted) = [] \<longleftrightarrow>
      (\<forall>w \<in> set wanted. rm_path w \<in> set (map m_path actual))"
    by (auto simp: concat_eq_Nil_conv)
  moreover have "concat (map (member_mismatch (path_map wanted)) actual) = [] \<longleftrightarrow>
      set (map as_record actual) \<subseteq> set wanted"
    by (auto simp: concat_eq_Nil_conv member_mismatch_Nil [OF assms])
  moreover have "(\<forall>w \<in> set wanted. rm_path w \<in> set (map m_path actual)) \<longleftrightarrow> set wanted \<subseteq> set (map as_record actual)"
    if sub: "set (map as_record actual) \<subseteq> set wanted"
  proof
    assume all: "\<forall>w \<in> set wanted. rm_path w \<in> set (map m_path actual)"
    show "set wanted \<subseteq> set (map as_record actual)"
    proof
      fix w assume w: "w \<in> set wanted"
      then obtain a where a: "a \<in> set actual" "m_path a = rm_path w" using all by auto
      then have "as_record a \<in> set wanted" using sub by auto
      have "inj_on rm_path (set wanted)" using assms by (simp add: distinct_map)
      moreover have "rm_path (as_record a) = rm_path w" by (simp add: as_record_def a(2))
      ultimately have "as_record a = w" using \<open>as_record a \<in> set wanted\<close> w by (rule inj_onD)
      then show "w \<in> set (map as_record actual)" using a(1) by auto
    qed
  qed (force simp: as_record_def)
  ultimately show ?thesis by (auto simp: member_set_errors_def split: option.splits)
qed

section \<open>Inspecting an archive of record\<close>

text \<open>What the parser is told of an accepted record.\<close>

definition record_opts :: "(buffer \<Rightarrow> string) \<Rightarrow> limits \<Rightarrow> archive_record \<Rightarrow> unit parser_opts" where
  "record_opts sha lim rec =
     scan_opts lim sha (Some (expect_members (ar_members rec))) (Some (expect_metadata (ar_metadata rec)))"

lemma check_measured_Some:
  "check_measured (Some rec) ms = Inr () \<longleftrightarrow>
    ms_bytes ms = ar_bytes rec \<and> ar_sha256 rec = JStr (ms_sha256 ms)"
  by (auto simp: check_measured_def strict_eq_JStr)

lemma check_scanned_Some:
  "check_scanned an (Some rec) scan = Inr () \<longleftrightarrow>
    member_set_errors (sc_members scan) (ar_members rec) an = [] \<and>
    set (map rm_path (ar_metadata rec)) \<subseteq> set (map m_path (sc_metadata scan))"
  by (auto simp: check_scanned_def list_ex_iff split: list.splits)

lemma scan_reading_Inr:
  "scan_reading opts w rd = Inr s \<longleftrightarrow>
    (\<exists>n p. feed_all opts (0, new_parser w) (rd_chunks rd) = Some (Inr (n, p)) \<and> rd_end rd = ReadDone \<and>
      finish p = Inr () \<and>
      s = \<lparr>sc_raw = \<lparr>ms_sha256 = o_sha256 opts (rd_raw rd), ms_bytes = length (rd_raw rd)\<rparr>,
           sc_members = p_members p, sc_directories = p_directories p, sc_metadata = p_metadata p,
           sc_provenance = p_provenance p, sc_world = p_world p\<rparr>)"
  by (auto simp: scan_reading_def bindE_eq_Inr split: option.splits sum.splits read_end.splits)

lemma inspect_with_Some:
  "inspect_with sha lim an (Some rec) first_file second_file = Inr insp \<longleftrightarrow>
    (\<exists>rd rd' n p. first_file = Regular rd \<and> second_file = Regular rd' \<and> rd_end rd \<noteq> ReadFailed \<and>
      length (rd_raw rd) = ar_bytes rec \<and> ar_sha256 rec = JStr (sha (rd_raw rd)) \<and>
      feed_all (record_opts sha lim rec) (0, new_parser ()) (rd_chunks rd') = Some (Inr (n, p)) \<and>
      rd_end rd' = ReadDone \<and> finish p = Inr () \<and> sha (rd_raw rd') = sha (rd_raw rd) \<and>
      member_set_errors (p_members p) (ar_members rec) an = [] \<and>
      set (map rm_path (ar_metadata rec)) \<subseteq> set (map m_path (p_metadata p)) \<and>
      insp = \<lparr>is_archive = \<lparr>ms_sha256 = sha (rd_raw rd), ms_bytes = length (rd_raw rd)\<rparr>,
              is_members = p_members p, is_directories = p_directories p, is_metadata = p_metadata p,
              is_provenance = map (\<lambda>p. if p = [] then ''.'' else p) (p_provenance p), matches_record = True\<rparr>)"
    (is "?l \<longleftrightarrow> ?r")
proof -
  have o: "o_sha256 (record_opts sha lim rec) = sha" by (simp add: record_opts_def scan_opts_def)
  have m: "measure_archive sha f = Inr ms \<longleftrightarrow> (\<exists>rd. f = Regular rd \<and> rd_end rd \<noteq> ReadFailed \<and>
      ms = \<lparr>ms_sha256 = sha (rd_raw rd), ms_bytes = length (rd_raw rd)\<rparr>)" for f ms
    by (auto simp: measure_archive_def split: archive_file.splits if_splits)
  have s: "scan_archive opts w f = Inr x \<longleftrightarrow> (\<exists>rd. f = Regular rd \<and> scan_reading opts w rd = Inr x)"
    for opts f x and w :: unit
    by (auto simp: scan_archive_def split: archive_file.splits)
  have u: "(\<exists>x :: unit. P x) \<longleftrightarrow> P ()" for P by auto
  show ?thesis
    unfolding inspect_with_def option.map record_opts_def [symmetric]
    by (simp add: bindE_eq_Inr m s u scan_reading_Inr o check_measured_Some check_scanned_Some cong: conj_cong)
       (auto split: if_splits)
qed

lemma inspect_archive_Some:
  "inspect_archive sha https lim an (Some r) first_file second_file = Inr insp \<longleftrightarrow>
    (\<exists>rec. accepted_record https an r = Inr rec \<and>
      inspect_with sha lim an (Some rec) first_file second_file = Inr insp)"
  by (cases "accepted_record https an r") (auto simp: inspect_archive_def)

lemma sorted_paths_distinct: "sorted_wrt str_less xs \<Longrightarrow> distinct xs"
  by (induction xs) (auto simp: str_less_irrefl)

lemma accepted_members:
  assumes "accepted_record https an r = Inr rec"
  shows "members_ok an (ar_members rec)" "distinct (map rm_path (ar_members rec))"
proof -
  show ok: "members_ok an (ar_members rec)"
    using assms members_errors_Nil [of an "field r ''members''"]
    by (auto simp: accepted_record_Inr archive_record_errors_def checked_Nil Let_def typed_record_def)
  then show "distinct (map rm_path (ar_members rec))" by (simp add: members_ok_def sorted_paths_distinct)
qed

lemma archive_ok_metadata:
  assumes "archive_ok (record_opts sha lim rec) p"
  shows "set (map m_path (p_metadata p)) \<subseteq> set (map rm_path (ar_metadata rec))"
proof
  fix path assume "path \<in> set (map m_path (p_metadata p))"
  then obtain m where m: "m \<in> set (p_metadata p)" "path = m_path m" by auto
  then have "metadata_ok (record_opts sha lim rec) m" using assms by (simp add: archive_ok_def list_all_iff)
  then have "allowed_bodies (record_opts sha lim rec) path \<noteq> []" by (auto simp: metadata_ok_def m(2))
  then have "path_map (ar_metadata rec) path \<noteq> None"
    by (auto simp: allowed_bodies_def record_opts_def scan_opts_def expect_metadata_def split: option.splits)
  then show "path \<in> set (map rm_path (ar_metadata rec))" unfolding path_map_None by simp
qed

lemma archive_ok_distinct:
  assumes "archive_ok opts p"
  shows "distinct (map m_path (p_members p))"
proof -
  have "distinct (map fst (file_entries (p_members p)))"
    using assms by (simp add: archive_ok_def Let_def compatible_def)
  then show ?thesis by (simp add: file_entries_def o_def case_prod_beta)
qed

text \<open>
  What an inspection against a record promises: the first reading is the archive of record, the bytes of
  the second have the same digest, they decompress and parse as a safe archive, and its members are the record's,
  each once.
\<close>

definition of_record ::
  "(buffer \<Rightarrow> string) \<Rightarrow> limits \<Rightarrow> archive_anchor \<Rightarrow> archive_record \<Rightarrow> reading \<Rightarrow> reading \<Rightarrow> unit parser \<Rightarrow> bool" where
  "of_record sha lim an rec rd rd' p \<longleftrightarrow>
     length (rd_raw rd) = ar_bytes rec \<and> ar_sha256 rec = JStr (sha (rd_raw rd)) \<and> sha (rd_raw rd') = sha (rd_raw rd) \<and>
     (\<exists>n. feed_all (record_opts sha lim rec) (0, new_parser ()) (rd_chunks rd') = Some (Inr (n, p))) \<and>
     archive_ok (record_opts sha lim rec) p \<and>
     mset (map as_record (p_members p)) = mset (ar_members rec) \<and>
     set (map m_path (p_metadata p)) = set (map rm_path (ar_metadata rec))"

text \<open>C18: What inspectArchive accepts against a record is the archive of record: the record itself is accepted, both
  readings are of regular files, the first has the record's length and digest and the second the same digest, the second
  parses as a safe archive, its members are exactly the record's (path, length and digest, each once), its AppleDouble
  entries are exactly the record's and its verifying key is the anchor's.\<close>

theorem inspected_archive:
  assumes "inspect_archive sha https lim an (Some r) first_file second_file = Inr insp"
  shows "\<exists>rec rd rd' p. accepted_record https an r = Inr rec \<and> first_file = Regular rd \<and> second_file = Regular rd' \<and>
    of_record sha lim an rec rd rd' p \<and> is_members insp = p_members p \<and> is_metadata insp = p_metadata p \<and>
    is_directories insp = p_directories p \<and> vk_error (is_members insp) an = None \<and> matches_record insp"
proof -
  obtain rec where rec: "accepted_record https an r = Inr rec"
    and w: "inspect_with sha lim an (Some rec) first_file second_file = Inr insp"
    using assms by (auto simp: inspect_archive_Some)
  from w obtain rd rd' n p where files: "first_file = Regular rd" "second_file = Regular rd'"
    and raw: "length (rd_raw rd) = ar_bytes rec" "ar_sha256 rec = JStr (sha (rd_raw rd))"
      "sha (rd_raw rd') = sha (rd_raw rd)"
    and fed: "feed_all (record_opts sha lim rec) (0, new_parser ()) (rd_chunks rd') = Some (Inr (n, p))" "finish p = Inr ()"
    and set_ok: "member_set_errors (p_members p) (ar_members rec) an = []"
    and meta: "set (map rm_path (ar_metadata rec)) \<subseteq> set (map m_path (p_metadata p))"
    and insp: "is_members insp = p_members p" "is_metadata insp = p_metadata p"
      "is_directories insp = p_directories p" "matches_record insp"
    unfolding inspect_with_Some by auto
  have ok: "archive_ok (record_opts sha lim rec) p" using accepted_archive_ok [OF fed(1)] fed(2) by simp
  have "set (map as_record (p_members p)) = set (ar_members rec)" and vk: "vk_error (p_members p) an = None"
    using set_ok by (simp_all add: member_set_errors_Nil [OF accepted_members(2) [OF rec]])
  moreover have "distinct (map as_record (p_members p))"
    using archive_ok_distinct [OF ok] by (auto simp: distinct_map inj_on_def as_record_def)
  moreover have "distinct (ar_members rec)" using accepted_members(2) [OF rec] by (simp add: distinct_map)
  ultimately have "mset (map as_record (p_members p)) = mset (ar_members rec)"
    by (metis set_eq_iff_mset_eq_distinct)
  then have "of_record sha lim an rec rd rd' p"
    using raw fed(1) ok meta archive_ok_metadata [OF ok] by (auto simp: of_record_def)
  with rec files insp vk show ?thesis by (metis (no_types))
qed

text \<open>The archive is authenticated before any of it is parsed: when the first reading's length or digest is not the
  record's, the inspection is refused for that reason, whatever the second reading would hold.\<close>

theorem unauthenticated_refused:
  assumes "accepted_record https an r = Inr rec" and "rd_end rd \<noteq> ReadFailed"
    and "length (rd_raw rd) \<noteq> ar_bytes rec \<or> ar_sha256 rec \<noteq> JStr (sha (rd_raw rd))"
  shows "inspect_archive sha https lim an (Some r) (Regular rd) second_file =
    Inl (Refused (if length (rd_raw rd) \<noteq> ar_bytes rec then refuse ARCHIVE_SIZE_MISMATCH ''SIZE''
                  else refuse ARCHIVE_DIGEST_MISMATCH ''SHA256''))"
  using assms
  by (simp add: inspect_archive_def inspect_with_def measure_archive_def check_measured_def strict_eq_JStr)

lemma accepted_vk:
  assumes "accepted_record https an r = Inr rec" and "set (map as_record actual) = set (ar_members rec)"
  shows "vk_error actual an = None"
proof -
  obtain w where w: "w \<in> set (ar_members rec)" "rm_path w = vk_file"
    "''0x'' @ js_string (rm_sha256 w) = an_vk_sha256 an" "rm_bytes w = an_vk_bytes an"
    using accepted_members(1) [OF assms(1)] by (auto simp: members_ok_def list_ex_iff)
  then have "w \<in> set (map as_record actual)" using assms(2) by simp
  then obtain a where "a \<in> set actual" "w = as_record a" by auto
  moreover then have "m_path a = vk_file" using w(2) by (simp add: as_record_def)
  ultimately obtain v where v: "find (\<lambda>m. m_path m = vk_file) actual = Some v"
    using find_if_ex [of actual "\<lambda>m. m_path m = vk_file"] by auto
  then have "v \<in> set actual" "m_path v = vk_file" by (auto simp: find_Some_iff)
  then have "as_record v \<in> set (ar_members rec)" "rm_path (as_record v) = rm_path w"
    using w(2) by (simp_all flip: assms(2)) (simp add: as_record_def)
  moreover have "inj_on rm_path (set (ar_members rec))" using accepted_members(2) [OF assms(1)] by (simp add: distinct_map)
  ultimately have "as_record v = w" using w(1) by (meson inj_onD)
  then show ?thesis using v w(3,4) by (auto simp: vk_error_def as_record_def)
qed

lemma written_expected:
  assumes "distinct (map rm_path ms)" and "set (map as_record (written_files sha xs)) \<subseteq> set ms"
    and "list_all (\<lambda>(s, path, kind, data). writes_entry s path kind data) xs"
  shows "written_ok (Some (expect_members ms)) xs"
proof -
  have "path_map ms path = Some \<lparr>rm_path = path, rm_bytes = length data, rm_sha256 = JStr (sha data)\<rparr>"
    if "(s, path, File, data) \<in> set xs" for s path data
  proof -
    have "\<lparr>m_path = path, m_bytes = length data, m_sha256 = sha data\<rparr> \<in> set (written_files sha xs)"
      using that by (force simp: written_files_def)
    then have "as_record \<lparr>m_path = path, m_bytes = length data, m_sha256 = sha data\<rparr> \<in> set ms" using assms(2) by auto
    then show ?thesis by (simp add: path_map_Some [OF assms(1)] as_record_def)
  qed
  then have "expect_members ms path = Some (length data)" if "(s, path, File, data) \<in> set xs" for s path data
    using that by (simp add: expect_members_def)
  with assms(3) show ?thesis by (auto simp: written_ok_def list_all_iff)
qed

lemma archive_of_record_passes:
  assumes "accepted_record https an r = Inr rec" and "ar_metadata rec = []"
    and "rd_end rd \<noteq> ReadFailed" and "length (rd_raw rd) = ar_bytes rec" and "ar_sha256 rec = JStr (sha (rd_raw rd))"
    and "list_all (\<lambda>(s, path, kind, data). writes_entry s path kind data) xs"
    and "set (map as_record (written_files sha xs)) = set (ar_members rec)"
    and "compatible (written_entries xs)"
    and "\<forall>d. (d, Directory) \<in> claims (written_entries xs) \<longrightarrow>
      (\<exists>q. (q, File) \<in> set (written_entries xs) \<and> d \<in> set (ancestor_paths q))"
    and "length xs \<le> max_entries lim" and "written_total xs \<le> max_total_bytes lim"
    and "tar_bytes (map fst xs) True [] = Some b" and "concat (rd_chunks rd') = b"
    and "rd_end rd' = ReadDone" and "sha (rd_raw rd') = sha (rd_raw rd)"
  shows "\<exists>insp. inspect_archive sha https lim an (Some r) (Regular rd) (Regular rd') = Inr insp \<and>
    is_members insp = written_files sha xs \<and> is_directories insp = written_directories xs \<and> is_metadata insp = []"
proof -
  have "written_ok (Some (expect_members (ar_members rec))) xs"
    using written_expected [OF accepted_members(2) [OF assms(1)] _ assms(6), of sha] assms(7) by simp
  then obtain p where p: "feed_all (record_opts sha lim rec) (0, new_parser ()) (rd_chunks rd') = Some (Inr (length b, p))"
    "finish p = Inr ()" "p_members p = written_files sha xs" "p_directories p = written_directories xs" "p_metadata p = []"
    unfolding record_opts_def using read_archive [OF _ assms(8-13)] by blast
  have "member_set_errors (p_members p) (ar_members rec) an = []"
    using accepted_vk [OF assms(1), of "p_members p"] assms(7) p(3)
    by (simp add: member_set_errors_Nil [OF accepted_members(2) [OF assms(1)]])
  then show ?thesis
    using assms(1-5,14,15) p
    by (simp add: inspect_archive_Some inspect_with_Some)
qed

text \<open>An archive of record is accepted: when the record is, both readings end, the first has the record's length and
  digest, the second the same digest and decompresses, in any chunks, to what the tar writer writes for the record's
  members and their directories, the inspection answers those members.\<close>

theorem recorded_archive_passes:
  assumes "accepted_record https an r = Inr rec" and "ar_metadata rec = []"
    and "rd_end rd \<noteq> ReadFailed" and "length (rd_raw rd) = ar_bytes rec" and "ar_sha256 rec = JStr (sha (rd_raw rd))"
    and "list_all (\<lambda>(s, path, kind, data). writes_entry s path kind data) xs"
    and "set (map as_record (written_files sha xs)) = set (ar_members rec)"
    and "compatible (written_entries xs)"
    and "\<forall>d. (d, Directory) \<in> claims (written_entries xs) \<longrightarrow>
      (\<exists>q. (q, File) \<in> set (written_entries xs) \<and> d \<in> set (ancestor_paths q))"
    and "length xs \<le> max_entries lim" and "written_total xs \<le> max_total_bytes lim"
    and "tar_bytes (map fst xs) True [] = Some b" and "concat (rd_chunks rd') = b"
    and "rd_end rd' = ReadDone" and "sha (rd_raw rd') = sha (rd_raw rd)"
  shows "\<exists>insp. inspect_archive sha https lim an (Some r) (Regular rd) (Regular rd') = Inr insp \<and>
    is_members insp = written_files sha xs \<and> is_directories insp = written_directories xs \<and> is_metadata insp = []"
  by (rule archive_of_record_passes [OF assms])

text \<open>An archive of the sample record: its four required members, one after the other, each of 396 bytes.\<close>

definition sample_file :: "string \<Rightarrow> written" where
  "sample_file path =
     ((plain_spec path)\<lparr>ts_data := Some (Bytes (replicate 396 NUL))\<rparr>, path, File, replicate 396 NUL)"

definition sample_files :: "written list" where
  "sample_files = map sample_file required_members"

definition sample_accepted :: json where
  "sample_accepted = sample_record [JStr ''a'', JStr ''b'']"

definition sample_sha :: "buffer \<Rightarrow> string" where
  "sample_sha d = sample_hex"

definition sample_first :: reading where
  "sample_first = \<lparr>rd_raw = ''archive'', rd_chunks = [], rd_end = ReadDone\<rparr>"

lemma sample_accepted_ok:
  "accepted_record (\<lambda>_. True) sample_anchor sample_accepted = Inr (typed_record sample_accepted)"
  "ar_metadata (typed_record sample_accepted) = []" "ar_bytes (typed_record sample_accepted) = 7"
  "ar_sha256 (typed_record sample_accepted) = JStr sample_hex"
  "ar_members (typed_record sample_accepted) =
    map (\<lambda>p. \<lparr>rm_path = p, rm_bytes = 396, rm_sha256 = JStr sample_hex\<rparr>) required_members"
proof -
  have "archive_record_errors (\<lambda>_. True) sample_anchor sample_accepted = []" by code_simp
  then show "accepted_record (\<lambda>_. True) sample_anchor sample_accepted = Inr (typed_record sample_accepted)"
    by (simp add: accepted_record_Inr)
qed code_simp+

lemma sample_file_paths:
  "list_all plain_path required_members" "map (\<lambda>p. entry_path p File) required_members = required_members"
  "list_all (\<lambda>p. list_all (\<lambda>c. code c < (128 :: nat)) p \<and> NUL \<notin> set p \<and> length p \<le> 100) required_members"
  by code_simp+

lemma sample_files_written:
  "list_all (\<lambda>(s, path, kind, data). writes_entry s path kind data) sample_files"
proof -
  have "entry_path p File = p" if "p \<in> set required_members" for p
    using sample_file_paths(2) that by (auto simp: map_eq_conv [of _ _ "\<lambda>x. x", simplified])
  then show ?thesis
    using sample_file_paths(1,3)
    by (auto simp: sample_files_def sample_file_def list_all_iff writes_entry_def ordinary_def plain_spec_def
        octal_max_size_def type_char_def or_default_def)
qed

lemma sample_files_members:
  "map as_record (written_files sample_sha sample_files) = ar_members (typed_record sample_accepted)"
  unfolding sample_accepted_ok
  by (simp add: sample_files_def sample_file_def written_files_def required_members_def as_record_def sample_sha_def)

lemma sample_files_entries: "written_entries sample_files = map (\<lambda>p. (p, File)) required_members"
  by (simp add: written_entries_def sample_files_def sample_file_def o_def)

lemma sample_files_claims: "claims (written_entries sample_files) = set (map (\<lambda>p. (p, File)) required_members)"
proof -
  have "concat (map ancestor_paths required_members) = []" by code_simp
  then have "\<forall>p \<in> set required_members. ancestor_paths p = []" by (simp add: concat_eq_Nil_conv)
  then show ?thesis by (auto simp: claims_def sample_files_entries)
qed

lemma sample_files_tree:
  "compatible (written_entries sample_files)"
  "\<forall>d. (d, Directory) \<in> claims (written_entries sample_files) \<longrightarrow>
     (\<exists>q. (q, File) \<in> set (written_entries sample_files) \<and> d \<in> set (ancestor_paths q))"
proof -
  have "distinct (map lower required_members)" by code_simp
  then have "distinct required_members" "inj_on lower (set required_members)" by (simp_all add: distinct_map)
  then show "compatible (written_entries sample_files)"
    unfolding compatible_def sample_files_claims by (auto simp: sample_files_entries o_def dest: inj_onD)
  show "\<forall>d. (d, Directory) \<in> claims (written_entries sample_files) \<longrightarrow>
     (\<exists>q. (q, File) \<in> set (written_entries sample_files) \<and> d \<in> set (ancestor_paths q))"
    unfolding sample_files_claims by auto
qed

lemma sample_files_limits:
  "length sample_files \<le> max_entries default_limits" "written_total sample_files \<le> max_total_bytes default_limits"
  by (simp_all add: sample_files_def required_members_def written_total_def sample_file_def default_limits_def)

lemma sample_files_bytes: "\<exists>b. tar_bytes (map fst sample_files) True [] = Some b"
proof -
  have "entries_bytes (map (\<lambda>p. (plain_spec p)\<lparr>ts_data := Some (Bytes (replicate 396 NUL))\<rparr>) ps) \<noteq> None" for ps
    by (induction ps) (auto simp: plain_spec_def entry_bytes_def Let_def)
  then show ?thesis by (auto simp: tar_bytes_def sample_files_def sample_file_def o_def)
qed

lemma sample_inspection_facts:
  fixes b
  defines "second \<equiv> \<lparr>rd_raw = ''archive'', rd_chunks = [b], rd_end = ReadDone\<rparr>"
  assumes "tar_bytes (map fst sample_files) True [] = Some b"
  shows "rd_end sample_first \<noteq> ReadFailed" "length (rd_raw sample_first) = ar_bytes (typed_record sample_accepted)"
    "ar_sha256 (typed_record sample_accepted) = JStr (sample_sha (rd_raw sample_first))"
    "set (map as_record (written_files sample_sha sample_files)) = set (ar_members (typed_record sample_accepted))"
    "concat (rd_chunks second) = b" "rd_end second = ReadDone"
    "sample_sha (rd_raw second) = sample_sha (rd_raw sample_first)"
  by (simp_all only: sample_files_members)
     (simp_all add: sample_first_def sample_sha_def second_def sample_accepted_ok)

theorem recorded_archive_passes_witness:
  "\<exists>second insp. inspect_archive sample_sha (\<lambda>_. True) default_limits sample_anchor (Some sample_accepted)
      (Regular sample_first) (Regular second) = Inr insp \<and> map m_path (is_members insp) = required_members"
proof -
  obtain b where b: "tar_bytes (map fst sample_files) True [] = Some b" using sample_files_bytes by blast
  note facts = sample_inspection_facts [OF b]
  have "map m_path (written_files sample_sha sample_files) = required_members"
    by (simp add: sample_files_def sample_file_def written_files_def required_members_def)
  with recorded_archive_passes [OF sample_accepted_ok(1,2) facts(1-3) sample_files_written facts(4) sample_files_tree
      sample_files_limits b facts(5-7)]
  show ?thesis by metis
qed

theorem inspected_archive_witness:
  "\<exists>second insp rec p. inspect_archive sample_sha (\<lambda>_. True) default_limits sample_anchor (Some sample_accepted)
      (Regular sample_first) (Regular second) = Inr insp \<and>
    of_record sample_sha default_limits sample_anchor rec sample_first second p \<and> is_members insp = p_members p"
proof -
  obtain b where b: "tar_bytes (map fst sample_files) True [] = Some b" using sample_files_bytes by blast
  note facts = sample_inspection_facts [OF b]
  let ?second = "\<lparr>rd_raw = ''archive'', rd_chunks = [b], rd_end = ReadDone\<rparr>"
  obtain insp where insp: "inspect_archive sample_sha (\<lambda>_. True) default_limits sample_anchor (Some sample_accepted)
      (Regular sample_first) (Regular ?second) = Inr insp"
    using archive_of_record_passes [OF sample_accepted_ok(1,2) facts(1-3) sample_files_written facts(4) sample_files_tree
      sample_files_limits b facts(5-7)] by blast
  from inspected_archive [OF insp] show ?thesis using insp by (metis archive_file.inject)
qed

theorem unauthenticated_refused_witness:
  "inspect_archive sample_sha (\<lambda>_. True) default_limits sample_anchor (Some sample_accepted)
      (Regular \<lparr>rd_raw = ''other'', rd_chunks = [], rd_end = ReadDone\<rparr>) CannotOpen =
    Inl (Refused (refuse ARCHIVE_SIZE_MISMATCH ''SIZE''))"
  by (subst unauthenticated_refused [OF sample_accepted_ok(1)]) (simp_all add: sample_accepted_ok)

text \<open>memberSetErrors is the equality test of the two member sets: for a record with distinct paths it finds nothing
  exactly when the members, as a record would name them, are the record's and the verifying key is the anchor's.\<close>

theorem member_set_exact:
  assumes "distinct (map rm_path wanted)"
  shows "member_set_errors actual wanted an = [] \<longleftrightarrow>
    set (map as_record actual) = set wanted \<and> vk_error actual an = None"
  by (rule member_set_errors_Nil [OF assms])

theorem member_set_exact_witness:
  "member_set_errors [\<lparr>m_path = vk_file, m_bytes = 396, m_sha256 = sample_hex\<rparr>]
     [\<lparr>rm_path = vk_file, rm_bytes = 396, rm_sha256 = JStr sample_hex\<rparr>] sample_anchor = []"
  by (subst member_set_exact) (simp_all add: as_record_def vk_error_def sample_anchor_def)

end
