(* ===== verification/Circuit_Install.thy ===== *)
theory Circuit_Install
  imports File_Tree Circuit_Inspect
begin

text \<open>
  Installing an archive of record and verifying an installation: \<open>scripts/lib/sp1-circuit-install.ts\<close>. The
  destination is a tree of files (theory \<open>File_Tree\<close>); the archive is three readings of its file, the two of the
  inspection and the one the extraction parses; what others do meanwhile are the functions of \<open>hooks\<close>,
  between the steps at which the code lets a test act. A call that fails is answered with the state it leaves, so that
  what is cleaned up after a refusal is what had been made. The process may read and write the destination: \<open>mkdtempSync\<close>,
  \<open>chmodSync\<close> and the removal of the staging directory do not fail here, and every directory can be listed.
\<close>

section \<open>Verifying a tree\<close>

definition staging_prefix :: string where
  "staging_prefix = ''.staging-''"

text \<open>\<open>rel.split("/")\<close>, the components below a directory.\<close>

definition parts_of :: "string \<Rightarrow> string list" where
  "parts_of rel = (if rel = [] then [] else split_on CHR ''/'' rel)"

definition hash_regular_file ::
  "(buffer \<Rightarrow> string) \<Rightarrow> node option \<Rightarrow> string \<Rightarrow> refusal_code \<Rightarrow> refusal + scanned_member" where
  "hash_regular_file sha full rel why =
     (case full of
        None \<Rightarrow> Inl (refuse why ''UNREADABLE'')
      | Some NLink \<Rightarrow> Inl (refuse why ''LINK_IN_TREE'')
      | Some (NFile m links None) \<Rightarrow> Inl (refuse why ''UNREADABLE'')
      | Some (NFile m links (Some d)) \<Rightarrow>
          if links \<noteq> 1 then Inl (refuse why ''HARDLINK_IN_TREE'')
          else Inr \<lparr>m_path = rel, m_bytes = length d, m_sha256 = sha d\<rparr>
      | Some _ \<Rightarrow> Inl (refuse why ''SPECIAL_FILE_IN_TREE''))"

definition ancestors_of :: "string list \<Rightarrow> string list" where
  "ancestors_of paths = concat (map ancestor_paths paths)"

fun mapE :: "('a \<Rightarrow> 'e + 'b) \<Rightarrow> 'a list \<Rightarrow> 'e + 'b list" where
  "mapE f [] = Inr []"
| "mapE f (x # xs) = bindE (f x) (\<lambda>y. bindE (mapE f xs) (\<lambda>ys. Inr (y # ys)))"

definition verify_tree ::
  "(buffer \<Rightarrow> string) \<Rightarrow> entries \<Rightarrow> archive_record \<Rightarrow> archive_anchor \<Rightarrow> refusal_code \<Rightarrow> refusal + scanned_member list" where
  "verify_tree sha dir rec an why =
     bindE (walk_tree why dir) (\<lambda>(files, directories).
     if list_ex (\<lambda>d. d \<notin> set (ancestors_of (map rm_path (ar_members rec)))) directories
     then Inl (refuse why ''EXTRA_DIRECTORY'')
     else bindE (mapE (\<lambda>rel. hash_regular_file sha (lookup_at dir (parts_of rel)) rel why) files) (\<lambda>measured.
     case member_set_errors measured (ar_members rec) an of
       [] \<Rightarrow> Inr measured
     | e # _ \<Rightarrow> Inl (refuse why (r_reason e))))"

text \<open>\<open>verifyInstalledCircuit\<close>: \<open>root\<close> is what \<open>lstat\<close> finds at the circuit root.\<close>

definition verify_installed_circuit ::
  "(buffer \<Rightarrow> string) \<Rightarrow> bool \<Rightarrow> node option \<Rightarrow> archive_record \<Rightarrow> archive_anchor \<Rightarrow> refusal + scanned_member list" where
  "verify_installed_circuit sha absolute root rec an =
     (if \<not> absolute then Inl (refuse CIRCUIT_ROOT_INVALID ''RELATIVE'')
      else case root of
        None \<Rightarrow> Inl (refuse CIRCUIT_ARCHIVE_NOT_INSTALLED ''ROOT_ABSENT'')
      | Some (NDir m es) \<Rightarrow>
          if filter (\<lambda>n. n \<noteq> an_circuit_version an) (map fst es) \<noteq> []
          then Inl (refuse CIRCUIT_ROOT_INVALID ''UNEXPECTED_ENTRY'')
          else (case map_of es (an_circuit_version an) of
            None \<Rightarrow> Inl (refuse CIRCUIT_ARCHIVE_NOT_INSTALLED ''CIRCUIT_ABSENT'')
          | Some (NDir m' dir) \<Rightarrow> verify_tree sha dir rec an CIRCUIT_INTEGRITY_FAILED
          | Some _ \<Rightarrow> Inl (refuse CIRCUIT_INTEGRITY_FAILED ''NOT_A_DIRECTORY''))
      | Some _ \<Rightarrow> Inl (refuse CIRCUIT_ROOT_INVALID ''NOT_A_DIRECTORY''))"

section \<open>Extracting\<close>

text \<open>
  The state of an extraction: the destination, the directories made so far (\<open>made\<close>), and the bytes the file
  system still has room for.
\<close>

record extraction =
  ex_root :: entries
  ex_made :: "string list"
  ex_room :: nat

text \<open>A call that throws leaves what it did: the directories made before the one that failed, the bytes written before the disk was full.\<close>

definition make_dir :: "string \<Rightarrow> extraction \<Rightarrow> string \<Rightarrow> extraction stopped + extraction" where
  "make_dir staging w p =
     (if p \<in> set (ex_made w) then Inr w
      else case create_at (NDir 448 []) (staging # parts_of p) (ex_root w) of
        Inl e \<Rightarrow> Inl (refuse INSTALL_FAILED ''MKDIR'', w)
      | Inr es \<Rightarrow> Inr (w\<lparr>ex_root := es, ex_made := ex_made w @ [p]\<rparr>))"

definition ensure_dir :: "string \<Rightarrow> string \<Rightarrow> extraction \<Rightarrow> extraction stopped + extraction" where
  "ensure_dir staging rel w =
     (let parts = parts_of rel
      in foldE (make_dir staging) w (map (\<lambda>i. join_with ''/'' (take i parts)) [1..<length parts + 1]))"

definition open_file :: "string \<Rightarrow> string \<Rightarrow> extraction \<Rightarrow> extraction stopped + extraction" where
  "open_file staging rel w =
     bindE (ensure_dir staging (join_with ''/'' (butlast (split_on CHR ''/'' rel))) w) (\<lambda>w.
     case create_at (NFile 384 1 (Some [])) (staging # parts_of rel) (ex_root w) of
       Inl e \<Rightarrow> Inl (refuse INSTALL_FAILED (if e = EEXIST then ''EXCLUSIVE_CREATE'' else ''OPEN''), w)
     | Inr es \<Rightarrow> Inr (w\<lparr>ex_root := es\<rparr>))"

text \<open>
  \<open>writeAll\<close>: the descriptor is the file's own, so the bytes reach it whatever its path names meanwhile. Of a
  piece the disk has no room for, the first bytes are written before the write fails.
\<close>

definition write_all :: "string \<Rightarrow> string \<Rightarrow> buffer \<Rightarrow> extraction \<Rightarrow> extraction stopped + extraction" where
  "write_all staging rel chunk w =
     (if chunk = [] then Inr w
      else let part = take (ex_room w) chunk
           in case append_at part (staging # parts_of rel) (ex_root w) of
             Inl e \<Rightarrow> Inl (refuse INSTALL_FAILED ''WRITE'', w)
           | Inr es \<Rightarrow>
               (let w = w\<lparr>ex_root := es, ex_room := ex_room w - length part\<rparr>
                in if length part < length chunk then Inl (refuse INSTALL_FAILED ''WRITE'', w) else Inr w))"

definition extract_opts :: "(buffer \<Rightarrow> string) \<Rightarrow> limits \<Rightarrow> archive_record \<Rightarrow> string \<Rightarrow> extraction parser_opts" where
  "extract_opts sha lim rec staging =
     \<lparr>o_limits = lim, o_sha256 = sha, o_expect = Some (expect_members (ar_members rec)),
      o_expect_metadata = Some (expect_metadata (ar_metadata rec)),
      o_open = (\<lambda>path _. open_file staging path), o_write = write_all staging,
      o_close = (\<lambda>_ w. Inr w), o_directory = ensure_dir staging\<rparr>"

section \<open>Installing\<close>

text \<open>
  What others do: to the destination after the inspection, to the staging directory once it is made, to the
  destination just before the rename.
\<close>

record hooks =
  after_inspection :: "entries \<Rightarrow> entries"
  after_staging :: "entries \<Rightarrow> entries"
  before_rename :: "entries \<Rightarrow> entries"

record install_result =
  ir_archive :: measurement
  ir_members :: "scanned_member list"

text \<open>
  \<open>renameSync\<close> of a directory: a name that is free is taken, an empty directory replaced; anything else
  there, or nothing to rename, is an error.
\<close>

definition rename_entry :: "string \<Rightarrow> string \<Rightarrow> entries \<Rightarrow> entries option" where
  "rename_entry old new es =
     (case map_of es old of
        None \<Rightarrow> None
      | Some x \<Rightarrow>
          (case map_of es new of
             None \<Rightarrow> Some (filter (\<lambda>e. fst e \<noteq> old) es @ [(new, x)])
           | Some (NDir m []) \<Rightarrow> Some (filter (\<lambda>e. fst e \<noteq> old \<and> fst e \<noteq> new) es @ [(new, x)])
           | Some _ \<Rightarrow> None))"

definition remove_staging :: "string \<Rightarrow> entries \<Rightarrow> entries" where
  "remove_staging staging = filter (\<lambda>e. fst e \<noteq> staging)"

text \<open>What \<open>verifyTree\<close> finds in the staging directory; it is there, since only its contents were acted on.\<close>

definition contents :: "string \<Rightarrow> entries \<Rightarrow> entries" where
  "contents name es = (case map_of es name of Some (NDir m sub) \<Rightarrow> sub | _ \<Rightarrow> [])"

text \<open>Steps 3 and 4: the tree is verified, made read-only and renamed into place.\<close>

definition place_staged ::
  "(buffer \<Rightarrow> string) \<Rightarrow> archive_record \<Rightarrow> archive_anchor \<Rightarrow> hooks \<Rightarrow> string \<Rightarrow> extraction scan_result \<Rightarrow>
   (tool_error + scanned_member list) \<times> entries" where
  "place_staged sha rec an hk staging scan =
     (let version = an_circuit_version an; es = ex_root (sc_world scan); gone = remove_staging staging
      in if \<not> strict_eq (JStr (ms_sha256 (sc_raw scan))) (ar_sha256 rec)
         then (Inl (Refused (refuse ARCHIVE_CHANGED_DURING_USE ''REREAD'')), gone es)
         else case verify_tree sha (contents staging es) rec an INSTALL_FAILED of
           Inl e \<Rightarrow> (Inl (Refused e), gone es)
         | Inr members \<Rightarrow>
             let es = put_entry staging (chmod_tree 292 365 (NDir 448 (contents staging es))) es
             in if map_of es version \<noteq> None
                then (Inl (Refused (refuse INSTALL_TARGET_EXISTS ''APPEARED'')), gone es)
                else let es = before_rename hk es
                  in case rename_entry staging version es of
                    Some es \<Rightarrow> (Inr members, es)
                  | None \<Rightarrow>
                      if map_of es version \<noteq> None
                      then (Inl (Refused (refuse INSTALL_TARGET_EXISTS ''APPEARED'')), gone es)
                      else (Inl (Refused (refuse INSTALL_FAILED ''RENAME'')), gone es))"

text \<open>
  Steps 2 to 4. \<open>mkdtemp\<close> picks the name of the staging directory. When the extraction throws, the destination is
  what it had made of it by then, and the staging directory is removed from that.
\<close>

definition extract_and_place ::
  "(buffer \<Rightarrow> string) \<Rightarrow> limits \<Rightarrow> archive_record \<Rightarrow> archive_anchor \<Rightarrow> hooks \<Rightarrow> (string \<Rightarrow> entries \<Rightarrow> string) \<Rightarrow> nat \<Rightarrow>
   archive_file \<Rightarrow> entries \<Rightarrow> (tool_error + scanned_member list) \<times> entries" where
  "extract_and_place sha lim rec an hk mkdtemp room file es =
     (let staging = mkdtemp (''.'' @ an_circuit_version an @ staging_prefix) es;
          es = es @ [(staging, NDir 448 (after_staging hk []))]
      in case scan_archive (extract_opts sha lim rec staging)
                \<lparr>ex_root = es, ex_made = [[]], ex_room = room\<rparr> file of
           Inl (e, w) \<Rightarrow> (Inl e, remove_staging staging (ex_root w))
         | Inr scan \<Rightarrow> place_staged sha rec an hk staging scan)"

definition install_circuit_archive ::
  "(buffer \<Rightarrow> string) \<Rightarrow> (string \<Rightarrow> bool) \<Rightarrow> limits \<Rightarrow> archive_anchor \<Rightarrow> hooks \<Rightarrow> (string \<Rightarrow> entries \<Rightarrow> string) \<Rightarrow> nat \<Rightarrow>
   json \<Rightarrow> archive_file \<times> archive_file \<times> archive_file \<Rightarrow> bool \<Rightarrow> node option \<Rightarrow>
   (tool_error + install_result) \<times> node option" where
  "install_circuit_archive sha https lim an hk mkdtemp room untyped readings absolute root =
     (case accepted_record https an untyped of
        Inl e \<Rightarrow> (Inl (Refused e), root)
      | Inr rec \<Rightarrow>
          if \<not> absolute then (Inl (Refused (refuse INSTALL_DESTINATION_INVALID ''RELATIVE'')), root)
          else case root of
            None \<Rightarrow> (Inl (Refused (refuse INSTALL_DESTINATION_INVALID ''ABSENT'')), root)
          | Some (NDir m es) \<Rightarrow>
              if map_of es (an_circuit_version an) \<noteq> None
              then (Inl (Refused (refuse INSTALL_TARGET_EXISTS ''EXISTS'')), root)
              else (case inspect_archive sha https lim an (Some untyped) (fst readings) (fst (snd readings)) of
                Inl e \<Rightarrow> (Inl e, root)
              | Inr inspected \<Rightarrow>
                  let (r, es) = extract_and_place sha lim rec an hk mkdtemp room (snd (snd readings))
                                  (after_inspection hk es)
                  in (map_sum id (\<lambda>members. \<lparr>ir_archive = is_archive inspected, ir_members = members\<rparr>) r,
                      Some (NDir m es)))
          | Some _ \<Rightarrow> (Inl (Refused (refuse INSTALL_DESTINATION_INVALID ''NOT_A_DIRECTORY'')), root))"

section \<open>What a verified tree is\<close>

text \<open>
  Exactly the record's members: every file of the tree is one, with the recorded length and digest and no
  second link, every directory leads to one, nothing else is there, and every member is.
\<close>

definition holds_item :: "(buffer \<Rightarrow> string) \<Rightarrow> record_member list \<Rightarrow> string \<times> item \<Rightarrow> bool" where
  "holds_item sha ms e \<longleftrightarrow>
     (case snd e of
        IFile m links (Some d) \<Rightarrow>
          links = 1 \<and> \<lparr>rm_path = fst e, rm_bytes = length d, rm_sha256 = JStr (sha d)\<rparr> \<in> set ms
      | IDir m \<Rightarrow> fst e \<in> set (ancestors_of (map rm_path ms))
      | _ \<Rightarrow> False)"

definition holds_exactly :: "(buffer \<Rightarrow> string) \<Rightarrow> entries \<Rightarrow> record_member list \<Rightarrow> bool" where
  "holds_exactly sha es ms \<longleftrightarrow>
     list_all (holds_item sha ms) (items [] es) \<and>
     list_all (\<lambda>w. list_ex (\<lambda>e. fst e = rm_path w \<and> \<not> (\<exists>m. snd e = IDir m)) (items [] es)) ms"

lemma mapE_Inr: "mapE f xs = Inr ys \<longleftrightarrow> map f xs = map Inr ys"
  by (induction xs arbitrary: ys) (auto simp: bindE_eq_Inr Cons_eq_map_conv)

lemma look_names:
  "wf_entries es \<Longrightarrow> look es cs = Some i \<Longrightarrow> cs \<noteq> [] \<and> list_all name_ok cs"
proof (induction cs arbitrary: es)
  case (Cons c cs)
  obtain x where x: "map_of es c = Some x" using Cons.prems(2)
    by (cases cs) (auto simp: look_single look_Cons split: option.splits)
  then have c: "name_ok c" using Cons.prems(1) unfolding wf_entries_iff by (force dest!: map_of_SomeD)
  show ?case
  proof (cases "cs = []")
    case False
    with Cons.prems(2) x obtain m sub where sub: "x = NDir m sub" "look sub cs = Some i"
      by (auto simp: look_Cons split: node.splits)
    from Cons.IH [OF wf_entries_sub [OF Cons.prems(1)] sub(2)] x sub(1) c show ?thesis by simp
  qed (use c in simp)
qed simp

lemma parts_of_join:
  assumes "cs \<noteq> []" and "list_all name_ok cs"
  shows "parts_of (join_with ''/'' cs) = cs"
proof -
  have "join_with ''/'' cs \<noteq> []" using assms by (cases cs rule: path_cases) (auto simp: name_ok_def)
  moreover have "split_on CHR ''/'' (join_with ''/'' cs) = cs"
    using assms by (intro split_join) (auto simp: list_all_iff name_ok_def)
  ultimately show ?thesis by (simp add: parts_of_def)
qed

lemma items_parts:
  assumes "wf_entries es"
  shows "(p, i) \<in> set (items [] es) \<longleftrightarrow> look es (parts_of p) = Some i \<and> p = join_with ''/'' (parts_of p)"
proof -
  have "(p, i) \<in> set (items [] es) \<longleftrightarrow> (\<exists>cs. look es cs = Some i \<and> p = join_with ''/'' cs)"
    by (simp add: items_look [OF assms] below_def)
  also have "\<dots> \<longleftrightarrow> look es (parts_of p) = Some i \<and> p = join_with ''/'' (parts_of p)"
    using look_names [OF assms] parts_of_join by metis
  finally show ?thesis .
qed

lemma hash_regular_file_Inr:
  "hash_regular_file sha full rel why = Inr a \<longleftrightarrow>
    (\<exists>m d. full = Some (NFile m 1 (Some d)) \<and> a = \<lparr>m_path = rel, m_bytes = length d, m_sha256 = sha d\<rparr>)"
  by (auto simp: hash_regular_file_def split: option.splits node.splits)

lemma hash_item:
  "hash_regular_file sha (lookup_at es cs) rel why = Inr a \<longleftrightarrow>
    (\<exists>m d. look es cs = Some (IFile m 1 (Some d)) \<and> a = \<lparr>m_path = rel, m_bytes = length d, m_sha256 = sha d\<rparr>)"
  by (auto simp: hash_regular_file_Inr look_def item_of_iff)

lemma as_record_files:
  assumes ms: "\<And>a. a \<in> set ms \<longleftrightarrow> (\<exists>p m d. P p m d \<and> a = \<lparr>m_path = p, m_bytes = length d, m_sha256 = sha d\<rparr>)"
  shows "set (map as_record ms) = {\<lparr>rm_path = p, rm_bytes = length d, rm_sha256 = JStr (sha d)\<rparr> | p m d. P p m d}"
proof (rule set_eqI)
  fix w
  have "w \<in> set (map as_record ms) \<longleftrightarrow> (\<exists>a. a \<in> set ms \<and> w = as_record a)" by auto
  also have "\<dots> \<longleftrightarrow> (\<exists>p m d. P p m d \<and> w = as_record \<lparr>m_path = p, m_bytes = length d, m_sha256 = sha d\<rparr>)"
    unfolding ms by blast
  finally show "w \<in> set (map as_record ms) \<longleftrightarrow>
      w \<in> {\<lparr>rm_path = p, rm_bytes = length d, rm_sha256 = JStr (sha d)\<rparr> | p m d. P p m d}"
    by (auto simp: as_record_def)
qed

text \<open>What the hashing of all files found answers.\<close>

lemma mapE_hash:
  assumes "wf_entries es" and "set files = file_paths (set (items [] es))"
  shows "(\<exists>ms. mapE (\<lambda>rel. hash_regular_file sha (lookup_at es (parts_of rel)) rel why) files = Inr ms) \<longleftrightarrow>
      (\<forall>(p, i) \<in> set (items [] es). \<forall>m k c. i = IFile m k c \<longrightarrow> k = 1 \<and> c \<noteq> None)" (is "?l \<longleftrightarrow> ?r")
    and "mapE (\<lambda>rel. hash_regular_file sha (lookup_at es (parts_of rel)) rel why) files = Inr ms \<Longrightarrow>
      set (map as_record ms) =
      {\<lparr>rm_path = p, rm_bytes = length d, rm_sha256 = JStr (sha d)\<rparr> | p m d. (p, IFile m 1 (Some d)) \<in> set (items [] es)}"
proof -
  let ?h = "\<lambda>rel. hash_regular_file sha (lookup_at es (parts_of rel)) rel why"
  have one: "?h rel = Inr a \<longleftrightarrow> (\<exists>m d. (rel, IFile m 1 (Some d)) \<in> set (items [] es) \<and>
      a = \<lparr>m_path = rel, m_bytes = length d, m_sha256 = sha d\<rparr>)" if "rel \<in> set files" for rel a
    using that assms(2) unfolding hash_item items_parts [OF assms(1)] file_paths_def by auto
  have "?l \<longleftrightarrow> (\<forall>rel \<in> set files. \<exists>a. ?h rel = Inr a)"
    unfolding mapE_Inr by (induction files) (auto simp: Cons_eq_map_conv)
  also have "\<dots> \<longleftrightarrow> (\<forall>rel \<in> file_paths (set (items [] es)). \<exists>m d. (rel, IFile m 1 (Some d)) \<in> set (items [] es))"
    using one assms(2) by auto
  also have "\<dots> \<longleftrightarrow> ?r"
  proof -
    have "i = j" if "(p, i) \<in> set (items [] es)" "(p, j) \<in> set (items [] es)" for p i j
      using that by (auto simp: items_parts [OF assms(1)])
    then show ?thesis by (fastforce simp: file_paths_def)
  qed
  finally show "?l \<longleftrightarrow> ?r" .
  assume "mapE ?h files = Inr ms"
  then have m: "map ?h files = map Inr ms" by (simp add: mapE_Inr)
  then have "set ms = {a. \<exists>rel \<in> set files. ?h rel = Inr a}"
    by (auto dest!: arg_cong [where f = set] simp: set_eq_iff image_iff) (metis, metis Inr_inject)
  then have "a \<in> set ms \<longleftrightarrow> (\<exists>p m d. (p, IFile m 1 (Some d)) \<in> set (items [] es) \<and>
      a = \<lparr>m_path = p, m_bytes = length d, m_sha256 = sha d\<rparr>)" for a
    using one assms(2) by (auto simp: file_paths_def)
  then show "set (map as_record ms) =
      {\<lparr>rm_path = p, rm_bytes = length d, rm_sha256 = JStr (sha d)\<rparr> | p m d. (p, IFile m 1 (Some d)) \<in> set (items [] es)}"
    by (rule as_record_files)
qed

lemma no_error_Inr: "(case xs of [] \<Rightarrow> Inr m | e # _ \<Rightarrow> Inl (f e)) = Inr m' \<longleftrightarrow> xs = [] \<and> m' = m"
  by (cases xs) auto

lemma verify_tree_Inr:
  "verify_tree sha es rec an why = Inr ms \<longleftrightarrow>
    (\<exists>files directories. walk_tree why es = Inr (files, directories) \<and>
      set directories \<subseteq> set (ancestors_of (map rm_path (ar_members rec))) \<and>
      mapE (\<lambda>rel. hash_regular_file sha (lookup_at es (parts_of rel)) rel why) files = Inr ms \<and>
      member_set_errors ms (ar_members rec) an = [])"
  unfolding verify_tree_def bindE_eq_Inr
  by (simp add: bindE_eq_Inr no_error_Inr list_ex_iff split: prod.split if_split) blast

text \<open>For a record that was accepted, \<open>verifyTree\<close> answers exactly on the trees that hold the record's members.\<close>

lemma verify_tree_exact:
  assumes rec: "accepted_record https an r = Inr rec" and wf: "wf_entries es"
  shows "(\<exists>ms. verify_tree sha es rec an why = Inr ms) \<longleftrightarrow> holds_exactly sha es (ar_members rec)"
    and "verify_tree sha es rec an why = Inr ms \<Longrightarrow> set (map as_record ms) = set (ar_members rec)"
proof -
  let ?I = "set (items [] es)" and ?M = "ar_members rec"
  let ?found = "{\<lparr>rm_path = p, rm_bytes = length d, rm_sha256 = JStr (sha d)\<rparr> | p m d. (p, IFile m 1 (Some d)) \<in> ?I}"
  have errors: "member_set_errors ms ?M an = [] \<longleftrightarrow> set (map as_record ms) = set ?M" for ms
    using member_set_errors_Nil [OF accepted_members(2) [OF rec]] accepted_vk [OF rec] by blast
  then show "verify_tree sha es rec an why = Inr ms \<Longrightarrow> set (map as_record ms) = set ?M"
    by (auto simp: verify_tree_Inr)
  have "(\<exists>ms. verify_tree sha es rec an why = Inr ms) \<longleftrightarrow>
      (\<forall>e \<in> ?I. plain_item (snd e)) \<and> dir_paths ?I \<subseteq> set (ancestors_of (map rm_path ?M)) \<and>
      (\<forall>(p, i) \<in> ?I. \<forall>m k c. i = IFile m k c \<longrightarrow> k = 1 \<and> c \<noteq> None) \<and> ?found = set ?M" (is "?l \<longleftrightarrow> ?r")
  proof
    assume ?l
    then obtain ms files directories where w: "walk_tree why es = Inr (files, directories)"
      "set directories \<subseteq> set (ancestors_of (map rm_path ?M))"
      "mapE (\<lambda>rel. hash_regular_file sha (lookup_at es (parts_of rel)) rel why) files = Inr ms"
      "set (map as_record ms) = set ?M" unfolding verify_tree_Inr errors by blast
    note found = walk_tree_found [OF w(1)]
    have "dir_paths ?I \<subseteq> set (ancestors_of (map rm_path ?M))" using found(2) w(2) by simp
    moreover have "\<forall>(p, i) \<in> ?I. \<forall>m k c. i = IFile m k c \<longrightarrow> k = 1 \<and> c \<noteq> None"
      by (rule mapE_hash(1) [OF wf found(1), THEN iffD1]) (use w(3) in blast)
    moreover have "?found = set ?M" using mapE_hash(2) [OF wf found(1) w(3)] w(4) by simp
    ultimately show ?r using found(3) by simp
  next
    assume r: ?r
    then obtain files directories where w: "walk_tree why es = Inr (files, directories)"
      using walk_complete [of why "[]" "sort_entries es"] by (auto simp: walk_tree_def items_sort)
    note found = walk_tree_found [OF w]
    from r have single: "\<forall>(p, i) \<in> ?I. \<forall>m k c. i = IFile m k c \<longrightarrow> k = 1 \<and> c \<noteq> None" by (elim conjE)
    obtain ms where ms: "mapE (\<lambda>rel. hash_regular_file sha (lookup_at es (parts_of rel)) rel why) files = Inr ms"
      by (rule exE [OF iffD2 [OF mapE_hash(1) [OF wf found(1), of sha why] single]])
    have "set (map as_record ms) = set ?M" using mapE_hash(2) [OF wf found(1) ms] r by simp
    moreover have "set directories \<subseteq> set (ancestors_of (map rm_path ?M))" using r found(2) by simp
    ultimately show ?l using w ms unfolding verify_tree_Inr errors by blast
  qed
  also have "?r \<longleftrightarrow> holds_exactly sha es ?M"
  proof
    assume r: ?r
    from r have members: "?found = set ?M" by (elim conjE)
    from r have plain: "\<forall>e \<in> ?I. plain_item (snd e)" by (elim conjE)
    have "holds_item sha ?M (p, i)" if e: "(p, i) \<in> ?I" for p i
    proof (cases i)
      case (IFile m k c)
      then obtain d where d: "k = 1" "c = Some d" using r e by fastforce
      with e IFile have "\<lparr>rm_path = p, rm_bytes = length d, rm_sha256 = JStr (sha d)\<rparr> \<in> ?found" by auto
      then have "\<lparr>rm_path = p, rm_bytes = length d, rm_sha256 = JStr (sha d)\<rparr> \<in> set ?M" unfolding members .
      then show ?thesis using d IFile by (simp add: holds_item_def)
    next
      case (IDir m)
      then have "p \<in> dir_paths ?I" using e by (auto simp: dir_paths_def)
      then show ?thesis using r IDir by (auto simp: holds_item_def)
    qed (use plain e in \<open>auto simp: plain_item_def\<close>)
    moreover have "\<exists>e \<in> ?I. fst e = rm_path w \<and> \<not> (\<exists>m. snd e = IDir m)" if "w \<in> set ?M" for w
    proof -
      from that have "w \<in> ?found" unfolding members .
      then obtain p m d where "(p, IFile m 1 (Some d)) \<in> ?I" "w = \<lparr>rm_path = p, rm_bytes = length d, rm_sha256 = JStr (sha d)\<rparr>"
        by blast
      then show ?thesis by (intro bexI [of _ "(p, IFile m 1 (Some d))"]) simp_all
    qed
    ultimately show "holds_exactly sha es ?M" by (auto simp: holds_exactly_def list_all_iff list_ex_iff)
  next
    assume h: "holds_exactly sha es ?M"
    then have i: "holds_item sha ?M (p, i)" if "(p, i) \<in> ?I" for p i
      using that by (auto simp: holds_exactly_def list_all_iff)
    have sub: "?found \<subseteq> set ?M" using i by (force simp: holds_item_def)
    have "set ?M \<subseteq> ?found"
    proof
      fix w assume w: "w \<in> set ?M"
      then obtain p j where e: "(p, j) \<in> ?I" "p = rm_path w" "\<not> (\<exists>m. j = IDir m)"
        using h by (fastforce simp: holds_exactly_def list_all_iff list_ex_iff)
      then obtain m d where d: "j = IFile m 1 (Some d)"
        "\<lparr>rm_path = p, rm_bytes = length d, rm_sha256 = JStr (sha d)\<rparr> \<in> set ?M"
        using i [OF e(1)] by (auto simp: holds_item_def split: item.splits option.splits)
      moreover have "inj_on rm_path (set ?M)" using accepted_members(2) [OF rec] by (simp add: distinct_map)
      ultimately have "w = \<lparr>rm_path = p, rm_bytes = length d, rm_sha256 = JStr (sha d)\<rparr>"
        using w e(2) by (intro inj_onD [of rm_path "set ?M"]) simp_all
      then show "w \<in> ?found" using e(1) d(1) by blast
    qed
    moreover have "plain_item i" "i = IFile m k c \<Longrightarrow> k = 1 \<and> c \<noteq> None" "i = IDir m \<Longrightarrow> p \<in> set (ancestors_of (map rm_path ?M))"
      if "(p, i) \<in> ?I" for p i m k c
      using i [OF that] by (auto simp: holds_item_def plain_item_def split: item.splits option.splits)
    ultimately show ?r using sub by (force simp: dir_paths_def)
  qed
  finally show "(\<exists>ms. verify_tree sha es rec an why = Inr ms) \<longleftrightarrow> holds_exactly sha es ?M" .
qed

end
