(* ===== verification/Prove_Gate.thy ===== *)
theory Prove_Gate
  imports Circuit_Install "HOL-Library.Word"
begin

text \<open>
  The archive-only gate in front of the local prover: \<open>scripts/lib/sp1-prove-gate.ts\<close>. The machine it runs
  on (files, owners, modes, links) is a record that the checks read and that locking the circuit root and the host
  run change; docker's answer, the host executable and \<open>JSON.parse\<close> are arguments.
\<close>

unbundle bit_operations_syntax

text \<open>A refusal of the circuit tooling, as an exception of this module's.\<close>

definition refused :: "refusal + 'a \<Rightarrow> tool_error + 'a" where
  "refused x = (case x of Inl e \<Rightarrow> Inl (Refused e) | Inr v \<Rightarrow> Inr v)"

section \<open>The prover's environment\<close>

datatype platform = Win32 | Posix

definition LOCAL_PROVER :: string where
  "LOCAL_PROVER = ''cpu''"

definition DOCKER_CONTEXT_FROZEN :: string where
  "DOCKER_CONTEXT_FROZEN = ''default''"

definition FROZEN_ENV :: "string list" where
  "FROZEN_ENV = [''SP1_PROVER'', ''SP1_GROTH16_CIRCUIT_PATH'', ''SP1_GNARK_IMAGE'', ''DOCKER_CONTEXT'']"

definition REFUSED_ENV :: "(string \<times> string) list" where
  "REFUSED_ENV =
     [(''SP1_CIRCUIT_MODE'', ''CIRCUIT_MODE''), (''SP1_PLONK_CIRCUIT_PATH'', ''ALTERNATE_CIRCUIT_PATH''),
      (''WITHOUT_VK_VERIFICATION'', ''VK_VERIFICATION_OFF''), (''SKIP_SIMULATION'', ''PROVER_NETWORK'')]"

definition REFUSED_ENV_PREFIX :: string where
  "REFUSED_ENV_PREFIX = ''NETWORK_''"

definition PASS_THROUGH_ENV :: "string list" where
  "PASS_THROUGH_ENV =
     [''PATH'', ''HOME'', ''USER'', ''LOGNAME'', ''LANG'', ''LC_ALL'', ''LC_CTYPE'', ''TZ'', ''TMPDIR'', ''TMP'', ''TEMP'',
      ''SYSTEMROOT'', ''WINDIR'', ''PATHEXT'', ''USERPROFILE'', ''XDG_RUNTIME_DIR'', ''DOCKER_HOST'', ''DOCKER_CONFIG'',
      ''RUST_LOG'', ''RUST_BACKTRACE'']"

text \<open>\<open>/^unix:\/\/\/./\<close>, open at its end, and \<open>/^npipe:\/\/\/\/\.\/pipe\/[^/\\]+$/\<close>.\<close>

definition local_docker_host :: "platform \<Rightarrow> char rx" where
  "local_docker_host p =
     (case p of
        Posix \<Rightarrow> rx_seq [rx_lit ''unix:///'', RCls (\<lambda>c. c \<noteq> CHR 0x0A \<and> c \<noteq> CHR 0x0D), rx_any]
      | Win32 \<Rightarrow> RSeq (rx_lit ''npipe:////./pipe/'') (rx_plus (RCls (\<lambda>c. c \<noteq> CHR ''/'' \<and> c \<noteq> CHR 0x5C))))"

record prover_env =
  pe_env :: "string \<rightharpoonup> string"
  pe_dropped :: "string list"

text \<open>Names of variables are ASCII, as the names they are compared with.\<close>

definition pass_name :: "platform \<Rightarrow> string \<Rightarrow> string" where
  "pass_name p k = (if p = Win32 then upper k else k)"

text \<open>Why a variable of the caller's is refused.\<close>

definition env_refusal :: "platform \<Rightarrow> string \<Rightarrow> string \<Rightarrow> string \<Rightarrow> string \<Rightarrow> refusal option" where
  "env_refusal p root ref k v =
     (let K = upper k; unless = (\<lambda>ok why. if ok then None else Some why)
      in if K = ''SP1_PROVER'' then unless (v = LOCAL_PROVER) (refuse ENV_REFUSED ''PROVER_MODE'')
         else if K = ''SP1_GROTH16_CIRCUIT_PATH'' then unless (v = root) (refuse ENV_REFUSED ''CIRCUIT_PATH_CONFLICT'')
         else if K = ''SP1_GNARK_IMAGE'' then
           (case image_ref_error v of
              Some bad \<Rightarrow> Some (refuse GNARK_IMAGE_NOT_PINNED bad)
            | None \<Rightarrow> unless (v = ref) (refuse GNARK_IMAGE_CONFLICT ''OTHER_DIGEST''))
         else if K = ''DOCKER_CONTEXT'' then
           unless (v = DOCKER_CONTEXT_FROZEN) (refuse ENV_REFUSED ''DOCKER_CONTEXT'')
         else if K = ''DOCKER_HOST'' then
           unless (rx_match (local_docker_host p) v) (refuse ENV_REFUSED ''DOCKER_ENDPOINT_NOT_LOCAL'')
         else (case map_of REFUSED_ENV K of
             Some why \<Rightarrow> Some (refuse ENV_REFUSED why)
           | None \<Rightarrow> unless (\<not> starts_with K REFUSED_ENV_PREFIX) (refuse ENV_REFUSED ''PROVER_NETWORK'')))"

text \<open>One turn of the loop; a value that is \<open>undefined\<close> is no variable.\<close>

definition add_variable ::
  "platform \<Rightarrow> string \<Rightarrow> string \<Rightarrow> prover_env \<Rightarrow> string \<times> string option \<Rightarrow> refusal + prover_env" where
  "add_variable p root ref e kv =
     (case kv of
        (k, None) \<Rightarrow> Inr e
      | (k, Some v) \<Rightarrow>
          (case env_refusal p root ref k v of
             Some why \<Rightarrow> Inl why
           | None \<Rightarrow>
               if pass_name p k \<in> set PASS_THROUGH_ENV then Inr (e\<lparr>pe_env := (pe_env e)(k \<mapsto> v)\<rparr>)
               else if upper k \<in> set FROZEN_ENV then Inr e
               else Inr (e\<lparr>pe_dropped := pe_dropped e @ [k]\<rparr>)))"

text \<open>\<open>names.sort()\<close>.\<close>

fun insert_name :: "string \<Rightarrow> string list \<Rightarrow> string list" where
  "insert_name k [] = [k]"
| "insert_name k (l # ls) = (if str_less k l then k # l # ls else l # insert_name k ls)"

definition sort_names :: "string list \<Rightarrow> string list" where
  "sort_names ks = foldr insert_name ks []"

definition build_prover_env ::
  "(string \<times> string option) list \<Rightarrow> string \<Rightarrow> string \<Rightarrow> platform \<Rightarrow> refusal + prover_env" where
  "build_prover_env caller root ref p =
     bindE (foldE (add_variable p root ref) \<lparr>pe_env = Map.empty, pe_dropped = []\<rparr> caller) (\<lambda>e.
     Inr \<lparr>pe_env = (pe_env e)(''SP1_PROVER'' \<mapsto> LOCAL_PROVER, ''SP1_GROTH16_CIRCUIT_PATH'' \<mapsto> root,
                       ''SP1_GNARK_IMAGE'' \<mapsto> ref, ''DOCKER_CONTEXT'' \<mapsto> DOCKER_CONTEXT_FROZEN),
          pe_dropped = sort_names (pe_dropped e)\<rparr>)"

section \<open>Paths\<close>

text \<open>\<open>isAbsolute\<close> and \<open>resolve\<close>. Windows resolves against the current directory of a drive, which is an argument.\<close>

fun is_absolute :: "platform \<Rightarrow> string \<Rightarrow> bool" where
  "is_absolute Posix s = starts_with s ''/''"
| "is_absolute Win32 s =
     (let sep = (\<lambda>c. c = CHR ''/'' \<or> c = CHR 0x5C)
      in s \<noteq> [] \<and> (sep (s ! 0) \<or> 2 < length s \<and> is_letter (s ! 0) \<and> s ! 1 = CHR '':'' \<and> sep (s ! 2)))"

definition resolve_path :: "(string \<Rightarrow> string) \<Rightarrow> platform \<Rightarrow> string \<Rightarrow> string" where
  "resolve_path win_resolve p s =
     (if p = Win32 then win_resolve s
      else ''/'' @ join_with ''/'' (resolve_from [] (split_on CHR ''/'' s)))"

definition circuit_root_error :: "(string \<Rightarrow> string) \<Rightarrow> string \<Rightarrow> platform \<Rightarrow> string option" where
  "circuit_root_error win_resolve root p =
     (let sep = (\<lambda>c. c = CHR ''/'' \<or> c = CHR 0x5C)
      in if p = Win32 \<and> 2 \<le> length root \<and> sep (root ! 0) \<and> sep (root ! 1) then Some ''UNC_PATH''
         else if \<not> is_absolute p root then Some ''RELATIVE''
         else if resolve_path win_resolve p root \<noteq> root then Some ''NOT_NORMALIZED''
         else if CHR '':'' \<in> set (if p = Win32 then drop 2 root else root) \<or> CHR '','' \<in> set root
           then Some ''MOUNT_UNSAFE_PATH''
         else None)"

text \<open>\<open>join(a, b)\<close> of a normalized directory and a plain name below it.\<close>

definition join_path :: "platform \<Rightarrow> string \<Rightarrow> string \<Rightarrow> string" where
  "join_path p a b =
     (let sep = (if p = Win32 then CHR 0x5C else CHR ''/'')
      in if a \<noteq> [] \<and> last a = sep then a @ b else a @ [sep] @ b)"

definition to_fs :: "platform \<Rightarrow> string \<Rightarrow> string \<Rightarrow> string" where
  "to_fs p dir rel = foldl (join_path p) dir (parts_of rel)"

section \<open>The machine\<close>

text \<open>What \<open>lstat\<close> answers. Modes are 32-bit integers, as JavaScript's bitwise operators make them.\<close>

record file_stat =
  fs_uid :: nat
  fs_mode :: "32 word"
  fs_dev :: nat
  fs_ino :: nat
  fs_nlink :: nat
  fs_size :: nat
  fs_mtime :: nat
  fs_ctime :: nat

text \<open>
  The process's platform and user, what stands at a path with everything below it, what \<open>lstat\<close> and \<open>realpath\<close>
  answer for a path (\<open>None\<close>: they throw), and the time.
\<close>

record machine =
  mc_platform :: platform
  mc_uid :: nat
  mc_node :: "string \<Rightarrow> node option"
  mc_stat :: "string \<Rightarrow> file_stat option"
  mc_real :: "string \<Rightarrow> string option"
  mc_time :: nat

text \<open>\<open>chmodSync\<close>: the owner and the superuser may, and the file's change time moves.\<close>

definition chmod_path :: "string \<Rightarrow> 32 word \<Rightarrow> machine \<Rightarrow> tool_error + machine" where
  "chmod_path path mode w =
     (case mc_stat w path of
        None \<Rightarrow> Inl Thrown
      | Some s \<Rightarrow>
          if fs_uid s \<noteq> mc_uid w \<and> mc_uid w \<noteq> 0 then Inl Thrown
          else Inr (w\<lparr>mc_stat := (mc_stat w)(path \<mapsto>
                 s\<lparr>fs_mode := (fs_mode s AND NOT 0xFFF) OR mode, fs_ctime := mc_time w\<rparr>)\<rparr>))"

text \<open>What is in the circuit directory, the entry \<open>version\<close> of the root.\<close>

definition circuit_entries :: "machine \<Rightarrow> string \<Rightarrow> string \<Rightarrow> entries option" where
  "circuit_entries w root version =
     (case mc_node w root of
        Some (NDir m es) \<Rightarrow> (case map_of es version of Some (NDir m' dir) \<Rightarrow> Some dir | _ \<Rightarrow> None)
      | _ \<Rightarrow> None)"

section \<open>A path only its owner can change\<close>

text \<open>\<open>posix.dirname\<close>: up to the last separator, trailing ones not counted.\<close>

definition posix_dirname :: "string \<Rightarrow> string" where
  "posix_dirname p =
     (if p = [] then ''.''
      else let rest = rev (dropWhile (\<lambda>c. c = CHR ''/'') (rev (tl p)))
           in if CHR ''/'' \<notin> set rest then (if hd p = CHR ''/'' then ''/'' else ''.'')
              else let e = length rest - length (takeWhile (\<lambda>c. c \<noteq> CHR ''/'') (rev rest))
                   in if hd p = CHR ''/'' \<and> e = 1 then ''//'' else take e p)"

text \<open>
  The loop of \<open>securePathError\<close>, from the root upwards. Not returning is \<open>None\<close>; a throw of \<open>lstat\<close>'s is \<open>Inl\<close>.
  The masks are \<open>0o022\<close>, written by group or others, and \<open>0o1000\<close>, sticky.
\<close>

partial_function (option) secure_loop ::
  "(string \<Rightarrow> file_stat option) \<Rightarrow> string \<Rightarrow> nat \<Rightarrow> string \<Rightarrow> (tool_error + string option) option" where
  "secure_loop lstat root uid p =
     (case lstat p of
        None \<Rightarrow> Some (Inl Thrown)
      | Some st \<Rightarrow>
          if fs_uid st \<noteq> uid \<and> (p = root \<or> fs_uid st \<noteq> 0)
          then Some (Inr (Some (if p = root then ''NOT_OWNED'' else ''FOREIGN_ANCESTOR'')))
          else if fs_mode st AND 0x12 \<noteq> 0 \<and> (p = root \<or> fs_mode st AND 0x200 = 0)
          then Some (Inr (Some (if p = root then ''WRITABLE_BY_OTHERS'' else ''WRITABLE_ANCESTOR'')))
          else if p = ''/'' then Some (Inr None)
          else secure_loop lstat root uid (posix_dirname p))"

definition secure_path_error ::
  "string \<Rightarrow> nat \<Rightarrow> (string \<Rightarrow> file_stat option) \<Rightarrow> (string \<Rightarrow> string option) \<Rightarrow> (tool_error + string option) option" where
  "secure_path_error root uid lstat realpath =
     (case realpath root of
        None \<Rightarrow> Some (Inr (Some ''ABSENT''))
      | Some real \<Rightarrow>
          if real \<noteq> root then Some (Inr (Some ''LINKED_PATH''))
          else secure_loop lstat root uid root)"

section \<open>The lock\<close>

text \<open>A guard locks the root and answers how to release it.\<close>

type_synonym root_guard =
  "string \<Rightarrow> string \<Rightarrow> string \<Rightarrow> machine \<Rightarrow> tool_error + machine \<times> (machine \<Rightarrow> tool_error + machine)"

definition owned_alone :: "machine \<Rightarrow> nat \<Rightarrow> unit \<Rightarrow> string \<Rightarrow> tool_error + unit" where
  "owned_alone w uid u path =
     (case mc_stat w path of
        None \<Rightarrow> Inl Thrown
      | Some st \<Rightarrow>
          if fs_uid st \<noteq> uid \<or> fs_mode st AND 0x12 \<noteq> 0
          then Inl (Refused (refuse CIRCUIT_ROOT_INVALID ''WRITABLE_BY_OTHERS'')) else Inr ())"

definition installed_paths :: "refusal_code \<Rightarrow> machine \<Rightarrow> string \<Rightarrow> string \<Rightarrow> tool_error + string list \<times> string list" where
  "installed_paths why w root version =
     (case circuit_entries w root version of
        None \<Rightarrow> Inl Thrown
      | Some dir \<Rightarrow> refused (walk_tree why dir))"

definition posix_root_guard_for :: "platform \<Rightarrow> nat \<Rightarrow> root_guard" where
  "posix_root_guard_for p uid root version dir w =
     (if p = Win32 then Inl (Refused (refuse PROVE_HOST_UNSUPPORTED ''WINDOWS''))
      else if uid = 0 then Inl (Refused (refuse PROVE_HOST_UNSUPPORTED ''RUNS_AS_ROOT''))
      else (case secure_path_error root uid (mc_stat w) (mc_real w) of
        None \<Rightarrow> Inl Diverged
      | Some (Inl e) \<Rightarrow> Inl e
      | Some (Inr (Some bad)) \<Rightarrow> Inl (Refused (refuse CIRCUIT_ROOT_INVALID bad))
      | Some (Inr None) \<Rightarrow>
          bindE (installed_paths CIRCUIT_INTEGRITY_FAILED w root version) (\<lambda>(files, directories).
          bindE (foldE (owned_alone w uid) () (dir # map (to_fs p dir) (directories @ files))) (\<lambda>_.
          (case mc_stat w root of
             None \<Rightarrow> Inl Thrown
           | Some st \<Rightarrow>
               let mode = fs_mode st AND 0xFFF
               in bindE (chmod_path root (mode AND NOT 0x92) w) (\<lambda>w. Inr (w, chmod_path root mode)))))))"

section \<open>What an installation is\<close>

text \<open>\<open>installationIdentity\<close>, a line for each path.\<close>

definition identity_line :: "string \<Rightarrow> file_stat \<Rightarrow> string" where
  "identity_line rel s =
     rel @ [CHR 0x09] @ join_with '':'' (map (num_string 10)
       [fs_dev s, fs_ino s, fs_nlink s, fs_size s, unat (fs_mode s), fs_mtime s, fs_ctime s])"

definition line_of :: "machine \<Rightarrow> string \<times> string \<Rightarrow> tool_error + string" where
  "line_of w rp = (case mc_stat w (snd rp) of None \<Rightarrow> Inl Thrown | Some s \<Rightarrow> Inr (identity_line (fst rp) s))"

definition installation_identity :: "machine \<Rightarrow> string \<Rightarrow> string \<Rightarrow> string \<Rightarrow> tool_error + string list" where
  "installation_identity w root version dir =
     bindE (installed_paths CIRCUIT_INTEGRITY_FAILED_AFTER_PROVE w root version) (\<lambda>(files, directories).
     mapE (line_of w)
       ((''<root>'', root) # ('''', dir) #
        map (\<lambda>rel. (rel, to_fs (mc_platform w) dir rel)) (sort_names (directories @ files))))"

section \<open>The gate\<close>

record gate_input =
  gi_record :: json
  gi_anchor :: archive_anchor
  gi_root :: string
  gi_host :: string
  gi_inputs :: string
  gi_env :: "(string \<times> string option) list"
  gi_platform :: platform

record prove_plan =
  pl_executable :: string
  pl_args :: "string list"
  pl_env :: "string \<rightharpoonup> string"
  pl_dropped :: "string list"
  pl_circuit_dir :: string
  pl_image_ref :: string
  pl_record :: archive_record

definition regular_file :: "machine \<Rightarrow> string \<Rightarrow> refusal + unit" where
  "regular_file w path =
     (if \<not> is_absolute (mc_platform w) path then Inl (refuse PROVE_INPUT_INVALID ''RELATIVE'')
      else case mc_node w path of
        None \<Rightarrow> Inl (refuse PROVE_INPUT_INVALID ''ABSENT'')
      | Some (NFile m links d) \<Rightarrow> Inr ()
      | Some _ \<Rightarrow> Inl (refuse PROVE_INPUT_INVALID ''NOT_A_FILE''))"

text \<open>\<open>verifyInstalledCircuit\<close> on this machine.\<close>

definition installed ::
  "(buffer \<Rightarrow> string) \<Rightarrow> archive_anchor \<Rightarrow> archive_record \<Rightarrow> string \<Rightarrow> machine \<Rightarrow> refusal + scanned_member list" where
  "installed sha an rec root w =
     verify_installed_circuit sha (is_absolute (mc_platform w) root) (mc_node w root) rec an"

text \<open>What docker answers: the repo digests of a local image, that there is none, or no answer.\<close>

type_synonym local_images = "string \<Rightarrow> (string \<rightharpoonup> string) \<Rightarrow> unit + string list option"

definition local_image :: "local_images \<Rightarrow> string \<Rightarrow> (string \<rightharpoonup> string) \<Rightarrow> refusal + unit" where
  "local_image images ref env =
     (case images ref env of
        Inl u \<Rightarrow> Inl (refuse GNARK_IMAGE_NOT_LOCAL ''UNVERIFIABLE'')
      | Inr None \<Rightarrow> Inl (refuse GNARK_IMAGE_NOT_LOCAL ''ABSENT'')
      | Inr (Some digests) \<Rightarrow>
          if ref \<notin> set digests then Inl (refuse GNARK_IMAGE_NOT_LOCAL ''DIGEST_NOT_LOCAL'') else Inr ())"

definition prepare_archive_only_prove ::
  "(buffer \<Rightarrow> string) \<Rightarrow> (string \<Rightarrow> bool) \<Rightarrow> (string \<Rightarrow> string) \<Rightarrow> gate_input \<Rightarrow> local_images \<Rightarrow> machine \<Rightarrow>
   refusal + prove_plan" where
  "prepare_archive_only_prove sha https win_resolve i images w =
     bindE (accepted_record https (gi_anchor i) (gi_record i)) (\<lambda>rec.
     let ref = ar_image rec
     in case circuit_root_error win_resolve (gi_root i) (gi_platform i) of
          Some bad \<Rightarrow> Inl (refuse CIRCUIT_ROOT_INVALID bad)
        | None \<Rightarrow>
            bindE (build_prover_env (gi_env i) (gi_root i) ref (gi_platform i)) (\<lambda>e.
            bindE (regular_file w (gi_host i)) (\<lambda>_.
            bindE (regular_file w (gi_inputs i)) (\<lambda>_.
            bindE (local_image images ref (pe_env e)) (\<lambda>_.
            bindE (installed sha (gi_anchor i) rec (gi_root i) w) (\<lambda>_.
            Inr \<lparr>pl_executable = gi_host i, pl_args = [''prove'', gi_inputs i], pl_env = pe_env e,
                 pl_dropped = pe_dropped e,
                 pl_circuit_dir = join_path (mc_platform w) (gi_root i) (an_circuit_version (gi_anchor i)),
                 pl_image_ref = ref, pl_record = rec\<rparr>))))))"

section \<open>The proof\<close>

record spawn_result =
  sr_status :: "int option"
  sr_stdout :: string

text \<open>\<open>split(/\r?\n/)\<close>, and whether \<open>trim()\<close> leaves nothing.\<close>

definition js_lines :: "string \<Rightarrow> string list" where
  "js_lines s =
     (let ls = split_on CHR 0x0A s; cut = (\<lambda>l. if l \<noteq> [] \<and> last l = CHR 0x0D then butlast l else l)
      in map cut (butlast ls) @ [last ls])"

definition blank :: "string \<Rightarrow> bool" where
  "blank l = list_all (\<lambda>c. 9 \<le> code c \<and> code c \<le> 13 \<or> code c = 32 \<or> code c = 160) l"

definition last_line :: "string \<Rightarrow> string" where
  "last_line s = (case rev (filter (\<lambda>l. \<not> blank l) (js_lines s)) of [] \<Rightarrow> '''' | l # ls \<Rightarrow> l)"

text \<open>\<open>/^0x(?:[0-9a-f]{2})*$/\<close>, and with \<open>+\<close>.\<close>

definition hex_bytes_rx :: "char rx" where
  "hex_bytes_rx = RSeq (rx_lit ''0x'') (RStar (rx_rep 2 (RCls is_lower_hex)))"

definition some_hex_bytes_rx :: "char rx" where
  "some_hex_bytes_rx = RSeq (rx_lit ''0x'') (rx_plus (rx_rep 2 (RCls is_lower_hex)))"

record proof_output =
  po_vkey :: "json option"
  po_public_values :: "json option"
  po_proof_bytes :: "json option"

definition proof_output_of :: "(string \<Rightarrow> json option) \<Rightarrow> string \<Rightarrow> archive_anchor \<Rightarrow> refusal + proof_output" where
  "proof_output_of parse stdout an =
     (case parse (last_line stdout) of
        None \<Rightarrow> Inl (refuse PROOF_OUTPUT_REFUSED ''NOT_JSON'')
      | Some out \<Rightarrow>
          let proof = js_string_opt (lookup out ''proofBytes'')
          in if \<not> strict_eq_opt (JStr (an_program_vkey an)) (lookup out ''vkey'')
             then Inl (refuse PROOF_OUTPUT_REFUSED ''VKEY_MISMATCH'')
             else if \<not> rx_match hex_bytes_rx (js_string_opt (lookup out ''publicValues'')) \<or>
                     \<not> rx_match some_hex_bytes_rx proof
             then Inl (refuse PROOF_OUTPUT_REFUSED ''SHAPE'')
             else if take 8 (drop 2 proof) \<noteq> take 8 (drop 2 (an_vk_sha256 an))
             then Inl (refuse PROOF_OUTPUT_REFUSED ''SELECTOR_MISMATCH'')
             else Inr \<lparr>po_vkey = lookup out ''vkey'', po_public_values = lookup out ''publicValues'',
                       po_proof_bytes = lookup out ''proofBytes''\<rparr>)"

section \<open>The run\<close>

text \<open>The host: given the plan, it fails to run or answers, and may have changed the machine.\<close>

type_synonym spawner = "prove_plan \<Rightarrow> machine \<Rightarrow> (tool_error + spawn_result) \<times> machine"

text \<open>The installation, verified and identified.\<close>

definition verified_identity ::
  "(buffer \<Rightarrow> string) \<Rightarrow> gate_input \<Rightarrow> prove_plan \<Rightarrow> machine \<Rightarrow> tool_error + string" where
  "verified_identity sha i plan w =
     bindE (refused (installed sha (gi_anchor i) (pl_record plan) (gi_root i) w)) (\<lambda>_.
     bindE (installation_identity w (gi_root i) (an_circuit_version (gi_anchor i)) (pl_circuit_dir plan)) (\<lambda>ls.
     Inr (join_with [CHR 0x0A] ls)))"

definition check_after ::
  "(buffer \<Rightarrow> string) \<Rightarrow> gate_input \<Rightarrow> prove_plan \<Rightarrow> string \<Rightarrow> machine \<Rightarrow> tool_error + unit" where
  "check_after sha i plan before w =
     (case bindE (verified_identity sha i plan w) (\<lambda>now.
             if now \<noteq> before then Inl (Refused (refuse CIRCUIT_INTEGRITY_FAILED_AFTER_PROVE ''REPLACED''))
             else Inr ()) of
        Inr u \<Rightarrow> Inr ()
      | Inl (Refused e) \<Rightarrow> Inl (Refused (refuse CIRCUIT_INTEGRITY_FAILED_AFTER_PROVE (r_reason e)))
      | Inl _ \<Rightarrow> Inl (Refused (refuse CIRCUIT_INTEGRITY_FAILED_AFTER_PROVE ''UNEXPECTED'')))"

definition under_lock ::
  "(buffer \<Rightarrow> string) \<Rightarrow> gate_input \<Rightarrow> spawner \<Rightarrow> prove_plan \<Rightarrow> machine \<Rightarrow>
   (tool_error + tool_error + spawn_result) \<times> machine" where
  "under_lock sha i spawn plan w =
     (case verified_identity sha i plan w of
        Inl e \<Rightarrow> (Inl e, w)
      | Inr before \<Rightarrow>
          let (result, w) = spawn plan w
          in (bindE (check_after sha i plan before w) (\<lambda>_. Inr result), w))"

definition host_output ::
  "(string \<Rightarrow> json option) \<Rightarrow> archive_anchor \<Rightarrow> tool_error + spawn_result \<Rightarrow> tool_error + proof_output" where
  "host_output parse an result =
     (case result of
        Inl (Refused e) \<Rightarrow>
          if r_code e = PROOF_OUTPUT_REFUSED then Inl (Refused e)
          else Inl (Refused (refuse PROVER_SPAWN_FAILED ''SPAWN''))
      | Inl _ \<Rightarrow> Inl (Refused (refuse PROVER_SPAWN_FAILED ''SPAWN''))
      | Inr done \<Rightarrow>
          if sr_status done \<noteq> Some 0 then Inl (Refused (refuse PROVER_FAILED ''EXIT''))
          else refused (proof_output_of parse (sr_stdout done) an))"

text \<open>The release is in a \<open>finally\<close>: it comes first, and what it throws is what is thrown.\<close>

definition run_archive_only_prove ::
  "(buffer \<Rightarrow> string) \<Rightarrow> (string \<Rightarrow> bool) \<Rightarrow> (string \<Rightarrow> string) \<Rightarrow> (string \<Rightarrow> json option) \<Rightarrow> gate_input \<Rightarrow>
   local_images \<Rightarrow> spawner \<Rightarrow> root_guard \<Rightarrow> machine \<Rightarrow> (tool_error + prove_plan \<times> proof_output) \<times> machine" where
  "run_archive_only_prove sha https win_resolve parse i images spawn guard w =
     (case prepare_archive_only_prove sha https win_resolve i images w of
        Inl e \<Rightarrow> (Inl (Refused e), w)
      | Inr plan \<Rightarrow>
          (case guard (gi_root i) (an_circuit_version (gi_anchor i)) (pl_circuit_dir plan) w of
             Inl e \<Rightarrow> (Inl e, w)
           | Inr (w, release) \<Rightarrow>
               let (result, w) = under_lock sha i spawn plan w
               in case release w of
                    Inl e \<Rightarrow> (Inl e, w)
                  | Inr w \<Rightarrow>
                      (bindE result (\<lambda>r. bindE (host_output parse (gi_anchor i) r) (\<lambda>out. Inr (plan, out))), w)))"


end
