(* ===== verification/Sink_Journal.thy ===== *)
theory Sink_Journal
  imports Tar_Accept
begin

text \<open>
  What the parser does to its caller's sink, separated from what the sink does. Run with a sink that only
  writes down the calls, the parser yields a journal; run with any other sink it reads the same archive and
  leaves the state that performing the journal leaves, call by call, and it is refused when one of the
  calls is. So a property of a sink is a property of the calls it gets.
\<close>

section \<open>Calls and journals\<close>

datatype sink_op =
    OpenOp string nat
  | WriteOp string buffer
  | CloseOp string
  | DirectoryOp string

primrec perform :: "'w parser_opts \<Rightarrow> 'w \<Rightarrow> sink_op \<Rightarrow> 'w stopped + 'w" where
  "perform opts w (OpenOp path n) = o_open opts path n w"
| "perform opts w (WriteOp path d) = o_write opts path d w"
| "perform opts w (CloseOp path) = o_close opts path w"
| "perform opts w (DirectoryOp path) = o_directory opts path w"

definition journal_opts :: "'w parser_opts \<Rightarrow> sink_op list parser_opts" where
  "journal_opts opts =
     \<lparr>o_limits = o_limits opts, o_sha256 = o_sha256 opts, o_expect = o_expect opts,
      o_expect_metadata = o_expect_metadata opts,
      o_open = (\<lambda>path n j. Inr (j @ [OpenOp path n])), o_write = (\<lambda>path d j. Inr (j @ [WriteOp path d])),
      o_close = (\<lambda>path j. Inr (j @ [CloseOp path])), o_directory = (\<lambda>path j. Inr (j @ [DirectoryOp path]))\<rparr>"

lemma journal_opts_simps [simp]:
  "o_limits (journal_opts opts) = o_limits opts" "o_sha256 (journal_opts opts) = o_sha256 opts"
  "o_expect (journal_opts opts) = o_expect opts" "o_expect_metadata (journal_opts opts) = o_expect_metadata opts"
  "o_open (journal_opts opts) path n j = Inr (j @ [OpenOp path n])"
  "o_write (journal_opts opts) path d j = Inr (j @ [WriteOp path d])"
  "o_close (journal_opts opts) path j = Inr (j @ [CloseOp path])"
  "o_directory (journal_opts opts) path j = Inr (j @ [DirectoryOp path])"
  by (simp_all add: journal_opts_def)

text \<open>A parser with another sink's state in place of its own.\<close>

definition with_world :: "'v \<Rightarrow> 'w parser \<Rightarrow> 'v parser" where
  "with_world v p =
     \<lparr>p_members = p_members p, p_directories = p_directories p, p_metadata = p_metadata p,
      p_provenance = p_provenance p, p_tree = p_tree p, p_companion = p_companion p, p_state = p_state p,
      p_header = p_header p, p_offset = p_offset p, p_entries = p_entries p, p_file_bytes = p_file_bytes p,
      p_remaining = p_remaining p, p_padding = p_padding p, p_pax = p_pax p, p_pax_chunks = p_pax_chunks p,
      p_file = p_file p, p_world = v\<rparr>"

lemma with_world_fields [simp]:
  "p_members (with_world v p) = p_members p" "p_directories (with_world v p) = p_directories p"
  "p_metadata (with_world v p) = p_metadata p" "p_provenance (with_world v p) = p_provenance p"
  "p_tree (with_world v p) = p_tree p" "p_companion (with_world v p) = p_companion p"
  "p_state (with_world v p) = p_state p" "p_header (with_world v p) = p_header p"
  "p_offset (with_world v p) = p_offset p" "p_entries (with_world v p) = p_entries p"
  "p_file_bytes (with_world v p) = p_file_bytes p" "p_remaining (with_world v p) = p_remaining p"
  "p_padding (with_world v p) = p_padding p" "p_pax (with_world v p) = p_pax p"
  "p_pax_chunks (with_world v p) = p_pax_chunks p" "p_file (with_world v p) = p_file p"
  "p_world (with_world v p) = v"
  by (simp_all add: with_world_def)

lemma with_world_updates [simp]:
  "(with_world v p)\<lparr>p_members := a\<rparr> = with_world v (p\<lparr>p_members := a\<rparr>)"
  "(with_world v p)\<lparr>p_directories := b\<rparr> = with_world v (p\<lparr>p_directories := b\<rparr>)"
  "(with_world v p)\<lparr>p_metadata := a\<rparr> = with_world v (p\<lparr>p_metadata := a\<rparr>)"
  "(with_world v p)\<lparr>p_provenance := b\<rparr> = with_world v (p\<lparr>p_provenance := b\<rparr>)"
  "(with_world v p)\<lparr>p_tree := t\<rparr> = with_world v (p\<lparr>p_tree := t\<rparr>)"
  "(with_world v p)\<lparr>p_companion := c\<rparr> = with_world v (p\<lparr>p_companion := c\<rparr>)"
  "(with_world v p)\<lparr>p_state := s\<rparr> = with_world v (p\<lparr>p_state := s\<rparr>)"
  "(with_world v p)\<lparr>p_header := h\<rparr> = with_world v (p\<lparr>p_header := h\<rparr>)"
  "(with_world v p)\<lparr>p_offset := n\<rparr> = with_world v (p\<lparr>p_offset := n\<rparr>)"
  "(with_world v p)\<lparr>p_entries := n\<rparr> = with_world v (p\<lparr>p_entries := n\<rparr>)"
  "(with_world v p)\<lparr>p_file_bytes := n\<rparr> = with_world v (p\<lparr>p_file_bytes := n\<rparr>)"
  "(with_world v p)\<lparr>p_remaining := n\<rparr> = with_world v (p\<lparr>p_remaining := n\<rparr>)"
  "(with_world v p)\<lparr>p_padding := n\<rparr> = with_world v (p\<lparr>p_padding := n\<rparr>)"
  "(with_world v p)\<lparr>p_pax := x\<rparr> = with_world v (p\<lparr>p_pax := x\<rparr>)"
  "(with_world v p)\<lparr>p_pax_chunks := k\<rparr> = with_world v (p\<lparr>p_pax_chunks := k\<rparr>)"
  "(with_world v p)\<lparr>p_file := f\<rparr> = with_world v (p\<lparr>p_file := f\<rparr>)"
  "(with_world v p)\<lparr>p_world := w\<rparr> = with_world w p"
  "with_world v (p\<lparr>p_world := u\<rparr>) = with_world v p"
  by (simp_all add: with_world_def)

lemma with_world_self: "with_world (p_world p) p = p"
  by (simp add: with_world_def)

lemma with_world_new [simp]: "with_world v (new_parser w) = new_parser v"
  by (simp add: with_world_def new_parser_def)

lemma finish_with_world [simp]: "finish (with_world v p) = finish p"
  by (simp add: finish_def)

section \<open>A run and its journal\<close>

text \<open>
  From a state \<open>v\<close> and a journal \<open>j\<close>: the run succeeds exactly when the journalling run does and the calls it
  adds can be performed, and then the two agree but for the sink.
\<close>

definition mirrors ::
  "'w parser_opts \<Rightarrow> sink_op list \<Rightarrow> 'w \<Rightarrow> 'w stopped + 'w parser \<Rightarrow> sink_op list stopped + sink_op list parser \<Rightarrow> bool" where
  "mirrors opts j v r rj \<longleftrightarrow>
     (\<forall>p. rj = Inr p \<longrightarrow> (\<exists>ops. p_world p = j @ ops)) \<and>
     (\<forall>q. r = Inr q \<longleftrightarrow> (\<exists>p ops v'. rj = Inr p \<and> p_world p = j @ ops \<and>
       foldE (perform opts) v ops = Inr v' \<and> q = with_world v' p))"

named_theorems mirrors_rules \<open>the methods of the parser and their journals\<close>

lemma mirrors_Inr: "p_world p = j \<Longrightarrow> q = with_world v p \<Longrightarrow> mirrors opts j v (Inr q) (Inr p)"
  by (auto simp: mirrors_def)

lemma mirrors_Inl: "mirrors opts j v (Inl e) (Inl e')"
  by (simp add: mirrors_def)

lemma mirrors_bind:
  assumes "mirrors opts j v r rj"
    and "\<And>p v'. rj = Inr p \<Longrightarrow> mirrors opts (p_world p) v' (k (with_world v' p)) (kj p)"
  shows "mirrors opts j v (bindE r k) (bindE rj kj)"
proof (cases rj)
  case (Inl e)
  then show ?thesis using assms(1) by (cases r) (auto simp: mirrors_def)
next
  case (Inr p)
  then obtain ops where ops: "p_world p = j @ ops" using assms(1) by (auto simp: mirrors_def)
  have r: "r = Inr q \<longleftrightarrow> (\<exists>v'. foldE (perform opts) v ops = Inr v' \<and> q = with_world v' p)" for q
    using assms(1) Inr ops by (auto simp: mirrors_def)
  have k: "mirrors opts (j @ ops) v' (k (with_world v' p)) (kj p)" for v'
    using assms(2) [OF Inr] ops by simp
  show ?thesis
    unfolding mirrors_def Inr bindE_Inr
  proof (intro conjI allI impI)
    fix p' assume "kj p = Inr p'"
    then have "\<exists>ops'. p_world p' = (j @ ops) @ ops'" using k unfolding mirrors_def by blast
    then show "\<exists>ops. p_world p' = j @ ops" by auto
  next
    fix q
    show "bindE r k = Inr q \<longleftrightarrow> (\<exists>p' ops v'. kj p = Inr p' \<and> p_world p' = j @ ops \<and>
        foldE (perform opts) v ops = Inr v' \<and> q = with_world v' p')" (is "?l \<longleftrightarrow> ?r")
    proof
      assume ?l
      then obtain x where x: "r = Inr x" "k x = Inr q" by (auto simp: bindE_eq_Inr)
      then obtain v' where v': "foldE (perform opts) v ops = Inr v'" "k (with_world v' p) = Inr q" using r by auto
      then obtain p' ops' v'' where "kj p = Inr p'" "p_world p' = (j @ ops) @ ops'"
        "foldE (perform opts) v' ops' = Inr v''" "q = with_world v'' p'"
        using k [of v'] unfolding mirrors_def by blast
      with v'(1) show ?r by (intro exI [of _ p'] exI [of _ "ops @ ops'"] exI [of _ v'']) (simp add: foldE_append)
    next
      assume ?r
      then obtain p' all v'' where p': "kj p = Inr p'" "p_world p' = j @ all"
        "foldE (perform opts) v all = Inr v''" "q = with_world v'' p'" by blast
      then obtain ops' where "p_world p' = (j @ ops) @ ops'" using k unfolding mirrors_def by blast
      with p'(2,3) obtain v' where v': "foldE (perform opts) v ops = Inr v'" "foldE (perform opts) v' ops' = Inr v''"
        and "p_world p' = (j @ ops) @ ops'" by (auto simp: foldE_append bindE_eq_Inr)
      then have "k (with_world v' p) = Inr q" using k [of v'] p'(1,4) unfolding mirrors_def by blast
      moreover have "r = Inr (with_world v' p)" using r v'(1) by blast
      ultimately show ?l by simp
    qed
  qed
qed

lemma mirrors_value:
  "(\<And>x. m = Inr x \<Longrightarrow> mirrors opts j v (k x) (kj x)) \<Longrightarrow>
   mirrors opts j v (bindE (during q m) k) (bindE (during p m) kj)"
  by (cases m) (auto simp: during_def intro: mirrors_Inl)

lemma mirrors_call:
  assumes "perform opts v op = m"
    and "\<And>v'. m = Inr v' \<Longrightarrow> mirrors opts (j @ [op]) v' (k v') rj" and "\<And>p. rj = Inr p \<Longrightarrow> \<exists>ops. p_world p = (j @ [op]) @ ops"
  shows "mirrors opts j v (bindE m k) rj"
proof (cases m)
  case (Inl e)
  then show ?thesis using assms(1,3) by (force simp: mirrors_def)
next
  case (Inr v')
  have k: "k v' = Inr q \<longleftrightarrow> (\<exists>p ops v''. rj = Inr p \<and> p_world p = (j @ [op]) @ ops \<and>
      foldE (perform opts) v' ops = Inr v'' \<and> q = with_world v'' p)" for q
    using assms(2) [OF Inr] unfolding mirrors_def by blast
  have step: "foldE (perform opts) v (op # ops) = foldE (perform opts) v' ops" for ops
    using assms(1) Inr by simp
  show ?thesis
    unfolding mirrors_def Inr bindE_Inr
  proof (intro conjI allI impI)
    fix p assume "rj = Inr p"
    then show "\<exists>ops. p_world p = j @ ops" using assms(3) by force
  next
    fix q
    show "k v' = Inr q \<longleftrightarrow> (\<exists>p ops v''. rj = Inr p \<and> p_world p = j @ ops \<and>
        foldE (perform opts) v ops = Inr v'' \<and> q = with_world v'' p)" (is "?l \<longleftrightarrow> ?r")
    proof
      assume ?l
      then obtain p ops v'' where "rj = Inr p" "p_world p = (j @ [op]) @ ops"
        "foldE (perform opts) v' ops = Inr v''" "q = with_world v'' p" using k by blast
      then show ?r using step [of ops] by (intro exI [of _ p] exI [of _ "op # ops"] exI [of _ v'']) simp
    next
      assume ?r
      then obtain p all v'' where p: "rj = Inr p" "p_world p = j @ all"
        "foldE (perform opts) v all = Inr v''" "q = with_world v'' p" by blast
      then obtain ops where "all = op # ops" using assms(3) by force
      then have "p_world p = (j @ [op]) @ ops" "foldE (perform opts) v' ops = Inr v''"
        using p(2,3) step [of ops] by simp_all
      then show ?l using p(1,4) unfolding k by blast
    qed
  qed
qed

section \<open>The methods\<close>

lemma mirrors_extends: "mirrors opts j v r rj \<Longrightarrow> rj = Inr p \<Longrightarrow> \<exists>ops. p_world p = j @ ops"
  by (simp add: mirrors_def)

lemma end_data_mirrors [mirrors_rules]:
  "mirrors opts (p_world p) v (end_data opts (with_world v p)) (end_data (journal_opts opts) p)"
  unfolding end_data_def with_world_fields
proof (rule mirrors_bind)
  show "mirrors opts (p_world p) v
     (case p_pax_chunks p of Some d \<Rightarrow> end_pax_data d (with_world v p)
      | None \<Rightarrow> case p_file p of Some f \<Rightarrow> end_file_data opts f (with_world v p) | None \<Rightarrow> Inr (with_world v p))
     (case p_pax_chunks p of Some d \<Rightarrow> end_pax_data d p
      | None \<Rightarrow> case p_file p of Some f \<Rightarrow> end_file_data (journal_opts opts) f p | None \<Rightarrow> Inr p)"
    unfolding end_pax_data_def end_file_data_def Let_def
    by (auto intro!: mirrors_value mirrors_Inr mirrors_Inl mirrors_call split: option.split)
qed (auto intro!: mirrors_Inr)

lemma start_data_mirrors [mirrors_rules]:
  "mirrors opts (p_world p) v (start_data opts sz (with_world v p)) (start_data (journal_opts opts) sz p)"
proof -
  let ?q = "p\<lparr>p_remaining := sz, p_padding := (512 - sz mod 512) mod 512\<rparr>"
  show ?thesis
    using end_data_mirrors [of opts ?q v] by (auto simp: start_data_def Let_def intro!: mirrors_Inr)
qed


lemma on_pax_header_mirrors [mirrors_rules]:
  "mirrors opts (p_world p) v (on_pax_header opts h (with_world v p)) (on_pax_header (journal_opts opts) h p)"
proof -
  let ?q = "p\<lparr>p_pax_chunks := Some [], p_pax := Some []\<rparr>"
  show ?thesis
    using start_data_mirrors [of opts ?q v]
    by (auto simp: on_pax_header_def intro!: mirrors_value mirrors_Inl split: prod.split)
qed

lemma on_appledouble_mirrors [mirrors_rules]:
  "mirrors opts (p_world p) v (on_appledouble opts path kind sz had (with_world v p))
     (on_appledouble (journal_opts opts) path kind sz had p)"
proof -
  have s: "mirrors opts (p_world p) v (start_data opts sz (with_world v (p\<lparr>p_tree := t, p_companion := c, p_file := f\<rparr>)))
     (start_data (journal_opts opts) sz (p\<lparr>p_tree := t, p_companion := c, p_file := f\<rparr>))" for t c f
    using start_data_mirrors [of opts "p\<lparr>p_tree := t, p_companion := c, p_file := f\<rparr>" v] by simp
  show ?thesis
    by (auto simp: on_appledouble_def intro!: mirrors_value mirrors_Inl s split: prod.split option.split)
qed

lemma on_member_mirrors [mirrors_rules]:
  "mirrors opts (p_world p) v (on_member opts path sz (with_world v p)) (on_member (journal_opts opts) path sz p)"
proof -
  let ?f = "\<lparr>f_path = path, f_bytes = sz, f_data = [], f_sink = True, f_bodies = None\<rparr>"
  let ?q = "p\<lparr>p_file_bytes := p_file_bytes p + sz, p_world := p_world p @ [OpenOp path sz], p_file := Some ?f\<rparr>"
  have q: "with_world v' ?q = with_world v' (p\<lparr>p_file_bytes := p_file_bytes p + sz, p_file := Some ?f\<rparr>)" for v' :: 'a
    by (simp add: with_world_def)
  have s: "mirrors opts (p_world p @ [OpenOp path sz]) v' (start_data opts sz
      (with_world v' (p\<lparr>p_file_bytes := p_file_bytes p + sz, p_file := Some ?f\<rparr>))) (start_data (journal_opts opts) sz ?q)" for v'
    using start_data_mirrors [of opts ?q v'] unfolding q by simp
  then show ?thesis
    by (auto simp: on_member_def Let_def intro!: mirrors_value mirrors_Inl mirrors_call dest!: mirrors_extends
        split: option.split)
qed


lemma on_plain_mirrors [mirrors_rules]:
  "mirrors opts (p_world p) v (on_plain opts path kind sz (with_world v p)) (on_plain (journal_opts opts) path kind sz p)"
proof -
  have member: "mirrors opts (p_world p) v (on_member opts path sz (with_world v (p\<lparr>p_tree := t\<rparr>)))
      (on_member (journal_opts opts) path sz (p\<lparr>p_tree := t\<rparr>))" for t
    using on_member_mirrors [of opts "p\<lparr>p_tree := t\<rparr>" v] by simp
  let ?q = "\<lambda>t. p\<lparr>p_tree := t, p_directories := p_directories p @ [path], p_world := p_world p @ [DirectoryOp path]\<rparr>"
  have q: "with_world v' (?q t) = with_world v' (p\<lparr>p_tree := t, p_directories := p_directories p @ [path]\<rparr>)" for t and v' :: 'a
    by (simp add: with_world_def)
  have dir: "mirrors opts (p_world p @ [DirectoryOp path]) v' (start_data opts 0
      (with_world v' (p\<lparr>p_tree := t, p_directories := p_directories p @ [path]\<rparr>))) (start_data (journal_opts opts) 0 (?q t))" for t v'
    using start_data_mirrors [of opts "?q t" v' 0] unfolding q by simp
  show ?thesis
    by (auto simp: on_plain_def Let_def intro!: mirrors_Inl mirrors_call member dir start_data_mirrors
        dest!: mirrors_extends [OF dir] split: option.split prod.split)
qed

lemma companion_check_world:
  "companion_check path kind (with_world v p) = map_sum (apsnd (\<lambda>_. v)) (with_world v) (companion_check path kind p)"
  "companion_check path kind p = Inr q \<Longrightarrow> p_world q = p_world p"
  by (auto simp: companion_check_def split: option.splits if_splits)

lemma on_provenance_world:
  "on_provenance path kind (with_world v p) = map_sum (apsnd (\<lambda>_. v)) (with_world v) (on_provenance path kind p)"
  "on_provenance path kind p = Inr q \<Longrightarrow> p_world q = p_world p"
  by (auto simp: on_provenance_def split: if_splits)

lemma end_of_archive_world:
  "end_of_archive (with_world v p) = map_sum (apsnd (\<lambda>_. v)) (with_world v) (end_of_archive p)"
  "end_of_archive p = Inr q \<Longrightarrow> p_world q = p_world p"
  by (auto simp: end_of_archive_def split: if_splits)

lemma mirrors_pure:
  "r = map_sum (apsnd (\<lambda>_. v)) (with_world v) m \<Longrightarrow> (\<And>q. m = Inr q \<Longrightarrow> p_world q = j) \<Longrightarrow> mirrors opts j v r m"
  by (cases m) (auto intro: mirrors_Inr mirrors_Inl)

lemma companion_check_mirrors [mirrors_rules]:
  "mirrors opts (p_world p) v (companion_check path kind (with_world v p)) (companion_check path kind p)"
  by (rule mirrors_pure [OF companion_check_world])

lemma on_provenance_mirrors [mirrors_rules]:
  "mirrors opts (p_world p) v (on_provenance path kind (with_world v p)) (on_provenance path kind p)"
  by (rule mirrors_pure [OF on_provenance_world])

lemma end_of_archive_mirrors [mirrors_rules]:
  "mirrors opts (p_world p) v (end_of_archive (with_world v p)) (end_of_archive p)"
  by (rule mirrors_pure [OF end_of_archive_world])

lemma dispatch_mirrors [mirrors_rules]:
  "mirrors opts (p_world p) v (dispatch opts raw kind sz pax (with_world v p)) (dispatch (journal_opts opts) raw kind sz pax p)"
  unfolding dispatch_def Let_def
  by (auto intro!: mirrors_Inl mirrors_Inr mirrors_bind companion_check_mirrors on_provenance_mirrors
      on_appledouble_mirrors on_plain_mirrors)

lemma on_entry_mirrors [mirrors_rules]:
  "mirrors opts (p_world p) v (on_entry opts posix kind h (with_world v p)) (on_entry (journal_opts opts) posix kind h p)"
  using dispatch_mirrors [of opts "p\<lparr>p_pax := None\<rparr>" v]
  by (auto simp: on_entry_def intro!: mirrors_value split: prod.split)

lemma on_header_mirrors [mirrors_rules]:
  "mirrors opts (p_world p) v (on_header opts h (with_world v p)) (on_header (journal_opts opts) h p)"
proof -
  let ?q = "p\<lparr>p_entries := Suc (p_entries p)\<rparr>"
  have "mirrors opts (p_world p) v (on_pax_header opts h (with_world v ?q)) (on_pax_header (journal_opts opts) h ?q)"
    "mirrors opts (p_world p) v (on_entry opts posix kind h (with_world v ?q)) (on_entry (journal_opts opts) posix kind h ?q)"
    for posix kind
    using on_pax_header_mirrors [of opts ?q v h] on_entry_mirrors [of opts ?q v posix kind h] by simp_all
  then show ?thesis
    by (auto simp: on_header_def Let_def intro!: mirrors_Inl mirrors_value end_of_archive_mirrors
        split: option.split)
qed

lemma take_data_mirrors [mirrors_rules]:
  "mirrors opts (p_world p) v (take_data opts d (with_world v p)) (take_data (journal_opts opts) d p)"
  by (auto simp: take_data_def intro!: mirrors_Inr mirrors_call split: option.split)


section \<open>The loop\<close>

definition rest_of :: "'w parser \<Rightarrow> buffer \<Rightarrow> buffer" where
  "rest_of p chunk = (if p_state p = SEnd then [] else drop (min (need p) (length chunk)) chunk)"

lemma feed_step_rest: "feed_step opts p chunk = Inr (q, rest) \<Longrightarrow> rest = rest_of p chunk"
  by (auto simp: feed_step_def rest_of_def need_def Let_def bindE_eq_Inr split: pstate.splits if_splits)

lemma rest_of_with_world [simp]: "rest_of (with_world v p) = rest_of p"
  by (auto simp: rest_of_def need_def split: pstate.splits)

lemma feed_step_mirrors:
  "mirrors opts (p_world p) v (map_sum id fst (feed_step opts (with_world v p) chunk))
     (map_sum id fst (feed_step (journal_opts opts) p chunk))"
proof (cases "p_state p")
  case SHeader
  let ?h = "p_header p @ take (min (512 - length (p_header p)) (length chunk)) chunk"
  have "mirrors opts (p_world p) v (on_header opts ?h (with_world v (p\<lparr>p_header := []\<rparr>)))
      (on_header (journal_opts opts) ?h (p\<lparr>p_header := []\<rparr>))"
    using on_header_mirrors [of opts "p\<lparr>p_header := []\<rparr>" v ?h] by simp
  then show ?thesis
    by (auto simp: feed_step_def SHeader Let_def bindE_map_sum intro!: mirrors_Inr mirrors_bind)
next
  case SData
  have "mirrors opts (p_world q) v' (end_data opts (with_world v' (q\<lparr>p_remaining := r, p_offset := k\<rparr>)))
      (end_data (journal_opts opts) (q\<lparr>p_remaining := r, p_offset := k\<rparr>))" for q v' r k
    using end_data_mirrors [of opts "q\<lparr>p_remaining := r, p_offset := k\<rparr>" v'] by simp
  then show ?thesis
    unfolding feed_step_def with_world_fields SData pstate.case Let_def bindE_map_sum
    by (intro mirrors_bind [OF take_data_mirrors]) (auto intro!: mirrors_Inr mirrors_bind)
qed (auto simp: feed_step_def Let_def intro!: mirrors_Inr mirrors_Inl)


lemma parser_wf_with_world [simp]: "parser_wf (with_world v p) = parser_wf p"
  by (simp add: parser_wf_def state_ok_def)

lemma feed_loop_next:
  assumes "parser_wf p" and "chunk \<noteq> []"
  shows "the (feed_loop opts p chunk) =
    bindE (map_sum id fst (feed_step opts p chunk)) (\<lambda>q. the (feed_loop opts q (rest_of p chunk)))"
  using assms(2)
  by (subst feed_loop.simps) (auto dest: feed_step_rest split: sum.split)

lemma feed_loop_mirrors:
  "parser_wf p \<Longrightarrow> mirrors opts (p_world p) v (the (feed_loop opts (with_world v p) chunk))
     (the (feed_loop (journal_opts opts) p chunk))"
proof (induction "length chunk" arbitrary: p v chunk rule: less_induct)
  case less
  show ?case
  proof (cases "chunk = []")
    case True
    then show ?thesis by (simp add: mirrors_Inr)
  next
    case False
    note wf = less.prems
    have w: "parser_wf (with_world v p)" using wf by simp
    show ?thesis
      unfolding feed_loop_next [OF wf False] feed_loop_next [OF w False] rest_of_with_world
    proof (rule mirrors_bind [OF feed_step_mirrors])
      fix q v'
      assume "map_sum id fst (feed_step (journal_opts opts) p chunk) = Inr q"
      then obtain rest where s: "feed_step (journal_opts opts) p chunk = Inr (q, rest)"
        by (auto elim!: map_sum_Inr)
      with feed_step_wf [OF wf False s] feed_step_rest [OF s]
      show "mirrors opts (p_world q) v' (the (feed_loop opts (with_world v' q) (rest_of p chunk)))
          (the (feed_loop (journal_opts opts) q (rest_of p chunk)))"
        by (intro less.hyps) simp_all
    qed
  qed
qed

lemma feed_loop_the: "parser_wf p \<Longrightarrow> feed_loop opts p chunk = Some (the (feed_loop opts p chunk))"
  using feed_loop_total [of p opts chunk] by auto

lemma feed_mirrors:
  assumes "parser_wf p"
  shows "mirrors opts (p_world p) v (map_sum id snd (the (feed opts (n, with_world v p) chunk)))
    (map_sum id snd (the (feed (journal_opts opts) (n, p) chunk)))"
proof -
  have l: "feed_loop opts (with_world v p) chunk = Some (the (feed_loop opts (with_world v p) chunk))"
    "feed_loop (journal_opts opts) p chunk = Some (the (feed_loop (journal_opts opts) p chunk))"
    by (rule feed_loop_the; simp add: assms)+
  have m: "map_sum id snd (map_sum id (Pair k) r) = r" for k :: nat and r :: "'c + 'b parser"
    by (cases r) auto
  have m': "map_sum id snd (map_sum id (Pair k) r) = r" for k :: nat and r :: "sink_op list stopped + sink_op list parser"
    by (cases r) auto
  show ?thesis
    unfolding feed_def Let_def fst_conv snd_conv journal_opts_simps
    by (subst l(1), subst l(2)) (auto simp: m m' intro!: mirrors_Inl feed_loop_mirrors [OF assms])
qed


lemma feed_Some:
  assumes "parser_wf p"
  shows "feed opts (n, p) chunk = Some (Inr (m, q)) \<longleftrightarrow>
    m = n + length chunk \<and> map_sum id snd (the (feed opts (n, p) chunk)) = Inr q"
    and "feed opts (n, p) chunk = Some (Inr (m, q)) \<Longrightarrow> parser_wf q"
proof -
  obtain r where r: "feed_loop opts p chunk = Some r" "\<forall>p'. r = Inr p' \<longrightarrow> parser_wf p'"
    using feed_loop_total [OF assms] by blast
  show "feed opts (n, p) chunk = Some (Inr (m, q)) \<longleftrightarrow>
      m = n + length chunk \<and> map_sum id snd (the (feed opts (n, p) chunk)) = Inr q"
    by (cases r) (auto simp: feed_def Let_def r(1))
  show "feed opts (n, p) chunk = Some (Inr (m, q)) \<Longrightarrow> parser_wf q"
    using r by (cases r) (auto simp: feed_def Let_def split: if_splits)
qed

lemma feed_journal:
  assumes "parser_wf p"
  shows "feed opts (n, with_world v p) chunk = Some (Inr (m, q)) \<longleftrightarrow>
    (\<exists>p' ops v'. feed (journal_opts opts) (n, p) chunk = Some (Inr (m, p')) \<and> p_world p' = p_world p @ ops \<and>
      foldE (perform opts) v ops = Inr v' \<and> q = with_world v' p')"
proof -
  have w: "parser_wf (with_world v p)" using assms by simp
  show ?thesis
    using feed_mirrors [OF assms, of opts v n chunk]
    unfolding feed_Some(1) [OF w] feed_Some(1) [OF assms] mirrors_def by blast
qed

lemma feed_all_Cons:
  "feed_all opts (n, p) (c # cs) = Some (Inr (m, q)) \<longleftrightarrow>
    (\<exists>k r. feed opts (n, p) c = Some (Inr (k, r)) \<and> feed_all opts (k, r) cs = Some (Inr (m, q)))"
  by (auto split: option.splits sum.splits)

lemma journal_extends:
  "parser_wf p \<Longrightarrow> feed_all (journal_opts opts) (n, p) cs = Some (Inr (m, q)) \<Longrightarrow> \<exists>ops. p_world q = p_world p @ ops"
proof (induction cs arbitrary: n p)
  case (Cons c cs)
  from Cons.prems(2) obtain k r where r: "feed (journal_opts opts) (n, p) c = Some (Inr (k, r))"
    "feed_all (journal_opts opts) (k, r) cs = Some (Inr (m, q))" unfolding feed_all_Cons by blast
  obtain ops where "p_world r = p_world p @ ops"
    using mirrors_extends [OF feed_mirrors [OF Cons.prems(1), of opts _ n c], of r] r(1) by auto
  moreover obtain ops' where "p_world q = p_world r @ ops'"
    using Cons.IH [OF feed_Some(2) [OF Cons.prems(1) r(1)] r(2)] by blast
  ultimately show ?case by simp
qed simp

text \<open>
  The reading of an archive with any sink: it succeeds exactly when the journalling one does and the journal
  can be performed, and it leaves the journalling parser with the sink that performing the journal leaves.
\<close>

lemma feed_all_journal:
  "parser_wf p \<Longrightarrow> feed_all opts (n, with_world v p) cs = Some (Inr (m, q)) \<longleftrightarrow>
    (\<exists>p' ops v'. feed_all (journal_opts opts) (n, p) cs = Some (Inr (m, p')) \<and> p_world p' = p_world p @ ops \<and>
      foldE (perform opts) v ops = Inr v' \<and> q = with_world v' p')"
proof (induction cs arbitrary: n v p)
  case Nil
  then show ?case by auto
next
  case (Cons c cs)
  note wf = Cons.prems
  show ?case (is "?l \<longleftrightarrow> ?r")
  proof
    assume ?l
    then obtain k r where r: "feed opts (n, with_world v p) c = Some (Inr (k, r))"
      "feed_all opts (k, r) cs = Some (Inr (m, q))" unfolding feed_all_Cons by blast
    from r(1) obtain p1 ops v1 where p1: "feed (journal_opts opts) (n, p) c = Some (Inr (k, p1))"
      "p_world p1 = p_world p @ ops" "foldE (perform opts) v ops = Inr v1" "r = with_world v1 p1"
      unfolding feed_journal [OF wf] by blast
    from Cons.IH [OF feed_Some(2) [OF wf p1(1)], of k v1] r(2) p1(4)
    obtain p2 ops2 v2 where p2: "feed_all (journal_opts opts) (k, p1) cs = Some (Inr (m, p2))"
      "p_world p2 = p_world p1 @ ops2" "foldE (perform opts) v1 ops2 = Inr v2" "q = with_world v2 p2" by blast
    show ?r
      unfolding feed_all_Cons
      using p1 p2 by (intro exI [of _ p2] exI [of _ "ops @ ops2"] exI [of _ v2]) (auto simp: foldE_append)
  next
    assume ?r
    then obtain p2 all v2 k p1 where p2: "feed (journal_opts opts) (n, p) c = Some (Inr (k, p1))"
      "feed_all (journal_opts opts) (k, p1) cs = Some (Inr (m, p2))" "p_world p2 = p_world p @ all"
      "foldE (perform opts) v all = Inr v2" "q = with_world v2 p2" unfolding feed_all_Cons by blast
    note wf1 = feed_Some(2) [OF wf p2(1)]
    obtain ops where ops: "p_world p1 = p_world p @ ops"
      using mirrors_extends [OF feed_mirrors [OF wf, of opts v n c], of p1] p2(1) by auto
    obtain ops2 where "p_world p2 = p_world p1 @ ops2" using journal_extends [OF wf1 p2(2)] by blast
    with ops p2(3) have all: "all = ops @ ops2" by simp
    then obtain v1 where v1: "foldE (perform opts) v ops = Inr v1" "foldE (perform opts) v1 ops2 = Inr v2"
      using p2(4) by (auto simp: foldE_append bindE_eq_Inr)
    have "feed opts (n, with_world v p) c = Some (Inr (k, with_world v1 p1))"
      unfolding feed_journal [OF wf] using p2(1) ops v1(1) by blast
    moreover have "feed_all opts (k, with_world v1 p1) cs = Some (Inr (m, q))"
      unfolding Cons.IH [OF wf1] using p2(2,5) \<open>p_world p2 = p_world p1 @ ops2\<close> v1(2) by blast
    ultimately show ?l unfolding feed_all_Cons by blast
  qed
qed

end
