(* ===== verification/Journal_Shape.thy ===== *)
theory Journal_Shape
  imports Sink_Journal
begin

text \<open>
  The shape of a journal: for each entry, in the order of the archive, a directory's one call, or a file's
  opening, its writes and its closing, with nothing in between. The files opened are the parser's members, what is
  written to them is what their digests were taken of.
\<close>

section \<open>Blocks of calls\<close>

text \<open>A directory, or a file and the pieces written to it.\<close>

type_synonym blocks = "(string \<times> buffer list option) list"

fun block_ops :: "string \<times> buffer list option \<Rightarrow> sink_op list" where
  "block_ops (path, None) = [DirectoryOp path]"
| "block_ops (path, Some ds) = OpenOp path (length (concat ds)) # map (WriteOp path) ds @ [CloseOp path]"

definition journal :: "blocks \<Rightarrow> sink_op list" where
  "journal bs = concat (map block_ops bs)"

definition block_members :: "(buffer \<Rightarrow> string) \<Rightarrow> blocks \<Rightarrow> scanned_member list" where
  "block_members sha bs =
     concat (map (\<lambda>(path, b). case b of None \<Rightarrow> []
       | Some ds \<Rightarrow> [\<lparr>m_path = path, m_bytes = length (concat ds), m_sha256 = sha (concat ds)\<rparr>]) bs)"

definition block_directories :: "blocks \<Rightarrow> string list" where
  "block_directories bs = concat (map (\<lambda>(path, b). case b of None \<Rightarrow> [path] | Some ds \<Rightarrow> []) bs)"

lemma blocks_snoc [simp]:
  "journal (bs @ [b]) = journal bs @ block_ops b"
  "block_members sha (bs @ [(path, None)]) = block_members sha bs"
  "block_members sha (bs @ [(path, Some ds)]) = block_members sha bs @
     [\<lparr>m_path = path, m_bytes = length (concat ds), m_sha256 = sha (concat ds)\<rparr>]"
  "block_directories (bs @ [(path, None)]) = block_directories bs @ [path]"
  "block_directories (bs @ [(path, Some ds)]) = block_directories bs"
  by (simp_all add: journal_def block_members_def block_directories_def)

lemma blocks_Nil [simp]: "journal [] = []" "block_members sha [] = []" "block_directories [] = []"
  by (simp_all add: journal_def block_members_def block_directories_def)

lemma block_directories_iff: "d \<in> set (block_directories bs) \<longleftrightarrow> (d, None) \<in> set bs"
  by (induction bs) (auto simp: block_directories_def split: option.splits)

lemma block_members_iff:
  "m \<in> set (block_members sha bs) \<longleftrightarrow> (\<exists>path ds. (path, Some ds) \<in> set bs \<and>
     m = \<lparr>m_path = path, m_bytes = length (concat ds), m_sha256 = sha (concat ds)\<rparr>)"
  by (induction bs) (auto simp: block_members_def split: option.splits)

text \<open>The calls of the file that is open, if any goes to the sink.\<close>

definition pending :: "file_state option \<Rightarrow> buffer list \<Rightarrow> sink_op list" where
  "pending file ds =
     (case file of None \<Rightarrow> []
      | Some f \<Rightarrow> if f_sink f then OpenOp (f_path f) (f_bytes f) # map (WriteOp (f_path f)) ds else [])"

definition journal_inv :: "(buffer \<Rightarrow> string) \<Rightarrow> sink_op list parser \<Rightarrow> bool" where
  "journal_inv sha p \<longleftrightarrow>
     (\<exists>bs ds. p_world p = journal bs @ pending (p_file p) ds \<and> block_members sha bs = p_members p \<and>
        block_directories bs = p_directories p \<and>
        (case p_file p of None \<Rightarrow> True | Some f \<Rightarrow> concat ds = f_data f \<or> \<not> f_sink f))"

lemma journal_inv_frame [simp]:
  "journal_inv sha (p\<lparr>p_state := s\<rparr>) = journal_inv sha p"
  "journal_inv sha (p\<lparr>p_header := h\<rparr>) = journal_inv sha p"
  "journal_inv sha (p\<lparr>p_offset := n\<rparr>) = journal_inv sha p"
  "journal_inv sha (p\<lparr>p_entries := n\<rparr>) = journal_inv sha p"
  "journal_inv sha (p\<lparr>p_file_bytes := n\<rparr>) = journal_inv sha p"
  "journal_inv sha (p\<lparr>p_remaining := n\<rparr>) = journal_inv sha p"
  "journal_inv sha (p\<lparr>p_padding := n\<rparr>) = journal_inv sha p"
  "journal_inv sha (p\<lparr>p_pax := x\<rparr>) = journal_inv sha p"
  "journal_inv sha (p\<lparr>p_pax_chunks := k\<rparr>) = journal_inv sha p"
  "journal_inv sha (p\<lparr>p_tree := t\<rparr>) = journal_inv sha p"
  "journal_inv sha (p\<lparr>p_companion := c\<rparr>) = journal_inv sha p"
  "journal_inv sha (p\<lparr>p_provenance := v\<rparr>) = journal_inv sha p"
  "journal_inv sha (p\<lparr>p_metadata := m\<rparr>) = journal_inv sha p"
  by (simp_all add: journal_inv_def)

lemma journal_inv_new: "journal_inv sha (new_parser [])"
  by (auto simp: journal_inv_def new_parser_def pending_def intro!: exI [of _ "[]"])

text \<open>Without an open file.\<close>

lemma journal_inv_idle:
  "p_file p = None \<Longrightarrow> journal_inv sha p \<longleftrightarrow>
    (\<exists>bs. p_world p = journal bs \<and> block_members sha bs = p_members p \<and> block_directories bs = p_directories p)"
  by (simp add: journal_inv_def pending_def)

section \<open>The methods keep it\<close>

definition closable :: "file_state \<Rightarrow> bool" where
  "closable f \<longleftrightarrow> length (f_data f) = f_bytes f \<and> (f_sink f \<longleftrightarrow> f_bodies f = None)"

lemma end_file_data_journal:
  assumes inv: "journal_inv (o_sha256 opts) p" and f: "p_file p = Some f" "closable f"
    and ok: "end_file_data (journal_opts opts) f p = Inr p'"
  shows "journal_inv (o_sha256 opts) p' \<and> p_file p' = None"
proof -
  from inv obtain bs ds where bs: "p_world p = journal bs @ pending (Some f) ds"
    "block_members (o_sha256 opts) bs = p_members p" "block_directories bs = p_directories p"
    "concat ds = f_data f \<or> \<not> f_sink f"
    by (auto simp: journal_inv_def f(1))
  show ?thesis
  proof (cases "f_bodies f")
    case None
    then have "f_sink f" "length (f_data f) = f_bytes f" using f(2) by (simp_all add: closable_def)
    with bs None ok have "p_world p' = journal (bs @ [(f_path f, Some ds)])"
      "block_members (o_sha256 opts) (bs @ [(f_path f, Some ds)]) = p_members p'"
      "block_directories (bs @ [(f_path f, Some ds)]) = p_directories p'" "p_file p' = None"
      by (auto simp: end_file_data_def Let_def pending_def)
    then show ?thesis unfolding journal_inv_idle [OF \<open>p_file p' = None\<close>] by blast
  next
    case (Some bodies)
    with f(2) bs ok show ?thesis
      by (auto simp: end_file_data_def Let_def closable_def pending_def journal_inv_idle split: if_splits)
  qed
qed

lemma end_data_journal:
  assumes "journal_inv (o_sha256 opts) p"
    and "\<And>f. p_file p = Some f \<Longrightarrow> p_pax_chunks p = None \<and> closable f"
    and "end_data (journal_opts opts) p = Inr p'"
  shows "journal_inv (o_sha256 opts) p'"
proof (cases "p_pax_chunks p")
  case (Some d)
  then have "p_file p = None" using assms(2) by (cases "p_file p") auto
  with Some assms(1,3) show ?thesis
    by (auto simp: end_data_def end_pax_data_def elim!: bindE_InrE split: if_splits)
next
  case None
  show ?thesis
  proof (cases "p_file p")
    case None
    with \<open>p_pax_chunks p = None\<close> assms(1,3) show ?thesis by (auto simp: end_data_def)
  next
    case (Some f)
    with \<open>p_pax_chunks p = None\<close> assms(3) obtain q where q: "end_file_data (journal_opts opts) f p = Inr q"
      "p' = q\<lparr>p_state := if p_padding q = 0 then SHeader else SPadding\<rparr>"
      unfolding end_data_def by (auto elim!: bindE_InrE)
    have "closable f" using assms(2) Some by blast
    from end_file_data_journal [OF assms(1) Some this q(1)] show ?thesis unfolding q(2) by simp
  qed
qed

lemma start_data_journal:
  assumes "journal_inv (o_sha256 opts) p"
    and "\<And>f. p_file p = Some f \<Longrightarrow> p_pax_chunks p = None \<and> (sz = 0 \<longrightarrow> closable f)"
    and "start_data (journal_opts opts) sz p = Inr p'"
  shows "journal_inv (o_sha256 opts) p'"
proof (cases "sz = 0")
  case True
  let ?q = "p\<lparr>p_remaining := sz, p_padding := (512 - sz mod 512) mod 512\<rparr>"
  show ?thesis
  proof (rule end_data_journal)
    show "journal_inv (o_sha256 opts) ?q" using assms(1) by simp
    show "p_pax_chunks ?q = None \<and> closable f" if "p_file ?q = Some f" for f using assms(2) [of f] that True by simp
    show "end_data (journal_opts opts) ?q = Inr p'" using assms(3) True by (simp add: start_data_def)
  qed
next
  case False
  then have "p' = p\<lparr>p_remaining := sz, p_padding := (512 - sz mod 512) mod 512, p_state := SData\<rparr>"
    using assms(3) by (simp add: start_data_def Let_def)
  then show ?thesis using assms(1) by simp
qed


lemma on_pax_header_journal:
  assumes "journal_inv (o_sha256 opts) p" and "p_file p = None" and "on_pax_header (journal_opts opts) h p = Inr p'"
  shows "journal_inv (o_sha256 opts) p'"
  using assms(1,2,3) unfolding on_pax_header_def
  by (auto elim!: bindE_InrE split: if_splits intro: start_data_journal [rotated 2])

lemma on_appledouble_journal:
  assumes "journal_inv (o_sha256 opts) p" and "idle p"
    and "on_appledouble (journal_opts opts) path kind sz had p = Inr p'"
  shows "journal_inv (o_sha256 opts) p'"
proof -
  from assms(3) obtain t c bodies where
    "start_data (journal_opts opts) sz (p\<lparr>p_tree := t, p_companion := c,
       p_file := Some \<lparr>f_path = path, f_bytes = sz, f_data = [], f_sink = False, f_bodies = Some bodies\<rparr>\<rparr>) = Inr p'"
    unfolding on_appledouble_def by (auto elim!: bindE_InrE split: option.splits if_splits prod.splits)
  then show ?thesis
  proof (rule start_data_journal [rotated 2])
    show "journal_inv (o_sha256 opts) (p\<lparr>p_tree := t, p_companion := c,
       p_file := Some \<lparr>f_path = path, f_bytes = sz, f_data = [], f_sink = False, f_bodies = Some bodies\<rparr>\<rparr>)"
      using assms(1,2) by (simp add: journal_inv_def idle_def pending_def)
  qed (use assms(2) in \<open>auto simp: closable_def idle_def\<close>)
qed

lemma on_member_journal:
  assumes "journal_inv (o_sha256 opts) p" and "idle p" and "on_member (journal_opts opts) path sz p = Inr p'"
  shows "journal_inv (o_sha256 opts) p'"
proof -
  let ?q = "p\<lparr>p_file_bytes := p_file_bytes p + sz, p_world := p_world p @ [OpenOp path sz],
      p_file := Some \<lparr>f_path = path, f_bytes = sz, f_data = [], f_sink = True, f_bodies = None\<rparr>\<rparr>"
  from assms(3) have "start_data (journal_opts opts) sz ?q = Inr p'"
    unfolding on_member_def by (auto elim!: bindE_InrE simp: Let_def split: option.splits if_splits)
  then show ?thesis
  proof (rule start_data_journal [rotated 2])
    from assms(1,2) obtain bs where "p_world p = journal bs" "block_members (o_sha256 opts) bs = p_members p"
      "block_directories bs = p_directories p" by (auto simp: idle_def journal_inv_idle)
    then show "journal_inv (o_sha256 opts) ?q"
      unfolding journal_inv_def by (intro exI [of _ bs] exI [of _ "[]"]) (simp add: pending_def)
  qed (use assms(2) in \<open>auto simp: closable_def idle_def\<close>)
qed

lemma on_plain_journal:
  assumes inv: "journal_inv (o_sha256 opts) p" and idle: "idle p"
    and ok: "on_plain (journal_opts opts) path kind sz p = Inr p'"
  shows "journal_inv (o_sha256 opts) p'"
proof -
  from ok consider (root) "start_data (journal_opts opts) 0 p = Inr p'"
    | (directory) t where "start_data (journal_opts opts) 0
        (p\<lparr>p_tree := t, p_directories := p_directories p @ [path], p_world := p_world p @ [DirectoryOp path]\<rparr>) = Inr p'"
    | (member) t where "on_member (journal_opts opts) path sz (p\<lparr>p_tree := t\<rparr>) = Inr p'"
    unfolding on_plain_def by (auto simp: Let_def split: if_splits option.splits prod.splits)
  then show ?thesis
  proof cases
    case root
    from start_data_journal [OF inv _ root] idle show ?thesis by (auto simp: idle_def)
  next
    case directory
    from inv idle obtain bs where "p_world p = journal bs" "block_members (o_sha256 opts) bs = p_members p"
      "block_directories bs = p_directories p" by (auto simp: idle_def journal_inv_idle)
    then have "journal_inv (o_sha256 opts)
        (p\<lparr>p_tree := t, p_directories := p_directories p @ [path], p_world := p_world p @ [DirectoryOp path]\<rparr>)"
      using idle by (auto simp: idle_def journal_inv_idle intro!: exI [of _ "bs @ [(path, None)]"])
    from start_data_journal [OF this _ directory] idle show ?thesis by (auto simp: idle_def)
  next
    case member
    from on_member_journal [OF _ _ member] inv idle show ?thesis by (simp add: idle_def)
  qed
qed

lemma dispatch_journal:
  assumes inv: "journal_inv (o_sha256 opts) p" and idle: "idle p"
    and ok: "dispatch (journal_opts opts) raw kind sz pax p = Inr p'"
  shows "journal_inv (o_sha256 opts) p'"
proof -
  from ok obtain q r where q: "companion_check (entry_path raw kind) kind p = Inr q"
    "(if has_provenance pax then on_provenance (entry_path raw kind) kind q else Inr q) = Inr r"
    "(if is_appledouble_shaped (entry_path raw kind) then on_appledouble (journal_opts opts) (entry_path raw kind) kind sz (pax \<noteq> None) r
      else on_plain (journal_opts opts) (entry_path raw kind) kind sz r) = Inr p'"
    unfolding dispatch_def Let_def by (auto elim!: bindE_InrE split: if_splits)
  have "journal_inv (o_sha256 opts) q" "idle q"
    using q(1) inv idle by (auto simp: companion_check_def idle_def split: option.splits if_splits)
  then have "journal_inv (o_sha256 opts) r" "idle r"
    using q(2) by (auto simp: on_provenance_def idle_def split: if_splits)
  then show ?thesis
    using q(3) by (auto split: if_splits intro: on_appledouble_journal on_plain_journal)
qed

lemma on_header_journal:
  assumes inv: "journal_inv (o_sha256 opts) p" and idle: "idle p" and ok: "on_header (journal_opts opts) h p = Inr p'"
  shows "journal_inv (o_sha256 opts) p'"
  using ok
proof (cases rule: on_header_cases)
  case zero
  then show ?thesis using inv by (auto simp: end_of_archive_def split: if_splits)
next
  case pax
  from on_pax_header_journal [OF _ _ pax(2)] inv idle show ?thesis by (simp add: idle_def)
next
  case (entry posix kind)
  from entry(2) obtain raw sz where
    "dispatch (journal_opts opts) raw kind sz (p_pax p) (p\<lparr>p_entries := Suc (p_entries p), p_pax := None\<rparr>) = Inr p'"
    unfolding on_entry_def by (auto elim!: bindE_InrE)
  from dispatch_journal [OF _ _ this] inv idle show ?thesis by (simp add: idle_def)
qed

section \<open>The loop keeps it\<close>

lemma take_data_journal:
  assumes inv: "journal_inv (o_sha256 opts) p" and ok: "take_data (journal_opts opts) d p = Inr q"
  shows "journal_inv (o_sha256 opts) q"
proof (cases "p_pax_chunks p = None \<and> p_file p \<noteq> None")
  case True
  then obtain f where f: "p_file p = Some f" by auto
  from inv obtain bs ds where bs: "p_world p = journal bs @ pending (Some f) ds"
    "block_members (o_sha256 opts) bs = p_members p" "block_directories bs = p_directories p"
    "concat ds = f_data f \<or> \<not> f_sink f" by (auto simp: journal_inv_def f)
  show ?thesis
  proof (cases "f_sink f")
    case sink: True
    with True ok f bs show ?thesis
      by (auto simp: take_data_def journal_inv_def pending_def intro!: exI [of _ bs] exI [of _ "ds @ [d]"])
  next
    case False
    with True ok f bs show ?thesis by (auto simp: take_data_def journal_inv_def pending_def)
  qed
next
  case False
  with inv ok show ?thesis by (auto simp: take_data_def split: option.splits)
qed

lemma feed_step_journal:
  assumes inv: "parser_inv (journal_opts opts) p" "journal_inv (o_sha256 opts) p"
    and ok: "feed_step (journal_opts opts) p chunk = Inr (p', rest)"
  shows "journal_inv (o_sha256 opts) p'"
proof (cases "p_state p")
  case SHeader
  have "idle (p\<lparr>p_header := []\<rparr>)" using inv(1) SHeader by (simp add: parser_inv_def data_inv_def idle_def)
  then show ?thesis
    using ok inv(2) on_header_journal [of opts "p\<lparr>p_header := []\<rparr>"]
    unfolding feed_step_def SHeader pstate.case Let_def by (auto elim!: bindE_InrE split: if_splits)
next
  case SData
  let ?n = "min (p_remaining p) (length chunk)"
  from ok obtain q where q: "take_data (journal_opts opts) (take ?n chunk) p = Inr q"
    and p': "data_done (journal_opts opts) ?n q = Inr p'"
    unfolding feed_step_def SData pstate.case Let_def data_done_def by (auto elim!: bindE_InrE)
  have len: "length (take ?n chunk) = ?n" by simp
  from take_data_inv [OF inv(1) SData _ q] have e: "entries_inv (journal_opts opts) q"
    and f: "p_pax_chunks q = None \<Longrightarrow>
      \<exists>f. p_file q = Some f \<and> length (f_data f) + (p_remaining q - ?n) = f_bytes f"
    unfolding len by simp_all
  have j: "journal_inv (o_sha256 opts) q" by (rule take_data_journal [OF inv(2) q])
  show ?thesis
  proof (cases "p_remaining q - ?n = 0")
    case True
    have "p_pax_chunks q = None \<and> closable g" if "p_file q = Some g" for g
      using e f that True by (auto simp: entries_inv_def file_ok_def closable_def split: option.splits)
    note files = this
    let ?q = "q\<lparr>p_remaining := p_remaining q - ?n, p_offset := p_offset q + ?n\<rparr>"
    have e: "end_data (journal_opts opts) ?q = Inr p'" using True p' by (simp add: data_done_def)
    show ?thesis by (rule end_data_journal [OF _ _ e]) (use j files in simp_all)
  next
    case False
    with p' j show ?thesis by (auto simp: data_done_def)
  qed
next
  case SPadding
  then show ?thesis using ok inv(2) by (auto simp: feed_step_def Let_def)
next
  case SEnd
  then show ?thesis using ok inv(2) by (auto simp: feed_step_def split: if_splits)
qed

lemma feed_all_journal_inv:
  assumes "feed_all (journal_opts opts) (0, new_parser []) cs = Some (Inr s)"
  shows "journal_inv (o_sha256 opts) (snd s)" "parser_inv (journal_opts opts) (snd s)"
proof -
  have "parser_inv (journal_opts opts) (snd s) \<and> journal_inv (o_sha256 opts) (snd s)"
    by (rule feed_all_invariant [OF _ _ assms, of "\<lambda>p. parser_inv (journal_opts opts) p \<and> journal_inv (o_sha256 opts) p"])
       (auto simp: new_parser_wf new_parser_inv journal_inv_new intro: feed_step_inv feed_step_journal)
  then show "journal_inv (o_sha256 opts) (snd s)" "parser_inv (journal_opts opts) (snd s)" by simp_all
qed

end
