(* ===== verification/Sink_Keeps.thy ===== *)
theory Sink_Keeps
  imports Tar_Accept
begin

text \<open>
  What the parser's caller is left with however the parser ends. A property of the sink's state that every call
  keeps, whether it succeeds or throws, holds of the state in which a run ends, whether it reads the archive or is
  refused in the middle of it.
\<close>

text \<open>The state a call on a sink leaves behind, thrown or not.\<close>

definition left_by :: "'w stopped + 'w \<Rightarrow> 'w" where
  "left_by r = (case r of Inl (e, w) \<Rightarrow> w | Inr w \<Rightarrow> w)"

lemma left_by_simps [simp]: "left_by (Inl (e, w)) = w" "left_by (Inr w) = w"
  by (simp_all add: left_by_def)

text \<open>A method of the parser ends with the property, thrown or not.\<close>

definition ends :: "('w \<Rightarrow> bool) \<Rightarrow> 'w stopped + 'w parser \<Rightarrow> bool" where
  "ends keeps r \<longleftrightarrow> keeps (left_by (map_sum id p_world r))"

lemma ends_simps [simp]: "ends keeps (Inl (e, w)) = keeps w" "ends keeps (Inr p) = keeps (p_world p)"
  by (simp_all add: ends_def)

lemma ends_bind:
  assumes "ends keeps r" and "\<And>p. r = Inr p \<Longrightarrow> keeps (p_world p) \<Longrightarrow> ends keeps (k p)"
  shows "ends keeps (bindE r k)"
  using assms by (cases r) auto

lemma ends_during:
  "keeps (p_world p) \<Longrightarrow> (\<And>x. m = Inr x \<Longrightarrow> ends keeps (k x)) \<Longrightarrow> ends keeps (bindE (during p m) k)"
  by (cases m) (auto simp: during_def)

lemma ends_call:
  assumes "keeps (left_by r)" and "\<And>w. r = Inr w \<Longrightarrow> keeps w \<Longrightarrow> ends keeps (k w)"
  shows "ends keeps (bindE r k)"
  using assms by (cases r) auto

locale sink_keeps =
  fixes opts :: "'w parser_opts" and keeps :: "'w \<Rightarrow> bool"
  assumes open_keeps: "plain_path path \<Longrightarrow> keeps w \<Longrightarrow> keeps (left_by (o_open opts path n w))"
    and write_keeps: "keeps w \<Longrightarrow> keeps (left_by (o_write opts path d w))"
    and close_keeps: "keeps w \<Longrightarrow> keeps (left_by (o_close opts path w))"
    and directory_keeps: "plain_path path \<Longrightarrow> keeps w \<Longrightarrow> keeps (left_by (o_directory opts path w))"
begin

lemma end_data_keeps: "keeps (p_world p) \<Longrightarrow> ends keeps (end_data opts p)"
  unfolding end_data_def end_pax_data_def end_file_data_def Let_def
  by (rule ends_bind) (auto intro!: ends_during ends_call close_keeps split: option.split)

lemma start_data_keeps: "keeps (p_world p) \<Longrightarrow> ends keeps (start_data opts sz p)"
  by (auto simp: start_data_def Let_def intro!: end_data_keeps)

lemma on_pax_header_keeps: "keeps (p_world p) \<Longrightarrow> ends keeps (on_pax_header opts h p)"
  by (auto simp: on_pax_header_def intro!: ends_during start_data_keeps)

lemma on_appledouble_keeps: "keeps (p_world p) \<Longrightarrow> ends keeps (on_appledouble opts path kind sz had p)"
  by (auto simp: on_appledouble_def intro!: ends_during start_data_keeps split: option.split prod.split)

lemma on_member_keeps: "plain_path path \<Longrightarrow> keeps (p_world p) \<Longrightarrow> ends keeps (on_member opts path sz p)"
  by (auto simp: on_member_def Let_def intro!: ends_during ends_call open_keeps start_data_keeps)

lemma on_plain_keeps:
  assumes "\<not> is_appledouble_shaped path" and "keeps (p_world p)"
  shows "ends keeps (on_plain opts path kind sz p)"
proof -
  have "plain_path path" if "member_path_error path = None" using assms(1) that by (simp add: plain_path_def)
  then show ?thesis using assms(2)
    by (auto simp: on_plain_def Let_def intro!: ends_call directory_keeps on_member_keeps start_data_keeps
        split: option.split prod.split)
qed

lemma dispatch_keeps: "keeps (p_world p) \<Longrightarrow> ends keeps (dispatch opts raw kind sz pax p)"
proof -
  have c: "keeps (p_world q) \<Longrightarrow> ends keeps (companion_check path kind q)"
    "keeps (p_world q) \<Longrightarrow> ends keeps (on_provenance path kind q)" for path q
    by (auto simp: companion_check_def on_provenance_def split: option.split)
  assume "keeps (p_world p)"
  then show ?thesis unfolding dispatch_def Let_def
    by (auto intro!: ends_bind c on_appledouble_keeps on_plain_keeps)
qed

lemma on_header_keeps: "keeps (p_world p) \<Longrightarrow> ends keeps (on_header opts h p)"
proof -
  have "keeps (p_world q) \<Longrightarrow> ends keeps (end_of_archive q)" for q by (auto simp: end_of_archive_def)
  moreover have "keeps (p_world q) \<Longrightarrow> ends keeps (on_entry opts posix kind h q)" for posix kind q
    by (auto simp: on_entry_def intro!: ends_during dispatch_keeps)
  moreover assume "keeps (p_world p)"
  ultimately show ?thesis
    by (auto simp: on_header_def Let_def intro!: ends_during on_pax_header_keeps split: option.split)
qed

lemma take_data_keeps: "keeps (p_world p) \<Longrightarrow> ends keeps (take_data opts d p)"
  by (auto simp: take_data_def intro!: ends_call write_keeps split: option.split)

text \<open>One turn of the loop, the loop, and the whole stream.\<close>

definition step_ends :: "'w stopped + 'w parser \<times> buffer \<Rightarrow> bool" where
  "step_ends r \<longleftrightarrow> ends keeps (map_sum id fst r)"

lemma step_ends_bind:
  "ends keeps r \<Longrightarrow> (\<And>p. r = Inr p \<Longrightarrow> keeps (p_world p) \<Longrightarrow> step_ends (k p)) \<Longrightarrow> step_ends (bindE r k)"
  by (cases r) (auto simp: step_ends_def)

lemma feed_step_keeps:
  assumes "keeps (p_world p)"
  shows "step_ends (feed_step opts p chunk)"
proof -
  have v: "step_ends (Inr (q, rest)) \<longleftrightarrow> keeps (p_world q)" "step_ends (stop q e) \<longleftrightarrow> keeps (p_world q)" for q rest e
    by (simp_all add: step_ends_def)
  show ?thesis
    using assms unfolding feed_step_def Let_def
    by (auto simp: v intro!: step_ends_bind on_header_keeps take_data_keeps end_data_keeps split: pstate.split)
qed

lemma feed_loop_keeps:
  assumes "parser_wf p" and "keeps (p_world p)" and "feed_loop opts p chunk = Some r"
  shows "ends keeps r"
  using assms
proof (induction "length chunk" arbitrary: p chunk rule: less_induct)
  case less
  show ?case
  proof (cases "chunk = []")
    case True
    with less.prems show ?thesis by auto
  next
    case ne: False
    have step: "step_ends (feed_step opts p chunk)" by (rule feed_step_keeps [OF less.prems(2)])
    show ?thesis
    proof (cases "feed_step opts p chunk")
      case (Inl f)
      with step ne less.prems(3) show ?thesis
        by (cases f) (auto simp: step_ends_def feed_loop.simps [of opts p chunk])
    next
      case (Inr x)
      obtain q rest where x: "x = (q, rest)" by (cases x)
      with feed_step_wf [OF less.prems(1) ne] Inr have q: "parser_wf q" "length rest < length chunk" by auto
      have "keeps (p_world q)" using step Inr x by (simp add: step_ends_def)
      moreover have "feed_loop opts q rest = Some r"
        using less.prems(3) ne Inr x by (simp add: feed_loop.simps [of opts p chunk])
      ultimately show ?thesis by (rule less.hyps [OF q(2,1)])
    qed
  qed
qed

lemma feed_all_keeps:
  assumes "parser_wf (snd s)" and "keeps (p_world (snd s))" and "feed_all opts s cs = Some r"
  shows "ends keeps (map_sum id snd r)"
  using assms
proof (induction cs arbitrary: s)
  case Nil
  then show ?case by auto
next
  case (Cons c cs)
  show ?case
  proof (cases "fst s + length c > decompressed_limit (o_limits opts)")
    case True
    then show ?thesis using Cons.prems(2,3) by (auto simp: feed_def)
  next
    case False
    obtain x where x: "feed_loop opts (snd s) c = Some x" "\<forall>p. x = Inr p \<longrightarrow> parser_wf p"
      using feed_loop_total [OF Cons.prems(1)] by blast
    have e: "ends keeps x" by (rule feed_loop_keeps [OF Cons.prems(1,2) x(1)])
    show ?thesis
    proof (cases x)
      case (Inl f)
      then show ?thesis using Cons.prems(3) False x(1) e by (auto simp: feed_def)
    next
      case (Inr q)
      then have "feed_all opts (fst s + length c, q) cs = Some r"
        using Cons.prems(3) False x(1) by (simp add: feed_def)
      then show ?thesis using Cons.IH [of "(fst s + length c, q)"] x(2) e Inr by simp
    qed
  qed
qed

end

end
