(* ===== verification/Install_Laws.thy ===== *)
theory Install_Laws
  imports Circuit_Install Journal_Shape Sink_Keeps
begin

text \<open>
  What an installation does to its destination. The extraction acts below its staging directory only; without
  interference a refused installation leaves the destination as it was, and one that succeeds has added, in one
  step, the read-only tree of the record's members.
\<close>

section \<open>Below the staging directory\<close>

definition staged :: "entries \<Rightarrow> string \<Rightarrow> entries \<Rightarrow> entries" where
  "staged es staging sub = es @ [(staging, NDir 448 sub)]"

lemma map_of_staged:
  "staging \<notin> fst ` set es \<Longrightarrow> map_of (staged es staging sub) staging = Some (NDir 448 sub)"
  by (simp add: staged_def map_add_def map_of_eq_None_iff [THEN iffD2])

lemma put_staged:
  "staging \<notin> fst ` set es \<Longrightarrow> put_entry staging (NDir 448 sub') (staged es staging sub) = staged es staging sub'"
  by (force simp: put_entry_def staged_def intro: map_idI)

lemma remove_staged [simp]: "staging \<notin> fst ` set es \<Longrightarrow> remove_staging staging (es @ [(staging, x)]) = es"
  by (force simp: remove_staging_def filter_id_conv)

lemma create_at_staged:
  "staging \<notin> fst ` set es \<Longrightarrow> create_at x (staging # cs) (staged es staging sub) =
    (if cs = [] then Inl EEXIST else bindE (create_at x cs sub) (\<lambda>sub. Inr (staged es staging sub)))"
  by (cases cs) (simp_all add: map_of_staged put_staged)

lemma append_at_staged:
  "staging \<notin> fst ` set es \<Longrightarrow> append_at d (staging # cs) (staged es staging sub) =
    (if cs = [] then Inl ENOENT else bindE (append_at d cs sub) (\<lambda>sub. Inr (staged es staging sub)))"
  by (cases cs) (simp_all add: map_of_staged put_staged)

text \<open>The state of an extraction that has so far acted below its staging directory only.\<close>

definition at_stage :: "entries \<Rightarrow> string \<Rightarrow> extraction \<Rightarrow> bool" where
  "at_stage es staging w \<longleftrightarrow>
     staging \<notin> fst ` set es \<and> (\<exists>sub. ex_root w = staged es staging sub \<and> wf_entries sub)"

lemma plain_parts:
  assumes "plain_path path"
  shows "parts_of path \<noteq> []" "list_all name_ok (parts_of path)" "parts_of path = split_on CHR ''/'' path" "path \<noteq> []"
proof -
  have ok: "member_path_error path = None" using assms by (simp add: plain_path_def)
  then show ne: "path \<noteq> []" using member_path_not_absolute by blast
  then show "parts_of path = split_on CHR ''/'' path" by (simp add: parts_of_def)
  then show "parts_of path \<noteq> []" by simp
  show "list_all name_ok (parts_of path)"
    using member_path_error_None_parts [OF ok] ne
    by (auto simp: list_all_iff name_ok_def parts_of_def safe_component_def dest: split_on_no_sep)
qed

lemma prefix_parts:
  assumes "list_all name_ok ps" and "0 < i" and "i \<le> length ps"
  shows "parts_of (join_with ''/'' (take i ps)) = take i ps"
proof (rule parts_of_join)
  show "take i ps \<noteq> []" using assms(2,3) by auto
  show "list_all name_ok (take i ps)" using assms(1) by (auto simp: list_all_iff dest: in_set_takeD)
qed

text \<open>Every call leaves such a state, whether it succeeds or throws.\<close>

lemma foldE_left:
  assumes "\<And>x s. x \<in> set xs \<Longrightarrow> I s \<Longrightarrow> I (left_by (f s x))" and "I s"
  shows "I (left_by (foldE f s xs))"
  using assms
proof (induction xs arbitrary: s)
  case (Cons x xs)
  have "I (left_by (f s x))" using Cons.prems by simp
  then show ?case using Cons.IH Cons.prems(1) by (cases "f s x") auto
qed simp

lemma make_dir_stage:
  assumes "at_stage es staging w" and "list_all name_ok (parts_of p)"
  shows "at_stage es staging (left_by (make_dir staging w p))"
proof (cases "p \<in> set (ex_made w)")
  case False
  from assms(1) obtain sub where fresh: "staging \<notin> fst ` set es"
    and sub: "ex_root w = staged es staging sub" "wf_entries sub" by (auto simp: at_stage_def)
  show ?thesis
  proof (cases "create_at (NDir 448 []) (staging # parts_of p) (ex_root w)")
    case (Inr es')
    then obtain sub' where "create_at (NDir 448 []) (parts_of p) sub = Inr sub'" "es' = staged es staging sub'"
      by (auto simp: sub(1) create_at_staged [OF fresh] bindE_eq_Inr split: if_splits)
    then show ?thesis using create_at_wf [OF sub(2) assms(2), of "NDir 448 []"] fresh Inr False
      by (auto simp: make_dir_def at_stage_def)
  qed (use assms(1) False in \<open>simp add: make_dir_def\<close>)
qed (use assms in \<open>simp add: make_dir_def\<close>)

lemma ensure_dir_stage:
  assumes "at_stage es staging w" and "list_all name_ok (parts_of rel)"
  shows "at_stage es staging (left_by (ensure_dir staging rel w))"
proof -
  have "list_all name_ok (parts_of x)"
    if "x \<in> set (map (\<lambda>i. join_with ''/'' (take i (parts_of rel))) [1..<length (parts_of rel) + 1])" for x
  proof -
    from that obtain i where "i \<in> set [1..<length (parts_of rel) + 1]" "x = join_with ''/'' (take i (parts_of rel))"
      unfolding set_map by blast
    then have "0 < i" "i \<le> length (parts_of rel)" "x = join_with ''/'' (take i (parts_of rel))" by auto
    then have "parts_of x = take i (parts_of rel)" using prefix_parts [OF assms(2)] by simp
    then show ?thesis using assms(2) by (auto simp: list_all_iff dest: in_set_takeD)
  qed
  then show ?thesis
    unfolding ensure_dir_def Let_def
    by (intro foldE_left [where I = "at_stage es staging" and f = "make_dir staging"] make_dir_stage [of es staging] assms(1))
qed

lemma open_file_stage:
  assumes "at_stage es staging w" and "plain_path rel"
  shows "at_stage es staging (left_by (open_file staging rel w))"
proof -
  note p = plain_parts [OF assms(2)]
  let ?d = "ensure_dir staging (join_with ''/'' (butlast (split_on CHR ''/'' rel))) w"
  have "list_all name_ok (parts_of (join_with ''/'' (butlast (split_on CHR ''/'' rel))))"
  proof (cases "butlast (split_on CHR ''/'' rel) = []")
    case False
    have "list_all name_ok (butlast (split_on CHR ''/'' rel))"
      using p(2,3) by (auto simp: list_all_iff dest: in_set_butlastD)
    then show ?thesis using parts_of_join [OF False] by simp
  qed (simp add: parts_of_def)
  then have d: "at_stage es staging (left_by ?d)" by (rule ensure_dir_stage [OF assms(1)])
  show ?thesis
  proof (cases ?d)
    case (Inl f)
    with d show ?thesis by (cases f) (simp add: open_file_def)
  next
    case (Inr v)
    with d obtain sub where fresh: "staging \<notin> fst ` set es"
      and sub: "ex_root v = staged es staging sub" "wf_entries sub" by (auto simp: at_stage_def)
    show ?thesis
    proof (cases "create_at (NFile 384 1 (Some [])) (staging # parts_of rel) (ex_root v)")
      case Inl
      with d Inr show ?thesis by (simp add: open_file_def)
    next
      case made: (Inr es')
      then obtain sub' where "create_at (NFile 384 1 (Some [])) (parts_of rel) sub = Inr sub'" "es' = staged es staging sub'"
        by (auto simp: sub(1) create_at_staged [OF fresh] bindE_eq_Inr split: if_splits)
      then show ?thesis using create_at_wf [OF sub(2) p(2), of "NFile 384 1 (Some [])"] fresh made Inr
        by (auto simp: open_file_def at_stage_def)
    qed
  qed
qed

lemma write_all_stage:
  assumes "at_stage es staging w"
  shows "at_stage es staging (left_by (write_all staging rel d w))"
proof (cases "append_at (take (ex_room w) d) (staging # parts_of rel) (ex_root w)")
  case (Inr es')
  from assms obtain sub where fresh: "staging \<notin> fst ` set es"
    and sub: "ex_root w = staged es staging sub" "wf_entries sub" by (auto simp: at_stage_def)
  with Inr obtain sub' where "append_at (take (ex_room w) d) (parts_of rel) sub = Inr sub'" "es' = staged es staging sub'"
    by (auto simp: append_at_staged [OF fresh] bindE_eq_Inr split: if_splits)
  then show ?thesis using append_at_wf [OF sub(2)] fresh Inr assms
    by (auto simp: write_all_def Let_def at_stage_def)
qed (use assms in \<open>simp add: write_all_def Let_def\<close>)

interpretation installing: sink_keeps "extract_opts sha lim rec staging" "at_stage es staging"
  for sha lim rec staging es
  by unfold_locales
     (auto simp: extract_opts_def intro: open_file_stage write_all_stage ensure_dir_stage plain_parts(2))

section \<open>The calls of an accepted archive\<close>

lemma accepted_blocks:
  assumes "feed_all opts (0, new_parser w) cs = Some (Inr (n, p))" and "finish p = Inr ()"
  obtains bs where "foldE (perform opts) w (journal bs) = Inr (p_world p)"
    and "block_members (o_sha256 opts) bs = p_members p" and "block_directories bs = p_directories p"
    and "feed_all (journal_opts opts) (0, new_parser []) cs = Some (Inr (n, with_world (journal bs) p))"
    and "list_all (\<lambda>b. plain_path (fst b)) bs"
proof -
  have "feed_all opts (0, with_world w (new_parser ([] :: sink_op list))) cs = Some (Inr (n, p))" using assms(1) by simp
  moreover have "p_world (new_parser ([] :: sink_op list)) = []" by (simp add: new_parser_def)
  ultimately obtain p' ops v where p': "feed_all (journal_opts opts) (0, new_parser []) cs = Some (Inr (n, p'))"
    "p_world p' = ops" "foldE (perform opts) w ops = Inr v" "p = with_world v p'"
    unfolding feed_all_journal [OF new_parser_wf] by auto
  have ok: "archive_ok (journal_opts opts) p'"
    using accepted_archive_ok [OF p'(1)] assms(2) by (simp add: p'(4))
  have "p_file p' = None"
    using feed_all_journal_inv(2) [OF p'(1)] assms(2)
    by (auto simp: p'(4)) (auto simp: parser_inv_def data_inv_def finish_def split: if_splits)
  then obtain bs where bs: "ops = journal bs" "block_members (o_sha256 opts) bs = p_members p'"
    "block_directories bs = p_directories p'"
    using feed_all_journal_inv(1) [OF p'(1)] p'(2) by (auto simp: journal_inv_idle)
  have "plain_path path" if b: "(path, b) \<in> set bs" for path b
  proof (cases b)
    case None
    then have "path \<in> set (p_directories p')" using that bs(3) by (simp flip: bs(3) add: block_directories_iff)
    then show ?thesis using ok by (auto simp: archive_ok_def list_all_iff)
  next
    case (Some ds)
    then have "\<lparr>m_path = path, m_bytes = length (concat ds), m_sha256 = o_sha256 opts (concat ds)\<rparr> \<in> set (p_members p')"
      using that by (auto simp flip: bs(2) simp: block_members_iff)
    then have "member_ok (journal_opts opts) \<lparr>m_path = path, m_bytes = length (concat ds), m_sha256 = o_sha256 opts (concat ds)\<rparr>"
      using ok by (auto simp: archive_ok_def list_all_iff)
    then show ?thesis by (simp add: member_ok_def)
  qed
  moreover have "with_world (journal bs) p = p'" using p'(2,4) bs(1) by (simp add: with_world_def)
  ultimately show thesis using that [of bs] p' bs by (auto simp: list_all_iff split_paired_all)
qed

section \<open>Making a tree read-only\<close>

definition chmod_entries :: "nat \<Rightarrow> nat \<Rightarrow> entries \<Rightarrow> entries" where
  "chmod_entries fm dm es = map (map_prod id (chmod_tree fm dm)) es"

definition chmod_item :: "nat \<Rightarrow> nat \<Rightarrow> item \<Rightarrow> item" where
  "chmod_item fm dm i = (case i of IFile m k c \<Rightarrow> IFile fm k c | IDir m \<Rightarrow> IDir dm | _ \<Rightarrow> i)"

lemma item_of_chmod: "item_of (chmod_tree fm dm x) = chmod_item fm dm (item_of x)"
  by (cases x) (simp_all add: chmod_item_def)

lemma items_chmod: "items rel (chmod_entries fm dm es) = map (map_prod id (chmod_item fm dm)) (items rel es)"
proof (induction rel es rule: items.induct)
  case (2 rel n x es)
  then show ?case
    by (cases x) (simp_all add: chmod_entries_def chmod_item_def)
qed (simp add: chmod_entries_def)

lemma map_fst_chmod [simp]: "map fst (chmod_entries fm dm es) = map fst es"
  by (simp add: chmod_entries_def)

lemma wf_chmod: "wf_entries (chmod_entries fm dm es) = wf_entries es"
proof (induction es rule: wf_entries.induct)
  case (2 n x es)
  have "fst ` set (chmod_entries fm dm es) = fst ` set es"
    by (metis list.set_map map_fst_chmod)
  with 2 show ?case
    by (cases x) (simp_all add: chmod_entries_def wf_entries_Cons node_wf_def)
qed (simp add: chmod_entries_def)

lemma holds_exactly_chmod: "holds_exactly sha (chmod_entries fm dm es) ms = holds_exactly sha es ms"
proof -
  have "holds_item sha ms (map_prod id (chmod_item fm dm) e) = holds_item sha ms e" for e
    by (cases e) (auto simp: holds_item_def chmod_item_def split: item.splits option.splits)
  moreover have "(\<forall>m. chmod_item fm dm i \<noteq> IDir m) \<longleftrightarrow> (\<forall>m. i \<noteq> IDir m)" for i
    by (cases i) (auto simp: chmod_item_def)
  ultimately show ?thesis
    by (simp add: holds_exactly_def items_chmod list_all_iff list_ex_iff)
qed

text \<open>Files 0444, directories 0555.\<close>

definition read_only :: "entries \<Rightarrow> bool" where
  "read_only es \<longleftrightarrow> list_all (\<lambda>(p, i). case i of IFile m k c \<Rightarrow> m = 292 | IDir m \<Rightarrow> m = 365 | _ \<Rightarrow> False) (items [] es)"

lemma read_only_chmod:
  "list_all (plain_item \<circ> snd) (items [] es) \<Longrightarrow> read_only (chmod_entries 292 365 es)"
  by (auto simp: read_only_def items_chmod list_all_iff plain_item_def chmod_item_def split: item.splits)

lemma holds_exactly_plain: "holds_exactly sha es ms \<Longrightarrow> list_all (plain_item \<circ> snd) (items [] es)"
  by (auto simp: holds_exactly_def list_all_iff holds_item_def plain_item_def split: item.splits option.splits)

section \<open>The installation\<close>

text \<open>What an installation is to do: one new entry of the destination, a read-only tree of the record's members.\<close>

definition publishes :: "(buffer \<Rightarrow> string) \<Rightarrow> archive_record \<Rightarrow> string \<Rightarrow> entries \<Rightarrow> entries \<Rightarrow> bool" where
  "publishes sha rec version es es' \<longleftrightarrow>
     map_of es version = None \<and>
     (\<exists>dir. es' = es @ [(version, NDir 365 dir)] \<and> wf_entries dir \<and> holds_exactly sha dir (ar_members rec) \<and>
       read_only dir)"

definition quiet_hooks :: hooks where
  "quiet_hooks = \<lparr>after_inspection = (\<lambda>es. es), after_staging = (\<lambda>es. es), before_rename = (\<lambda>es. es)\<rparr>"

text \<open>\<open>mkdtemp\<close> answers a name that starts with the prefix, is longer, and is not taken.\<close>

definition fresh_names :: "(string \<Rightarrow> entries \<Rightarrow> string) \<Rightarrow> bool" where
  "fresh_names mkdtemp \<longleftrightarrow> (\<forall>prefix es. starts_with (mkdtemp prefix es) prefix \<and> mkdtemp prefix es \<notin> fst ` set es)"

lemma staging_not_version:
  "fresh_names mkdtemp \<Longrightarrow> mkdtemp (''.'' @ version @ staging_prefix) es \<noteq> version"
proof
  assume "fresh_names mkdtemp" "mkdtemp (''.'' @ version @ staging_prefix) es = version"
  then have "starts_with version (''.'' @ version @ staging_prefix)" by (metis fresh_names_def)
  then obtain t where "version = (''.'' @ version @ staging_prefix) @ t" by (auto simp: starts_with_iff)
  then have "length version = length ((''.'' @ version @ staging_prefix) @ t)" by simp
  then show False by simp
qed

lemma place_staged_eq:
  assumes fresh: "staging \<notin> fst ` set es" and root: "ex_root (sc_world scan) = staged es staging sub"
    and other: "staging \<noteq> an_circuit_version an" and none: "map_of es (an_circuit_version an) = None"
  shows "place_staged sha rec an quiet_hooks staging scan =
    (if \<not> strict_eq (JStr (ms_sha256 (sc_raw scan))) (ar_sha256 rec)
     then (Inl (Refused (refuse ARCHIVE_CHANGED_DURING_USE ''REREAD'')), es)
     else case verify_tree sha sub rec an INSTALL_FAILED of
       Inl e \<Rightarrow> (Inl (Refused e), es)
     | Inr ms \<Rightarrow> (Inr ms, es @ [(an_circuit_version an, NDir 365 (chmod_entries 292 365 sub))]))"
proof -
  let ?v = "an_circuit_version an"
  have contents: "contents staging (staged es staging sub) = sub" by (simp add: contents_def map_of_staged [OF fresh])
  have put: "put_entry staging (chmod_tree 292 365 (NDir 448 sub)) (staged es staging sub) =
      es @ [(staging, NDir 365 (chmod_entries 292 365 sub))]"
    using fresh by (force simp: put_entry_def staged_def chmod_entries_def intro: map_idI)
  have gone: "remove_staging staging (staged es staging sub) = es" using fresh by (simp add: staged_def)
  have look: "map_of (es @ [(staging, x)]) ?v = None" "map_of (es @ [(staging, x)]) staging = Some x" for x
    using none other fresh by (simp_all add: map_add_def map_of_eq_None_iff [THEN iffD2])
  have "filter (\<lambda>e. fst e \<noteq> staging) es = es" using fresh by (force simp: filter_id_conv)
  then have renamed: "rename_entry staging ?v (es @ [(staging, x)]) = Some (es @ [(?v, x)])" for x
    unfolding rename_entry_def look by simp
  show ?thesis
    by (cases "verify_tree sha sub rec an INSTALL_FAILED")
       (simp_all only: place_staged_def Let_def root contents sum.case put look renamed gone quiet_hooks_def
          hooks.select_convs option.case simp_thms if_False)
qed

text \<open>A staged tree that holds the record's members is published.\<close>

lemma staged_publishes:
  assumes "accepted_record https an r = Inr rec" and "wf_entries sub" and "map_of es (an_circuit_version an) = None"
    and "verify_tree sha sub rec an INSTALL_FAILED = Inr ms"
  shows "publishes sha rec (an_circuit_version an) es (es @ [(an_circuit_version an, NDir 365 (chmod_entries 292 365 sub))])"
    and "set (map as_record ms) = set (ar_members rec)"
proof -
  note found = verify_tree_exact [OF assms(1,2), where sha = sha and why = INSTALL_FAILED]
  have "holds_exactly sha sub (ar_members rec)" using found(1) assms(4) by blast
  then show "publishes sha rec (an_circuit_version an) es (es @ [(an_circuit_version an, NDir 365 (chmod_entries 292 365 sub))])"
    using assms(2,3) by (auto simp: publishes_def wf_chmod holds_exactly_chmod read_only_chmod holds_exactly_plain)
  show "set (map as_record ms) = set (ar_members rec)" by (rule found(2) [OF assms(4)])
qed

lemma place_staged_quiet:
  assumes stage: "at_stage es staging (sc_world scan)" and other: "staging \<noteq> an_circuit_version an"
    and rec: "accepted_record https an r = Inr rec" and none: "map_of es (an_circuit_version an) = None"
    and placed: "place_staged sha rec an quiet_hooks staging scan = (res, es')"
  shows "case res of Inl e \<Rightarrow> es' = es
    | Inr ms \<Rightarrow> publishes sha rec (an_circuit_version an) es es' \<and> set (map as_record ms) = set (ar_members rec)"
proof -
  from stage obtain sub where sub: "staging \<notin> fst ` set es" "ex_root (sc_world scan) = staged es staging sub"
    and wf: "wf_entries sub" by (auto simp: at_stage_def)
  show ?thesis
  proof (cases "verify_tree sha sub rec an INSTALL_FAILED")
    case (Inl e)
    then show ?thesis using placed unfolding place_staged_eq [OF sub other none] by (auto split: if_splits)
  next
    case (Inr ms)
    then show ?thesis
      using placed staged_publishes [OF rec wf none Inr]
      unfolding place_staged_eq [OF sub other none] by (auto split: if_splits)
  qed
qed

text \<open>However the extraction ends, it has acted below the staging directory only.\<close>

definition scan_left :: "(tool_error \<times> 'w) + 'w scan_result \<Rightarrow> 'w" where
  "scan_left r = (case r of Inl (e, w) \<Rightarrow> w | Inr scan \<Rightarrow> sc_world scan)"

lemma scan_left_simps [simp]: "scan_left (Inl (e, w)) = w" "scan_left (Inr scan) = sc_world scan"
  by (simp_all add: scan_left_def)

lemma extraction_stays:
  assumes "staging \<notin> fst ` set es" and "wf_entries sub"
  shows "at_stage es staging (scan_left (scan_archive (extract_opts sha lim rec staging)
    \<lparr>ex_root = staged es staging sub, ex_made = [[]], ex_room = room\<rparr> file))"
proof -
  let ?w = "\<lparr>ex_root = staged es staging sub, ex_made = [[]], ex_room = room\<rparr>" and ?o = "extract_opts sha lim rec staging"
  have w: "at_stage es staging ?w" using assms by (auto simp: at_stage_def)
  have "at_stage es staging (scan_left (scan_reading ?o ?w rd))" for rd
  proof (cases "feed_all ?o (0, new_parser ?w) (rd_chunks rd)")
    case None
    with w show ?thesis by (simp add: scan_reading_def)
  next
    case (Some r)
    have "ends (at_stage es staging) (map_sum id snd r)"
      by (rule installing.feed_all_keeps [OF _ _ Some]) (simp add: new_parser_wf, use w in \<open>simp add: new_parser_def\<close>)
    then show ?thesis using Some
      by (cases r; cases "finish (snd (projr r))") (auto simp: scan_reading_def split: read_end.split)
  qed
  with w show ?thesis by (simp add: scan_archive_def split: archive_file.split)
qed

lemma extracted_stays:
  assumes "staging \<notin> fst ` set es" and "wf_entries sub"
    and "scan_archive (extract_opts sha lim rec staging) \<lparr>ex_root = staged es staging sub, ex_made = [[]], ex_room = room\<rparr> file
      = Inr scan"
  shows "at_stage es staging (sc_world scan)"
  using extraction_stays [OF assms(1,2)] assms(3) by (metis scan_left_simps(2))

text \<open>The installation into a directory, without interference.\<close>

lemma install_cases:
  assumes "install_circuit_archive sha https lim an quiet_hooks mkdtemp room r readings absolute root = (res, root')"
  obtains (early) e where "res = Inl e" "root' = root"
  | (placed) rec m es insp q es' where "accepted_record https an r = Inr rec" "absolute" "root = Some (NDir m es)"
      "map_of es (an_circuit_version an) = None"
      "inspect_archive sha https lim an (Some r) (fst readings) (fst (snd readings)) = Inr insp"
      "extract_and_place sha lim rec an quiet_hooks mkdtemp room (snd (snd readings)) es = (q, es')"
      "res = map_sum id (\<lambda>members. \<lparr>ir_archive = is_archive insp, ir_members = members\<rparr>) q"
      "root' = Some (NDir m es')"
  using assms
  unfolding install_circuit_archive_def quiet_hooks_def
  by (auto split: sum.splits option.splits node.splits if_splits prod.splits)

lemma extract_and_place_quiet:
  assumes mk: "fresh_names mkdtemp" and rec: "accepted_record https an r = Inr rec"
    and none: "map_of es (an_circuit_version an) = None"
    and run: "extract_and_place sha lim rec an quiet_hooks mkdtemp room file es = (res, es')"
  shows "case res of Inl e \<Rightarrow> es' = es
    | Inr ms \<Rightarrow> publishes sha rec (an_circuit_version an) es es' \<and> set (map as_record ms) = set (ar_members rec)"
proof -
  let ?s = "mkdtemp (''.'' @ an_circuit_version an @ staging_prefix) es"
  have fresh: "?s \<notin> fst ` set es" using mk by (simp add: fresh_names_def)
  have other: "?s \<noteq> an_circuit_version an" by (rule staging_not_version [OF mk])
  let ?w = "\<lparr>ex_root = staged es ?s [], ex_made = [[]], ex_room = room\<rparr>"
  have e: "extract_and_place sha lim rec an quiet_hooks mkdtemp room file es =
      (case scan_archive (extract_opts sha lim rec ?s) ?w file of
         Inl (e, w) \<Rightarrow> (Inl e, remove_staging ?s (ex_root w)) | Inr scan \<Rightarrow> place_staged sha rec an quiet_hooks ?s scan)"
    unfolding extract_and_place_def Let_def staged_def by (simp only: quiet_hooks_def hooks.select_convs)
  have stage: "at_stage es ?s (scan_left (scan_archive (extract_opts sha lim rec ?s) ?w file))"
    by (rule extraction_stays [OF fresh]) simp
  show ?thesis
  proof (cases "scan_archive (extract_opts sha lim rec ?s) ?w file")
    case (Inl f)
    obtain x w where f: "f = (x, w)" by (cases f)
    then have "at_stage es ?s w" using stage unfolding Inl by simp
    then have "remove_staging ?s (ex_root w) = es" using fresh by (auto simp: at_stage_def staged_def)
    then show ?thesis using run Inl f by (auto simp: e)
  next
    case (Inr scan)
    then show ?thesis
      using run place_staged_quiet [OF _ other rec none] stage by (simp add: e)
  qed
qed

lemma install_quiet:
  assumes mk: "fresh_names mkdtemp"
    and run: "install_circuit_archive sha https lim an quiet_hooks mkdtemp room r readings absolute (Some (NDir m es)) = (res, root')"
  shows "case res of
      Inl e \<Rightarrow> root' = Some (NDir m es)
    | Inr ir \<Rightarrow> (\<exists>rec es'. accepted_record https an r = Inr rec \<and> root' = Some (NDir m es') \<and>
        publishes sha rec (an_circuit_version an) es es' \<and>
        set (map as_record (ir_members ir)) = set (ar_members rec))"
  using run
proof (cases rule: install_cases)
  case early
  then show ?thesis by simp
next
  case (placed rec m' es0 insp q es')
  then have "m' = m" "es0 = es" by simp_all
  with extract_and_place_quiet [OF mk placed(1,4,6)] placed show ?thesis by (cases q) auto
qed

lemma published_verifies:
  assumes rec: "accepted_record https an r = Inr rec" and "publishes sha rec (an_circuit_version an) [] es'"
  shows "\<exists>ms. verify_installed_circuit sha True (Some (NDir m es')) rec an = Inr ms \<and>
    set (map as_record ms) = set (ar_members rec)"
proof -
  from assms(2) obtain dir where dir: "es' = [(an_circuit_version an, NDir 365 dir)]" "wf_entries dir"
    "holds_exactly sha dir (ar_members rec)" by (auto simp: publishes_def)
  note found = verify_tree_exact [OF rec dir(2), where sha = sha and why = CIRCUIT_INTEGRITY_FAILED]
  obtain ms where ms: "verify_tree sha dir rec an CIRCUIT_INTEGRITY_FAILED = Inr ms" using found(1) dir(3) by blast
  with found(2) [OF ms] show ?thesis by (simp add: verify_installed_circuit_def dir(1))
qed


lemma rename_entry_target:
  assumes "rename_entry old new es = Some es'" and "map_of es old = Some x"
  shows "map_of es' new = Some x"
proof -
  from assms obtain P where P: "es' = filter P es @ [(new, x)]" "\<forall>e \<in> set es. P e \<longrightarrow> fst e \<noteq> new"
    by (fastforce simp: rename_entry_def map_of_eq_None_iff split: option.splits node.splits list.splits)
  then have "map_of (filter P es) new = None" by (auto simp: map_of_eq_None_iff)
  then show ?thesis by (simp add: P(1) map_add_def)
qed

text \<open>With interference: what is installed is still what was verified.\<close>

lemma place_staged_any:
  assumes stage: "at_stage es staging (sc_world scan)" and rec: "accepted_record https an r = Inr rec"
    and keep: "\<And>x. map_of (before_rename hk x) staging = map_of x staging"
    and placed: "place_staged sha rec an hk staging scan = (Inr ms, es')"
  shows "\<exists>dir. map_of es' (an_circuit_version an) = Some (NDir 365 dir) \<and> wf_entries dir \<and>
    holds_exactly sha dir (ar_members rec) \<and> read_only dir"
proof -
  let ?v = "an_circuit_version an"
  from stage obtain sub where fresh: "staging \<notin> fst ` set es" and root: "ex_root (sc_world scan) = staged es staging sub"
    and wf: "wf_entries sub" by (auto simp: at_stage_def)
  have contents: "contents staging (staged es staging sub) = sub" by (simp add: contents_def map_of_staged [OF fresh])
  let ?es = "put_entry staging (chmod_tree 292 365 (NDir 448 sub)) (staged es staging sub)"
  from placed obtain ms' where ms: "verify_tree sha sub rec an INSTALL_FAILED = Inr ms'"
    and renamed: "rename_entry staging ?v (before_rename hk ?es) = Some es'"
    unfolding place_staged_def Let_def root contents
    by (auto split: if_splits sum.splits option.splits simp del: chmod_tree.simps)
  have "map_of (before_rename hk ?es) staging = Some (NDir 365 (chmod_entries 292 365 sub))"
    unfolding keep map_of_put_entry by (simp add: map_of_staged [OF fresh] chmod_entries_def)
  with renamed have "map_of es' ?v = Some (NDir 365 (chmod_entries 292 365 sub))"
    by (rule rename_entry_target)
  moreover have "holds_exactly sha sub (ar_members rec)"
    using verify_tree_exact(1) [OF rec wf, of sha INSTALL_FAILED] ms by blast
  ultimately show ?thesis
    using wf by (auto simp: wf_chmod holds_exactly_chmod read_only_chmod holds_exactly_plain)
qed

end
