(* ===== verification/Install_Succeeds.thy ===== *)
theory Install_Succeeds
  imports Install_Laws
begin

text \<open>
  An archive of record is installed. The calls of an accepted archive, performed on an empty staging directory with
  room for the members, all succeed: they build the tree the archive describes, step by step a map from paths to
  bytes, which is the tree \<open>verifyTree\<close> accepts.
\<close>

section \<open>A tree of directories and files\<close>

text \<open>The directories \<open>D\<close>, and the files \<open>F\<close> with their bytes, by path.\<close>

definition holds_tree :: "string set \<Rightarrow> (string \<rightharpoonup> buffer) \<Rightarrow> entries \<Rightarrow> bool" where
  "holds_tree D F es \<longleftrightarrow> wf_entries es \<and>
     (\<forall>cs. cs \<noteq> [] \<longrightarrow> list_all name_ok cs \<longrightarrow> look es cs =
        (if join_with ''/'' cs \<in> D then Some (IDir 448)
         else map_option (\<lambda>d. IFile 384 1 (Some d)) (F (join_with ''/'' cs))))"

lemma join_parts [simp]: "join_with ''/'' (parts_of p) = p"
  by (simp add: parts_of_def)

lemma join_inject:
  assumes "cs \<noteq> []" "list_all name_ok cs" "ds \<noteq> []" "list_all name_ok ds"
  shows "join_with ''/'' cs = join_with ''/'' ds \<longleftrightarrow> cs = ds"
  using parts_of_join [OF assms(1,2)] parts_of_join [OF assms(3,4)] by metis

lemma holds_tree_empty: "holds_tree {} Map.empty []"
  by (simp add: holds_tree_def)

text \<open>A path that may be made: proper names, with every directory on the way there.\<close>

definition ready_path :: "string set \<Rightarrow> string list \<Rightarrow> bool" where
  "ready_path D cs \<longleftrightarrow> cs \<noteq> [] \<and> list_all name_ok cs \<and> (\<forall>k \<in> {1..<length cs}. join_with ''/'' (take k cs) \<in> D)"

lemma create_tree:
  assumes tree: "holds_tree D F es" and cs: "ready_path D cs" "join_with ''/'' cs \<notin> D" "F (join_with ''/'' cs) = None"
    and x: "leaf x"
  obtains es' where "create_at x cs es = Inr es'" "wf_entries es'" "look es' = (look es)(cs \<mapsto> item_of x)"
proof -
  have ok: "cs \<noteq> []" "list_all name_ok cs" using cs(1) by (simp_all add: ready_path_def)
  have "look es cs = None" using tree ok cs(2,3) by (simp add: holds_tree_def)
  moreover have "\<exists>m. look es (take k cs) = Some (IDir m)" if k: "k \<in> {1..<length cs}" for k
  proof -
    have "take k cs \<noteq> []" "list_all name_ok (take k cs)" using k ok(2) by (auto simp: list_all_iff dest: in_set_takeD)
    moreover have "join_with ''/'' (take k cs) \<in> D" using cs(1) k by (simp add: ready_path_def)
    ultimately show ?thesis using tree by (simp add: holds_tree_def)
  qed
  ultimately obtain es' where es': "create_at x cs es = Inr es'" using create_at_Some [OF ok(1)] by blast
  have "wf_entries es" using tree by (simp add: holds_tree_def)
  from that [OF es' create_at_wf [OF this ok(2) leaf_wf [OF x] es']] create_at_look [OF x es'] show thesis by blast
qed

lemma create_dir_tree:
  assumes "holds_tree D F es" and "ready_path D cs" and "join_with ''/'' cs \<notin> D" and "F (join_with ''/'' cs) = None"
  shows "\<exists>es'. create_at (NDir 448 []) cs es = Inr es' \<and> holds_tree (insert (join_with ''/'' cs) D) F es'"
proof -
  have ok: "cs \<noteq> []" "list_all name_ok cs" using assms(2) by (simp_all add: ready_path_def)
  obtain es' where es': "create_at (NDir 448 []) cs es = Inr es'" "wf_entries es'" "look es' = (look es)(cs \<mapsto> IDir 448)"
    using create_tree [OF assms, of "NDir 448 []"] by (auto simp: leaf_def)
  then show ?thesis
    using assms(1) join_inject [OF _ _ ok] by (auto simp: holds_tree_def)
qed

lemma create_file_tree:
  assumes "holds_tree D F es" and "ready_path D cs" and "join_with ''/'' cs \<notin> D" and "F (join_with ''/'' cs) = None"
  shows "\<exists>es'. create_at (NFile 384 1 (Some [])) cs es = Inr es' \<and> holds_tree D (F(join_with ''/'' cs \<mapsto> [])) es'"
proof -
  have ok: "cs \<noteq> []" "list_all name_ok cs" using assms(2) by (simp_all add: ready_path_def)
  obtain es' where es': "create_at (NFile 384 1 (Some [])) cs es = Inr es'" "wf_entries es'"
    "look es' = (look es)(cs \<mapsto> IFile 384 1 (Some []))"
    using create_tree [OF assms, of "NFile 384 1 (Some [])"] by (auto simp: leaf_def)
  then show ?thesis
    using assms(1,3) join_inject [OF _ _ ok] by (auto simp: holds_tree_def)
qed

lemma append_tree:
  assumes tree: "holds_tree D F es" and cs: "cs \<noteq> []" "list_all name_ok cs"
    and f: "join_with ''/'' cs \<notin> D" "F (join_with ''/'' cs) = Some a"
  shows "\<exists>es'. append_at d cs es = Inr es' \<and> holds_tree D (F(join_with ''/'' cs \<mapsto> a @ d)) es'"
proof -
  have "look es cs = Some (IFile 384 1 (Some a))" using tree cs f by (simp add: holds_tree_def)
  then obtain es' where es': "append_at d cs es = Inr es'" "look es' = (look es)(cs \<mapsto> IFile 384 1 (Some (a @ d)))"
    using append_at_look by blast
  moreover have "wf_entries es'" using append_at_wf [OF _ es'(1)] tree by (simp add: holds_tree_def)
  ultimately show ?thesis
    using tree f(1) join_inject [OF _ _ cs] by (auto simp: holds_tree_def)
qed

section \<open>The extraction's calls\<close>

definition extracted ::
  "entries \<Rightarrow> string \<Rightarrow> string set \<Rightarrow> (string \<rightharpoonup> buffer) \<Rightarrow> nat \<Rightarrow> extraction \<Rightarrow> bool" where
  "extracted es staging D F room w \<longleftrightarrow>
     staging \<notin> fst ` set es \<and> (\<exists>sub. ex_root w = staged es staging sub \<and> holds_tree D F sub) \<and>
     set (ex_made w) = insert [] D \<and> ex_room w = room"

lemma make_dir_extracted:
  assumes "extracted es staging D F room w" and "parts_of p = cs" and "ready_path D cs" and "F p = None"
  shows "\<exists>w'. make_dir staging w p = Inr w' \<and> extracted es staging (insert p D) F room w'"
proof (cases "p \<in> D")
  case True
  then show ?thesis using assms(1) by (auto simp: make_dir_def extracted_def insert_absorb)
next
  case False
  from assms(1) obtain sub where fresh: "staging \<notin> fst ` set es" and w: "ex_root w = staged es staging sub"
    "holds_tree D F sub" "set (ex_made w) = insert [] D" "ex_room w = room" by (auto simp: extracted_def)
  have p: "join_with ''/'' cs = p" "cs \<noteq> []" using assms(2,3) join_parts [of p] by (auto simp: ready_path_def)
  then have "p \<noteq> []" using assms(2) by (auto simp: parts_of_def)
  obtain sub' where "create_at (NDir 448 []) cs sub = Inr sub'" "holds_tree (insert p D) F sub'"
    using create_dir_tree [OF w(2) assms(3)] p False assms(4) by auto
  then show ?thesis
    using False \<open>p \<noteq> []\<close> w fresh p(2)
    by (auto simp: make_dir_def assms(2) create_at_staged [OF fresh] extracted_def)
qed

text \<open>The directories of a path, down to the \<open>n\<close>th.\<close>

definition prefixes_of :: "string list \<Rightarrow> nat \<Rightarrow> string set" where
  "prefixes_of ps n = (\<lambda>i. join_with ''/'' (take i ps)) ` {1..n}"

lemma make_dirs_extracted:
  assumes "extracted es staging D F room w" and ps: "list_all name_ok ps"
    and files: "\<forall>p \<in> prefixes_of ps (length ps). F p = None" and "n \<le> length ps"
  shows "\<exists>w'. foldE (make_dir staging) w (map (\<lambda>i. join_with ''/'' (take i ps)) [1..<n + 1]) = Inr w' \<and>
    extracted es staging (D \<union> prefixes_of ps n) F room w'"
  using assms(4)
proof (induction n)
  case 0
  then show ?case using assms(1) by (simp add: prefixes_of_def)
next
  case (Suc n)
  then obtain v where v: "foldE (make_dir staging) w (map (\<lambda>i. join_with ''/'' (take i ps)) [1..<n + 1]) = Inr v"
    "extracted es staging (D \<union> prefixes_of ps n) F room v" by auto
  let ?p = "join_with ''/'' (take (Suc n) ps)"
  have parts: "parts_of ?p = take (Suc n) ps" by (rule prefix_parts [OF ps]) (use Suc.prems in auto)
  have in_ps: "?p \<in> prefixes_of ps (length ps)" using Suc.prems by (auto simp: prefixes_of_def)
  have "ready_path (D \<union> prefixes_of ps n) (take (Suc n) ps)"
    using ps Suc.prems by (auto simp: ready_path_def list_all_iff prefixes_of_def min_def dest: in_set_takeD)
  from make_dir_extracted [OF v(2) parts this bspec [OF files in_ps]] obtain w' where
    "make_dir staging v ?p = Inr w'" "extracted es staging (insert ?p (D \<union> prefixes_of ps n)) F room w'" by blast
  moreover have "insert ?p (D \<union> prefixes_of ps n) = D \<union> prefixes_of ps (Suc n)"
    by (auto simp: prefixes_of_def atLeastAtMostSuc_conv)
  ultimately show ?case using v(1) by (simp add: foldE_append)
qed

lemma ensure_dir_extracted:
  assumes "extracted es staging D F room w" and "list_all name_ok (parts_of rel)"
    and "\<forall>p \<in> prefixes_of (parts_of rel) (length (parts_of rel)). F p = None"
  shows "\<exists>w'. ensure_dir staging rel w = Inr w' \<and>
    extracted es staging (D \<union> prefixes_of (parts_of rel) (length (parts_of rel))) F room w'"
  using make_dirs_extracted [OF assms(1,2,3) order_refl] by (simp add: ensure_dir_def Let_def)

lemma set_ancestor_paths:
  "set (ancestor_paths path) = (\<lambda>i. join_with ''/'' (take i (split_on CHR ''/'' path))) ` {1..<length (split_on CHR ''/'' path)}"
  by (simp add: ancestor_paths_def Let_def)

lemma ancestors_prefixes:
  assumes "plain_path path"
  shows "prefixes_of (parts_of path) (length (parts_of path)) = insert path (set (ancestor_paths path))"
    and "prefixes_of (butlast (parts_of path)) (length (butlast (parts_of path))) = set (ancestor_paths path)"
proof -
  note p = plain_parts [OF assms]
  have n: "{1..length (parts_of path)} = insert (length (parts_of path)) {1..<length (parts_of path)}"
    using p(1) by (cases "parts_of path") auto
  show "prefixes_of (parts_of path) (length (parts_of path)) = insert path (set (ancestor_paths path))"
    unfolding prefixes_of_def n set_ancestor_paths p(3) [symmetric] image_insert by simp
  have "take i (butlast (parts_of path)) = take i (parts_of path)" if "i \<in> {1..length (butlast (parts_of path))}" for i
    using that by (intro take_butlast) auto
  moreover have "{1..length (butlast (parts_of path))} = {1..<length (parts_of path)}"
    using p(1) by (cases "parts_of path" rule: rev_cases) auto
  ultimately show "prefixes_of (butlast (parts_of path)) (length (butlast (parts_of path))) = set (ancestor_paths path)"
    unfolding prefixes_of_def set_ancestor_paths p(3) [symmetric] by (intro image_cong) auto
qed

lemma open_file_extracted:
  assumes st: "extracted es staging D F room w" and path: "plain_path path"
    and free: "path \<notin> D" "F path = None" "\<forall>a \<in> set (ancestor_paths path). F a = None" "path \<notin> set (ancestor_paths path)"
  shows "\<exists>w'. open_file staging path w = Inr w' \<and>
    extracted es staging (D \<union> set (ancestor_paths path)) (F(path \<mapsto> [])) room w'"
proof -
  note p = plain_parts [OF path]
  let ?dir = "join_with ''/'' (butlast (split_on CHR ''/'' path))" and ?A = "set (ancestor_paths path)"
  have names: "list_all name_ok (butlast (parts_of path))" using p(2) by (auto simp: list_all_iff dest: in_set_butlastD)
  have parts: "parts_of ?dir = butlast (parts_of path)"
  proof (cases "butlast (parts_of path) = []")
    case True
    then show ?thesis unfolding p(3) [symmetric] by (simp add: parts_of_def)
  next
    case False
    then show ?thesis unfolding p(3) [symmetric] by (rule parts_of_join [OF _ names])
  qed
  have "\<exists>v. ensure_dir staging ?dir w = Inr v \<and> extracted es staging (D \<union> ?A) F room v"
    using ensure_dir_extracted [OF st, of ?dir] names free(3) unfolding parts ancestors_prefixes(2) [OF path] by blast
  then obtain v where v: "ensure_dir staging ?dir w = Inr v" "extracted es staging (D \<union> ?A) F room v" by blast
  from v(2) obtain sub where fresh: "staging \<notin> fst ` set es" and sub: "ex_root v = staged es staging sub"
    "holds_tree (D \<union> ?A) F sub" by (auto simp: extracted_def)
  have "ready_path (D \<union> ?A) (parts_of path)"
    using p(1,2) by (auto simp: ready_path_def set_ancestor_paths p(3) [symmetric])
  then obtain sub' where c: "create_at (NFile 384 1 (Some [])) (parts_of path) sub = Inr sub'"
    "holds_tree (D \<union> ?A) (F(path \<mapsto> [])) sub'"
    using create_file_tree [OF sub(2), of "parts_of path"] free by auto
  have "create_at (NFile 384 1 (Some [])) (staging # parts_of path) (ex_root v) = Inr (staged es staging sub')"
    using c(1) p(1) by (simp add: sub(1) create_at_staged [OF fresh])
  then have "open_file staging path w = Inr (v\<lparr>ex_root := staged es staging sub'\<rparr>)"
    by (simp add: open_file_def v(1))
  moreover have "extracted es staging (D \<union> ?A) (F(path \<mapsto> [])) room (v\<lparr>ex_root := staged es staging sub'\<rparr>)"
    using v(2) c(2) by (auto simp: extracted_def)
  ultimately show ?thesis by blast
qed

lemma write_all_extracted:
  assumes st: "extracted es staging D F room w" and path: "plain_path path"
    and f: "path \<notin> D" "F path = Some a" and room: "length d \<le> room"
  shows "\<exists>w'. write_all staging path d w = Inr w' \<and>
    extracted es staging D (F(path \<mapsto> a @ d)) (room - length d) w'"
proof (cases "d = []")
  case True
  then show ?thesis using st f(2) by (simp add: write_all_def fun_upd_idem)
next
  case False
  note p = plain_parts [OF path]
  from st obtain sub where fresh: "staging \<notin> fst ` set es" and sub: "ex_root w = staged es staging sub"
    "holds_tree D F sub" by (auto simp: extracted_def)
  obtain sub' where c: "append_at d (parts_of path) sub = Inr sub'" "holds_tree D (F(path \<mapsto> a @ d)) sub'"
    using append_tree [OF sub(2) p(1,2), of a d] f by auto
  have "append_at d (staging # parts_of path) (ex_root w) = Inr (staged es staging sub')"
    using c(1) p(1) by (simp add: sub(1) append_at_staged [OF fresh])
  moreover have "ex_room w = room" using st by (simp add: extracted_def)
  ultimately have "write_all staging path d w =
      Inr (w\<lparr>ex_root := staged es staging sub', ex_room := room - length d\<rparr>)"
    using False room by (simp add: write_all_def)
  moreover have "extracted es staging D (F(path \<mapsto> a @ d)) (room - length d)
      (w\<lparr>ex_root := staged es staging sub', ex_room := room - length d\<rparr>)"
    using st c(2) by (auto simp: extracted_def)
  ultimately show ?thesis by blast
qed

text \<open>The pieces of a file, one after the other.\<close>

lemma writes_extracted:
  "extracted es staging D F room w \<Longrightarrow> plain_path path \<Longrightarrow> path \<notin> D \<Longrightarrow> F path = Some a \<Longrightarrow>
    length (concat ds) \<le> room \<Longrightarrow>
    \<exists>w'. foldE (perform (extract_opts sha lim rec staging)) w (map (WriteOp path) ds) = Inr w' \<and>
      extracted es staging D (F(path \<mapsto> a @ concat ds)) (room - length (concat ds)) w'"
proof (induction ds arbitrary: F a room w)
  case Nil
  then show ?case by (simp add: fun_upd_idem)
next
  case (Cons d ds)
  obtain v where v: "write_all staging path d w = Inr v" "extracted es staging D (F(path \<mapsto> a @ d)) (room - length d) v"
    using write_all_extracted [OF Cons.prems(1-4), of d] Cons.prems(5) by auto
  have "\<exists>w'. foldE (perform (extract_opts sha lim rec staging)) v (map (WriteOp path) ds) = Inr w' \<and>
      extracted es staging D (F(path \<mapsto> a @ d, path \<mapsto> (a @ d) @ concat ds)) (room - length d - length (concat ds)) w'"
    by (rule Cons.IH [OF v(2) Cons.prems(2,3)]) (use Cons.prems(5) in auto)
  moreover have "perform (extract_opts sha lim rec staging) w (WriteOp path d) = Inr v"
    using v(1) by (simp add: extract_opts_def)
  moreover have "F(path \<mapsto> a @ d, path \<mapsto> (a @ d) @ concat ds) = F(path \<mapsto> a @ concat (d # ds))" by simp
  moreover have "room - length d - length (concat ds) = room - length (concat (d # ds))" by simp
  ultimately show ?case unfolding list.map foldE.simps by (simp only: bindE_Inr)
qed

section \<open>The tree of an archive\<close>

definition block_entries :: "blocks \<Rightarrow> (string \<times> entry_kind) list" where
  "block_entries bs = map (\<lambda>(path, b). (path, case b of None \<Rightarrow> Directory | Some ds \<Rightarrow> File)) bs"

definition block_dirs :: "blocks \<Rightarrow> string set" where
  "block_dirs bs = {d. (d, Directory) \<in> claims (block_entries bs)}"

definition block_files :: "blocks \<Rightarrow> string \<rightharpoonup> buffer" where
  "block_files bs = map_of (concat (map (\<lambda>(path, b). case b of None \<Rightarrow> [] | Some ds \<Rightarrow> [(path, concat ds)]) bs))"

definition block_bytes :: "blocks \<Rightarrow> nat" where
  "block_bytes bs = sum_list (map (\<lambda>(path, b). case b of None \<Rightarrow> 0 | Some ds \<Rightarrow> length (concat ds)) bs)"

lemma block_entries_snoc [simp]:
  "block_entries [] = []"
  "block_entries (bs @ [(path, None)]) = block_entries bs @ [(path, Directory)]"
  "block_entries (bs @ [(path, Some ds)]) = block_entries bs @ [(path, File)]"
  by (simp_all add: block_entries_def)

lemma block_dirs_snoc:
  "block_dirs [] = {}"
  "block_dirs (bs @ [(path, None)]) = block_dirs bs \<union> insert path (set (ancestor_paths path))"
  "block_dirs (bs @ [(path, Some ds)]) = block_dirs bs \<union> set (ancestor_paths path)"
  by (auto simp: block_dirs_def claims_append) (simp add: claims_def)

lemma block_files_dom:
  assumes "block_files bs p = Some d"
  shows "\<exists>ds. (p, Some ds) \<in> set bs \<and> d = concat ds" and "(p, File) \<in> set (block_entries bs)"
proof -
  have "(p, d) \<in> set (concat (map (\<lambda>(path, b). case b of None \<Rightarrow> [] | Some ds \<Rightarrow> [(path, concat ds)]) bs))"
    using assms by (auto simp: block_files_def dest: map_of_SomeD)
  then show "\<exists>ds. (p, Some ds) \<in> set bs \<and> d = concat ds" by (auto split: option.splits)
  then show "(p, File) \<in> set (block_entries bs)" by (force simp: block_entries_def)
qed

lemma block_files_snoc:
  "block_files [] = Map.empty"
  "block_files (bs @ [(path, None)]) = block_files bs"
  "block_files bs path = None \<Longrightarrow> block_files (bs @ [(path, Some ds)]) = (block_files bs)(path \<mapsto> concat ds)"
  by (auto simp: block_files_def map_add_def fun_eq_iff split: option.splits)

lemma compatible_sub:
  "compatible fs \<Longrightarrow> set es \<subseteq> set fs \<Longrightarrow> distinct (map fst es) \<Longrightarrow> compatible es"
  unfolding compatible_def by (meson claims_mono subsetD)

lemma compatible_kind:
  "compatible es \<Longrightarrow> (p, k) \<in> claims es \<Longrightarrow> (p, l) \<in> claims es \<Longrightarrow> k = l"
  unfolding compatible_def by blast

lemma compatible_append: "compatible (es @ [e]) \<Longrightarrow> compatible es"
  by (rule compatible_sub [of "es @ [e]"]) (auto simp: compatible_def)

lemma block_extracted:
  assumes st: "extracted es staging (block_dirs bs) (block_files bs) room w"
    and ok: "compatible (block_entries (bs @ [(path, b)]))" "plain_path path" "block_bytes [(path, b)] \<le> room"
  shows "\<exists>w'. foldE (perform (extract_opts sha lim rec staging)) w (block_ops (path, b)) = Inr w' \<and>
    extracted es staging (block_dirs (bs @ [(path, b)])) (block_files (bs @ [(path, b)])) (room - block_bytes [(path, b)]) w'"
proof -
  let ?E = "block_entries (bs @ [(path, b)])" and ?A = "set (ancestor_paths path)"
  let ?k = "case b of None \<Rightarrow> Directory | Some ds \<Rightarrow> File"
  have E: "?E = block_entries bs @ [(path, ?k)]" by (simp add: block_entries_def)
  note kind = compatible_kind [OF ok(1)]
  have self: "(path, ?k) \<in> claims ?E" and anc: "(a, Directory) \<in> claims ?E" if "a \<in> ?A" for a
    using that unfolding E claims_append by auto
  have self': "(path, ?k) \<in> claims ?E" unfolding E claims_append by simp
  have old: "(p, k) \<in> claims ?E" if "(p, k) \<in> claims (block_entries bs)" for p k
    using that unfolding E claims_append by simp
  have at_file: "(p, File) \<in> claims ?E" if "block_files bs p = Some d" for p d
    using block_files_dom(2) [OF that] by (intro old) (simp add: claims_def)
  have fA: "block_files bs a = None" if "a \<in> ?A" for a
    using kind [OF anc [OF that] at_file] by (cases "block_files bs a") auto
  show ?thesis
  proof (cases b)
    case None
    have "block_files bs path = None"
      using kind [OF self' at_file] by (cases "block_files bs path") (auto simp: None)
    then have "\<exists>w'. ensure_dir staging path w = Inr w' \<and>
        extracted es staging (block_dirs bs \<union> insert path ?A) (block_files bs) room w'"
      using ensure_dir_extracted [OF st plain_parts(2) [OF ok(2)]] fA unfolding ancestors_prefixes(1) [OF ok(2)] by blast
    then show ?thesis
      by (auto simp: None extract_opts_def block_dirs_snoc block_files_snoc block_bytes_def)
  next
    case (Some ds)
    have "path \<notin> fst ` set (block_entries bs)" using ok(1) by (auto simp: compatible_def E)
    then have new: "block_files bs path = None" using block_files_dom(2) by (cases "block_files bs path") force+
    have dir: "path \<notin> block_dirs bs" "path \<notin> ?A"
      using kind [OF self' old] kind [OF self' anc] by (auto simp: block_dirs_def Some)
    obtain v where v: "open_file staging path w = Inr v"
      "extracted es staging (block_dirs bs \<union> ?A) ((block_files bs)(path \<mapsto> [])) room v"
      using open_file_extracted [OF st ok(2) dir(1) new _ dir(2)] fA by blast
    have room: "length (concat ds) \<le> room" using ok(3) by (simp add: Some block_bytes_def)
    obtain u where u: "foldE (perform (extract_opts sha lim rec staging)) v (map (WriteOp path) ds) = Inr u"
      "extracted es staging (block_dirs bs \<union> ?A) ((block_files bs)(path \<mapsto> [], path \<mapsto> [] @ concat ds)) (room - length (concat ds)) u"
      using writes_extracted [OF v(2) ok(2) _ _ room] dir by (metis Un_iff fun_upd_same)
    have "foldE (perform (extract_opts sha lim rec staging)) w (block_ops (path, b)) = Inr u"
      using u(1) by (simp add: Some foldE_append v(1) extract_opts_def)
    moreover have "extracted es staging (block_dirs (bs @ [(path, b)])) (block_files (bs @ [(path, b)]))
        (room - block_bytes [(path, b)]) u"
      using u(2) by (simp add: Some block_dirs_snoc block_files_snoc(3) [OF new] block_bytes_def)
    ultimately show ?thesis by blast
  qed
qed

lemma journal_extracted:
  assumes "extracted es staging {} Map.empty room w"
  shows "compatible (block_entries bs) \<Longrightarrow> list_all (\<lambda>b. plain_path (fst b)) bs \<Longrightarrow> block_bytes bs \<le> room \<Longrightarrow>
    \<exists>w'. foldE (perform (extract_opts sha lim rec staging)) w (journal bs) = Inr w' \<and>
      extracted es staging (block_dirs bs) (block_files bs) (room - block_bytes bs) w'"
proof (induction bs rule: rev_induct)
  case Nil
  then show ?case using assms by (simp add: block_dirs_snoc block_files_snoc block_bytes_def)
next
  case (snoc e bs)
  obtain path b where e: "e = (path, b)" by (cases e)
  have bytes: "block_bytes (bs @ [e]) = block_bytes bs + block_bytes [e]" by (simp add: block_bytes_def)
  have "compatible (block_entries bs)"
    using snoc.prems(1) compatible_append by (auto simp: block_entries_def e)
  then obtain v where v: "foldE (perform (extract_opts sha lim rec staging)) w (journal bs) = Inr v"
    "extracted es staging (block_dirs bs) (block_files bs) (room - block_bytes bs) v"
    using snoc.IH snoc.prems bytes by auto
  have "plain_path path" "block_bytes [(path, b)] \<le> room - block_bytes bs"
    using snoc.prems bytes by (auto simp: e)
  from block_extracted [OF v(2) snoc.prems(1) [unfolded e] this] obtain w' where
    "foldE (perform (extract_opts sha lim rec staging)) v (block_ops (path, b)) = Inr w'"
    "extracted es staging (block_dirs (bs @ [(path, b)])) (block_files (bs @ [(path, b)]))
      (room - block_bytes bs - block_bytes [(path, b)]) w'" by blast
  then show ?case using v(1) bytes by (simp add: e foldE_append)
qed

section \<open>An archive of record is installed\<close>

lemma block_files_in:
  "distinct (map fst bs) \<Longrightarrow> (p, Some ds) \<in> set bs \<Longrightarrow> block_files bs p = Some (concat ds)"
proof (induction bs)
  case (Cons e bs)
  obtain q b where e: "e = (q, b)" by (cases e)
  have step: "block_files (e # bs) = block_files bs ++ map_of (case b of None \<Rightarrow> [] | Some ds \<Rightarrow> [(q, concat ds)])"
    by (simp add: block_files_def e)
  show ?case
  proof (cases "(p, Some ds) = e")
    case True
    then have "q = p" "b = Some ds" by (simp_all add: e)
    then show ?thesis unfolding step by (simp add: map_add_def)
  next
    case False
    with Cons have "p \<noteq> q" "block_files bs p = Some (concat ds)" by (force simp: e)+
    then show ?thesis by (auto simp: step map_add_def split: option.splits)
  qed
qed simp

lemma block_entries_fst [simp]: "map fst (block_entries bs) = map fst bs"
  by (simp add: block_entries_def case_prod_beta)

lemma extracted_holds_exactly:
  assumes tree: "holds_tree (block_dirs bs) (block_files bs) sub" and plain: "list_all (\<lambda>b. plain_path (fst b)) bs"
    and comp: "compatible (block_entries bs)" and members: "set (map as_record (block_members sha bs)) = set ms"
    and dirs: "block_dirs bs \<subseteq> set (ancestors_of (map rm_path ms))"
  shows "holds_exactly sha sub ms"
proof -
  have wf: "wf_entries sub" using tree by (simp add: holds_tree_def)
  have item: "(p, i) \<in> set (items [] sub) \<longleftrightarrow> parts_of p \<noteq> [] \<and> list_all name_ok (parts_of p) \<and>
      (if p \<in> block_dirs bs then i = IDir 448 else \<exists>d. block_files bs p = Some d \<and> i = IFile 384 1 (Some d))" for p i
    using tree look_names [OF wf, of "parts_of p" i] unfolding items_parts [OF wf] by (auto simp: holds_tree_def)
  have "holds_item sha ms (p, i)" if "(p, i) \<in> set (items [] sub)" for p i
  proof (cases "p \<in> block_dirs bs")
    case True
    then show ?thesis using that dirs by (auto simp: item holds_item_def)
  next
    case False
    with that obtain d where d: "block_files bs p = Some d" "i = IFile 384 1 (Some d)" by (auto simp: item)
    then obtain ds where "(p, Some ds) \<in> set bs" "d = concat ds" using block_files_dom(1) by blast
    then have "as_record \<lparr>m_path = p, m_bytes = length d, m_sha256 = sha d\<rparr> \<in> set ms"
      unfolding members [symmetric] set_map by (intro imageI) (auto simp: block_members_iff)
    then show ?thesis by (simp add: holds_item_def d(2) as_record_def)
  qed
  moreover have "\<exists>e \<in> set (items [] sub). fst e = rm_path w \<and> \<not> (\<exists>m. snd e = IDir m)" if "w \<in> set ms" for w
  proof -
    from that obtain path ds where b: "(path, Some ds) \<in> set bs" "rm_path w = path"
      unfolding members [symmetric] by (auto simp: block_members_iff as_record_def)
    have "block_files bs path = Some (concat ds)"
      using block_files_in [OF _ b(1)] comp by (simp add: compatible_def)
    moreover from this have "path \<notin> block_dirs bs"
      using compatible_kind [OF comp, of path File Directory] block_files_dom(2)
      by (auto simp: block_dirs_def claims_def)
    moreover have "plain_path path" using plain b(1) by (auto simp: list_all_iff)
    ultimately have "(path, IFile 384 1 (Some (concat ds))) \<in> set (items [] sub)"
      using plain_parts by (simp add: item)
    then show ?thesis using b(2) by force
  qed
  ultimately show ?thesis by (auto simp: holds_exactly_def list_all_iff list_ex_iff)
qed

text \<open>The blocks of an accepted archive are compatible, and each directory leads to a member.\<close>

lemma block_entries_set:
  "set (block_entries bs) = set (file_entries (block_members sha bs)) \<union> (\<lambda>d. (d, Directory)) ` set (block_directories bs)"
  by (force simp: block_entries_def file_entries_def block_members_iff block_directories_iff split: option.splits)

lemma distinct_blocks:
  "distinct (map fst (file_entries (block_members sha bs) @ map (\<lambda>d. (d, Directory)) (block_directories bs))) \<Longrightarrow>
    distinct (map fst bs)"
proof -
  have "mset (map fst bs) =
      mset (map fst (file_entries (block_members sha bs) @ map (\<lambda>d. (d, Directory)) (block_directories bs)))"
    by (induction bs) (auto simp: file_entries_def block_members_def block_directories_def split: option.splits)
  then show "distinct (map fst (file_entries (block_members sha bs) @ map (\<lambda>d. (d, Directory)) (block_directories bs))) \<Longrightarrow>
    distinct (map fst bs)"
    by (metis mset_eq_imp_distinct_iff)
qed

lemma appledouble_no_ancestors: "p \<in> set appledouble_paths \<Longrightarrow> ancestor_paths p = []"
proof -
  have "concat (map ancestor_paths appledouble_paths) = []" by code_simp
  then show "p \<in> set appledouble_paths \<Longrightarrow> ancestor_paths p = []" by (simp add: concat_eq_Nil_conv)
qed

lemma accepted_blocks_ok:
  assumes ok: "archive_ok opts p" and members: "block_members sha bs = p_members p" "block_directories bs = p_directories p"
  shows "compatible (block_entries bs)"
    and "block_dirs bs \<subseteq> set (ancestors_of (map m_path (p_members p)))"
proof -
  let ?es = "file_entries (p_members p) @ file_entries (p_metadata p) @ map (\<lambda>d. (d, Directory)) (p_directories p)"
  have comp: "compatible ?es" and full: "\<And>d. (d, Directory) \<in> claims ?es \<Longrightarrow>
      \<exists>q. (q, File) \<in> set ?es \<and> d \<in> set (ancestor_paths q)"
    using ok by (simp_all add: archive_ok_def Let_def)
  have sub: "set (block_entries bs) \<subseteq> set ?es"
    unfolding block_entries_set [of bs sha] members by auto
  have "distinct (map fst (file_entries (p_members p) @ map (\<lambda>d. (d, Directory)) (p_directories p)))"
    using comp by (auto simp: compatible_def)
  then have "distinct (map fst bs)" using distinct_blocks [of sha bs] by (simp only: members)
  then show "compatible (block_entries bs)" using compatible_sub [OF comp sub] by simp
  show "block_dirs bs \<subseteq> set (ancestors_of (map m_path (p_members p)))"
  proof
    fix d assume "d \<in> block_dirs bs"
    then have "(d, Directory) \<in> claims ?es" using claims_mono [OF sub] by (auto simp: block_dirs_def)
    then obtain q where q: "(q, File) \<in> set ?es" "d \<in> set (ancestor_paths q)" using full by blast
    have "q \<notin> m_path ` set (p_metadata p)"
      using ok q(2) appledouble_no_ancestors by (fastforce simp: archive_ok_def list_all_iff metadata_ok_def)
    with q(1) have "q \<in> m_path ` set (p_members p)" by (auto simp: file_entries_def)
    with q(2) show "d \<in> set (ancestors_of (map m_path (p_members p)))" by (auto simp: ancestors_of_def)
  qed
qed

lemma block_bytes_members: "block_bytes bs = sum_list (map m_bytes (block_members sha bs))"
  by (induction bs) (auto simp: block_bytes_def block_members_def split: option.splits)


lemma journal_opts_extract:
  "journal_opts (extract_opts sha lim rec staging) = journal_opts (record_opts sha lim rec)"
  by (simp add: journal_opts_def extract_opts_def record_opts_def scan_opts_def)

text \<open>The extraction of the very bytes the inspection parsed.\<close>

lemma extraction_succeeds:
  assumes rec: "accepted_record https an r = Inr rec" and fresh: "staging \<notin> fst ` set es"
    and insp: "inspect_with sha lim an (Some rec) first_file second_file = Inr insp"
    and room: "sum_list (map m_bytes (is_members insp)) \<le> room"
  shows "\<exists>scan sub. scan_archive (extract_opts sha lim rec staging)
      \<lparr>ex_root = staged es staging [], ex_made = [[]], ex_room = room\<rparr> second_file = Inr scan \<and>
    JStr (ms_sha256 (sc_raw scan)) = ar_sha256 rec \<and> ex_root (sc_world scan) = staged es staging sub \<and>
    wf_entries sub \<and> holds_exactly sha sub (ar_members rec)"
proof -
  let ?o = "record_opts sha lim rec" and ?x = "extract_opts sha lim rec staging"
  let ?w = "\<lparr>ex_root = staged es staging [], ex_made = [[]], ex_room = room\<rparr>"
  have shas: "o_sha256 ?o = sha" "o_sha256 ?x = sha" by (simp_all add: record_opts_def scan_opts_def extract_opts_def)
  from insp obtain rd rd' n p where files: "second_file = Regular rd'" "rd_end rd' = ReadDone" "first_file = Regular rd"
    and raw: "ar_sha256 rec = JStr (sha (rd_raw rd))" "sha (rd_raw rd') = sha (rd_raw rd)"
    and fed: "feed_all ?o (0, new_parser ()) (rd_chunks rd') = Some (Inr (n, p))" and fin: "finish p = Inr ()"
    and errors: "member_set_errors (p_members p) (ar_members rec) an = []" and "is_members insp = p_members p"
    unfolding inspect_with_Some by auto
  have members: "set (map as_record (p_members p)) = set (ar_members rec)"
    using errors by (simp add: member_set_errors_Nil [OF accepted_members(2) [OF rec]])
  have ok: "archive_ok ?o p" using accepted_archive_ok [OF fed] fin by simp
  from accepted_blocks [OF fed fin] obtain bs where bs: "block_members sha bs = p_members p"
    "block_directories bs = p_directories p" "list_all (\<lambda>b. plain_path (fst b)) bs"
    "feed_all (journal_opts ?o) (0, new_parser []) (rd_chunks rd') = Some (Inr (n, with_world (journal bs) p))"
    unfolding shas by blast
  note blocks = accepted_blocks_ok [OF ok bs(1,2)]
  have "extracted es staging {} Map.empty room ?w"
    using fresh holds_tree_empty by (auto simp: extracted_def)
  then obtain w' where w': "foldE (perform ?x) ?w (journal bs) = Inr w'"
    "extracted es staging (block_dirs bs) (block_files bs) (room - block_bytes bs) w'"
    using journal_extracted [OF _ blocks(1) bs(3), of es staging room ?w sha lim rec] room
    by (auto simp: block_bytes_members [of _ sha] bs(1) \<open>is_members insp = p_members p\<close>)
  then obtain sub where sub: "ex_root w' = staged es staging sub" "holds_tree (block_dirs bs) (block_files bs) sub"
    by (auto simp: extracted_def)
  have paths: "map m_path (p_members p) = map (rm_path \<circ> as_record) (p_members p)" by (simp add: as_record_def)
  have "set (map m_path (p_members p)) = set (map rm_path (ar_members rec))"
    unfolding paths map_map [symmetric] set_map members [symmetric] by (simp add: image_comp)
  then have "set (ancestors_of (map m_path (p_members p))) = set (ancestors_of (map rm_path (ar_members rec)))"
    unfolding ancestors_of_def set_concat set_map by simp
  then have exact: "holds_exactly sha sub (ar_members rec)"
    using extracted_holds_exactly [OF sub(2) bs(3) blocks(1), of sha "ar_members rec"] members blocks(2) bs(1) by simp
  have "feed_all ?x (0, with_world ?w (new_parser ([] :: sink_op list))) (rd_chunks rd') =
      Some (Inr (n, with_world w' (with_world (journal bs) p)))"
    unfolding feed_all_journal [OF new_parser_wf] journal_opts_extract
    using bs(4) w'(1) by (auto simp: new_parser_def)
  then have "scan_archive ?x ?w second_file = Inr \<lparr>sc_raw = \<lparr>ms_sha256 = sha (rd_raw rd'), ms_bytes = length (rd_raw rd')\<rparr>,
      sc_members = p_members p, sc_directories = p_directories p, sc_metadata = p_metadata p,
      sc_provenance = p_provenance p, sc_world = w'\<rparr>"
    using files fin by (simp add: scan_archive_def scan_reading_Inr shas)
  moreover have "wf_entries sub" using sub(2) by (simp add: holds_tree_def)
  ultimately show ?thesis using sub(1) exact raw by (intro exI conjI) (assumption | simp)+
qed

lemma extract_and_place_succeeds:
  assumes mk: "fresh_names mkdtemp" and rec: "accepted_record https an r = Inr rec"
    and none: "map_of es (an_circuit_version an) = None"
    and insp: "inspect_with sha lim an (Some rec) first_file second_file = Inr insp"
    and room: "sum_list (map m_bytes (is_members insp)) \<le> room"
  shows "\<exists>ms es'. extract_and_place sha lim rec an quiet_hooks mkdtemp room second_file es = (Inr ms, es')"
proof -
  let ?s = "mkdtemp (''.'' @ an_circuit_version an @ staging_prefix) es"
  have fresh: "?s \<notin> fst ` set es" using mk by (simp add: fresh_names_def)
  have other: "?s \<noteq> an_circuit_version an" by (rule staging_not_version [OF mk])
  let ?w = "\<lparr>ex_root = staged es ?s [], ex_made = [[]], ex_room = room\<rparr>"
  from extraction_succeeds [OF rec fresh insp room] obtain scan sub where
    scan: "scan_archive (extract_opts sha lim rec ?s) ?w second_file = Inr scan"
    and sub: "JStr (ms_sha256 (sc_raw scan)) = ar_sha256 rec" "ex_root (sc_world scan) = staged es ?s sub"
      "wf_entries sub" "holds_exactly sha sub (ar_members rec)" by blast
  obtain ms where ms: "verify_tree sha sub rec an INSTALL_FAILED = Inr ms"
    using verify_tree_exact(1) [OF rec sub(3), of sha INSTALL_FAILED] sub(4) by blast
  have "strict_eq (JStr (ms_sha256 (sc_raw scan))) (ar_sha256 rec)" unfolding strict_eq_JStr by (rule sub(1) [symmetric])
  then have "place_staged sha rec an quiet_hooks ?s scan =
      (Inr ms, es @ [(an_circuit_version an, NDir 365 (chmod_entries 292 365 sub))])"
    unfolding place_staged_eq [OF fresh sub(2) other none] by (simp add: ms)
  moreover have "extract_and_place sha lim rec an quiet_hooks mkdtemp room second_file es = place_staged sha rec an quiet_hooks ?s scan"
    unfolding extract_and_place_def Let_def using scan
    by (simp only: quiet_hooks_def hooks.select_convs staged_def sum.case)
  ultimately show ?thesis by simp
qed

lemma verify_installed_iff:
  assumes "accepted_record https an r = Inr rec" and "wf_entries es"
  shows "(\<exists>ms. verify_installed_circuit sha True (Some (NDir m es)) rec an = Inr ms) \<longleftrightarrow>
    (\<exists>m' dir. es = [(an_circuit_version an, NDir m' dir)] \<and> holds_exactly sha dir (ar_members rec))" (is "?l \<longleftrightarrow> ?r")
proof
  assume ?l
  then obtain m' dir where v: "filter (\<lambda>n. n \<noteq> an_circuit_version an) (map fst es) = []"
    "map_of es (an_circuit_version an) = Some (NDir m' dir)"
    "\<exists>ms. verify_tree sha dir rec an CIRCUIT_INTEGRITY_FAILED = Inr ms"
    by (auto simp: verify_installed_circuit_def split: if_splits option.splits node.splits)
  have "es = [(an_circuit_version an, NDir m' dir)]"
  proof (cases es)
    case (Cons e es')
    have "distinct (map fst es)" using assms(2) by (simp add: wf_entries_iff)
    moreover have "\<forall>e \<in> set es. fst e = an_circuit_version an" using v(1) by (simp add: filter_empty_conv)
    ultimately have "es' = []" by (cases es') (auto simp: Cons)
    with v(2) show ?thesis by (cases e) (auto simp: Cons split: if_splits)
  qed (use v in simp)
  moreover have "wf_entries dir" by (rule wf_entries_sub [OF assms(2) v(2)])
  ultimately show ?r using verify_tree_exact(1) [OF assms(1)] v(3) by blast
next
  assume ?r
  then obtain m' dir where dir: "es = [(an_circuit_version an, NDir m' dir)]" "holds_exactly sha dir (ar_members rec)" by blast
  then have "wf_entries dir" using assms(2) by (simp add: wf_entries_Cons)
  then obtain ms where "verify_tree sha dir rec an CIRCUIT_INTEGRITY_FAILED = Inr ms"
    using verify_tree_exact(1) [OF assms(1)] dir(2) by blast
  then show ?l by (simp add: verify_installed_circuit_def dir(1))
qed

section \<open>Properties\<close>

lemma recorded_archive_is_installed:
  assumes mk: "fresh_names mkdtemp" and none: "map_of es (an_circuit_version an) = None"
    and insp: "inspect_archive sha https lim an (Some r) first_file second_file = Inr insp"
    and room: "sum_list (map m_bytes (is_members insp)) \<le> room"
  shows "\<exists>ir rec es'. install_circuit_archive sha https lim an quiet_hooks mkdtemp room r
      (first_file, second_file, second_file) True (Some (NDir m es)) = (Inr ir, Some (NDir m es')) \<and>
    accepted_record https an r = Inr rec \<and> publishes sha rec (an_circuit_version an) es es' \<and>
    set (map as_record (ir_members ir)) = set (ar_members rec)"
proof -
  obtain rec where rec: "accepted_record https an r = Inr rec"
    and w: "inspect_with sha lim an (Some rec) first_file second_file = Inr insp"
    using insp unfolding inspect_archive_Some by blast
  from extract_and_place_succeeds [OF mk rec none w room] obtain ms es' where
    placed: "extract_and_place sha lim rec an quiet_hooks mkdtemp room second_file es = (Inr ms, es')" by blast
  from extract_and_place_quiet [OF mk rec none placed]
  have "publishes sha rec (an_circuit_version an) es es'" "set (map as_record ms) = set (ar_members rec)" by simp_all
  moreover have "install_circuit_archive sha https lim an quiet_hooks mkdtemp room r
      (first_file, second_file, second_file) True (Some (NDir m es)) =
      (Inr \<lparr>ir_archive = is_archive insp, ir_members = ms\<rparr>, Some (NDir m es'))"
    using rec none insp placed by (simp add: install_circuit_archive_def quiet_hooks_def)
  ultimately show ?thesis using rec by simp
qed

text \<open>The parser drives any sink through its journal: reading an archive with a sink succeeds exactly when the
  journalling parser reads it and the calls it wrote down can be performed on the sink one after the other, and then
  the parsers agree in everything but the sink, whose state is the one those calls leave.\<close>

theorem sink_refines_journal:
  "feed_all opts (0, new_parser w) cs = Some (Inr (n, p)) \<longleftrightarrow>
    (\<exists>ops. feed_all (journal_opts opts) (0, new_parser []) cs = Some (Inr (n, with_world ops p)) \<and>
      foldE (perform opts) w ops = Inr (p_world p))"
proof -
  have j: "p_world (new_parser ([] :: sink_op list)) = []" by (simp add: new_parser_def)
  have w: "with_world v (with_world u q) = with_world v q" for u :: 'x and v :: 'y and q :: "'z parser"
    by (simp add: with_world_def)
  have "feed_all opts (0, with_world w (new_parser ([] :: sink_op list))) cs = Some (Inr (n, p)) \<longleftrightarrow>
      (\<exists>p' ops v'. feed_all (journal_opts opts) (0, new_parser []) cs = Some (Inr (n, p')) \<and> p_world p' = ops \<and>
        foldE (perform opts) w ops = Inr v' \<and> p = with_world v' p')"
    unfolding feed_all_journal [OF new_parser_wf] j by simp
  also have "\<dots> \<longleftrightarrow> (\<exists>ops. feed_all (journal_opts opts) (0, new_parser []) cs = Some (Inr (n, with_world ops p)) \<and>
      foldE (perform opts) w ops = Inr (p_world p))"
    by (metis with_world_fields(17) with_world_self w)
  finally show ?thesis by simp
qed

text \<open>C19: An installation without interference is all or nothing: refused at any point, in the middle of the extraction
  too, it leaves the destination as it was, because all it had made by then lay below the staging directory; done, it has added one entry to it, the circuit version, a tree of read-only files and directories that holds exactly the
  record's members and was not there before.\<close>

theorem install_atomic:
  assumes "fresh_names mkdtemp"
    and "install_circuit_archive sha https lim an quiet_hooks mkdtemp room r readings absolute (Some (NDir m es)) = (res, root')"
  shows "case res of
      Inl e \<Rightarrow> root' = Some (NDir m es)
    | Inr ir \<Rightarrow> (\<exists>rec es'. accepted_record https an r = Inr rec \<and> root' = Some (NDir m es') \<and>
        publishes sha rec (an_circuit_version an) es es' \<and>
        set (map as_record (ir_members ir)) = set (ar_members rec))"
  by (rule install_quiet [OF assms])

text \<open>C20: An archive of record is installed: when the inspection accepts it, the file is still the same when it is
  extracted, the version is not there yet and the disk has room for the members, the installation succeeds.\<close>

theorem recorded_archive_installs:
  assumes "fresh_names mkdtemp" and "map_of es (an_circuit_version an) = None"
    and "inspect_archive sha https lim an (Some r) first_file second_file = Inr insp"
    and "sum_list (map m_bytes (is_members insp)) \<le> room"
  shows "\<exists>ir rec es'. install_circuit_archive sha https lim an quiet_hooks mkdtemp room r
      (first_file, second_file, second_file) True (Some (NDir m es)) = (Inr ir, Some (NDir m es')) \<and>
    accepted_record https an r = Inr rec \<and> publishes sha rec (an_circuit_version an) es es' \<and>
    set (map as_record (ir_members ir)) = set (ar_members rec)"
  by (rule recorded_archive_is_installed [OF assms])

text \<open>What was installed into an empty root is what verifyInstalledCircuit accepts: it answers the members the
  installation answered, up to their order.\<close>

theorem installed_circuit_verifies:
  assumes "fresh_names mkdtemp"
    and "install_circuit_archive sha https lim an quiet_hooks mkdtemp room r readings absolute (Some (NDir m [])) = (Inr ir, root')"
  shows "\<exists>rec ms. accepted_record https an r = Inr rec \<and> verify_installed_circuit sha True root' rec an = Inr ms \<and>
    set (map as_record ms) = set (map as_record (ir_members ir))"
proof -
  from install_quiet [OF assms] obtain rec es' where rec: "accepted_record https an r = Inr rec"
    "root' = Some (NDir m es')" "publishes sha rec (an_circuit_version an) [] es'"
    "set (map as_record (ir_members ir)) = set (ar_members rec)" by auto
  with published_verifies [OF rec(1,3)] show ?thesis by auto
qed

text \<open>C22: verifyInstalledCircuit accepts a root exactly when it holds the circuit version and nothing else, and that tree is
  exactly the record's members: every file one of them with its length and digest and no second link, every directory on
  the way to one, no link or special file, none missing.\<close>

theorem verified_installation_exact:
  assumes "accepted_record https an r = Inr rec" and "wf_entries es"
  shows "(\<exists>ms. verify_installed_circuit sha True (Some (NDir m es)) rec an = Inr ms) \<longleftrightarrow>
    (\<exists>m' dir. es = [(an_circuit_version an, NDir m' dir)] \<and> holds_exactly sha dir (ar_members rec))"
  by (rule verify_installed_iff [OF assms])

text \<open>C21: Interference is caught: whatever is put into the staging directory before the extraction, and whatever happens
  to the destination meanwhile and before the rename as long as the staged tree itself is left alone, an installation that
  succeeds has put in place a read-only tree of exactly the record's members.\<close>

theorem interference_caught:
  assumes "fresh_names mkdtemp" and "wf_entries (after_staging hk [])"
    and "\<And>x s. starts_with s (''.'' @ an_circuit_version an @ staging_prefix) \<Longrightarrow> map_of (before_rename hk x) s = map_of x s"
    and "install_circuit_archive sha https lim an hk mkdtemp room r readings absolute root = (Inr ir, root')"
  shows "\<exists>rec m es' dir. accepted_record https an r = Inr rec \<and> root' = Some (NDir m es') \<and>
    map_of es' (an_circuit_version an) = Some (NDir 365 dir) \<and> wf_entries dir \<and>
    holds_exactly sha dir (ar_members rec) \<and> read_only dir"
proof -
  from assms(4) obtain rec m es q es' where rec: "accepted_record https an r = Inr rec" and root: "root' = Some (NDir m es')"
    and run: "extract_and_place sha lim rec an hk mkdtemp room (snd (snd readings)) (after_inspection hk es) = (Inr q, es')"
    unfolding install_circuit_archive_def
    by (auto split: sum.splits option.splits node.splits if_splits prod.splits elim!: map_sum_Inr)
  let ?es = "after_inspection hk es"
  let ?s = "mkdtemp (''.'' @ an_circuit_version an @ staging_prefix) ?es"
  have fresh: "?s \<notin> fst ` set ?es" and starts: "starts_with ?s (''.'' @ an_circuit_version an @ staging_prefix)"
    using assms(1) unfolding fresh_names_def by blast+
  from run obtain scan where scan: "scan_archive (extract_opts sha lim rec ?s)
      \<lparr>ex_root = staged ?es ?s (after_staging hk []), ex_made = [[]], ex_room = room\<rparr> (snd (snd readings)) = Inr scan"
    and placed: "place_staged sha rec an hk ?s scan = (Inr q, es')"
    unfolding extract_and_place_def Let_def staged_def by (auto split: sum.splits)
  from place_staged_any [OF extracted_stays [OF fresh assms(2) scan] rec assms(3) [OF starts] placed]
  show ?thesis using rec root by blast
qed

section \<open>The sample archive, installed\<close>

definition sample_mkdtemp :: "string \<Rightarrow> entries \<Rightarrow> string" where
  "sample_mkdtemp prefix es = prefix @ replicate (Suc (sum_list (map (length \<circ> fst) es))) CHR ''x''"

lemma sample_mkdtemp_fresh: "fresh_names sample_mkdtemp"
proof -
  have "sample_mkdtemp prefix es \<noteq> n" if "n \<in> fst ` set es" for prefix es n
  proof -
    have "length n \<le> sum_list (map (length \<circ> fst) es)" using that
      by (intro member_le_sum_list) (auto simp: image_iff intro!: bexI)
    then have "length n < length (sample_mkdtemp prefix es)" by (simp add: sample_mkdtemp_def)
    then show ?thesis by auto
  qed
  then show ?thesis by (auto simp: fresh_names_def sample_mkdtemp_def starts_with_iff)
qed

lemma sample_inspects:
  obtains second insp where
    "inspect_archive sample_sha (\<lambda>_. True) default_limits sample_anchor (Some sample_accepted)
       (Regular sample_first) (Regular second) = Inr insp"
    "sum_list (map m_bytes (is_members insp)) \<le> 1584"
proof -
  obtain b where b: "tar_bytes (map fst sample_files) True [] = Some b" using sample_files_bytes by blast
  note facts = sample_inspection_facts [OF b]
  have "sum_list (map m_bytes (written_files sample_sha sample_files)) = 1584"
    by (simp add: sample_files_def sample_file_def written_files_def required_members_def)
  with archive_of_record_passes [OF sample_accepted_ok(1,2) facts(1-3) sample_files_written facts(4) sample_files_tree
      sample_files_limits b facts(5-7)] that show thesis by (metis order_refl)
qed

lemma sample_installs:
  obtains readings ir rec es' where
    "install_circuit_archive sample_sha (\<lambda>_. True) default_limits sample_anchor quiet_hooks sample_mkdtemp 1584 sample_accepted
       readings True (Some (NDir 493 [])) = (Inr ir, Some (NDir 493 es'))"
    "accepted_record (\<lambda>_. True) sample_anchor sample_accepted = Inr rec"
    "publishes sample_sha rec (an_circuit_version sample_anchor) [] es'"
    "set (map as_record (ir_members ir)) = set (ar_members rec)"
proof -
  obtain second insp where i: "inspect_archive sample_sha (\<lambda>_. True) default_limits sample_anchor (Some sample_accepted)
       (Regular sample_first) (Regular second) = Inr insp" "sum_list (map m_bytes (is_members insp)) \<le> 1584"
    by (rule sample_inspects)
  from recorded_archive_is_installed [OF sample_mkdtemp_fresh _ i, of "[]" 493] that show thesis by auto
qed

lemma sample_refused:
  obtains readings e root' where
    "install_circuit_archive sample_sha (\<lambda>_. True) default_limits sample_anchor quiet_hooks sample_mkdtemp 1584 sample_accepted
       readings True (Some (NDir 493 [])) = (Inl e, root')"
    "\<exists>insp. inspect_archive sample_sha (\<lambda>_. True) default_limits sample_anchor (Some sample_accepted)
       (fst readings) (fst (snd readings)) = Inr insp"
proof -
  obtain second insp where i: "inspect_archive sample_sha (\<lambda>_. True) default_limits sample_anchor (Some sample_accepted)
       (Regular sample_first) (Regular second) = Inr insp" by (rule sample_inspects)
  then obtain rec where rec: "accepted_record (\<lambda>_. True) sample_anchor sample_accepted = Inr rec"
    unfolding inspect_archive_Some by blast
  have "\<exists>e es'. extract_and_place sample_sha default_limits rec sample_anchor quiet_hooks sample_mkdtemp 1584 CannotOpen [] = (Inl e, es')"
    by (simp add: extract_and_place_def scan_archive_def Let_def)
  then obtain e es' where
    x: "extract_and_place sample_sha default_limits rec sample_anchor quiet_hooks sample_mkdtemp 1584 CannotOpen [] = (Inl e, es')"
    by blast
  have "after_inspection quiet_hooks [] = []" by (simp add: quiet_hooks_def)
  then have "install_circuit_archive sample_sha (\<lambda>_. True) default_limits sample_anchor quiet_hooks sample_mkdtemp 1584 sample_accepted
      (Regular sample_first, Regular second, CannotOpen) True (Some (NDir 493 [])) = (Inl e, Some (NDir 493 es'))"
    by (simp add: install_circuit_archive_def rec i x)
  then show thesis by (rule that) (use i in simp)
qed

theorem install_atomic_witness:
  "(\<exists>readings ir rec es'. install_circuit_archive sample_sha (\<lambda>_. True) default_limits sample_anchor quiet_hooks sample_mkdtemp 1584
      sample_accepted readings True (Some (NDir 493 [])) = (Inr ir, Some (NDir 493 es')) \<and>
    accepted_record (\<lambda>_. True) sample_anchor sample_accepted = Inr rec \<and>
    publishes sample_sha rec (an_circuit_version sample_anchor) [] es') \<and>
   (\<exists>readings e insp. install_circuit_archive sample_sha (\<lambda>_. True) default_limits sample_anchor quiet_hooks sample_mkdtemp 1584
      sample_accepted readings True (Some (NDir 493 [])) = (Inl e, Some (NDir 493 [])) \<and>
    inspect_archive sample_sha (\<lambda>_. True) default_limits sample_anchor (Some sample_accepted)
      (fst readings) (fst (snd readings)) = Inr insp)"
proof
  obtain readings ir es' where run: "install_circuit_archive sample_sha (\<lambda>_. True) default_limits sample_anchor quiet_hooks
      sample_mkdtemp 1584 sample_accepted readings True (Some (NDir 493 [])) = (Inr ir, Some (NDir 493 es'))"
    by (rule sample_installs)
  from install_atomic [OF sample_mkdtemp_fresh run]
  show "\<exists>readings ir rec es'. install_circuit_archive sample_sha (\<lambda>_. True) default_limits sample_anchor quiet_hooks sample_mkdtemp
      1584 sample_accepted readings True (Some (NDir 493 [])) = (Inr ir, Some (NDir 493 es')) \<and>
    accepted_record (\<lambda>_. True) sample_anchor sample_accepted = Inr rec \<and>
    publishes sample_sha rec (an_circuit_version sample_anchor) [] es'" using run unfolding sum.case by blast
next
  obtain readings e root' where run: "install_circuit_archive sample_sha (\<lambda>_. True) default_limits sample_anchor quiet_hooks
      sample_mkdtemp 1584 sample_accepted readings True (Some (NDir 493 [])) = (Inl e, root')"
    and i: "\<exists>insp. inspect_archive sample_sha (\<lambda>_. True) default_limits sample_anchor (Some sample_accepted)
      (fst readings) (fst (snd readings)) = Inr insp" by (rule sample_refused)
  from install_atomic [OF sample_mkdtemp_fresh run] have "root' = Some (NDir 493 [])" by simp
  then show "\<exists>readings e insp. install_circuit_archive sample_sha (\<lambda>_. True) default_limits sample_anchor quiet_hooks sample_mkdtemp
      1584 sample_accepted readings True (Some (NDir 493 [])) = (Inl e, Some (NDir 493 [])) \<and>
    inspect_archive sample_sha (\<lambda>_. True) default_limits sample_anchor (Some sample_accepted)
      (fst readings) (fst (snd readings)) = Inr insp" using run i by blast
qed

theorem recorded_archive_installs_witness:
  "\<exists>readings ir es'. install_circuit_archive sample_sha (\<lambda>_. True) default_limits sample_anchor quiet_hooks sample_mkdtemp 1584
      sample_accepted readings True (Some (NDir 493 [])) = (Inr ir, Some (NDir 493 es'))"
proof -
  obtain second insp where i: "inspect_archive sample_sha (\<lambda>_. True) default_limits sample_anchor (Some sample_accepted)
       (Regular sample_first) (Regular second) = Inr insp" "sum_list (map m_bytes (is_members insp)) \<le> 1584"
    by (rule sample_inspects)
  have "map_of ([] :: entries) (an_circuit_version sample_anchor) = None" by simp
  from recorded_archive_installs [OF sample_mkdtemp_fresh this i, of 493] show ?thesis by blast
qed

theorem installed_circuit_verifies_witness:
  "\<exists>readings ir root' rec ms. install_circuit_archive sample_sha (\<lambda>_. True) default_limits sample_anchor quiet_hooks sample_mkdtemp
      1584 sample_accepted readings True (Some (NDir 493 [])) = (Inr ir, root') \<and>
    verify_installed_circuit sample_sha True root' rec sample_anchor = Inr ms"
proof -
  obtain readings ir es' where run: "install_circuit_archive sample_sha (\<lambda>_. True) default_limits sample_anchor quiet_hooks
      sample_mkdtemp 1584 sample_accepted readings True (Some (NDir 493 [])) = (Inr ir, Some (NDir 493 es'))"
    by (rule sample_installs)
  from installed_circuit_verifies [OF sample_mkdtemp_fresh run] show ?thesis using run by blast
qed

theorem verified_installation_exact_witness:
  "\<not> (\<exists>ms. verify_installed_circuit sample_sha True
      (Some (NDir 493 [(an_circuit_version sample_anchor, NDir 365 []), (''other'', NLink)]))
      (typed_record sample_accepted) sample_anchor = Inr ms)"
proof -
  have "an_circuit_version sample_anchor \<noteq> ''other''" "wf_entries [(an_circuit_version sample_anchor, NDir 365 []), (''other'', NLink)]"
    by code_simp+
  then show ?thesis by (simp add: verified_installation_exact [OF sample_accepted_ok(1)])
qed

theorem interference_caught_witness:
  "\<exists>readings ir rec m es' dir. install_circuit_archive sample_sha (\<lambda>_. True) default_limits sample_anchor quiet_hooks sample_mkdtemp
      1584 sample_accepted readings True (Some (NDir 493 [])) = (Inr ir, Some (NDir m es')) \<and>
    accepted_record (\<lambda>_. True) sample_anchor sample_accepted = Inr rec \<and>
    map_of es' (an_circuit_version sample_anchor) = Some (NDir 365 dir) \<and>
    holds_exactly sample_sha dir (ar_members rec) \<and> read_only dir"
proof -
  obtain readings ir es' where run: "install_circuit_archive sample_sha (\<lambda>_. True) default_limits sample_anchor quiet_hooks
      sample_mkdtemp 1584 sample_accepted readings True (Some (NDir 493 [])) = (Inr ir, Some (NDir 493 es'))"
    by (rule sample_installs)
  have "wf_entries (after_staging quiet_hooks [])" "\<And>x s. map_of (before_rename quiet_hooks x) s = map_of x s"
    by (simp_all add: quiet_hooks_def)
  from interference_caught [OF sample_mkdtemp_fresh this run] show ?thesis using run by blast
qed

end
