(* ===== verification/Prove_Laws.thy ===== *)
theory Prove_Laws
  imports Prove_Gate Install_Succeeds
begin

text \<open>
  What the proving gate guarantees: the environment the host gets, the paths the lock is held on, what holds
  whenever the host is run, and what a run that answers a proof has shown.
\<close>

section \<open>The environment\<close>

text \<open>A variable of the caller's that selects nothing the gate has not frozen.\<close>

definition allowed :: "platform \<Rightarrow> string \<Rightarrow> string \<Rightarrow> string \<times> string \<Rightarrow> bool" where
  "allowed p root ref kv \<longleftrightarrow>
     (let K = upper (fst kv); v = snd kv
      in (K = ''SP1_PROVER'' \<longrightarrow> v = LOCAL_PROVER) \<and>
         (K = ''SP1_GROTH16_CIRCUIT_PATH'' \<longrightarrow> v = root) \<and>
         (K = ''SP1_GNARK_IMAGE'' \<longrightarrow> v = ref \<and> image_ref_error ref = None) \<and>
         (K = ''DOCKER_CONTEXT'' \<longrightarrow> v = DOCKER_CONTEXT_FROZEN) \<and>
         (K = ''DOCKER_HOST'' \<longrightarrow> rx_match (local_docker_host p) v) \<and>
         K \<notin> fst ` set REFUSED_ENV \<and> \<not> starts_with K REFUSED_ENV_PREFIX)"

lemma unless_None [simp]: "(if ok then None else Some why) = None \<longleftrightarrow> ok"
  by simp

lemma env_refusal_None: "env_refusal p root ref k v = None \<longleftrightarrow> allowed p root ref (k, v)"
proof -
  consider "upper k = ''SP1_PROVER''" | "upper k = ''SP1_GROTH16_CIRCUIT_PATH''" | "upper k = ''SP1_GNARK_IMAGE''"
    | "upper k = ''DOCKER_CONTEXT''" | "upper k = ''DOCKER_HOST''"
    | "upper k \<noteq> ''SP1_PROVER''" "upper k \<noteq> ''SP1_GROTH16_CIRCUIT_PATH''" "upper k \<noteq> ''SP1_GNARK_IMAGE''"
      "upper k \<noteq> ''DOCKER_CONTEXT''" "upper k \<noteq> ''DOCKER_HOST''" by blast
  then show ?thesis
  proof cases
    case 6
    then show ?thesis
      by (simp add: env_refusal_def allowed_def Let_def map_of_eq_None_iff [symmetric] split: option.split)
  next
    case 3
    then show ?thesis
      by (auto simp: env_refusal_def allowed_def REFUSED_ENV_def REFUSED_ENV_PREFIX_def starts_with_def split: option.split)
  qed (simp_all add: env_refusal_def allowed_def REFUSED_ENV_def REFUSED_ENV_PREFIX_def starts_with_def)
qed

text \<open>The variables that have a value.\<close>

definition variables :: "(string \<times> string option) list \<Rightarrow> (string \<times> string) list" where
  "variables caller = concat (map (\<lambda>(k, x). case x of None \<Rightarrow> [] | Some v \<Rightarrow> [(k, v)]) caller)"

definition passed :: "platform \<Rightarrow> (string \<times> string) list \<Rightarrow> (string \<times> string) list" where
  "passed p = filter (\<lambda>(k, v). pass_name p k \<in> set PASS_THROUGH_ENV)"

definition not_passed :: "platform \<Rightarrow> (string \<times> string) list \<Rightarrow> string list" where
  "not_passed p kvs =
     map fst (filter (\<lambda>(k, v). pass_name p k \<notin> set PASS_THROUGH_ENV \<and> upper k \<notin> set FROZEN_ENV) kvs)"

lemma add_variables_Inr:
  "foldE (add_variable p root ref) e caller = Inr e' \<longleftrightarrow>
    list_all (allowed p root ref) (variables caller) \<and>
    e' = e\<lparr>pe_env := pe_env e ++ map_of (rev (passed p (variables caller))),
           pe_dropped := pe_dropped e @ not_passed p (variables caller)\<rparr>"
proof (induction caller arbitrary: e)
  case Nil
  then show ?case by (auto simp: variables_def passed_def not_passed_def)
next
  case (Cons kx caller)
  obtain k x where kx: "kx = (k, x)" by fastforce
  show ?case
  proof (cases x)
    case None
    then show ?thesis using Cons.IH by (simp add: kx add_variable_def variables_def)
  next
    case (Some v)
    have vars: "variables ((k, Some v) # caller) = (k, v) # variables caller" by (simp add: variables_def)
    show ?thesis
    proof (cases "env_refusal p root ref k v")
      case None
      then have ok: "allowed p root ref (k, v)" by (simp add: env_refusal_None)
      have step: "add_variable p root ref e (k, Some v) = Inr
          (if pass_name p k \<in> set PASS_THROUGH_ENV then e\<lparr>pe_env := (pe_env e)(k \<mapsto> v)\<rparr>
           else if upper k \<in> set FROZEN_ENV then e else e\<lparr>pe_dropped := pe_dropped e @ [k]\<rparr>)"
        by (simp add: add_variable_def None)
      show ?thesis
        by (simp add: vars kx \<open>x = Some v\<close> step Cons.IH ok passed_def not_passed_def del: fun_upd_apply)
    next
      case (Some why)
      then have "\<not> allowed p root ref (k, v)" by (simp flip: env_refusal_None)
      then show ?thesis by (simp add: vars kx \<open>x = Some v\<close> add_variable_def Some)
    qed
  qed
qed

definition frozen_value :: "string \<Rightarrow> string \<Rightarrow> string \<Rightarrow> string option" where
  "frozen_value root ref n =
     map_of [(''SP1_PROVER'', LOCAL_PROVER), (''SP1_GROTH16_CIRCUIT_PATH'', root), (''SP1_GNARK_IMAGE'', ref),
             (''DOCKER_CONTEXT'', DOCKER_CONTEXT_FROZEN)] n"

lemma distinct_variables: "distinct (map fst caller) \<Longrightarrow> distinct (map fst (variables caller))"
proof (induction caller)
  case (Cons kx caller)
  have "k \<in> fst ` set caller" if "(k, v) \<in> set (variables caller)" for k v
    using that by (force simp: variables_def split: option.splits)
  then show ?case using Cons by (cases kx) (auto simp: variables_def split: option.splits)
qed (simp add: variables_def)

lemma build_prover_env_Inr:
  assumes "distinct (map fst caller)"
  shows "build_prover_env caller root ref p = Inr e \<longleftrightarrow>
    list_all (allowed p root ref) (variables caller) \<and>
    pe_env e = map_of (passed p (variables caller)) ++ frozen_value root ref \<and>
    pe_dropped e = sort_names (not_passed p (variables caller))"
proof -
  have "distinct (map fst (passed p (variables caller)))"
    using distinct_variables [OF assms] by (simp add: passed_def distinct_map_filter)
  then have "map_of (rev (passed p (variables caller))) = map_of (passed p (variables caller))"
    by (simp add: map_of_inject_set rev_map [symmetric])
  moreover have "m(''SP1_PROVER'' \<mapsto> LOCAL_PROVER, ''SP1_GROTH16_CIRCUIT_PATH'' \<mapsto> root,
      ''SP1_GNARK_IMAGE'' \<mapsto> ref, ''DOCKER_CONTEXT'' \<mapsto> DOCKER_CONTEXT_FROZEN) = m ++ frozen_value root ref" for m
    by (rule ext) (simp add: frozen_value_def map_add_def)
  ultimately show ?thesis
    unfolding build_prover_env_def
    by (cases e) (auto simp: bindE_eq_Inr add_variables_Inr)
qed

section \<open>Paths\<close>

definition root_path :: "string list \<Rightarrow> string" where
  "root_path cs = ''/'' @ join_with ''/'' cs"

lemma resolve_from_names:
  "n \<in> set (resolve_from base ps) \<Longrightarrow> n \<in> set base \<or> n \<in> set ps \<and> n \<noteq> [] \<and> n \<noteq> ''.'' \<and> n \<noteq> ''..''"
  by (induction base ps rule: resolve_from.induct) (fastforce split: if_splits dest: in_set_butlastD)+

text \<open>A root the gate accepts on a POSIX host is its own components below the root directory.\<close>

lemma circuit_root_parts:
  assumes "circuit_root_error win_resolve root Posix = None"
  obtains cs where "root = root_path cs" and "list_all name_ok cs" and "''.'' \<notin> set cs" and "''..'' \<notin> set cs"
proof -
  let ?cs = "resolve_from [] (split_on CHR ''/'' root)"
  have "root = root_path ?cs"
    using assms by (auto simp: circuit_root_error_def Let_def resolve_path_def root_path_def split: if_splits)
  moreover have "list_all name_ok ?cs" "''.'' \<notin> set ?cs" "''..'' \<notin> set ?cs"
    by (auto simp: list_all_iff name_ok_def dest!: resolve_from_names split_on_no_sep)
  ultimately show thesis by (rule that)
qed

lemma join_ne: "list_all name_ok cs \<Longrightarrow> cs \<noteq> [] \<Longrightarrow> join_with ''/'' cs \<noteq> []"
  by (cases cs rule: remdups_adj.cases) (auto simp: name_ok_def)

lemma join_snoc: "cs \<noteq> [] \<Longrightarrow> join_with sep (cs @ [c]) = join_with sep cs @ sep @ c"
  by (simp add: join_with_append)

lemma dirname_root_path:
  assumes "list_all name_ok (cs @ [c])"
  shows "posix_dirname (root_path (cs @ [c])) = root_path cs"
proof -
  have c: "c \<noteq> []" "CHR ''/'' \<notin> set c" using assms by (simp_all add: name_ok_def)
  have rest: "rev (dropWhile (\<lambda>x. x = CHR ''/'') (rev (s @ c))) = s @ c" for s
    using c by (cases c rule: rev_cases) auto
  show ?thesis
  proof (cases "cs = []")
    case True
    then show ?thesis using c(2) rest [of "[]"] by (simp add: posix_dirname_def root_path_def)
  next
    case False
    let ?j = "join_with ''/'' cs"
    have j: "?j \<noteq> []" using assms False by (intro join_ne) simp_all
    have "takeWhile (\<lambda>x. x \<noteq> CHR ''/'') (rev (?j @ CHR ''/'' # c)) = rev c"
      using c(2) by (simp add: takeWhile_append2 takeWhile_append)
    then show ?thesis
      using rest [of "?j @ ''/''"] j
      by (simp add: posix_dirname_def root_path_def join_snoc [OF False])
  qed
qed

lemma last_component:
  assumes "CHR ''/'' \<in> set r" and "last r \<noteq> CHR ''/''"
  shows "0 < length (takeWhile (\<lambda>c. c \<noteq> CHR ''/'') (rev r)) \<and> length (takeWhile (\<lambda>c. c \<noteq> CHR ''/'') (rev r)) < length r"
proof -
  obtain a b where r: "r = a @ CHR ''/'' # b" "CHR ''/'' \<notin> set b" using split_list_last [OF assms(1)] by blast
  have "b \<noteq> []" using assms(2) r(1) by auto
  moreover have "takeWhile (\<lambda>c. c \<noteq> CHR ''/'') (rev r) = rev b" using r by (auto simp: takeWhile_append takeWhile_tail)
  ultimately show ?thesis using r(1) by simp
qed

lemma dirname_absolute:
  "posix_dirname (CHR ''/'' # t) =
    (let rest = rev (dropWhile (\<lambda>c. c = CHR ''/'') (rev t));
         e = length rest - length (takeWhile (\<lambda>c. c \<noteq> CHR ''/'') (rev rest))
     in if CHR ''/'' \<notin> set rest then ''/''
        else if e = 1 then ''//'' else take e (CHR ''/'' # t))"
  by (simp add: posix_dirname_def Let_def)

lemma take_absolute:
  "0 < e \<Longrightarrow> e \<le> length t \<Longrightarrow> starts_with (take e (CHR ''/'' # t)) ''/'' \<and> length (take e (CHR ''/'' # t)) < length (CHR ''/'' # t)"
  by (cases e) (simp_all add: starts_with_def)

lemma dirname_shorter:
  assumes "starts_with p ''/''" and "p \<noteq> ''/''"
  shows "starts_with (posix_dirname p) ''/'' \<and> length (posix_dirname p) < length p"
proof -
  obtain t where p: "p = CHR ''/'' # t" "t \<noteq> []" using assms by (auto simp: starts_with_iff)
  obtain rest where rest: "rest = rev (dropWhile (\<lambda>c. c = CHR ''/'') (rev t))" by simp
  obtain e where e: "e = length rest - length (takeWhile (\<lambda>c. c \<noteq> CHR ''/'') (rev rest))" by simp
  have dir: "posix_dirname p = (if CHR ''/'' \<notin> set rest then ''/'' else if e = 1 then ''//'' else take e p)"
    unfolding p(1) dirname_absolute Let_def rest [symmetric] e [symmetric] by (rule refl)
  show ?thesis
  proof (cases "CHR ''/'' \<in> set rest")
    case True
    then have "rest \<noteq> []" by auto
    then have "dropWhile (\<lambda>c. c = CHR ''/'') (rev t) \<noteq> []" unfolding rest by (simp only: rev_is_Nil_conv not_False_eq_True)
    then have "last rest \<noteq> CHR ''/''" unfolding rest last_rev by (rule hd_dropWhile)
    from last_component [OF True this] have n: "0 < e" "e < length rest" unfolding e by linarith+
    have l: "length rest \<le> length t" unfolding rest using length_dropWhile_le [of "\<lambda>c. c = CHR ''/''" "rev t"] by simp
    show ?thesis
    proof (cases "e = 1")
      case True
      then have "posix_dirname p = ''//''" using dir \<open>CHR ''/'' \<in> set rest\<close> by simp
      then show ?thesis using n l True by (simp add: p(1) starts_with_def)
    next
      case False
      then have "posix_dirname p = take e p" using dir True by simp
      moreover have "e \<le> length t" using n l by linarith
      ultimately show ?thesis using take_absolute [OF n(1), of t] p(1) by simp
    qed
  next
    case False
    then have "posix_dirname p = ''/''" using dir by simp
    then show ?thesis using p(2) by (simp add: p(1) starts_with_def)
  qed
qed

lemma secure_loop_returns:
  "starts_with p ''/'' \<Longrightarrow> secure_loop lstat root uid p \<noteq> None"
proof (induction "length p" arbitrary: p rule: less_induct)
  case less
  show ?case
  proof (cases "p = ''/''")
    case False
    from dirname_shorter [OF less.prems False] have "secure_loop lstat root uid (posix_dirname p) \<noteq> None"
      by (intro less.hyps) simp_all
    then show ?thesis by (subst secure_loop.simps) (auto split: option.split)
  qed (subst secure_loop.simps, auto split: option.split)
qed

text \<open>What the loop asks of each path on the way up.\<close>

definition secure_stat :: "nat \<Rightarrow> bool \<Rightarrow> file_stat \<Rightarrow> bool" where
  "secure_stat uid is_root st \<longleftrightarrow>
     (fs_uid st = uid \<or> \<not> is_root \<and> fs_uid st = 0) \<and>
     (fs_mode st AND 0x12 = 0 \<or> \<not> is_root \<and> fs_mode st AND 0x200 \<noteq> 0)"

lemma secure_loop_step:
  "secure_loop lstat root uid p = Some (Inr None) \<longleftrightarrow>
    (\<exists>st. lstat p = Some st \<and> secure_stat uid (p = root) st) \<and>
    (p = ''/'' \<or> secure_loop lstat root uid (posix_dirname p) = Some (Inr None))"
  by (subst secure_loop.simps) (auto simp: secure_stat_def split: option.split)

lemma root_path_inject:
  "list_all name_ok cs \<Longrightarrow> list_all name_ok ds \<Longrightarrow> root_path cs = root_path ds \<longleftrightarrow> cs = ds"
  using join_inject [of cs ds] join_ne [of cs] join_ne [of ds]
  by (cases "cs = []"; cases "ds = []") (auto simp: root_path_def)

lemma secure_loop_exact:
  "list_all name_ok cs \<Longrightarrow> secure_loop lstat root uid (root_path cs) = Some (Inr None) \<longleftrightarrow>
    (\<forall>k \<le> length cs. \<exists>st. lstat (root_path (take k cs)) = Some st \<and> secure_stat uid (root_path (take k cs) = root) st)"
proof (induction cs rule: rev_induct)
  case Nil
  then show ?case by (subst secure_loop_step) (simp add: root_path_def)
next
  case (snoc c cs)
  have "root_path (cs @ [c]) \<noteq> ''/''"
    using root_path_inject [of "cs @ [c]" "[]"] snoc.prems by (simp add: root_path_def)
  moreover have "take k (cs @ [c]) = (if k \<le> length cs then take k cs else cs @ [c])" if "k \<le> Suc (length cs)" for k
    using that by auto
  ultimately show ?case
    using snoc dirname_root_path [OF snoc.prems]
    by (subst secure_loop_step) (auto simp: le_Suc_eq)
qed

section \<open>What an installation's identity tells\<close>

definition same_file :: "file_stat \<Rightarrow> file_stat \<Rightarrow> bool" where
  "same_file s t \<longleftrightarrow>
     fs_dev s = fs_dev t \<and> fs_ino s = fs_ino t \<and> fs_nlink s = fs_nlink t \<and> fs_size s = fs_size t \<and>
     fs_mode s = fs_mode t \<and> fs_mtime s = fs_mtime t \<and> fs_ctime s = fs_ctime t"

lemma num_string_inject: "num_string 10 m = num_string 10 n \<longleftrightarrow> m = n"
proof
  assume "num_string 10 m = num_string 10 n"
  then have "digits_value 10 (num_string 10 m) = digits_value 10 (num_string 10 n)" by (rule arg_cong)
  then show "m = n" by (simp add: digits_value_num)
qed simp

lemma num_string_char: "c \<in> set (num_string 10 n) \<Longrightarrow> c \<noteq> CHR '':'' \<and> c \<noteq> CHR 0x0A \<and> c \<noteq> CHR 0x09"
  using num_string_digits [of 10 c n] by (intro conjI notI) simp_all

lemma identity_numbers_inject:
  assumes "length ms = length ns" and "ms \<noteq> []"
    and "join_with '':'' (map (num_string 10) ms) = join_with '':'' (map (num_string 10) ns)"
  shows "ms = ns"
proof -
  have "split_on CHR '':'' (join_with '':'' (map (num_string 10) xs)) = map (num_string 10) xs" if "xs \<noteq> []" for xs
    using that by (intro split_join) (auto dest: num_string_char)
  then have "map (num_string 10) ms = map (num_string 10) ns" using assms by (metis length_0_conv)
  then show ?thesis by (simp add: inj_map_eq_map inj_def num_string_inject)
qed

lemma identity_line_inject:
  assumes "identity_line rel s = identity_line rel' t" and "CHR 0x09 \<notin> set rel" and "CHR 0x09 \<notin> set rel'"
  shows "rel = rel' \<and> same_file s t"
proof -
  let ?ns = "\<lambda>s. [fs_dev s, fs_ino s, fs_nlink s, fs_size s, unat (fs_mode s), fs_mtime s, fs_ctime s]"
  have "takeWhile (\<lambda>c. c \<noteq> CHR 0x09) (identity_line r u) = r" if "CHR 0x09 \<notin> set r" for r u
    unfolding identity_line_def using that by (subst takeWhile_append2) auto
  then have rel: "rel = rel'" using assms by metis
  with assms(1) have "join_with '':'' (map (num_string 10) (?ns s)) = join_with '':'' (map (num_string 10) (?ns t))"
    by (simp only: identity_line_def append_same_eq same_append_eq)
  then have "?ns s = ?ns t" by (intro identity_numbers_inject) simp_all
  then show ?thesis using rel by (simp add: same_file_def word_unat_eq_iff)
qed

lemma join_with_chars: "c \<in> set (join_with sep ps) \<Longrightarrow> c \<in> set sep \<or> (\<exists>p \<in> set ps. c \<in> set p)"
  by (induction sep ps rule: join_with.induct) auto

lemma identity_line_chars: "CHR 0x0A \<notin> set rel \<Longrightarrow> CHR 0x0A \<notin> set (identity_line rel s)"
  by (auto simp: identity_line_def simp del: join_with.simps dest!: join_with_chars dest: num_string_char)

lemma mapE_nth: "mapE f xs = Inr ys \<longleftrightarrow> length xs = length ys \<and> (\<forall>k < length xs. f (xs ! k) = Inr (ys ! k))"
  by (auto simp: mapE_Inr list_eq_iff_nth_eq dest: map_eq_imp_length_eq)

lemma line_of_Inr: "line_of w rp = Inr l \<longleftrightarrow> (\<exists>s. mc_stat w (snd rp) = Some s \<and> l = identity_line (fst rp) s)"
  by (auto simp: line_of_def split: option.splits)

lemma lines_split:
  assumes "mapE (line_of w) rps = Inr ls" and "rps \<noteq> []" and "\<forall>rp \<in> set rps. CHR 0x0A \<notin> set (fst rp)"
  shows "split_on CHR 0x0A (join_with [CHR 0x0A] ls) = ls"
proof (rule split_join)
  have m: "map (line_of w) rps = map Inr ls" using assms(1) by (simp only: mapE_Inr)
  with assms(2) show "ls \<noteq> []" by auto
  show "CHR 0x0A \<notin> set l" if "l \<in> set ls" for l
  proof -
    have "Inr l \<in> set (map (line_of w) rps)" using that unfolding m by simp
    then obtain rp where "rp \<in> set rps" "line_of w rp = Inr l" by (metis imageE set_map)
    with assms(3) show ?thesis by (auto simp: line_of_Inr identity_line_chars)
  qed
qed

text \<open>The paths of two listings are the same, and so is every file at them.\<close>

lemma lines_same:
  assumes w: "mapE (line_of w) rps = Inr ls" "rps \<noteq> []" "\<forall>rp \<in> set rps. CHR 0x0A \<notin> set (fst rp)"
    and w': "mapE (line_of w') rps' = Inr ls'" "rps' \<noteq> []" "\<forall>rp \<in> set rps'. CHR 0x0A \<notin> set (fst rp)"
    and same: "join_with [CHR 0x0A] ls = join_with [CHR 0x0A] ls'"
    and tabs: "\<forall>rp \<in> set rps \<union> set rps'. CHR 0x09 \<notin> set (fst rp)"
  shows "length rps = length rps'"
    and "k < length rps \<Longrightarrow> fst (rps ! k) = fst (rps' ! k) \<and>
      (\<exists>s t. mc_stat w (snd (rps ! k)) = Some s \<and> mc_stat w' (snd (rps' ! k)) = Some t \<and> same_file s t)"
proof -
  have "split_on CHR 0x0A (join_with [CHR 0x0A] ls) = split_on CHR 0x0A (join_with [CHR 0x0A] ls')"
    by (rule arg_cong [OF same])
  then have ls: "ls' = ls" unfolding lines_split [OF w] lines_split [OF w'] by (rule sym)
  note l = iffD1 [OF mapE_nth w(1), THEN conjunct1] iffD1 [OF mapE_nth w(1), THEN conjunct2]
  note l' = iffD1 [OF mapE_nth w'(1), unfolded ls, THEN conjunct1] iffD1 [OF mapE_nth w'(1), unfolded ls, THEN conjunct2]
  show len: "length rps = length rps'" unfolding l(1) l'(1) by (rule refl)
  assume k: "k < length rps"
  have "line_of w (rps ! k) = Inr (ls ! k)" using l(2) k by blast
  then obtain s where s: "mc_stat w (snd (rps ! k)) = Some s" "ls ! k = identity_line (fst (rps ! k)) s"
    unfolding line_of_Inr by blast
  have "k < length rps'" using k len by simp
  then have "line_of w' (rps' ! k) = Inr (ls ! k)" using l'(2) by blast
  then obtain t where t: "mc_stat w' (snd (rps' ! k)) = Some t" "ls ! k = identity_line (fst (rps' ! k)) t"
    unfolding line_of_Inr by blast
  note no_tab = bspec [OF tabs UnI1 [OF nth_mem [OF k]]] bspec [OF tabs UnI2 [OF nth_mem [OF \<open>k < length rps'\<close>]]]
  note e = identity_line_inject [OF trans [OF s(2) [symmetric] t(2)] no_tab]
  show "fst (rps ! k) = fst (rps' ! k) \<and>
      (\<exists>s t. mc_stat w (snd (rps ! k)) = Some s \<and> mc_stat w' (snd (rps' ! k)) = Some t \<and> same_file s t)"
    by (intro conjI exI, rule conjunct1 [OF e], rule s(1), rule t(1), rule conjunct2 [OF e])
qed

end
