(* ===== verification/Prove_Run.thy ===== *)
theory Prove_Run
  imports Prove_Laws
begin

text \<open>
  A run of the gate as a whole: what holds whenever the host is run, that the lock is taken off again, and what an
  answered proof has shown.
\<close>

section \<open>The lock\<close>

lemma locked_bits:
  fixes m :: "32 word"
  shows "((m AND NOT 0xFFF) OR ((m AND 0xFFF) AND NOT 0x92)) AND 0x92 = 0"
    and "m AND 0x12 = 0 \<Longrightarrow> ((m AND NOT 0xFFF) OR ((m AND 0xFFF) AND NOT 0x92)) AND 0x12 = 0"
    and "((m' AND NOT 0xFFF) OR (m AND 0xFFF)) AND 0xFFF = m AND 0xFFF"
  by (simp_all add: bit.conj_disj_distrib2 and.assoc)

text \<open>Permissions taken away from a path the loop finds secure do not make it find another answer.\<close>

lemma secure_loop_agree:
  assumes run: "secure_loop lstat root uid p = Some (Inr None)"
    and agree: "\<And>q st. lstat q = Some st \<Longrightarrow> secure_stat uid (q = root) st \<Longrightarrow>
      \<exists>st'. lstat' q = Some st' \<and> secure_stat uid (q = root) st'"
  shows "secure_loop lstat' root uid p = Some (Inr None)"
proof -
  have "lstat = lstat \<and> root = root \<and> uid = uid \<and> (Inr None :: tool_error + string option) = Inr None \<longrightarrow>
      secure_loop lstat' root uid p = Some (Inr None)"
  proof (rule secure_loop.raw_induct [of "\<lambda>ls rt u q r. ls = lstat \<and> rt = root \<and> u = uid \<and> r = Inr None \<longrightarrow>
      secure_loop lstat' root uid q = Some (Inr None)", OF _ run], intro impI, elim conjE)
    fix f ls rt u q r
    assume IH: "\<And>ls rt u q r. f ls rt u q = Some r \<Longrightarrow> ls = lstat \<and> rt = root \<and> u = uid \<and> r = Inr None \<longrightarrow>
        secure_loop lstat' root uid q = Some (Inr None)"
      and eqs: "ls = lstat" "rt = root" "u = uid" "r = Inr None"
      and body: "(case ls q of None \<Rightarrow> Some (Inl Thrown)
        | Some st \<Rightarrow>
          if fs_uid st \<noteq> u \<and> (q = rt \<or> fs_uid st \<noteq> 0)
          then Some (Inr (Some (if q = rt then ''NOT_OWNED'' else ''FOREIGN_ANCESTOR'')))
          else if fs_mode st AND 0x12 \<noteq> 0 \<and> (q = rt \<or> fs_mode st AND 0x200 = 0)
          then Some (Inr (Some (if q = rt then ''WRITABLE_BY_OTHERS'' else ''WRITABLE_ANCESTOR'')))
          else if q = ''/'' then Some (Inr None)
          else f ls rt u (posix_dirname q)) = Some r"
    from body eqs obtain st where st: "lstat q = Some st" "secure_stat uid (q = root) st"
      and rest: "q = ''/'' \<or> f lstat root uid (posix_dirname q) = Some (Inr None)"
      by (auto simp: secure_stat_def split: option.splits if_splits)
    from rest have "q = ''/'' \<or> secure_loop lstat' root uid (posix_dirname q) = Some (Inr None)"
      using IH [of lstat root uid "posix_dirname q" "Inr None"] by blast
    then show "secure_loop lstat' root uid q = Some (Inr None)"
      using agree [OF st] by (subst secure_loop_step) blast
  qed
  then show ?thesis by simp
qed

definition locked_root :: "nat \<Rightarrow> string \<Rightarrow> machine \<Rightarrow> bool" where
  "locked_root uid root w \<longleftrightarrow>
     secure_path_error root uid (mc_stat w) (mc_real w) = Some (Inr None) \<and>
     (\<exists>st. mc_stat w root = Some st \<and> fs_mode st AND 0x92 = 0)"

lemma secure_path_exact_loop:
  "secure_path_error root uid lstat realpath = Some (Inr None) \<longleftrightarrow>
    realpath root = Some root \<and> secure_loop lstat root uid root = Some (Inr None)"
  by (auto simp: secure_path_error_def split: option.splits)

lemma posix_guard_InrE:
  assumes "posix_root_guard_for p uid root version dir w = Inr (v, release)"
  obtains st where "p = Posix" and "uid \<noteq> 0" and "mc_stat w root = Some st" and "locked_root uid root v"
    and "release = chmod_path root (fs_mode st AND 0xFFF)"
    and "mc_node v = mc_node w" and "mc_platform v = mc_platform w" and "mc_uid v = mc_uid w"
    and "secure_path_error root uid (mc_stat w) (mc_real w) = Some (Inr None)"
proof -
  from assms obtain st where p': "p \<noteq> Win32" and uid: "uid \<noteq> 0"
    and secure: "secure_path_error root uid (mc_stat w) (mc_real w) = Some (Inr None)"
    and st: "mc_stat w root = Some st"
    and ch: "chmod_path root ((fs_mode st AND 0xFFF) AND NOT 0x92) w = Inr v"
    and rel: "release = chmod_path root (fs_mode st AND 0xFFF)"
    by (auto simp: posix_root_guard_for_def bindE_eq_Inr Let_def split: if_splits option.splits sum.splits)
  from p' have p: "p = Posix" "uid \<noteq> 0" using uid by (cases p; simp)+
  let ?st = "st\<lparr>fs_mode := (fs_mode st AND NOT 0xFFF) OR ((fs_mode st AND 0xFFF) AND NOT 0x92), fs_ctime := mc_time w\<rparr>"
  have v: "v = w\<lparr>mc_stat := (mc_stat w)(root \<mapsto> ?st)\<rparr>"
    using ch st by (simp add: chmod_path_def split: if_splits)
  have loop: "mc_real w root = Some root" "secure_loop (mc_stat w) root uid root = Some (Inr None)"
    using secure by (simp_all add: secure_path_exact_loop)
  have "secure_loop (mc_stat v) root uid root = Some (Inr None)"
  proof (rule secure_loop_agree [OF loop(2)])
    fix q s assume s: "mc_stat w q = Some s" "secure_stat uid (q = root) s"
    show "\<exists>s'. mc_stat v q = Some s' \<and> secure_stat uid (q = root) s'"
    proof (cases "q = root")
      case True
      then have "secure_stat uid True ?st" using s st locked_bits(2) [of "fs_mode st"] by (simp add: secure_stat_def)
      then show ?thesis using True by (simp add: v)
    qed (use s in \<open>simp add: v\<close>)
  qed
  then have "locked_root uid root v"
    using loop(1) locked_bits(1) [of "fs_mode st"] by (simp add: locked_root_def secure_path_exact_loop v)
  then show thesis using that [OF p st _ rel] secure by (simp add: v)
qed

section \<open>Before the host is run\<close>

text \<open>File systems hold trees: names are distinct within a directory.\<close>

definition trees :: "machine \<Rightarrow> bool" where
  "trees w \<longleftrightarrow> (\<forall>p m es. mc_node w p = Some (NDir m es) \<longrightarrow> wf_entries es)"

text \<open>The root holds the circuit version alone, and that tree exactly the record's members.\<close>

definition circuit_holds :: "(buffer \<Rightarrow> string) \<Rightarrow> archive_anchor \<Rightarrow> archive_record \<Rightarrow> string \<Rightarrow> machine \<Rightarrow> bool" where
  "circuit_holds sha an rec root w \<longleftrightarrow>
     (\<exists>m m' dir. mc_node w root = Some (NDir m [(an_circuit_version an, NDir m' dir)]) \<and>
       wf_entries dir \<and> holds_exactly sha dir (ar_members rec))"

lemma installed_holds:
  assumes rec: "accepted_record https an r = Inr rec" and "trees w" and run: "installed sha an rec root w = Inr ms"
  shows "circuit_holds sha an rec root w"
proof -
  from run obtain m es where es: "mc_node w root = Some (NDir m es)"
    and v: "verify_installed_circuit sha True (Some (NDir m es)) rec an = Inr ms"
    unfolding installed_def by (auto simp: verify_installed_circuit_def split: if_splits option.splits node.splits)
  have wf: "wf_entries es" using assms(2) es by (auto simp: trees_def)
  with verify_installed_iff [OF rec wf, of sha m] v obtain m' dir
    where "es = [(an_circuit_version an, NDir m' dir)]" "holds_exactly sha dir (ar_members rec)" by blast
  then show ?thesis using es wf by (auto simp: circuit_holds_def wf_entries_Cons)
qed

text \<open>What has been established when the host is run with \<open>plan\<close>.\<close>

definition cleared ::
  "(buffer \<Rightarrow> string) \<Rightarrow> (string \<Rightarrow> bool) \<Rightarrow> (string \<Rightarrow> string) \<Rightarrow> gate_input \<Rightarrow> local_images \<Rightarrow> nat \<Rightarrow> prove_plan \<Rightarrow>
   machine \<Rightarrow> bool" where
  "cleared sha https win_resolve i images uid plan w \<longleftrightarrow>
     accepted_record https (gi_anchor i) (gi_record i) = Inr (pl_record plan) \<and>
     circuit_root_error win_resolve (gi_root i) (gi_platform i) = None \<and>
     pl_executable plan = gi_host i \<and> pl_args plan = [''prove'', gi_inputs i] \<and>
     pl_image_ref plan = ar_image (pl_record plan) \<and>
     build_prover_env (gi_env i) (gi_root i) (pl_image_ref plan) (gi_platform i) =
       Inr \<lparr>pe_env = pl_env plan, pe_dropped = pl_dropped plan\<rparr> \<and>
     (\<exists>digests. images (pl_image_ref plan) (pl_env plan) = Inr (Some digests) \<and> pl_image_ref plan \<in> set digests) \<and>
     circuit_holds sha (gi_anchor i) (pl_record plan) (gi_root i) w \<and>
     uid \<noteq> 0 \<and> locked_root uid (gi_root i) w"

lemma local_image_Inr:
  "local_image images ref env = Inr u \<longleftrightarrow> (\<exists>digests. images ref env = Inr (Some digests) \<and> ref \<in> set digests)"
  by (auto simp: local_image_def split: sum.splits option.splits if_splits)

lemma prepare_InrE:
  assumes "prepare_archive_only_prove sha https win_resolve i images w = Inr plan"
  obtains ms where "accepted_record https (gi_anchor i) (gi_record i) = Inr (pl_record plan)"
    and "circuit_root_error win_resolve (gi_root i) (gi_platform i) = None"
    and "pl_executable plan = gi_host i" and "pl_args plan = [''prove'', gi_inputs i]"
    and "pl_image_ref plan = ar_image (pl_record plan)"
    and "build_prover_env (gi_env i) (gi_root i) (pl_image_ref plan) (gi_platform i) =
       Inr \<lparr>pe_env = pl_env plan, pe_dropped = pl_dropped plan\<rparr>"
    and "\<exists>digests. images (pl_image_ref plan) (pl_env plan) = Inr (Some digests) \<and> pl_image_ref plan \<in> set digests"
    and "installed sha (gi_anchor i) (pl_record plan) (gi_root i) w = Inr ms"
    and "pl_circuit_dir plan = join_path (mc_platform w) (gi_root i) (an_circuit_version (gi_anchor i))"
proof -
  from assms obtain rec e ms where "accepted_record https (gi_anchor i) (gi_record i) = Inr rec"
    "circuit_root_error win_resolve (gi_root i) (gi_platform i) = None"
    "build_prover_env (gi_env i) (gi_root i) (ar_image rec) (gi_platform i) = Inr e"
    "local_image images (ar_image rec) (pe_env e) = Inr ()"
    "installed sha (gi_anchor i) rec (gi_root i) w = Inr ms"
    "plan = \<lparr>pl_executable = gi_host i, pl_args = [''prove'', gi_inputs i], pl_env = pe_env e, pl_dropped = pe_dropped e,
       pl_circuit_dir = join_path (mc_platform w) (gi_root i) (an_circuit_version (gi_anchor i)),
       pl_image_ref = ar_image rec, pl_record = rec\<rparr>"
    unfolding prepare_archive_only_prove_def Let_def
    by (auto simp: bindE_eq_Inr split: option.splits)
  then show thesis by (intro that) (simp_all add: local_image_Inr)
qed

lemma verified_InrE:
  assumes "verified_identity sha i plan w = Inr ids"
  obtains ms ls where "installed sha (gi_anchor i) (pl_record plan) (gi_root i) w = Inr ms"
    and "installation_identity w (gi_root i) (an_circuit_version (gi_anchor i)) (pl_circuit_dir plan) = Inr ls"
    and "ids = join_with [CHR 0x0A] ls"
  using assms that by (auto simp: verified_identity_def bindE_eq_Inr refused_def split: sum.splits)

text \<open>The posix guard of the process \<open>w\<close> runs in.\<close>

lemma cleared_when_run:
  assumes "prepare_archive_only_prove sha https win_resolve i images w = Inr plan"
    and "posix_root_guard_for p uid (gi_root i) (an_circuit_version (gi_anchor i)) (pl_circuit_dir plan) w = Inr (v, release)"
    and "verified_identity sha i plan v = Inr ids" and "trees w"
  shows "cleared sha https win_resolve i images uid plan v"
proof -
  from assms(1) obtain ms where rec: "accepted_record https (gi_anchor i) (gi_record i) = Inr (pl_record plan)"
    and plan: "circuit_root_error win_resolve (gi_root i) (gi_platform i) = None"
      "pl_executable plan = gi_host i" "pl_args plan = [''prove'', gi_inputs i]"
      "pl_image_ref plan = ar_image (pl_record plan)"
      "build_prover_env (gi_env i) (gi_root i) (pl_image_ref plan) (gi_platform i) =
         Inr \<lparr>pe_env = pl_env plan, pe_dropped = pl_dropped plan\<rparr>"
      "\<exists>digests. images (pl_image_ref plan) (pl_env plan) = Inr (Some digests) \<and> pl_image_ref plan \<in> set digests"
    by (rule prepare_InrE)
  from assms(2) obtain st where v: "locked_root uid (gi_root i) v" "mc_node v = mc_node w" "uid \<noteq> 0"
    by (rule posix_guard_InrE)
  have "trees v" using assms(4) v(2) by (simp add: trees_def)
  moreover obtain ms' where "installed sha (gi_anchor i) (pl_record plan) (gi_root i) v = Inr ms'"
    using assms(3) by (rule verified_InrE)
  ultimately have "circuit_holds sha (gi_anchor i) (pl_record plan) (gi_root i) v" by (rule installed_holds [OF rec])
  then show ?thesis unfolding cleared_def using rec plan v(1,3) by (intro conjI)
qed

section \<open>After the host was run\<close>

text \<open>The root, the circuit directory and every member in it are the same files.\<close>

definition same_installation :: "gate_input \<Rightarrow> prove_plan \<Rightarrow> machine \<Rightarrow> machine \<Rightarrow> bool" where
  "same_installation i plan v w \<longleftrightarrow>
     (\<forall>path \<in> insert (gi_root i) (insert (pl_circuit_dir plan)
         (to_fs (mc_platform v) (pl_circuit_dir plan) ` set (map rm_path (ar_members (pl_record plan))))).
       \<exists>s t. mc_stat v path = Some s \<and> mc_stat w path = Some t \<and> same_file s t)"

lemma set_insert_name: "set (insert_name k ls) = insert k (set ls)"
  by (induction ls) auto

lemma set_sort_names [simp]: "set (sort_names ks) = set ks"
  by (induction ks) (auto simp: sort_names_def set_insert_name)

lemma ancestor_chars: "a \<in> set (ancestor_paths path) \<Longrightarrow> set a \<subseteq> set path"
proof
  fix c assume "a \<in> set (ancestor_paths path)" "c \<in> set a"
  then obtain k where "c \<in> set (join_with ''/'' (take k (split_on CHR ''/'' path)))" "1 \<le> k" "k < length (split_on CHR ''/'' path)"
    by (auto simp: set_ancestor_paths)
  then have "c \<in> set (join_with ''/'' (take k (split_on CHR ''/'' path) @ drop k (split_on CHR ''/'' path)))"
    by (subst join_with_append) auto
  then show "c \<in> set path" by simp
qed

lemma holds_paths:
  assumes rec: "accepted_record https an r = Inr rec" and h: "holds_exactly sha dir (ar_members rec)"
    and e: "(p, x) \<in> set (items [] dir)"
  shows "CHR 0x09 \<notin> set p \<and> CHR 0x0A \<notin> set p"
proof -
  have ok: "portable_char c \<or> c = CHR ''/''" if "m \<in> set (ar_members rec)" "c \<in> set (rm_path m)" for m c
  proof (rule member_path_chars [OF _ that(2)])
    show "member_path_error (rm_path m) = None"
      using accepted_members(1) [OF rec] that(1) by (auto simp: members_ok_def list_all_iff)
  qed
  have "holds_item sha (ar_members rec) (p, x)" using h e by (auto simp: holds_exactly_def list_all_iff)
  then have "\<exists>m \<in> set (ar_members rec). p = rm_path m \<or> p \<in> set (ancestor_paths (rm_path m))"
    by (auto simp: holds_item_def ancestors_of_def split: item.splits option.splits) force
  then obtain m where "m \<in> set (ar_members rec)" "set p \<subseteq> set (rm_path m)" using ancestor_chars by blast
  then have "\<forall>c \<in> set p. portable_char c \<or> c = CHR ''/''" using ok by blast
  moreover have "\<not> portable_char CHR 0x09" "\<not> portable_char CHR 0x0A" by code_simp+
  ultimately show ?thesis by (intro conjI notI) (drule (1) bspec, simp)+
qed

lemma member_is_file:
  assumes "holds_exactly sha dir (ar_members rec)" and "m \<in> set (ar_members rec)"
  shows "rm_path m \<in> file_paths (set (items [] dir))"
proof -
  from assms obtain x where "(rm_path m, x) \<in> set (items [] dir)" "\<not> (\<exists>k. x = IDir k)"
    "holds_item sha (ar_members rec) (rm_path m, x)"
    by (fastforce simp: holds_exactly_def list_all_iff list_ex_iff)
  then show ?thesis by (auto simp: holds_item_def file_paths_def split: item.splits)
qed

text \<open>The listing behind an identity.\<close>

lemma identity_InrE:
  assumes rec: "accepted_record https an r = Inr rec" and h: "circuit_holds sha an rec root w"
    and id: "installation_identity w root (an_circuit_version an) dir = Inr ls"
  obtains rels where
    "mapE (line_of w) ((''<root>'', root) # ('''', dir) # map (\<lambda>rel. (rel, to_fs (mc_platform w) dir rel)) rels) = Inr ls"
    and "set (map rm_path (ar_members rec)) \<subseteq> set rels"
    and "\<forall>rel \<in> set rels. CHR 0x09 \<notin> set rel \<and> CHR 0x0A \<notin> set rel"
proof -
  from h obtain m m' es where es: "mc_node w root = Some (NDir m [(an_circuit_version an, NDir m' es)])"
    "holds_exactly sha es (ar_members rec)" by (auto simp: circuit_holds_def)
  from id obtain files directories where walk: "walk_tree CIRCUIT_INTEGRITY_FAILED_AFTER_PROVE es = Inr (files, directories)"
    and ls: "mapE (line_of w) ((''<root>'', root) # ('''', dir) #
      map (\<lambda>rel. (rel, to_fs (mc_platform w) dir rel)) (sort_names (directories @ files))) = Inr ls"
    by (auto simp: installation_identity_def installed_paths_def circuit_entries_def es(1) bindE_eq_Inr refused_def
        simp del: mapE.simps split: sum.splits)
  note found = walk_tree_found [OF walk]
  show thesis
  proof (rule that [OF ls])
    show "set (map rm_path (ar_members rec)) \<subseteq> set (sort_names (directories @ files))"
      using member_is_file [OF es(2)] found(1) by auto
    show "\<forall>rel \<in> set (sort_names (directories @ files)). CHR 0x09 \<notin> set rel \<and> CHR 0x0A \<notin> set rel"
      using holds_paths [OF rec es(2)] found(1,2) by (auto simp: file_paths_def dir_paths_def)
  qed
qed

lemma same_identity:
  assumes rec: "accepted_record https (gi_anchor i) r = Inr (pl_record plan)"
    and h: "circuit_holds sha (gi_anchor i) (pl_record plan) (gi_root i) v"
      "circuit_holds sha (gi_anchor i) (pl_record plan) (gi_root i) w"
    and p: "mc_platform w = mc_platform v"
    and id: "verified_identity sha i plan v = Inr ids" "verified_identity sha i plan w = Inr ids"
  shows "same_installation i plan v w"
proof -
  let ?dir = "pl_circuit_dir plan" and ?g = "\<lambda>rel. (rel, to_fs (mc_platform v) (pl_circuit_dir plan) rel)"
  from id(1) obtain ms ls where ls: "installation_identity v (gi_root i) (an_circuit_version (gi_anchor i)) ?dir = Inr ls"
    "ids = join_with [CHR 0x0A] ls" by (rule verified_InrE)
  from id(2) obtain ms' ls' where ls': "installation_identity w (gi_root i) (an_circuit_version (gi_anchor i)) ?dir = Inr ls'"
    "ids = join_with [CHR 0x0A] ls'" by (rule verified_InrE)
  from identity_InrE [OF rec h(1) ls(1)] obtain rels where
    rels: "mapE (line_of v) ((''<root>'', gi_root i) # ('''', ?dir) # map ?g rels) = Inr ls"
    "set (map rm_path (ar_members (pl_record plan))) \<subseteq> set rels"
    "\<forall>rel \<in> set rels. CHR 0x09 \<notin> set rel \<and> CHR 0x0A \<notin> set rel" .
  from identity_InrE [OF rec h(2) ls'(1), unfolded p] obtain rels' where
    rels': "mapE (line_of w) ((''<root>'', gi_root i) # ('''', ?dir) # map ?g rels') = Inr ls'"
    "\<forall>rel \<in> set rels'. CHR 0x09 \<notin> set rel \<and> CHR 0x0A \<notin> set rel" .
  let ?rps = "\<lambda>rels. (''<root>'', gi_root i) # ('''', ?dir) # map ?g rels"
  have same: "join_with [CHR 0x0A] ls = join_with [CHR 0x0A] ls'" using ls(2) ls'(2) by simp
  have nl: "\<forall>rp \<in> set (?rps rels). CHR 0x0A \<notin> set (fst rp)" "\<forall>rp \<in> set (?rps rels'). CHR 0x0A \<notin> set (fst rp)"
    using rels(3) rels'(2) by auto
  have tab: "\<forall>rp \<in> set (?rps rels) \<union> set (?rps rels'). CHR 0x09 \<notin> set (fst rp)"
    using rels(3) rels'(2) by auto
  note lines = lines_same [OF rels(1) list.distinct(2) nl(1) rels'(1) list.distinct(2) nl(2) same tab]
  have len: "length rels = length rels'" using lines(1) by simp
  have "rels ! k = rels' ! k \<and> (\<exists>s t. mc_stat v (snd (?g (rels ! k))) = Some s \<and> mc_stat w (snd (?g (rels' ! k))) = Some t \<and> same_file s t)"
    if "k < length rels" for k
    using lines(2) [of "Suc (Suc k)"] that len by (simp, metis)
  then have each: "\<exists>s t. mc_stat v (snd (?g rel)) = Some s \<and> mc_stat w (snd (?g rel)) = Some t \<and> same_file s t"
    if "rel \<in> set rels" for rel
    using that by (metis in_set_conv_nth)
  have "\<exists>s t. mc_stat v (gi_root i) = Some s \<and> mc_stat w (gi_root i) = Some t \<and> same_file s t"
    "\<exists>s t. mc_stat v ?dir = Some s \<and> mc_stat w ?dir = Some t \<and> same_file s t"
    using lines(2) [of 0] lines(2) [of 1] by simp_all
  then show ?thesis using each rels(2) unfolding same_installation_def by auto
qed

section \<open>Properties\<close>

text \<open>
  Running a child process changes neither the platform nor the user of this one, and leaves file systems trees;
  \<open>keeps_root\<close>: the child leaves the circuit root in place and its owner's.
\<close>

definition host_process :: "spawner \<Rightarrow> bool" where
  "host_process spawn \<longleftrightarrow>
     (\<forall>plan v. mc_platform (snd (spawn plan v)) = mc_platform v \<and> mc_uid (snd (spawn plan v)) = mc_uid v \<and>
       (trees v \<longrightarrow> trees (snd (spawn plan v))))"

definition keeps_root :: "string \<Rightarrow> spawner \<Rightarrow> bool" where
  "keeps_root root spawn \<longleftrightarrow>
     (\<forall>plan v st. mc_stat v root = Some st \<longrightarrow>
       (\<exists>st'. mc_stat (snd (spawn plan v)) root = Some st' \<and> fs_uid st' = fs_uid st))"

lemma check_after_Inr:
  "check_after sha i plan before w = Inr u \<longleftrightarrow> verified_identity sha i plan w = Inr before"
  by (auto simp: check_after_def bindE_eq_Inr bindE_eq_Inl split: sum.splits tool_error.splits if_splits)

lemma run_InrE:
  assumes "run_archive_only_prove sha https win_resolve parse i images spawn guard w = (Inr (plan, out), w')"
  obtains v release before result v' where "prepare_archive_only_prove sha https win_resolve i images w = Inr plan"
    and "guard (gi_root i) (an_circuit_version (gi_anchor i)) (pl_circuit_dir plan) w = Inr (v, release)"
    and "verified_identity sha i plan v = Inr before" and "spawn plan v = (result, v')"
    and "verified_identity sha i plan v' = Inr before" and "release v' = Inr w'"
    and "host_output parse (gi_anchor i) result = Inr out"
  using assms that
  by (auto simp: run_archive_only_prove_def under_lock_def bindE_eq_Inr check_after_Inr
      split: sum.splits prod.splits)

text \<open>C24: The host is run only when everything has been established: with two hosts that do the same whenever the record is
  accepted, the plan is the record's with the frozen environment, the named image local, the tree under the lock exactly
  the record's members and the root a path only its owner can change, the gate gives the same answer and leaves the same
  machine, whatever the two would do otherwise.\<close>

theorem run_only_when_cleared:
  assumes "trees w"
    and "\<And>plan v. cleared sha https win_resolve i images uid plan v \<Longrightarrow> spawn plan v = spawn' plan v"
  shows "run_archive_only_prove sha https win_resolve parse i images spawn (posix_root_guard_for p uid) w =
    run_archive_only_prove sha https win_resolve parse i images spawn' (posix_root_guard_for p uid) w"
proof -
  have "under_lock sha i spawn plan v = under_lock sha i spawn' plan v"
    if "prepare_archive_only_prove sha https win_resolve i images w = Inr plan"
      "posix_root_guard_for p uid (gi_root i) (an_circuit_version (gi_anchor i)) (pl_circuit_dir plan) w = Inr (v, release)"
    for plan v release
  proof (cases "verified_identity sha i plan v")
    case (Inr before)
    then show ?thesis
      using assms(2) [OF cleared_when_run [OF that Inr assms(1)]] by (simp add: under_lock_def)
  qed (simp add: under_lock_def)
  then show ?thesis
    unfolding run_archive_only_prove_def by (auto split: sum.split prod.split)
qed

text \<open>C23: A run that answers a proof ran the host once, on a machine where everything was established, and the host exited
  with 0; afterwards the circuit root held the same tree in the same files, and the proof names the designated program
  and carries the selector of the designated verifying key.\<close>

theorem proving_run_sound:
  assumes "host_process spawn" and "trees w"
    and "run_archive_only_prove sha https win_resolve parse i images spawn (posix_root_guard_for p uid) w =
      (Inr (plan, out), w')"
  shows "\<exists>v result v'. cleared sha https win_resolve i images uid plan v \<and>
    spawn plan v = (Inr result, v') \<and> sr_status result = Some 0 \<and>
    circuit_holds sha (gi_anchor i) (pl_record plan) (gi_root i) v' \<and> same_installation i plan v v' \<and>
    po_vkey out = Some (JStr (an_program_vkey (gi_anchor i))) \<and>
    take 8 (drop 2 (js_string_opt (po_proof_bytes out))) = take 8 (drop 2 (an_vk_sha256 (gi_anchor i)))"
proof -
  from assms(3) obtain v release before result v' where
    prep: "prepare_archive_only_prove sha https win_resolve i images w = Inr plan"
    and lock: "posix_root_guard_for p uid (gi_root i) (an_circuit_version (gi_anchor i)) (pl_circuit_dir plan) w = Inr (v, release)"
    and id: "verified_identity sha i plan v = Inr before" "verified_identity sha i plan v' = Inr before"
    and spawn: "spawn plan v = (result, v')" and out: "host_output parse (gi_anchor i) result = Inr out"
    by (rule run_InrE)
  have clear: "cleared sha https win_resolve i images uid plan v" by (rule cleared_when_run [OF prep lock id(1) assms(2)])
  then have rec: "accepted_record https (gi_anchor i) (gi_record i) = Inr (pl_record plan)"
    and holds: "circuit_holds sha (gi_anchor i) (pl_record plan) (gi_root i) v" by (simp_all add: cleared_def)
  from lock obtain st where "mc_node v = mc_node w" by (rule posix_guard_InrE)
  with assms(1,2) spawn have after: "mc_platform v' = mc_platform v" "trees v'"
    unfolding host_process_def trees_def by (metis snd_conv)+
  obtain ms where "installed sha (gi_anchor i) (pl_record plan) (gi_root i) v' = Inr ms" using id(2) by (rule verified_InrE)
  note holds' = installed_holds [OF rec after(2) this]
  from out obtain d where d: "result = Inr d" "sr_status d = Some 0"
    "proof_output_of parse (sr_stdout d) (gi_anchor i) = Inr out"
    by (auto simp: host_output_def refused_def split: sum.splits tool_error.splits if_splits)
  then have "po_vkey out = Some (JStr (an_program_vkey (gi_anchor i)))"
    "take 8 (drop 2 (js_string_opt (po_proof_bytes out))) = take 8 (drop 2 (an_vk_sha256 (gi_anchor i)))"
    by (auto simp: proof_output_of_def Let_def strict_eq_opt_iff split: option.splits if_splits)
  then show ?thesis
    using clear spawn d(1,2) holds' same_identity [OF rec holds holds' after(1) id] by blast
qed

text \<open>C25: The lock is always taken off: however the run ends, the circuit root has afterwards the permissions it had
  before, as long as the host leaves the root in place and its owner's.\<close>

theorem lock_released:
  assumes "host_process spawn" and "keeps_root (gi_root i) spawn" and "mc_stat w (gi_root i) = Some st"
    and "run_archive_only_prove sha https win_resolve parse i images spawn (posix_root_guard_for (mc_platform w) (mc_uid w)) w =
      (res, w')"
  shows "\<exists>st'. mc_stat w' (gi_root i) = Some st' \<and> fs_mode st' AND 0xFFF = fs_mode st AND 0xFFF"
proof -
  let ?guard = "\<lambda>plan. posix_root_guard_for (mc_platform w) (mc_uid w) (gi_root i) (an_circuit_version (gi_anchor i)) (pl_circuit_dir plan) w"
  have unlocked: "\<exists>st'. mc_stat u (gi_root i) = Some st' \<and> fs_mode st' AND 0xFFF = fs_mode st AND 0xFFF"
    if lock: "?guard plan = Inr (v, release)" and run: "under_lock sha i spawn plan v = (r, v')"
      and u: "release v' = Inr u \<or> u = v' \<and> (\<exists>e. release v' = Inl e)" for plan v release r v' u
  proof -
    from lock obtain st0 where st0: "mc_stat w (gi_root i) = Some st0" "locked_root (mc_uid w) (gi_root i) v"
      "release = chmod_path (gi_root i) (fs_mode st0 AND 0xFFF)" "mc_uid v = mc_uid w" by (rule posix_guard_InrE)
    from st0(2) obtain s where "mc_stat v (gi_root i) = Some s" "fs_uid s = mc_uid w"
      unfolding locked_root_def secure_path_exact_loop by (subst (asm) secure_loop_step) (auto simp: secure_stat_def)
    moreover have "v' = v \<or> v' = snd (spawn plan v)"
      using run by (auto simp: under_lock_def split: sum.splits prod.splits)
    ultimately obtain s' where s': "mc_stat v' (gi_root i) = Some s'" "fs_uid s' = mc_uid v'"
      using assms(1,2) st0(4) unfolding host_process_def keeps_root_def by metis
    then have "release v' = Inr (v'\<lparr>mc_stat := (mc_stat v')(gi_root i \<mapsto>
        s'\<lparr>fs_mode := (fs_mode s' AND NOT 0xFFF) OR (fs_mode st0 AND 0xFFF), fs_ctime := mc_time v'\<rparr>)\<rparr>)"
      by (simp add: st0(3) chmod_path_def)
    then show ?thesis using u assms(3) st0(1) locked_bits(3) [of "fs_mode s'" "fs_mode st"] by auto
  qed
  show ?thesis
  proof (cases "prepare_archive_only_prove sha https win_resolve i images w")
    case (Inr plan)
    show ?thesis
    proof (cases "?guard plan")
      case (Inr vr)
      obtain v release where vr: "vr = (v, release)" by fastforce
      obtain r v' where run: "under_lock sha i spawn plan v = (r, v')" by fastforce
      have "release v' = Inr w' \<or> w' = v' \<and> (\<exists>e. release v' = Inl e)"
        using assms(4) \<open>prepare_archive_only_prove _ _ _ _ _ _ = Inr plan\<close> Inr run
        by (auto simp: run_archive_only_prove_def vr split: sum.splits)
      then show ?thesis by (rule unlocked [OF Inr [unfolded vr] run])
    qed (use assms(3,4) Inr in \<open>auto simp: run_archive_only_prove_def\<close>)
  qed (use assms(3,4) in \<open>auto simp: run_archive_only_prove_def\<close>)
qed

text \<open>C26: The lock's path is secure exactly when it should be: for a root the gate accepts on a POSIX host, its components
  below the root directory, securePathError finds nothing exactly when no link is on the way, the root is the user's and
  writable by nobody else, and every directory above it is the user's or the superuser's and writable by no one else
  unless sticky.\<close>

theorem secure_path_exact:
  assumes "circuit_root_error win_resolve root Posix = None"
  shows "\<exists>cs. root = root_path cs \<and> list_all name_ok cs \<and> ''..'' \<notin> set cs \<and>
    (secure_path_error root uid lstat realpath = Some (Inr None) \<longleftrightarrow>
      realpath root = Some root \<and>
      (\<forall>k \<le> length cs. \<exists>st. lstat (root_path (take k cs)) = Some st \<and> secure_stat uid (k = length cs) st))"
proof -
  from assms obtain cs where cs: "root = root_path cs" "list_all name_ok cs" "''..'' \<notin> set cs"
    by (rule circuit_root_parts)
  have "root_path (take k cs) = root \<longleftrightarrow> k = length cs" if "k \<le> length cs" for k
  proof -
    have "list_all name_ok (take k cs)" using cs(2) by (auto simp: list_all_iff dest: in_set_takeD)
    then have "root_path (take k cs) = root \<longleftrightarrow> take k cs = cs" using root_path_inject cs(1,2) by simp
    also have "\<dots> \<longleftrightarrow> k = length cs" using that by (metis length_take min.absorb2 take_all order_refl)
    finally show ?thesis .
  qed
  then show ?thesis
    using cs secure_loop_exact [OF cs(2), of lstat root uid] by (auto simp: secure_path_exact_loop)
qed

text \<open>securePathError returns whatever the file system answers, since \<open>realpath\<close> answers absolute paths.\<close>

lemma secure_path_returns:
  assumes "\<And>p r. realpath p = Some r \<Longrightarrow> starts_with r ''/''"
  shows "secure_path_error root uid lstat realpath \<noteq> None"
  using assms secure_loop_returns by (auto simp: secure_path_error_def split: option.splits)

text \<open>C27: The child's environment is exactly the frozen one over what may pass: buildProverEnv succeeds exactly when every
  variable the caller sets is allowed (a frozen one has its frozen value, a docker host is local, none selects another
  circuit, prover, verification or network), and then the child gets the listed process basics the caller set, the four
  frozen values over them, and nothing else; the names dropped are answered sorted.\<close>

theorem child_environment:
  assumes "distinct (map fst caller)"
  shows "build_prover_env caller root ref p = Inr e \<longleftrightarrow>
    list_all (allowed p root ref) (variables caller) \<and>
    pe_env e = map_of (passed p (variables caller)) ++ frozen_value root ref \<and>
    pe_dropped e = sort_names (not_passed p (variables caller))"
  by (rule build_prover_env_Inr [OF assms])

section \<open>A run on a sample machine\<close>

definition sample_stat :: file_stat where
  "sample_stat = \<lparr>fs_uid = 1000, fs_mode = 0x41ED, fs_dev = 1, fs_ino = 2, fs_nlink = 1, fs_size = 4096, fs_mtime = 0, fs_ctime = 0\<rparr>"

definition sample_machine :: "entries \<Rightarrow> machine" where
  "sample_machine es =
     \<lparr>mc_platform = Posix, mc_uid = 1000,
      mc_node = [''/c'' \<mapsto> NDir 493 es, ''/host'' \<mapsto> NFile 493 1 (Some []), ''/in'' \<mapsto> NFile 420 1 (Some [])],
      mc_stat = (\<lambda>_. Some sample_stat), mc_real = Some, mc_time = 1\<rparr>"

definition sample_input :: gate_input where
  "sample_input =
     \<lparr>gi_record = sample_accepted, gi_anchor = sample_anchor, gi_root = ''/c'', gi_host = ''/host'', gi_inputs = ''/in'',
      gi_env = [(''PATH'', Some ''/bin''), (''SECRET'', Some ''x''), (''HOME'', None)], gi_platform = Posix\<rparr>"

definition sample_proof :: json where
  "sample_proof =
     JObj [(''vkey'', JStr (an_program_vkey sample_anchor)), (''publicValues'', JStr ''0x''),
           (''proofBytes'', JStr (take 10 (an_vk_sha256 sample_anchor)))]"

definition sample_spawn :: spawner where
  "sample_spawn plan v = (Inr \<lparr>sr_status = Some 0, sr_stdout = ''proof''\<rparr>, v)"

lemma sample_input_ok:
  "circuit_root_error id ''/c'' Posix = None"
  "distinct (map fst (gi_env sample_input))"
  "list_all (allowed Posix ''/c'' (ar_image (typed_record sample_accepted))) (variables (gi_env sample_input))"
  "proof_output_of (\<lambda>_. Some sample_proof) ''proof'' sample_anchor =
    Inr \<lparr>po_vkey = lookup sample_proof ''vkey'', po_public_values = lookup sample_proof ''publicValues'',
        po_proof_bytes = lookup sample_proof ''proofBytes''\<rparr>"
  by code_simp+

lemma sample_installation:
  obtains es where "trees (sample_machine es)"
    "\<exists>ms. installed sample_sha sample_anchor (typed_record sample_accepted) ''/c'' (sample_machine es) = Inr ms"
proof -
  obtain readings ir rec es where "accepted_record (\<lambda>_. True) sample_anchor sample_accepted = Inr rec"
    "publishes sample_sha rec (an_circuit_version sample_anchor) [] es" by (rule sample_installs)
  then have pub: "publishes sample_sha (typed_record sample_accepted) (an_circuit_version sample_anchor) [] es"
    using sample_accepted_ok(1) by simp
  then have "wf_entries es" by (auto simp: publishes_def wf_entries_Cons name_ok_def sample_anchor_def)
  then have "trees (sample_machine es)" by (auto simp: trees_def sample_machine_def)
  moreover have "\<exists>ms. installed sample_sha sample_anchor (typed_record sample_accepted) ''/c'' (sample_machine es) = Inr ms"
    using published_verifies [OF sample_accepted_ok(1) pub, of 493]
    by (auto simp: installed_def sample_machine_def starts_with_def)
  ultimately show thesis by (rule that)
qed

lemma stats_owned:
  "(\<And>p. p \<in> set ps \<Longrightarrow> \<exists>s. mc_stat w p = Some s \<and> fs_uid s = uid \<and> fs_mode s AND 0x12 = 0) \<Longrightarrow>
    foldE (owned_alone w uid) () ps = Inr ()"
  by (induction ps) (force simp: owned_alone_def)+

lemma stats_lines: "(\<And>p. mc_stat w p \<noteq> None) \<Longrightarrow> \<exists>ls. mapE (line_of w) rps = Inr ls"
  by (induction rps) (auto simp: line_of_def split: option.splits)

lemma holds_walks:
  assumes "circuit_holds sha an rec root w"
  shows "\<exists>r. installed_paths why w root (an_circuit_version an) = Inr r"
proof -
  from assms obtain m m' dir where dir: "mc_node w root = Some (NDir m [(an_circuit_version an, NDir m' dir)])"
    "holds_exactly sha dir (ar_members rec)" by (auto simp: circuit_holds_def)
  have "plain_item x" if "(p, x) \<in> set (items [] dir)" for p x
    using dir(2) that by (fastforce simp: holds_exactly_def list_all_iff holds_item_def plain_item_def split: item.splits)
  then have "\<exists>r. walk_tree why dir = Inr r"
    using walk_complete [of why "[]" "sort_entries dir"] by (auto simp: walk_tree_def items_sort)
  then show ?thesis by (auto simp: installed_paths_def circuit_entries_def dir(1) refused_def)
qed

lemma sample_guard:
  assumes "circuit_holds sample_sha sample_anchor rec ''/c'' (sample_machine es)"
  shows "\<exists>v. posix_root_guard_for Posix 1000 ''/c'' (an_circuit_version sample_anchor) dir (sample_machine es) =
      Inr (v, chmod_path ''/c'' (fs_mode sample_stat AND 0xFFF)) \<and>
    mc_node v = mc_node (sample_machine es) \<and> mc_platform v = Posix \<and> mc_uid v = 1000 \<and>
    (\<forall>p. \<exists>s. mc_stat v p = Some s \<and> fs_uid s = 1000)"
proof -
  let ?w = "sample_machine es"
  have stat: "mc_stat ?w p = Some sample_stat" "secure_stat 1000 b sample_stat" for p b
    by (simp_all add: sample_machine_def secure_stat_def sample_stat_def)
  have "secure_loop (mc_stat ?w) ''/c'' 1000 ''/'' = Some (Inr None)" by (subst secure_loop_step) (simp add: stat)
  moreover have "posix_dirname ''/c'' = ''/''" by code_simp
  ultimately have "secure_loop (mc_stat ?w) ''/c'' 1000 ''/c'' = Some (Inr None)"
    by (subst secure_loop_step) (simp add: stat)
  then have secure: "secure_path_error ''/c'' 1000 (mc_stat ?w) (mc_real ?w) = Some (Inr None)"
    by (simp add: secure_path_exact_loop sample_machine_def)
  obtain files directories where paths: "installed_paths CIRCUIT_INTEGRITY_FAILED ?w ''/c'' (an_circuit_version sample_anchor) =
      Inr (files, directories)" using holds_walks [OF assms, of CIRCUIT_INTEGRITY_FAILED] by auto
  have owned: "foldE (owned_alone ?w 1000) () ps = Inr ()" for ps
    by (rule stats_owned) (simp add: stat(1), simp add: sample_stat_def)
  have uid: "fs_uid sample_stat = 1000" "mc_uid ?w = 1000" by (simp_all add: sample_stat_def sample_machine_def)
  show ?thesis
    unfolding posix_root_guard_for_def
    by (simp add: secure paths owned stat(1) chmod_path_def uid del: foldE.simps)
       (simp add: sample_machine_def sample_stat_def)
qed

lemma identity_exists:
  assumes "circuit_holds sha an rec root w" and "\<And>p. mc_stat w p \<noteq> None"
  shows "\<exists>ls. installation_identity w root (an_circuit_version an) dir = Inr ls"
proof -
  obtain files directories where "installed_paths CIRCUIT_INTEGRITY_FAILED_AFTER_PROVE w root (an_circuit_version an) =
      Inr (files, directories)" using holds_walks [OF assms(1)] by fastforce
  then show ?thesis using stats_lines [OF assms(2)] by (simp add: installation_identity_def del: mapE.simps)
qed

lemma run_answers:
  assumes "prepare_archive_only_prove sha https win_resolve i images w = Inr plan"
    and "guard (gi_root i) (an_circuit_version (gi_anchor i)) (pl_circuit_dir plan) w = Inr (v, release)"
    and "verified_identity sha i plan v = Inr before" and "spawn plan v = (result, v')"
    and "verified_identity sha i plan v' = Inr before" and "release v' = Inr w'"
    and "host_output parse (gi_anchor i) result = Inr out"
  shows "run_archive_only_prove sha https win_resolve parse i images spawn guard w = (Inr (plan, out), w')"
proof -
  have "check_after sha i plan before v' = Inr ()" using assms(5) by (simp add: check_after_Inr)
  then show ?thesis using assms by (simp add: run_archive_only_prove_def under_lock_def)
qed

lemma sample_input_simps [simp]:
  "gi_root sample_input = ''/c''" "gi_anchor sample_input = sample_anchor" "gi_record sample_input = sample_accepted"
  "gi_host sample_input = ''/host''" "gi_inputs sample_input = ''/in''" "gi_platform sample_input = Posix"
  by (simp_all add: sample_input_def)

lemma sample_run:
  obtains es plan out w' where "trees (sample_machine es)"
    "run_archive_only_prove sample_sha (\<lambda>_. True) id (\<lambda>_. Some sample_proof) sample_input (\<lambda>ref _. Inr (Some [ref]))
       sample_spawn (posix_root_guard_for Posix 1000) (sample_machine es) = (Inr (plan, out), w')"
proof -
  obtain es ms where es: "trees (sample_machine es)"
    "installed sample_sha sample_anchor (typed_record sample_accepted) ''/c'' (sample_machine es) = Inr ms"
    using sample_installation by blast
  let ?w = "sample_machine es" and ?rec = "typed_record sample_accepted"
  obtain e where e: "build_prover_env (gi_env sample_input) ''/c'' (ar_image ?rec) Posix = Inr e"
    using build_prover_env_Inr [OF sample_input_ok(2), of "''/c''" "ar_image ?rec" Posix
      "\<lparr>pe_env = map_of (passed Posix (variables (gi_env sample_input))) ++ frozen_value ''/c'' (ar_image ?rec),
         pe_dropped = sort_names (not_passed Posix (variables (gi_env sample_input)))\<rparr>"] sample_input_ok(3)
    by simp
  have "regular_file ?w ''/host'' = Inr ()" "regular_file ?w ''/in'' = Inr ()"
    by (simp_all add: regular_file_def sample_machine_def starts_with_def)
  then obtain plan where plan: "prepare_archive_only_prove sample_sha (\<lambda>_. True) id sample_input (\<lambda>ref _. Inr (Some [ref])) ?w = Inr plan"
    "pl_record plan = ?rec"
    using sample_accepted_ok(1) sample_input_ok(1) e es(2)
    by (simp add: prepare_archive_only_prove_def local_image_def)
  note holds = installed_holds [OF sample_accepted_ok(1) es]
  from sample_guard [OF holds] obtain v where
    v: "posix_root_guard_for Posix 1000 ''/c'' (an_circuit_version sample_anchor) (pl_circuit_dir plan) ?w =
      Inr (v, chmod_path ''/c'' (fs_mode sample_stat AND 0xFFF))"
    "mc_node v = mc_node ?w" "mc_platform v = Posix" "mc_uid v = 1000" "\<And>p. \<exists>s. mc_stat v p = Some s \<and> fs_uid s = 1000"
    by blast
  have "installed sample_sha sample_anchor ?rec ''/c'' v = Inr ms"
    using es(2) v(2,3) by (simp add: installed_def sample_machine_def)
  moreover have "circuit_holds sample_sha sample_anchor ?rec ''/c'' v" using holds v(2) by (simp add: circuit_holds_def)
  moreover have "mc_stat v p \<noteq> None" for p using v(5) [of p] by auto
  ultimately obtain ls where "installed sample_sha sample_anchor ?rec ''/c'' v = Inr ms"
    "installation_identity v ''/c'' (an_circuit_version sample_anchor) (pl_circuit_dir plan) = Inr ls"
    using identity_exists by blast
  then have id: "verified_identity sample_sha sample_input plan v = Inr (join_with [CHR 0x0A] ls)"
    by (simp add: verified_identity_def plan(2) refused_def)
  obtain w' where "chmod_path ''/c'' (fs_mode sample_stat AND 0xFFF) v = Inr w'"
    using v(4) v(5) [of "''/c''"] by (auto simp: chmod_path_def)
  moreover have "host_output (\<lambda>_. Some sample_proof) sample_anchor (Inr \<lparr>sr_status = Some 0, sr_stdout = ''proof''\<rparr>) =
      Inr \<lparr>po_vkey = lookup sample_proof ''vkey'', po_public_values = lookup sample_proof ''publicValues'',
        po_proof_bytes = lookup sample_proof ''proofBytes''\<rparr>"
    by (simp add: host_output_def sample_input_ok(4) refused_def)
  ultimately have "run_archive_only_prove sample_sha (\<lambda>_. True) id (\<lambda>_. Some sample_proof) sample_input
      (\<lambda>ref _. Inr (Some [ref])) sample_spawn (posix_root_guard_for Posix 1000) ?w =
    (Inr (plan, \<lparr>po_vkey = lookup sample_proof ''vkey'', po_public_values = lookup sample_proof ''publicValues'',
        po_proof_bytes = lookup sample_proof ''proofBytes''\<rparr>), w')"
    using v(1) id
    by (intro run_answers [OF plan(1), where v = v and v' = v and result = "Inr \<lparr>sr_status = Some 0, sr_stdout = ''proof''\<rparr>"
        and release = "chmod_path ''/c'' (fs_mode sample_stat AND 0xFFF)"]) (simp_all add: sample_spawn_def)
  then show thesis by (rule that [OF es(1)])
qed

lemma sample_host: "host_process sample_spawn" "keeps_root root sample_spawn"
  by (simp_all add: host_process_def keeps_root_def sample_spawn_def)

theorem proving_run_sound_witness:
  "\<exists>es plan out w' v. run_archive_only_prove sample_sha (\<lambda>_. True) id (\<lambda>_. Some sample_proof) sample_input
      (\<lambda>ref _. Inr (Some [ref])) sample_spawn (posix_root_guard_for Posix 1000) (sample_machine es) = (Inr (plan, out), w') \<and>
    cleared sample_sha (\<lambda>_. True) id sample_input (\<lambda>ref _. Inr (Some [ref])) 1000 plan v \<and>
    po_vkey out = Some (JStr ''0x1'')"
proof -
  obtain es plan out w' where run: "trees (sample_machine es)"
    "run_archive_only_prove sample_sha (\<lambda>_. True) id (\<lambda>_. Some sample_proof) sample_input (\<lambda>ref _. Inr (Some [ref]))
       sample_spawn (posix_root_guard_for Posix 1000) (sample_machine es) = (Inr (plan, out), w')" by (rule sample_run)
  have "an_program_vkey sample_anchor = ''0x1''" by (simp add: sample_anchor_def)
  with proving_run_sound [OF sample_host(1) run] run(2) show ?thesis by (simp, blast)
qed

text \<open>A host that would answer nothing on a machine that is not locked is run like the sample one.\<close>

theorem run_only_when_cleared_witness:
  "\<exists>es plan out w'. run_archive_only_prove sample_sha (\<lambda>_. True) id (\<lambda>_. Some sample_proof) sample_input
      (\<lambda>ref _. Inr (Some [ref]))
      (\<lambda>plan v. if locked_root 1000 ''/c'' v then sample_spawn plan v else (Inl Thrown, v))
      (posix_root_guard_for Posix 1000) (sample_machine es) = (Inr (plan, out), w')"
proof -
  obtain es plan out w' where run: "trees (sample_machine es)"
    "run_archive_only_prove sample_sha (\<lambda>_. True) id (\<lambda>_. Some sample_proof) sample_input (\<lambda>ref _. Inr (Some [ref]))
       sample_spawn (posix_root_guard_for Posix 1000) (sample_machine es) = (Inr (plan, out), w')" by (rule sample_run)
  have "(if locked_root 1000 ''/c'' v then sample_spawn plan v else (Inl Thrown, v)) = sample_spawn plan v"
    if "cleared sample_sha (\<lambda>_. True) id sample_input (\<lambda>ref _. Inr (Some [ref])) 1000 plan v" for plan v
    using that by (simp add: cleared_def)
  from trans [OF run_only_when_cleared [OF run(1) this] run(2)] show ?thesis by (intro exI)
qed

theorem lock_released_witness:
  "\<exists>es plan out w' st'. run_archive_only_prove sample_sha (\<lambda>_. True) id (\<lambda>_. Some sample_proof) sample_input
      (\<lambda>ref _. Inr (Some [ref])) sample_spawn (posix_root_guard_for Posix 1000) (sample_machine es) = (Inr (plan, out), w') \<and>
    mc_stat w' ''/c'' = Some st' \<and> fs_mode st' AND 0xFFF = 0x1ED"
proof -
  obtain es plan out w' where run:
    "run_archive_only_prove sample_sha (\<lambda>_. True) id (\<lambda>_. Some sample_proof) sample_input (\<lambda>ref _. Inr (Some [ref]))
       sample_spawn (posix_root_guard_for Posix 1000) (sample_machine es) = (Inr (plan, out), w')" by (rule sample_run)
  have m: "mc_platform (sample_machine es) = Posix" "mc_uid (sample_machine es) = 1000"
    "mc_stat (sample_machine es) (gi_root sample_input) = Some sample_stat" by (simp_all add: sample_machine_def)
  have "fs_mode sample_stat AND 0xFFF = 0x1ED" by (simp add: sample_stat_def)
  with lock_released [OF sample_host m(3), unfolded m(1,2), OF run] obtain st' where
    "mc_stat w' ''/c'' = Some st'" "fs_mode st' AND 0xFFF = 0x1ED" by auto
  with run show ?thesis by blast
qed

theorem secure_path_exact_witness:
  "\<exists>cs. ''/srv/circuits'' = root_path cs \<and>
    (secure_path_error ''/srv/circuits'' 1000 (\<lambda>_. Some sample_stat) Some = Some (Inr None) \<longleftrightarrow>
      (\<forall>k \<in> {..length cs}. secure_stat 1000 (k = length cs) sample_stat))"
proof -
  have "circuit_root_error id ''/srv/circuits'' Posix = None" by code_simp
  from secure_path_exact [OF this, of 1000 "\<lambda>_. Some sample_stat" Some] show ?thesis by auto
qed

theorem child_environment_witness:
  "\<exists>e. build_prover_env (gi_env sample_input) ''/c'' (ar_image (typed_record sample_accepted)) Posix = Inr e \<and>
    pe_env e ''PATH'' = Some ''/bin'' \<and> pe_env e ''SP1_PROVER'' = Some ''cpu'' \<and> pe_env e ''SECRET'' = None \<and>
    pe_dropped e = [''SECRET'']"
proof -
  let ?ref = "ar_image (typed_record sample_accepted)"
  let ?e = "\<lparr>pe_env = map_of (passed Posix (variables (gi_env sample_input))) ++ frozen_value ''/c'' ?ref,
       pe_dropped = sort_names (not_passed Posix (variables (gi_env sample_input)))\<rparr>"
  have "build_prover_env (gi_env sample_input) ''/c'' ?ref Posix = Inr ?e"
    using child_environment [OF sample_input_ok(2), of "''/c''" ?ref Posix ?e] sample_input_ok(3) by simp
  moreover have "pe_env ?e ''PATH'' = Some ''/bin''" "pe_env ?e ''SP1_PROVER'' = Some ''cpu''" "pe_env ?e ''SECRET'' = None"
    "pe_dropped ?e = [''SECRET'']" by code_simp+
  ultimately show ?thesis by blast
qed

text \<open>
  The proof's fields are tested as \<open>String(x)\<close> and answered as they are: an array of one string passes for the string,
  though the type of the answer says it is one.
\<close>

lemma proof_bytes_may_be_array:
  "map_sum id po_proof_bytes (proof_output_of
     (\<lambda>_. Some (JObj [(''vkey'', JStr ''0x1''), (''publicValues'', JStr ''0x''),
                      (''proofBytes'', JArr [JStr (take 10 (an_vk_sha256 sample_anchor))])])) ''proof'' sample_anchor) =
    Inr (Some (JArr [JStr (take 10 (an_vk_sha256 sample_anchor))]))"
  by code_simp


end
