(* ===== verification/Runtime_Metadata.thy ===== *)
theory Runtime_Metadata
  imports JSON_Values
begin

text \<open>
  Runtime code as bytes, and the metadata solc puts at its end: the byte helpers, the CBOR reader and
  \<open>decodeSolcMetadataBoundary\<close> of \<open>scripts/lib/reproducibility-evidence.ts\<close>. A byte is a character. The reader's
  recursion has fuel; \<open>read_fuel_enough\<close> shows how much is enough. Texts keep the bytes of their UTF-8, which
  decides their equality with a name of ASCII letters.
\<close>

section \<open>Bytes\<close>

definition hex_digit :: "char \<Rightarrow> nat option" where
  "hex_digit c =
     (if is_digit c then Some (of_char c - 48)
      else if c \<in> set ''abcdef'' then Some (of_char c - 87)
      else if c \<in> set ''ABCDEF'' then Some (of_char c - 55)
      else None)"

fun hex_pairs :: "string \<Rightarrow> string option" where
  "hex_pairs [] = Some []"
| "hex_pairs [c] = None"
| "hex_pairs (c # d # cs) =
     (case (hex_digit c, hex_digit d, hex_pairs cs) of
        (Some a, Some b, Some bs) \<Rightarrow> Some (char_of (16 * a + b) # bs)
      | _ \<Rightarrow> None)"

text \<open>\<open>hexToBuffer\<close>, \<open>None\<close> where it throws, and \<open>bufferToHex\<close>.\<close>

definition hex_to_buffer :: "string \<Rightarrow> string option" where
  "hex_to_buffer hex = hex_pairs (if starts_with hex ''0x'' then drop 2 hex else hex)"

definition nibble :: "nat \<Rightarrow> char" where
  "nibble n = (if n < 10 then char_of (n + 48) else char_of (n + 87))"

definition buffer_to_hex :: "string \<Rightarrow> string" where
  "buffer_to_hex buf = ''0x'' @ concat (map (\<lambda>c. [nibble (of_char c div 16), nibble (of_char c mod 16)]) buf)"

text \<open>\<open>readUIntBE\<close> of \<open>k\<close> bytes, \<open>None\<close> beyond the end.\<close>

definition be_value :: "string \<Rightarrow> nat" where
  "be_value bs = foldl (\<lambda>n c. 256 * n + of_char c) 0 bs"

definition read_uint_be :: "nat \<Rightarrow> string \<Rightarrow> nat \<Rightarrow> nat option" where
  "read_uint_be k buf off = (if off + k \<le> length buf then Some (be_value (take k (drop off buf))) else None)"

section \<open>CBOR\<close>

text \<open>
  A map is a JavaScript object: its own properties, and its prototype, which assigning to \<open>__proto__\<close> sets while
  the accessor of that name is inherited. The read-only properties of a byte string that has become a prototype are
  not modelled.
\<close>

datatype cbor =
    CNum nat
  | CBytes string
  | CText string
  | CBool bool
  | CNull
  | CMap "(string \<times> cbor) list" cbor_proto
and cbor_proto = ObjectProto | NullProto | Proto cbor

datatype cbor_error =
    PastEnd | UnsupportedLength | ShortHeader | Overruns | UnsupportedSimple | UnsupportedMajor | NoPrimitive | OutOfFuel

definition read_cbor_length :: "string \<Rightarrow> nat \<Rightarrow> nat \<Rightarrow> cbor_error + (nat \<times> nat)" where
  "read_cbor_length buf off info =
     (let read = (\<lambda>k. case read_uint_be k buf off of None \<Rightarrow> Inl ShortHeader | Some n \<Rightarrow> Inr (n, k))
      in if info < 24 then Inr (info, 0)
         else if info = 24 then read 1
         else if info = 25 then read 2
         else if info = 26 then read 4
         else Inl UnsupportedLength)"

text \<open>Whether the accessor \<open>__proto__\<close> is inherited, and whether every prototype up to \<open>Object.prototype\<close> is a map.\<close>

fun has_accessor :: "cbor_proto \<Rightarrow> bool" where
  "has_accessor ObjectProto = True"
| "has_accessor NullProto = False"
| "has_accessor (Proto (CMap own p)) = has_accessor p"
| "has_accessor (Proto _) = True"

fun plain_string :: "(string \<times> cbor) list \<Rightarrow> cbor_proto \<Rightarrow> bool" where
  "plain_string own p =
     (map_of own ''toString'' = None \<and>
      (case p of ObjectProto \<Rightarrow> True | Proto (CMap own' p') \<Rightarrow> plain_string own' p' | _ \<Rightarrow> False))"

text \<open>\<open>String(key)\<close>; \<open>None\<close> where an object has nothing to make a string with, which throws.\<close>

fun key_string :: "cbor \<Rightarrow> string option" where
  "key_string (CNum n) = Some (num_string 10 n)"
| "key_string (CBytes bs) = Some bs"
| "key_string (CText t) = Some t"
| "key_string (CBool b) = Some (if b then ''true'' else ''false'')"
| "key_string CNull = Some ''null''"
| "key_string (CMap own p) = (if plain_string own p then Some ''[object Object]'' else None)"

text \<open>\<open>obj[k] = v\<close>.\<close>

definition set_own :: "string \<Rightarrow> cbor \<Rightarrow> (string \<times> cbor) list \<Rightarrow> (string \<times> cbor) list" where
  "set_own k v own =
     (if map_of own k = None then own @ [(k, v)] else map (\<lambda>e. if fst e = k then (k, v) else e) own)"

definition assign :: "string \<Rightarrow> cbor \<Rightarrow> (string \<times> cbor) list \<times> cbor_proto \<Rightarrow> (string \<times> cbor) list \<times> cbor_proto" where
  "assign k v obj =
     (if k = ''__proto__'' \<and> has_accessor (snd obj) then
        (fst obj, case v of CMap _ _ \<Rightarrow> Proto v | CBytes _ \<Rightarrow> Proto v | CNull \<Rightarrow> NullProto | _ \<Rightarrow> snd obj)
      else (set_own k v (fst obj), snd obj))"

text \<open>\<open>readCborItem\<close>, answering the value and the bytes consumed, and the loop over a map's entries.\<close>

definition read_cbor_string :: "(string \<Rightarrow> cbor) \<Rightarrow> string \<Rightarrow> nat \<Rightarrow> nat \<times> nat \<Rightarrow> cbor_error + (cbor \<times> nat)" where
  "read_cbor_string make buf off lh =
     (let cursor = off + 1 + snd lh
      in if cursor + fst lh > length buf then Inl Overruns
         else Inr (make (take (fst lh) (drop cursor buf)), cursor + fst lh - off))"

fun read_cbor_item :: "nat \<Rightarrow> string \<Rightarrow> nat \<Rightarrow> cbor_error + (cbor \<times> nat)"
and read_cbor_entries ::
  "nat \<Rightarrow> nat \<Rightarrow> string \<Rightarrow> nat \<Rightarrow> (string \<times> cbor) list \<times> cbor_proto \<Rightarrow>
   cbor_error + (((string \<times> cbor) list \<times> cbor_proto) \<times> nat)" where
  "read_cbor_item 0 buf off = Inl OutOfFuel"
| "read_cbor_item (Suc n) buf off =
     (if off \<ge> length buf then Inl PastEnd
      else let initial = of_char (buf ! off) :: nat; major = initial div 32; info = initial mod 32
           in if major = 0 then bindE (read_cbor_length buf (off + 1) info) (\<lambda>(len, h). Inr (CNum len, 1 + h))
              else if major = 2 then bindE (read_cbor_length buf (off + 1) info) (read_cbor_string CBytes buf off)
              else if major = 3 then bindE (read_cbor_length buf (off + 1) info) (read_cbor_string CText buf off)
              else if major = 5 then bindE (read_cbor_length buf (off + 1) info) (\<lambda>(len, h).
                bindE (read_cbor_entries n len buf (off + 1 + h) ([], ObjectProto)) (\<lambda>(obj, cursor).
                Inr (CMap (fst obj) (snd obj), cursor - off)))
              else if major = 7 then
                (if info = 20 then Inr (CBool False, 1)
                 else if info = 21 then Inr (CBool True, 1)
                 else if info = 22 then Inr (CNull, 1)
                 else Inl UnsupportedSimple)
              else Inl UnsupportedMajor)"
| "read_cbor_entries n 0 buf cursor obj = Inr (obj, cursor)"
| "read_cbor_entries n (Suc i) buf cursor obj =
     bindE (read_cbor_item n buf cursor) (\<lambda>(key, k).
     bindE (read_cbor_item n buf (cursor + k)) (\<lambda>(val, l).
     (case key_string key of
        None \<Rightarrow> Inl NoPrimitive
      | Some s \<Rightarrow> read_cbor_entries n i buf (cursor + k + l) (assign s val obj))))"

section \<open>The metadata boundary\<close>

datatype boundary_error = TooShort | LengthExceeds | DecodeFailed cbor_error | NotSelfConsistent | NotAMap | UnknownKeys | NoSolc

datatype metadata_boundary =
    NotDecoded boundary_error
  | Decoded (region_start: nat) (region_size: nat)

definition boundary_ok :: "metadata_boundary \<Rightarrow> bool" where
  "boundary_ok b = (case b of Decoded _ _ \<Rightarrow> True | NotDecoded _ \<Rightarrow> False)"

definition KNOWN_KEYS :: "string list" where
  "KNOWN_KEYS = [''ipfs'', ''bzzr0'', ''bzzr1'', ''solc'', ''experimental'']"

text \<open>\<open>k in obj\<close>, through the prototypes; no other prototype has the names asked for.\<close>

fun has_property :: "string \<Rightarrow> (string \<times> cbor) list \<Rightarrow> cbor_proto \<Rightarrow> bool" where
  "has_property k own p =
     (map_of own k \<noteq> None \<or> (case p of Proto (CMap own' p') \<Rightarrow> has_property k own' p' | _ \<Rightarrow> False))"

text \<open>A byte string is an object too; its indices are unknown keys, and it has no \<open>solc\<close>.\<close>

definition judge_metadata :: "nat \<Rightarrow> nat \<Rightarrow> cbor \<Rightarrow> metadata_boundary" where
  "judge_metadata start len v =
     (case v of
        CMap own p \<Rightarrow>
          if list_ex (\<lambda>e. fst e \<notin> set KNOWN_KEYS) own then NotDecoded UnknownKeys
          else if \<not> has_property ''solc'' own p then NotDecoded NoSolc
          else Decoded start len
      | CBytes bs \<Rightarrow> NotDecoded (if bs = [] then NoSolc else UnknownKeys)
      | _ \<Rightarrow> NotDecoded NotAMap)"

definition boundary_of_bytes :: "string \<Rightarrow> metadata_boundary" where
  "boundary_of_bytes buf =
     (if length buf < 2 then NotDecoded TooShort
      else let cbor_length = be_value (drop (length buf - 2) buf); cbor_end = length buf - 2
           in if cbor_end < cbor_length then NotDecoded LengthExceeds
              else let start = cbor_end - cbor_length
                   in case read_cbor_item (length buf + 1) buf start of
                        Inl e \<Rightarrow> NotDecoded (DecodeFailed e)
                      | Inr (v, consumed) \<Rightarrow>
                          if consumed \<noteq> cbor_length then NotDecoded NotSelfConsistent
                          else judge_metadata start (length buf - start) v)"

definition decode_solc_metadata_boundary :: "string \<Rightarrow> metadata_boundary option" where
  "decode_solc_metadata_boundary hex = map_option boundary_of_bytes (hex_to_buffer hex)"

section \<open>The reader's laws\<close>

declare read_cbor_item.simps [simp del] read_cbor_entries.simps [simp del]
lemmas read_cbor_simps = read_cbor_item.simps read_cbor_entries.simps

lemma read_cbor_length_bounds:
  "read_cbor_length buf off info = Inr (len, h) \<Longrightarrow> off \<le> length buf \<Longrightarrow> off + h \<le> length buf"
  by (auto simp: read_cbor_length_def read_uint_be_def Let_def split: if_splits option.splits)

lemma read_cbor_length_fuel: "read_cbor_length buf off info \<noteq> Inl OutOfFuel"
  by (auto simp: read_cbor_length_def Let_def split: option.splits)

lemma read_cbor_string_fuel: "read_cbor_string make buf off lh \<noteq> Inl OutOfFuel"
  by (auto simp: read_cbor_string_def Let_def)

lemma read_cbor_bounds:
  "read_cbor_item n buf off = Inr (v, k) \<Longrightarrow> 0 < k \<and> off + k \<le> length buf"
  "read_cbor_entries n i buf cursor obj = Inr (obj', c) \<Longrightarrow> cursor \<le> length buf \<Longrightarrow> cursor \<le> c \<and> c \<le> length buf"
proof (induction n buf off and n i buf cursor obj arbitrary: v k and obj' c rule: read_cbor_item_read_cbor_entries.induct)
  case (1 buf off)
  then show ?case by (simp add: read_cbor_simps)
next
  case (2 n buf off)
  show ?case
  proof (cases "of_char (buf ! off) div 32 = (5 :: nat)")
    case True
    then obtain len h obj cur where l: "read_cbor_length buf (off + 1) (of_char (buf ! off) mod 32) = Inr (len, h)"
      and e: "read_cbor_entries n len buf (off + 1 + h) ([], ObjectProto) = Inr (obj, cur)" and k: "k = cur - off"
      and off: "off < length buf"
      using "2.prems" by (auto simp: read_cbor_simps Let_def bindE_eq_Inr split: if_splits)
    have "off + 1 + h \<le> length buf" using read_cbor_length_bounds [OF l] off by simp
    then have "off + 1 + h \<le> cur \<and> cur \<le> length buf"
      using "2.IH" [OF _ refl refl refl] True l e off by (cases obj) fastforce
    then show ?thesis using k by simp
  next
    case False
    then show ?thesis using "2.prems"
      by (auto simp: read_cbor_simps Let_def bindE_eq_Inr read_cbor_string_def
          dest: read_cbor_length_bounds split: if_splits)
  qed
next
  case (3 n buf cursor obj)
  then show ?case by (simp add: read_cbor_simps)
next
  case (4 n i buf cursor obj)
  from "4.prems"(1) obtain key k val l s where
    r: "read_cbor_item n buf cursor = Inr (key, k)" "read_cbor_item n buf (cursor + k) = Inr (val, l)" "key_string key = Some s"
      "read_cbor_entries n i buf (cursor + k + l) (assign s val obj) = Inr (obj', c)"
    by (auto simp: read_cbor_simps bindE_eq_Inr split: option.splits)
  have a: "0 < k \<and> cursor + k \<le> length buf" using "4.IH"(1) [OF r(1)] .
  have b: "0 < l \<and> cursor + k + l \<le> length buf" using "4.IH"(2) [OF r(1) refl] r(2) by simp
  show ?case using "4.IH"(3) [OF r(1) refl r(2) refl r(3) r(4)] a b by simp
qed

lemma read_cbor_more:
  "read_cbor_item n buf off \<noteq> Inl OutOfFuel \<Longrightarrow> read_cbor_item (Suc n) buf off = read_cbor_item n buf off"
  "read_cbor_entries n i buf cursor obj \<noteq> Inl OutOfFuel \<Longrightarrow>
     read_cbor_entries (Suc n) i buf cursor obj = read_cbor_entries n i buf cursor obj"
proof (induction n buf off and n i buf cursor obj rule: read_cbor_item_read_cbor_entries.induct)
  case (1 buf off)
  then show ?case by (simp add: read_cbor_simps)
next
  case (2 n buf off)
  show ?case
  proof (cases "off < length buf \<and> of_char (buf ! off) div 32 = (5 :: nat)")
    case True
    show ?thesis
    proof (cases "read_cbor_length buf (off + 1) (of_char (buf ! off) mod 32)")
      case (Inl e)
      then show ?thesis using True by (simp add: read_cbor_simps(2) Let_def)
    next
      case (Inr lh)
      then have "read_cbor_entries n (fst lh) buf (off + 1 + snd lh) ([], ObjectProto) \<noteq> Inl OutOfFuel"
        using "2.prems" True by (cases lh) (auto simp: read_cbor_simps(2) Let_def)
      then have "read_cbor_entries (Suc n) (fst lh) buf (off + 1 + snd lh) ([], ObjectProto) =
          read_cbor_entries n (fst lh) buf (off + 1 + snd lh) ([], ObjectProto)"
        using "2.IH" [OF _ refl refl refl] True Inr by (cases lh) fastforce
      then show ?thesis using True Inr by (cases lh) (simp add: read_cbor_simps(2) Let_def)
    qed
  next
    case False
    then show ?thesis by (auto simp: read_cbor_simps(2) Let_def)
  qed
next
  case (3 n buf cursor obj)
  then show ?case by (simp add: read_cbor_simps)
next
  case (4 n i buf cursor obj)
  have a: "read_cbor_item (Suc n) buf cursor = read_cbor_item n buf cursor"
    using "4.IH"(1) "4.prems" by (cases "read_cbor_item n buf cursor = Inl OutOfFuel") (simp_all add: read_cbor_simps(4))
  show ?case
  proof (cases "read_cbor_item n buf cursor")
    case (Inl e)
    then show ?thesis using a by (simp add: read_cbor_simps(4))
  next
    case (Inr kk)
    have b: "read_cbor_item (Suc n) buf (cursor + snd kk) = read_cbor_item n buf (cursor + snd kk)"
      using "4.IH"(2) [OF Inr, of "fst kk" "snd kk"] "4.prems" Inr
      by (cases kk; cases "read_cbor_item n buf (cursor + snd kk) = Inl OutOfFuel") (simp_all add: read_cbor_simps(4))
    show ?thesis
    proof (cases "read_cbor_item n buf (cursor + snd kk)")
      case (Inl e)
      then show ?thesis using a b Inr by (cases kk) (simp add: read_cbor_simps(4))
    next
      case inner: (Inr vl)
      show ?thesis
      proof (cases "key_string (fst kk)")
        case None
        then show ?thesis using a b Inr inner by (cases kk; cases vl) (simp add: read_cbor_simps(4))
      next
        case (Some s)
        have "read_cbor_entries (Suc n) i buf (cursor + snd kk + snd vl) (assign s (fst vl) obj) =
            read_cbor_entries n i buf (cursor + snd kk + snd vl) (assign s (fst vl) obj)"
          using "4.IH"(3) [OF Inr _ inner, of "fst kk" "fst vl" "snd vl" s] "4.prems" Inr inner Some
          by (cases kk; cases vl) (simp add: read_cbor_simps(4))
        then show ?thesis using a b Inr inner Some by (cases kk; cases vl) (simp add: read_cbor_simps(4))
      qed
    qed
  qed
qed

lemma read_cbor_has_fuel:
  "length buf - off < n \<Longrightarrow> read_cbor_item n buf off \<noteq> Inl OutOfFuel"
  "cursor \<le> length buf \<Longrightarrow> length buf - cursor < n \<Longrightarrow> read_cbor_entries n i buf cursor obj \<noteq> Inl OutOfFuel"
proof (induction n buf off and n i buf cursor obj rule: read_cbor_item_read_cbor_entries.induct)
  case (1 buf off)
  then show ?case by simp
next
  case (2 n buf off)
  show ?case
  proof (cases "off < length buf \<and> of_char (buf ! off) div 32 = (5 :: nat)")
    case True
    show ?thesis
    proof (cases "read_cbor_length buf (off + 1) (of_char (buf ! off) mod 32)")
      case (Inl e)
      then show ?thesis using True read_cbor_length_fuel by (simp add: read_cbor_simps(2) Let_def) metis
    next
      case (Inr lh)
      have "off + 1 + snd lh \<le> length buf" using Inr True read_cbor_length_bounds [of buf "off + 1" _ "fst lh" "snd lh"] by simp
      moreover have "length buf - (off + 1 + snd lh) < n" using "2.prems" True by linarith
      ultimately have "read_cbor_entries n (fst lh) buf (off + 1 + snd lh) ([], ObjectProto) \<noteq> Inl OutOfFuel"
        using "2.IH" [OF _ refl refl refl] True Inr by (cases lh) fastforce
      then show ?thesis using True Inr by (cases lh) (auto simp: read_cbor_simps(2) Let_def bindE_eq_Inl)
    qed
  next
    case False
    then show ?thesis using read_cbor_length_fuel read_cbor_string_fuel
      by (auto simp: read_cbor_simps(2) Let_def bindE_eq_Inl split: prod.splits)
  qed
next
  case (3 n buf cursor obj)
  then show ?case by (simp add: read_cbor_simps)
next
  case (4 n i buf cursor obj)
  have a: "read_cbor_item n buf cursor \<noteq> Inl OutOfFuel" using "4.IH"(1) "4.prems" by simp
  have b: "read_cbor_item n buf (cursor + k) \<noteq> Inl OutOfFuel" if "read_cbor_item n buf cursor = Inr (key, k)" for key k
    using "4.IH"(2) [OF that refl] "4.prems"(2) by simp
  have c: "read_cbor_entries n i buf (cursor + k + l) (assign s val obj) \<noteq> Inl OutOfFuel"
    if "read_cbor_item n buf cursor = Inr (key, k)" "read_cbor_item n buf (cursor + k) = Inr (val, l)" "key_string key = Some s"
    for key k val l s
    using "4.IH"(3) [OF that(1) refl that(2) refl that(3)] read_cbor_bounds(1) [OF that(1)] read_cbor_bounds(1) [OF that(2)]
      "4.prems"(2) by simp
  show ?case using a b c by (auto simp: read_cbor_simps(4) bindE_eq_Inl split: option.splits)
qed

text \<open>The fuel \<open>boundary_of_bytes\<close> gives: any more gives the same.\<close>

lemma read_fuel_enough:
  "read_cbor_item (length buf + 1 + k) buf off = read_cbor_item (length buf + 1) buf off"
proof (induction k)
  case (Suc k)
  have "read_cbor_item (length buf + 1 + k) buf off \<noteq> Inl OutOfFuel" by (rule read_cbor_has_fuel) simp
  from read_cbor_more(1) [OF this] Suc show ?case by simp
qed simp

lemma read_uint_be_append [simp]: "read_uint_be k (pre @ buf) (length pre + off) = read_uint_be k buf off"
  by (simp add: read_uint_be_def)

lemma read_cbor_length_append [simp]:
  "read_cbor_length (pre @ buf) (Suc (length pre + off)) info = read_cbor_length buf (Suc off) info"
  using read_uint_be_append [of _ pre buf "Suc off"] by (simp add: read_cbor_length_def)

lemma read_cbor_length_append_commuted:
  "read_cbor_length (pre @ buf) (Suc (off + length pre)) info = read_cbor_length buf (Suc off) info"
  using read_cbor_length_append [of pre buf off] by (simp add: add.commute)

lemma read_cbor_string_append [simp]:
  "read_cbor_string make (pre @ buf) (length pre + off) = read_cbor_string make buf off"
  by (rule ext) (auto simp: read_cbor_string_def Let_def)

lemma read_cbor_append:
  "read_cbor_item n (pre @ buf) (length pre + off) = read_cbor_item n buf off"
  "read_cbor_entries n i (pre @ buf) (length pre + cursor) obj =
     map_sum (\<lambda>e. e) (\<lambda>p. (fst p, length pre + snd p)) (read_cbor_entries n i buf cursor obj)"
proof (induction n buf off and n i buf cursor obj rule: read_cbor_item_read_cbor_entries.induct)
  case (1 buf off)
  then show ?case by (simp add: read_cbor_simps)
next
  case (2 n buf off)
  show ?case
  proof (cases "off < length buf \<and> of_char (buf ! off) div 32 = (5 :: nat)")
    case True
    show ?thesis
    proof (cases "read_cbor_length buf (off + 1) (of_char (buf ! off) mod 32)")
      case (Inl e)
      then show ?thesis using True by (simp add: read_cbor_simps(2) Let_def nth_append)
    next
      case (Inr lh)
      have "read_cbor_entries n (fst lh) (pre @ buf) (length pre + (off + 1 + snd lh)) ([], ObjectProto) =
          map_sum (\<lambda>e. e) (\<lambda>p. (fst p, length pre + snd p)) (read_cbor_entries n (fst lh) buf (off + 1 + snd lh) ([], ObjectProto))"
        using "2.IH" [OF _ refl refl refl] True Inr by (cases lh) fastforce
      then show ?thesis using True Inr
        by (cases lh; cases "read_cbor_entries n (fst lh) buf (off + 1 + snd lh) ([], ObjectProto)")
          (auto simp: read_cbor_simps(2) Let_def nth_append ac_simps read_cbor_length_append_commuted)
    qed
  next
    case False
    then show ?thesis by (auto simp: read_cbor_simps(2) Let_def nth_append)
  qed
next
  case (3 n buf cursor obj)
  then show ?case by (simp add: read_cbor_simps)
next
  case (4 n i buf cursor obj)
  show ?case
  proof (cases "read_cbor_item n buf cursor")
    case (Inl e)
    then show ?thesis using "4.IH"(1) by (simp add: read_cbor_simps(4))
  next
    case (Inr kk)
    have b: "read_cbor_item n (pre @ buf) (length pre + (cursor + snd kk)) = read_cbor_item n buf (cursor + snd kk)"
      using "4.IH"(2) [OF Inr, of "fst kk" "snd kk"] by simp
    show ?thesis
    proof (cases "read_cbor_item n buf (cursor + snd kk)")
      case (Inl e)
      then show ?thesis using "4.IH"(1) b Inr by (cases kk) (simp add: read_cbor_simps(4) ac_simps)
    next
      case inner: (Inr vl)
      have c: "read_cbor_entries n i (pre @ buf) (length pre + (cursor + snd kk + snd vl)) (assign s (fst vl) obj) =
          map_sum (\<lambda>e. e) (\<lambda>p. (fst p, length pre + snd p)) (read_cbor_entries n i buf (cursor + snd kk + snd vl) (assign s (fst vl) obj))"
        if "key_string (fst kk) = Some s" for s
        using "4.IH"(3) [OF Inr _ inner, of "fst kk" "fst vl" "snd vl" s] that by simp
      show ?thesis using "4.IH"(1) b c Inr inner
        by (cases kk; cases vl; cases "key_string (fst kk)") (auto simp: read_cbor_simps(4) ac_simps)
    qed
  qed
qed

section \<open>The boundary's laws\<close>

lemma judge_metadata_Decoded: "judge_metadata s l v = Decoded s' l' \<Longrightarrow> s' = s \<and> l' = l"
  by (auto simp: judge_metadata_def split: cbor.splits if_splits)

lemma judge_metadata_ok: "judge_metadata s l v = Decoded s l \<longleftrightarrow> judge_metadata s' l' v = Decoded s' l'"
  by (auto simp: judge_metadata_def split: cbor.splits if_splits)

lemma boundary_shape:
  "boundary_of_bytes buf = Decoded s l \<longleftrightarrow>
     (\<exists>v. length buf = s + l \<and> 2 \<le> l \<and> be_value (drop (length buf - 2) buf) = l - 2 \<and>
        read_cbor_item (length buf + 1) buf s = Inr (v, l - 2) \<and> judge_metadata s l v = Decoded s l)"
  (is "?L \<longleftrightarrow> ?R")
proof
  assume L: ?L
  let ?n = "be_value (drop (length buf - 2) buf)"
  have n: "2 \<le> length buf" "?n \<le> length buf - 2" using L by (auto simp: boundary_of_bytes_def Let_def split: if_splits)
  obtain v where v: "read_cbor_item (length buf + 1) buf (length buf - 2 - ?n) = Inr (v, ?n)"
    "judge_metadata (length buf - 2 - ?n) (length buf - (length buf - 2 - ?n)) v = Decoded s l"
    using L n by (auto simp: boundary_of_bytes_def Let_def split: if_splits sum.splits)
  have e: "s = length buf - 2 - ?n" "l = length buf - (length buf - 2 - ?n)" using judge_metadata_Decoded [OF v(2)] by auto
  then have len: "?n = l - 2" "length buf = s + l" "2 \<le> l" using n by linarith+
  have "read_cbor_item (length buf + 1) buf s = Inr (v, l - 2)" unfolding e(1) by (subst len(1) [symmetric]) (rule v(1))
  moreover have "judge_metadata s l v = Decoded s l" using v(2) e by metis
  ultimately show ?R using len by blast
next
  assume ?R
  then obtain v where v: "length buf = s + l" "2 \<le> l" "be_value (drop (length buf - 2) buf) = l - 2"
    "read_cbor_item (length buf + 1) buf s = Inr (v, l - 2)" "judge_metadata s l v = Decoded s l" by auto
  then have "length buf - 2 - (l - 2) = s" "length buf - s = l" by simp_all
  then show ?L using v by (simp add: boundary_of_bytes_def Let_def)
qed

text \<open>Whether a region at the end is metadata depends on the region alone.\<close>

lemma boundary_local:
  "boundary_of_bytes (code @ region) = Decoded (length code) (length region) \<longleftrightarrow>
     boundary_of_bytes region = Decoded 0 (length region)"
proof -
  have "read_cbor_item (length code + length region + 1) (code @ region) (length code) =
      read_cbor_item (length region + 1) region 0"
    using read_cbor_append(1) [of "length code + length region + 1" code region 0] read_fuel_enough [of region "length code" 0]
    by (simp add: ac_simps)
  moreover have "drop (length code + length region - 2) (code @ region) = drop (length region - 2) region" if "2 \<le> length region"
    using that by simp
  ultimately show ?thesis unfolding boundary_shape
    using judge_metadata_ok [of 0 "length region" _ "length code" "length region"] by (auto simp: boundary_shape)
qed

lemma boundary_regionD:
  assumes "boundary_of_bytes buf = Decoded s l"
  shows "length buf = s + l" and "2 \<le> l" and "boundary_of_bytes (drop s buf) = Decoded 0 l"
proof -
  show a: "length buf = s + l" and "2 \<le> l" using assms by (auto simp: boundary_shape)
  then have "boundary_of_bytes (take s buf @ drop s buf) = Decoded (length (take s buf)) (length (drop s buf))"
    using assms by simp
  then show "boundary_of_bytes (drop s buf) = Decoded 0 l" unfolding boundary_local using a by simp
qed

section \<open>What solc writes\<close>

text \<open>Its canonical encoding of a map of texts and flat values, and the length after it.\<close>

definition cbor_head :: "nat \<Rightarrow> nat \<Rightarrow> string" where
  "cbor_head major n =
     (if n < 24 then [char_of (32 * major + n)]
      else if n < 256 then [char_of (32 * major + 24), char_of n]
      else [char_of (32 * major + 25), char_of (n div 256), char_of (n mod 256)])"

fun cbor_encode :: "cbor \<Rightarrow> string" where
  "cbor_encode (CNum n) = cbor_head 0 n"
| "cbor_encode (CBytes bs) = cbor_head 2 (length bs) @ bs"
| "cbor_encode (CText t) = cbor_head 3 (length t) @ t"
| "cbor_encode (CBool b) = [char_of (if b then 0xF5 else 0xF4 :: nat)]"
| "cbor_encode CNull = [char_of (0xF6 :: nat)]"
| "cbor_encode (CMap own p) = []"

fun flat_value :: "cbor \<Rightarrow> bool" where
  "flat_value (CNum n) = (n < 65536)"
| "flat_value (CBytes bs) = (length bs < 65536)"
| "flat_value (CText t) = (length t < 65536)"
| "flat_value (CMap own p) = False"
| "flat_value _ = True"

definition encode_fields :: "(string \<times> cbor) list \<Rightarrow> string" where
  "encode_fields fields = concat (map (\<lambda>(k, v). cbor_encode (CText k) @ cbor_encode v) fields)"

definition metadata_trailer :: "(string \<times> cbor) list \<Rightarrow> string" where
  "metadata_trailer fields =
     (let e = cbor_head 5 (length fields) @ encode_fields fields
      in e @ [char_of (length e div 256), char_of (length e mod 256)])"

lemma of_char_of [simp]: "of_char (char_of (n :: nat) :: char) = n mod 256"
  by simp

lemma cbor_head_read:
  assumes "n < 65536" and "major < 8"
  shows "of_char ((cbor_head major n @ rest) ! 0) div 32 = major"
    and "read_cbor_length (cbor_head major n @ rest) 1 (of_char ((cbor_head major n @ rest) ! 0) mod 32) =
      Inr (n, length (cbor_head major n) - 1)"
    and "1 \<le> length (cbor_head major n)"
proof -
  have d: "(32 * major + k) mod 256 = 32 * major + k" if "k < 32" for k
    using that assms(2) by (intro mod_less) linarith
  have e: "(32 * major + k) div 32 = major" "(32 * major + k) mod 32 = k" if "k < 32" for k
    using that by simp_all
  show "of_char ((cbor_head major n @ rest) ! 0) div 32 = major" and "1 \<le> length (cbor_head major n)"
    by (simp_all add: cbor_head_def d e)
  let ?b = "cbor_head major n @ rest"
  consider "n < 24" | "24 \<le> n" "n < 256" | "256 \<le> n" by linarith
  then show "read_cbor_length ?b 1 (of_char (?b ! 0) mod 32) = Inr (n, length (cbor_head major n) - 1)"
  proof cases
    case 1
    then show ?thesis by (simp add: cbor_head_def d e read_cbor_length_def)
  next
    case 2
    then have "read_uint_be 1 ?b 1 = Some n" by (simp add: cbor_head_def read_uint_be_def be_value_def)
    then show ?thesis using 2 by (simp add: cbor_head_def d e read_cbor_length_def)
  next
    case 3
    then have "read_uint_be 2 ?b 1 = Some (256 * (n div 256 mod 256) + n mod 256)"
      by (simp add: cbor_head_def read_uint_be_def be_value_def numeral_2_eq_2)
    moreover have "n div 256 mod 256 = n div 256" using assms(1) by (simp add: less_mult_imp_div_less)
    ultimately have "read_uint_be 2 ?b 1 = Some n" by simp
    then show ?thesis using 3 by (simp add: cbor_head_def d e read_cbor_length_def)
  qed
qed

lemma read_item_small:
  assumes "0 < length b" and "of_char (b ! 0) div 32 = major" and "major \<in> {0, 2, 3 :: nat}"
    and "read_cbor_length b 1 (of_char (b ! 0) mod 32) = Inr (m, h)"
  shows "read_cbor_item (Suc n) b 0 =
    (if major = 0 then Inr (CNum m, 1 + h)
     else read_cbor_string (if major = 2 then CBytes else CText) b 0 (m, h))"
  using assms by (auto simp: read_cbor_simps(2) Let_def)

lemma read_string_after:
  assumes "1 \<le> length h"
  shows "read_cbor_string make (h @ bs @ rest) 0 (length bs, length h - 1) = Inr (make bs, length h + length bs)"
proof -
  have "0 + 1 + (length h - 1) = length h" using assms by simp
  then show ?thesis unfolding read_cbor_string_def snd_conv fst_conv Let_def by (simp del: One_nat_def)
qed

lemma read_flat:
  assumes "flat_value v"
  shows "read_cbor_item (Suc n) (cbor_encode v @ rest) 0 = Inr (v, length (cbor_encode v))"
proof -
  have h: "read_cbor_item (Suc n) (cbor_head major m @ rest') 0 =
      (if major = 0 then Inr (CNum m, 1 + (length (cbor_head major m) - 1))
       else read_cbor_string (if major = 2 then CBytes else CText) (cbor_head major m @ rest') 0
         (m, length (cbor_head major m) - 1))"
    if "m < 65536" "major \<in> {0, 2, 3}" for major m rest'
  proof -
    have "major < 8" using that(2) by auto
    note r = cbor_head_read(1,2) [OF that(1) this, of rest']
    have "0 < length (cbor_head major m @ rest')" using cbor_head_read(3) [OF that(1) \<open>major < 8\<close>] by auto
    then show ?thesis by (rule read_item_small [OF _ r(1) that(2) r(2)])
  qed
  show ?thesis
  proof (cases v)
    case (CNum m)
    then show ?thesis using assms h [of m 0 rest] cbor_head_read(3) [of m 0] by simp
  next
    case (CBytes bs)
    then show ?thesis using assms h [of "length bs" 2 "bs @ rest"]
        read_string_after [OF cbor_head_read(3) [of "length bs" 2], of CBytes bs rest] by simp
  next
    case (CText t)
    then show ?thesis using assms h [of "length t" 3 "t @ rest"]
        read_string_after [OF cbor_head_read(3) [of "length t" 3], of CText t rest] by simp
  qed (use assms in \<open>auto simp: read_cbor_simps(2)\<close>)
qed

lemma read_flat_at:
  "flat_value v \<Longrightarrow> read_cbor_item (Suc n) (pre @ cbor_encode v @ rest) (length pre) = Inr (v, length (cbor_encode v))"
  using read_cbor_append(1) [of "Suc n" pre "cbor_encode v @ rest" 0] read_flat [of v n rest] by simp

lemma read_fields:
  assumes "list_all (\<lambda>e. flat_value (CText (fst e)) \<and> flat_value (snd e)) fields"
    and "distinct (map fst (own @ fields))" and "''__proto__'' \<notin> set (map fst fields)"
  shows "read_cbor_entries (Suc n) (length fields) (pre @ encode_fields fields @ rest) (length pre) (own, ObjectProto) =
    Inr ((own @ fields, ObjectProto), length pre + length (encode_fields fields))"
  using assms
proof (induction fields arbitrary: own pre)
  case Nil
  then show ?case by (simp add: read_cbor_simps(3) encode_fields_def)
next
  case (Cons e fields)
  obtain k v where e: "e = (k, v)" by force
  let ?k = "cbor_encode (CText k)" and ?v = "cbor_encode v"
  have buf: "pre @ encode_fields (e # fields) @ rest = pre @ ?k @ ?v @ encode_fields fields @ rest"
    by (simp add: encode_fields_def e)
  have f: "flat_value (CText k)" "flat_value v" using Cons.prems(1) e by simp_all
  have a: "read_cbor_item (Suc n) (pre @ ?k @ ?v @ encode_fields fields @ rest) (length pre) = Inr (CText k, length ?k)"
    using f(1) by (rule read_flat_at)
  have b: "read_cbor_item (Suc n) (pre @ ?k @ ?v @ encode_fields fields @ rest) (length pre + length ?k) = Inr (v, length ?v)"
    using read_flat_at [OF f(2), of n "pre @ ?k" "encode_fields fields @ rest"] by simp
  have "map_of own k = None" using Cons.prems(2) e by (simp add: map_of_eq_None_iff)
  then have as: "assign k v (own, ObjectProto) = (own @ [(k, v)], ObjectProto)"
    using Cons.prems(3) e by (auto simp: assign_def set_own_def)
  have "read_cbor_entries (Suc n) (length fields) ((pre @ ?k @ ?v) @ encode_fields fields @ rest)
      (length (pre @ ?k @ ?v)) (own @ [(k, v)], ObjectProto) =
      Inr (((own @ [(k, v)]) @ fields, ObjectProto), length (pre @ ?k @ ?v) + length (encode_fields fields))"
    by (rule Cons.IH) (use Cons.prems e in \<open>simp_all\<close>)
  then show ?case using a b as
    by (simp add: buf read_cbor_simps(4) e encode_fields_def add.assoc)
qed

lemma boundary_of_trailer:
  assumes "list_all (\<lambda>e. flat_value (snd e)) fields" and "distinct (map fst fields)"
    and known: "set (map fst fields) \<subseteq> set KNOWN_KEYS" and solc: "''solc'' \<in> set (map fst fields)"
    and small: "length (cbor_head 5 (length fields) @ encode_fields fields) < 65536"
  shows "boundary_of_bytes (code @ metadata_trailer fields) =
    Decoded (length code) (length (metadata_trailer fields))"
proof -
  let ?h = "cbor_head 5 (length fields)"
  let ?e = "?h @ encode_fields fields"
  let ?r = "metadata_trailer fields"
  have kb: "length k \<le> 12 \<and> k \<noteq> ''__proto__''" if "k \<in> set KNOWN_KEYS" for k
    using that by (auto simp: KNOWN_KEYS_def)
  have m: "length fields < 65536"
  proof -
    have "card (set (map fst fields)) \<le> card (set KNOWN_KEYS)" using known by (intro card_mono) auto
    then have "length fields \<le> length KNOWN_KEYS" using distinct_card [OF assms(2)] card_length [of KNOWN_KEYS] by simp
    then show ?thesis by (simp add: KNOWN_KEYS_def)
  qed
  obtain t where r: "?r = ?h @ encode_fields fields @ t" and lr: "length ?r = length ?e + 2"
    by (simp add: metadata_trailer_def Let_def)
  have "list_all (\<lambda>e. flat_value (CText (fst e)) \<and> flat_value (snd e)) fields"
    using assms(1) known kb by (fastforce simp: list_all_iff)
  moreover have "''__proto__'' \<notin> set (map fst fields)" using known kb by blast
  ultimately have en: "read_cbor_entries (Suc n) (length fields) ?r (length ?h) ([], ObjectProto) =
      Inr ((fields, ObjectProto), length ?e)" for n
    using read_fields [of fields "[]" n ?h t] assms(2) r by simp
  have hd: "of_char (?r ! 0) div 32 = (5 :: nat)" "read_cbor_length ?r 1 (of_char (?r ! 0) mod 32) = Inr (length fields, length ?h - 1)"
    "1 \<le> length ?h"
    using cbor_head_read(1,2) [OF m, of 5 "encode_fields fields @ t"] cbor_head_read(3) [OF m, of 5] r by simp_all
  have h1: "1 + (length ?h - 1) = length ?h" using hd(3) by simp
  have "read_cbor_item (Suc (Suc n)) ?r 0 = Inr (CMap fields ObjectProto, length ?e)" for n
    using hd en [of n] h1 lr by (simp add: read_cbor_simps(2) [of "Suc n"] Let_def)
  then have item: "read_cbor_item (length ?r + 1) ?r 0 = Inr (CMap fields ObjectProto, length ?e)"
    using lr by simp
  have last2: "be_value (drop (length ?r - 2) ?r) = length ?e"
    using small lr by (simp add: metadata_trailer_def Let_def be_value_def mult.commute less_mult_imp_div_less)
  have "judge_metadata 0 (length ?r) (CMap fields ObjectProto) = Decoded 0 (length ?r)"
    using known solc by (auto simp: judge_metadata_def list_ex_iff map_of_eq_None_iff image_iff)
  then have "boundary_of_bytes ?r = Decoded 0 (length ?r)"
    unfolding boundary_shape using item last2 lr by (intro exI [of _ "CMap fields ObjectProto"]) simp
  then show ?thesis by (simp add: boundary_local)
qed


end
