(* ===== verification/Runtime_Evidence.thy ===== *)
theory Runtime_Evidence
  imports Runtime_Metadata
begin

text \<open>
  The offline replay of a reproducibility claim, \<open>scripts/lib/reproducibility-evidence.ts\<close>: every fact recomputed from
  the evidence bundle, and the manifest's claims compared with the recomputation. The hash, ethers' padding and ABI
  encoding, \<open>JSON.stringify\<close> and git's answers are arguments. Numbers of a bundle are integers. Lookups in the
  bundle's tables find own properties only. \<open>None\<close>: the code threw.
\<close>

section \<open>The bundle\<close>

datatype derivation =
    ConstructorArgument string
  | SelfAddress
  | ChainIdWord
  | KeccakUtf8 string
  | ShortString string
  | DomainSeparator string string

record immutable_identity =
  ii_ast :: string
  ii_name :: string
  ii_derivation :: derivation
  ii_expected :: string

type_synonym byte_range = "int \<times> int"
type_synonym immutable_refs = "(string \<times> byte_range list) list"

record build_capture =
  bc_commit :: string
  bc_code :: string
  bc_refs :: immutable_refs
  bc_digests :: "(string \<times> string) list"
  bc_declared :: "string list"

record live_capture =
  lc_address :: string
  lc_chain :: int
  lc_code :: string
  lc_hash :: string

record evidence_bundle =
  eb_subject :: string
  eb_live :: live_capture
  eb_build :: build_capture
  eb_head :: build_capture
  eb_identities :: "immutable_identity list"

text \<open>ethers: \<open>keccak256\<close> of bytes, \<open>zeroPadValue(x, 32)\<close>, and the encoding of a domain separator.\<close>

record ethers_env =
  keccak :: "string \<Rightarrow> string"
  zero_pad :: "string \<Rightarrow> string option"
  abi_domain :: "string \<Rightarrow> string \<Rightarrow> string \<Rightarrow> int \<Rightarrow> string \<Rightarrow> string"

section \<open>Immutables\<close>

text \<open>\<open>encodeShortString\<close>, of the UTF-8 bytes.\<close>

definition encode_short_string :: "string \<Rightarrow> string option" where
  "encode_short_string bytes =
     (if length bytes > 31 then None
      else Some (buffer_to_hex (bytes @ replicate (31 - length bytes) (char_of (0 :: nat)) @ [char_of (length bytes)])))"

text \<open>\<open>n.toString(16)\<close>.\<close>

fun hex_string :: "nat \<Rightarrow> string" where
  "hex_string n = (if n < 16 then [nibble n] else hex_string (n div 16) @ [nibble (n mod 16)])"

declare hex_string.simps [simp del]

definition domain_type_text :: string where
  "domain_type_text = ''EIP712Domain(string name,string version,uint256 chainId,address verifyingContract)''"

definition derive_immutable :: "ethers_env \<Rightarrow> string \<Rightarrow> int \<Rightarrow> derivation \<Rightarrow> string option" where
  "derive_immutable env address chain d =
     (case d of
        ConstructorArgument v \<Rightarrow> zero_pad env (lower v)
      | SelfAddress \<Rightarrow> zero_pad env (lower address)
      | ChainIdWord \<Rightarrow> zero_pad env (''0x'' @ (if chain < 0 then ''-'' else '''') @ hex_string (nat \<bar>chain\<bar>))
      | KeccakUtf8 v \<Rightarrow> Some (keccak env v)
      | ShortString v \<Rightarrow> encode_short_string v
      | DomainSeparator name version \<Rightarrow>
          Some (keccak env (abi_domain env (keccak env domain_type_text) (keccak env name) (keccak env version) chain address)))"

definition flatten_ranges :: "immutable_refs \<Rightarrow> byte_range list" where
  "flatten_ranges refs = concat (map snd refs)"

definition in_any_range :: "nat \<Rightarrow> byte_range list \<Rightarrow> bool" where
  "in_any_range off rs \<longleftrightarrow> list_ex (\<lambda>(s, l). s \<le> int off \<and> int off < s + l) rs"

datatype authority_error =
    DuplicateIdentity | Undeclared string | NotInAst string | NoRange string | NoIdentities
  | BadStart byte_range | BadLength byte_range | PastCode byte_range | EntersMetadata byte_range
  | NoReferences string | RangesOverlap byte_range byte_range

definition error_if :: "bool \<Rightarrow> 'e \<Rightarrow> 'e list" where
  "error_if b e = (if b then [e] else [])"

fun adjacent_overlaps :: "byte_range list \<Rightarrow> authority_error list" where
  "adjacent_overlaps (p # c # rs) = error_if (fst c < fst p + snd p) (RangesOverlap p c) @ adjacent_overlaps (c # rs)"
| "adjacent_overlaps _ = []"

definition range_errors :: "nat \<Rightarrow> metadata_boundary \<Rightarrow> byte_range \<Rightarrow> authority_error list" where
  "range_errors len boundary r =
     error_if (fst r < 0) (BadStart r) @
     error_if (snd r < 1 \<or> snd r > 32) (BadLength r) @
     error_if (fst r + snd r > int len) (PastCode r) @
     error_if (boundary_ok boundary \<and> fst r + snd r > int (region_start boundary)) (EntersMetadata r)"

text \<open>A set keeps the order of insertion and the first of equal elements.\<close>

definition js_set :: "'a list \<Rightarrow> 'a list" where
  "js_set xs = rev (remdups (rev xs))"

definition authority_errors :: "immutable_refs \<Rightarrow> string list \<Rightarrow> string list \<Rightarrow> string \<Rightarrow> authority_error list" where
  "authority_errors refs declared ast code =
     (let referenced = js_set (map fst refs)
      in error_if (length (js_set declared) \<noteq> length declared) DuplicateIdentity @
         concat (map (\<lambda>i. error_if (i \<notin> set declared) (Undeclared i) @ error_if (i \<notin> set ast) (NotInAst i)) referenced) @
         concat (map (\<lambda>i. error_if (i \<notin> set referenced) (NoRange i)) (js_set declared)) @
         error_if (declared = [] \<and> referenced \<noteq> []) NoIdentities @
         concat (map (range_errors (length code) (boundary_of_bytes code)) (flatten_ranges refs)) @
         concat (map (\<lambda>(i, rs). error_if (rs = []) (NoReferences i)) refs) @
         adjacent_overlaps (sort_key fst (flatten_ranges refs)))"

definition validate_immutable_authority :: "evidence_bundle \<Rightarrow> authority_error list option" where
  "validate_immutable_authority ev =
     map_option (authority_errors (bc_refs (eb_build ev)) (map ii_ast (eb_identities ev)) (bc_declared (eb_build ev)))
       (hex_to_buffer (bc_code (eb_build ev)))"

section \<open>The facts\<close>

text \<open>\<open>buf.fill(0, start, end)\<close>: \<open>None\<close> where an index is out of range, which throws.\<close>

definition fill_zero :: "byte_range \<Rightarrow> string \<Rightarrow> string option" where
  "fill_zero r buf =
     (if fst r < 0 \<or> fst r + snd r < 0 \<or> int (length buf) < fst r + snd r then None
      else Some (take (nat (fst r)) buf @ replicate (nat (snd r)) (char_of (0 :: nat)) @ drop (nat (fst r) + nat (snd r)) buf))"

fun mask_ranges :: "string \<Rightarrow> byte_range list \<Rightarrow> string option" where
  "mask_ranges buf [] = Some buf"
| "mask_ranges buf (r # rs) = (case fill_zero r buf of None \<Rightarrow> None | Some buf \<Rightarrow> mask_ranges buf rs)"

definition boundaries_agree :: "metadata_boundary \<Rightarrow> metadata_boundary \<Rightarrow> bool" where
  "boundaries_agree a b \<longleftrightarrow>
     boundary_ok a \<and> boundary_ok b \<and> region_start a = region_start b \<and> region_size a = region_size b"

definition diff_offsets :: "string \<Rightarrow> string \<Rightarrow> nat list" where
  "diff_offsets live local =
     (if length live = length local then filter (\<lambda>i. live ! i \<noteq> local ! i) [0..<length live] else [])"

definition mask_for :: "byte_range list \<Rightarrow> bool \<Rightarrow> metadata_boundary \<Rightarrow> byte_range list" where
  "mask_for authorized agree b =
     authorized @ (if agree \<and> boundary_ok b then [(int (region_start b), int (region_size b))] else [])"

definition slice_of :: "string \<Rightarrow> byte_range \<Rightarrow> string" where
  "slice_of buf r = take (nat (snd r)) (drop (nat (fst r)) buf)"

record immutable_result =
  ir_ast :: string
  ir_name :: string
  ir_expected :: string
  ir_observed :: "string option"
  ir_agree :: bool
  ir_match :: bool

definition refs_of :: "immutable_refs \<Rightarrow> string \<Rightarrow> byte_range list" where
  "refs_of refs i = (case map_of refs i of None \<Rightarrow> [] | Some rs \<Rightarrow> rs)"

definition immutable_result_of ::
  "ethers_env \<Rightarrow> live_capture \<Rightarrow> string \<Rightarrow> immutable_refs \<Rightarrow> immutable_identity \<Rightarrow> immutable_result option" where
  "immutable_result_of env lc live refs i =
     (case refs_of refs (ii_ast i) of
        [] \<Rightarrow> Some \<lparr>ir_ast = ii_ast i, ir_name = ii_name i, ir_expected = ii_expected i, ir_observed = None,
                ir_agree = False, ir_match = False\<rparr>
      | r # rs \<Rightarrow>
          let observed = map (\<lambda>r. buffer_to_hex (slice_of live r)) (r # rs);
              agree = list_all (\<lambda>v. lower v = lower (hd observed)) observed;
              value = (if agree then Some (hd observed) else None)
          in (case derive_immutable env (lc_address lc) (lc_chain lc) (ii_derivation i) of
                None \<Rightarrow> None
              | Some derived \<Rightarrow>
                  Some \<lparr>ir_ast = ii_ast i, ir_name = ii_name i, ir_expected = derived, ir_observed = value, ir_agree = agree,
                     ir_match = (agree \<and> lower derived = lower (ii_expected i) \<and> value \<noteq> None \<and>
                       lower (the value) = lower derived)\<rparr>))"

fun all_some :: "'a option list \<Rightarrow> 'a list option" where
  "all_some [] = Some []"
| "all_some (x # xs) = (case (x, all_some xs) of (Some y, Some ys) \<Rightarrow> Some (y # ys) | _ \<Rightarrow> None)"

record derived_facts =
  df_live_bytes :: nat
  df_local_bytes :: nat
  df_head_bytes :: nat
  df_live_boundary :: metadata_boundary
  df_local_boundary :: metadata_boundary
  df_agree :: bool
  df_diffs :: "nat list"
  df_trailer_excluded :: nat
  df_executable_match :: bool
  df_metadata_match :: bool
  df_hash :: string
  df_authority :: "authority_error list"
  df_immutables :: "immutable_result list"
  df_immutables_verified :: "bool option"

definition authorized_refs :: "immutable_refs \<Rightarrow> string list \<Rightarrow> bool \<Rightarrow> immutable_refs" where
  "authorized_refs refs declared ok = filter (\<lambda>e. fst e \<in> (if ok then fst ` set refs else set declared)) refs"

definition verified_or_none :: "bool \<Rightarrow> immutable_identity list \<Rightarrow> immutable_result list \<Rightarrow> bool option" where
  "verified_or_none authority_ok ids results =
     (if ids = [] then None else Some (authority_ok \<and> list_all ir_match results))"

definition metadata_regions_match :: "metadata_boundary \<Rightarrow> metadata_boundary \<Rightarrow> string \<Rightarrow> string \<Rightarrow> bool" where
  "metadata_regions_match lb bb live local \<longleftrightarrow>
     boundaries_agree lb bb \<and> length live = length local \<and>
     drop (region_start lb) live = drop (region_start bb) local"

text \<open>\<open>deriveFactsFromEvidence\<close> once the three codes are bytes and the authority is checked.\<close>

definition facts_of_code ::
  "ethers_env \<Rightarrow> evidence_bundle \<Rightarrow> string \<Rightarrow> string \<Rightarrow> string \<Rightarrow> authority_error list \<Rightarrow> derived_facts option" where
  "facts_of_code env ev live local head authority =
     (let refs = bc_refs (eb_build ev); ids = eb_identities ev;
          lb = boundary_of_bytes live; bb = boundary_of_bytes local;
          agree = boundaries_agree lb bb; ok = (authority = []);
          authorized = flatten_ranges (authorized_refs refs (map ii_ast ids) ok);
          diffs = diff_offsets live local;
          immutable = (\<lambda>i. in_any_range i authorized);
          metadata = (\<lambda>i. agree \<and> region_start lb \<le> i);
          accounted = (length live = length local \<and> list_all (\<lambda>i. immutable i \<or> metadata i) diffs)
      in case if length live = length local then mask_ranges live (mask_for authorized agree lb) else Some live of
           None \<Rightarrow> None
         | Some live_masked \<Rightarrow>
             (case mask_ranges local (mask_for authorized agree bb) of
                None \<Rightarrow> None
              | Some local_masked \<Rightarrow>
                  (case all_some (map (immutable_result_of env (eb_live ev) live refs) ids) of
                     None \<Rightarrow> None
                   | Some results \<Rightarrow>
                       Some \<lparr>df_live_bytes = length live, df_local_bytes = length local, df_head_bytes = length head,
                         df_live_boundary = lb, df_local_boundary = bb, df_agree = agree, df_diffs = diffs,
                         df_trailer_excluded = length (filter (\<lambda>i. metadata i \<and> \<not> immutable i) diffs),
                         df_executable_match = (ok \<and> accounted \<and>
                           (length live = length local \<and> live_masked = local_masked) \<and>
                           keccak env live_masked = keccak env local_masked),
                         df_metadata_match = metadata_regions_match lb bb live local,
                         df_hash = keccak env local_masked, df_authority = authority, df_immutables = results,
                         df_immutables_verified = verified_or_none ok ids results\<rparr>)))"

definition derive_facts :: "ethers_env \<Rightarrow> evidence_bundle \<Rightarrow> derived_facts option" where
  "derive_facts env ev =
     (case (hex_to_buffer (lc_code (eb_live ev)), hex_to_buffer (bc_code (eb_build ev)), hex_to_buffer (bc_code (eb_head ev)),
            validate_immutable_authority ev) of
        (Some live, Some local, Some head, Some authority) \<Rightarrow> facts_of_code env ev live local head authority
      | _ \<Rightarrow> None)"

section \<open>Freshness of the covered sources\<close>

text \<open>
  \<open>git cat-file -e\<close>, \<open>git show commit:path\<close>, \<open>git merge-base --is-ancestor commit HEAD\<close> and \<open>git rev-parse HEAD\<close>, as
  \<open>runGit\<close> answers them.
\<close>

record git_objects =
  go_present :: "string \<Rightarrow> bool"
  go_show :: "string \<Rightarrow> string \<Rightarrow> string option"
  go_ancestor :: "string \<Rightarrow> bool"
  go_head :: bool

text \<open>A path's digest at a commit against the recorded one: missing, other, or the same.\<close>

definition digest_differs :: "ethers_env \<Rightarrow> git_objects \<Rightarrow> string \<Rightarrow> string \<times> string \<Rightarrow> bool" where
  "digest_differs env git commit e =
     (case go_show git commit (fst e) of
        None \<Rightarrow> True
      | Some blob \<Rightarrow> lower (keccak env blob) \<noteq> lower (snd e))"

datatype digest_check = CommitUnavailable | NoSources | Mismatched "string list"

text \<open>\<open>verifySourceDigestsAgainstCommit\<close>; \<open>Mismatched []\<close> is its \<open>ok\<close>.\<close>

definition verify_source_digests :: "ethers_env \<Rightarrow> git_objects \<Rightarrow> string \<Rightarrow> (string \<times> string) list \<Rightarrow> digest_check" where
  "verify_source_digests env git commit digests =
     (if \<not> go_present git commit then CommitUnavailable
      else if digests = [] then NoSources
      else Mismatched (map fst (filter (digest_differs env git commit) digests)))"

text \<open>\<open>verifyReportedCommitInPublicHistory\<close>; \<open>None\<close>: inconclusive.\<close>

definition in_public_history :: "git_objects \<Rightarrow> string \<Rightarrow> bool option" where
  "in_public_history git commit = (if go_present git commit then Some (go_ancestor git commit) else None)"

text \<open>\<open>canonicalCoveredContentDigest\<close>; \<open>stringify\<close> is \<open>JSON.stringify\<close> of the sorted pairs.\<close>

definition canonical_path :: "string \<Rightarrow> string" where
  "canonical_path path = join_with ''/'' (split_on (CHR 0x5C) path)"

fun insert_pair :: "string \<times> string \<Rightarrow> (string \<times> string) list \<Rightarrow> (string \<times> string) list" where
  "insert_pair e [] = [e]"
| "insert_pair e (f # es) = (if str_less (fst f) (fst e) \<or> fst f = fst e then f # insert_pair e es else e # f # es)"

definition covered_content_digest ::
  "ethers_env \<Rightarrow> ((string \<times> string) list \<Rightarrow> string) \<Rightarrow> (string \<times> string) list \<Rightarrow> string" where
  "covered_content_digest env stringify digests =
     keccak env (stringify (fold insert_pair (map (\<lambda>(p, d). (canonical_path p, lower d)) digests) []))"

datatype anchor = Verified | Contradicted | Unavailable

record content_check =
  cc_stale :: "bool option"
  cc_changed :: "string list"
  cc_captured :: string
  cc_head :: "string option"
  cc_anchor :: anchor

definition anchor_of :: "ethers_env \<Rightarrow> git_objects \<Rightarrow> string \<Rightarrow> (string \<times> string) list \<Rightarrow> anchor" where
  "anchor_of env git commit digests =
     (if \<not> go_present git commit then Unavailable
      else if list_ex (digest_differs env git commit) digests then Contradicted
      else if digests \<noteq> [] then Verified
      else Unavailable)"

definition verify_covered_content ::
  "ethers_env \<Rightarrow> ((string \<times> string) list \<Rightarrow> string) \<Rightarrow> git_objects \<Rightarrow> string \<Rightarrow> (string \<times> string) list \<Rightarrow> content_check" where
  "verify_covered_content env stringify git commit digests =
     (let captured = covered_content_digest env stringify digests; anchor = anchor_of env git commit digests
      in if digests = [] \<or> \<not> go_head git then
           \<lparr>cc_stale = None, cc_changed = [], cc_captured = captured, cc_head = None, cc_anchor = anchor\<rparr>
         else let changed = map fst (filter (digest_differs env git ''HEAD'') digests);
                  readable = list_all (\<lambda>e. go_show git ''HEAD'' (fst e) \<noteq> None) digests;
                  heads = map (\<lambda>e. (fst e, keccak env (the (go_show git ''HEAD'' (fst e))))) digests
              in \<lparr>cc_stale = Some (changed \<noteq> []), cc_changed = changed, cc_captured = captured,
                   cc_head = (if readable then Some (covered_content_digest env stringify heads) else None),
                   cc_anchor = anchor\<rparr>)"

section \<open>The manifest's claims\<close>

datatype evidence_error =
    SubjectDiffers | AddressDiffers | ChainDiffers | CommitDiffers | HeadCommitDiffers | CodeHashDiffers
  | HistoryInconclusive | HistoryDiffers | SourceBinding digest_check
  | FreshnessUndetermined | Stale | AnchorContradicted
  | UnrecordedArgument string | Authority authority_error
  | LiveBoundary | LocalBoundary | BoundariesDisagree
  | LiveBytes | HeadBytes | LocalBytes
  | ExecutableMatch | MetadataMatch | TrailerBytes | OutsideMetadata | BytecodeHash | ImmutablesVerified
  | ImmutableDiffers string | ManifestMissing

definition git_errors ::
  "ethers_env \<Rightarrow> ((string \<times> string) list \<Rightarrow> string) \<Rightarrow> git_objects \<Rightarrow> evidence_bundle \<Rightarrow> json \<Rightarrow> evidence_error list" where
  "git_errors env stringify git ev manifest =
     (case in_public_history git (bc_commit (eb_build ev)) of
        None \<Rightarrow> [HistoryInconclusive]
      | Some b \<Rightarrow> error_if (lookup manifest ''reportedSourceCommitInPublicHistory'' \<noteq> Some (JBool b)) HistoryDiffers) @
     (let c = verify_source_digests env git (bc_commit (eb_build ev)) (bc_digests (eb_build ev))
      in error_if (c \<noteq> Mismatched []) (SourceBinding c)) @
     (let c = verify_covered_content env stringify git (bc_commit (eb_head ev)) (bc_digests (eb_head ev))
      in (case cc_stale c of None \<Rightarrow> [FreshnessUndetermined] | Some stale \<Rightarrow> error_if stale Stale) @
         error_if (cc_anchor c = Contradicted) AnchorContradicted)"

text \<open>\<open>x != null\<close>, of a field that may be missing, and a field of a field that may be \<open>null\<close>.\<close>

definition not_null :: "json option \<Rightarrow> bool" where
  "not_null x \<longleftrightarrow> x \<noteq> None \<and> x \<noteq> Some JNull"

definition identity_errors :: "ethers_env \<Rightarrow> evidence_bundle \<Rightarrow> json \<Rightarrow> string \<Rightarrow> evidence_error list" where
  "identity_errors env ev manifest live =
     error_if (lookup manifest ''subject'' \<noteq> Some (JStr (eb_subject ev))) SubjectDiffers @
     error_if (lower (lc_address (eb_live ev)) \<noteq> lower (js_string_opt (lookup manifest ''deployedAddress''))) AddressDiffers @
     error_if (lookup manifest ''chainId'' \<noteq> Some (JNum (lc_chain (eb_live ev)))) ChainDiffers @
     error_if (lookup manifest ''reportedSourceCommit'' \<noteq> Some (JStr (bc_commit (eb_build ev)))) CommitDiffers @
     error_if (not_null (lookup manifest ''publicHeadCommit'') \<and>
       lookup manifest ''publicHeadCommit'' \<noteq> Some (JStr (bc_commit (eb_head ev)))) HeadCommitDiffers @
     error_if (lower (lc_hash (eb_live ev)) \<noteq> lower (keccak env live)) CodeHashDiffers"

definition recorded_arguments :: "json option \<Rightarrow> string list" where
  "recorded_arguments am =
     (case am of
        Some j \<Rightarrow> (case lookup j ''constructorArgs'' of Some (JArr vs) \<Rightarrow> map (\<lambda>v. lower (js_string v)) vs | _ \<Rightarrow> [])
      | None \<Rightarrow> [])"

definition argument_errors :: "json option \<Rightarrow> immutable_identity list \<Rightarrow> evidence_error list" where
  "argument_errors am ids =
     concat (map (\<lambda>i. case ii_derivation i of
         ConstructorArgument v \<Rightarrow> error_if (lower v \<notin> set (recorded_arguments am)) (UnrecordedArgument (ii_ast i))
       | _ \<Rightarrow> []) ids)"

definition outside_offsets :: "derived_facts \<Rightarrow> immutable_refs \<Rightarrow> nat list" where
  "outside_offsets f refs =
     (let b = df_live_boundary f; authorized = (if df_authority f = [] then flatten_ranges refs else [])
      in filter (\<lambda>i. \<not> (region_start b \<le> i \<and> i < region_start b + region_size b) \<and> \<not> in_any_range i authorized) (df_diffs f))"

text \<open>\<open>typeof am === "object"\<close> and not \<open>null\<close>.\<close>

fun is_object :: "json option \<Rightarrow> bool" where
  "is_object (Some (JObj _)) = True"
| "is_object (Some (JArr _)) = True"
| "is_object _ = False"

definition artifact_errors :: "derived_facts \<Rightarrow> immutable_refs \<Rightarrow> json \<Rightarrow> evidence_error list" where
  "artifact_errors f refs am =
     error_if (lookup am ''executableBytecodeMatch'' \<noteq> Some (JBool (df_executable_match f))) ExecutableMatch @
     error_if (lookup am ''metadataHashMatch'' \<noteq> Some (JBool (df_metadata_match f))) MetadataMatch @
     (if df_metadata_match f then []
      else error_if (lookup am ''metadataTrailerBytesExcluded'' \<noteq> Some (JNum (int (df_trailer_excluded f)))) TrailerBytes @
           error_if (df_agree f \<and> outside_offsets f refs \<noteq> []) OutsideMetadata) @
     error_if (lookup am ''bytecodeHash'' \<noteq> Some (JStr (df_hash f))) BytecodeHash @
     (case df_immutables_verified f of
        None \<Rightarrow> []
      | Some b \<Rightarrow>
          error_if (lookup am ''immutableValuesIndependentlyVerified'' \<noteq> Some (JBool b)) ImmutablesVerified @
          concat (map (\<lambda>r. error_if (\<not> ir_match r) (ImmutableDiffers (ir_ast r))) (df_immutables f)))"

definition check_evidence_against_manifest ::
  "ethers_env \<Rightarrow> ((string \<times> string) list \<Rightarrow> string) \<Rightarrow> git_objects option \<Rightarrow> evidence_bundle \<Rightarrow> json \<Rightarrow>
   (evidence_error list \<times> derived_facts) option" where
  "check_evidence_against_manifest env stringify git ev manifest =
     (case (if starts_with (lc_code (eb_live ev)) ''0x'' then hex_to_buffer (lc_code (eb_live ev)) else None,
            derive_facts env ev) of
        (Some live, Some f) \<Rightarrow>
          let am = lookup manifest ''artifactManifest''
          in Some (identity_errors env ev manifest live @
               (case git of None \<Rightarrow> [] | Some git \<Rightarrow> git_errors env stringify git ev manifest) @
               argument_errors am (eb_identities ev) @
               map Authority (df_authority f) @
               error_if (\<not> boundary_ok (df_live_boundary f)) LiveBoundary @
               error_if (\<not> boundary_ok (df_local_boundary f)) LocalBoundary @
               error_if (boundary_ok (df_live_boundary f) \<and> boundary_ok (df_local_boundary f) \<and> \<not> df_agree f) BoundariesDisagree @
               error_if (lookup manifest ''observedRuntimeBytes'' \<noteq> Some (JNum (int (df_live_bytes f)))) LiveBytes @
               error_if (lookup manifest ''publicHeadRuntimeBytes'' \<noteq> Some (JNum (int (df_head_bytes f)))) HeadBytes @
               error_if (lookup manifest ''reportedCommitRuntimeBytes'' \<noteq> Some (JNum (int (df_local_bytes f)))) LocalBytes @
               (if is_object am then artifact_errors f (bc_refs (eb_build ev)) (the am)
                else error_if (lookup manifest ''reproducibilityStatus'' = Some (JStr ''reproducible'')) ManifestMissing), f)
      | _ \<Rightarrow> None)"

end

