(* ===== verification/Wrapper_Build.thy ===== *)
theory Wrapper_Build
  imports Runtime_Evidence
begin

text \<open>
  The recorded builds of the wrapper and whether a deployed runtime is one of them: \<open>matchesBuild\<close> and \<open>buildMatching\<close>
  of \<open>scripts/lib/sp1-wrapper-build.ts\<close>. The fields of a record are those the match and the gates read. ethers'
  \<open>isHexString\<close> and \<open>getBytes\<close> are arguments. \<open>None\<close>: the code threw.
\<close>

record wrapper_build =
  wb_id :: string
  wb_codehash :: string
  wb_template :: string
  wb_region_start :: int
  wb_immutables :: immutable_refs

record hex_env =
  is_hex :: "string \<Rightarrow> bool"
  get_bytes :: "string \<Rightarrow> string option"

definition same_code :: "string \<Rightarrow> string \<Rightarrow> wrapper_build \<Rightarrow> bool option" where
  "same_code code reference build =
     (case (mask_ranges code (flatten_ranges (wb_immutables build)),
            mask_ranges reference (flatten_ranges (wb_immutables build))) of
        (Some c, Some r) \<Rightarrow> Some (take (nat (wb_region_start build)) c = take (nat (wb_region_start build)) r)
      | _ \<Rightarrow> None)"

definition matches_build :: "hex_env \<Rightarrow> string \<Rightarrow> wrapper_build \<Rightarrow> bool option" where
  "matches_build hex runtime build =
     (if \<not> is_hex hex runtime \<or> runtime = ''0x'' then Some False
      else case (get_bytes hex runtime, get_bytes hex (wb_template build)) of
        (Some code, Some reference) \<Rightarrow>
          if length code \<noteq> length reference then Some False
          else (case decode_solc_metadata_boundary runtime of
                  None \<Rightarrow> None
                | Some b \<Rightarrow>
                    if \<not> boundary_ok b \<or> int (region_start b) \<noteq> wb_region_start build then Some False
                    else same_code code reference build)
      | _ \<Rightarrow> None)"

text \<open>The first in a list a test that may throw accepts.\<close>

fun find_first :: "('a \<Rightarrow> bool option) \<Rightarrow> 'a list \<Rightarrow> 'a option option" where
  "find_first f [] = Some None"
| "find_first f (x # xs) = (case f x of None \<Rightarrow> None | Some b \<Rightarrow> if b then Some (Some x) else find_first f xs)"

definition build_matching :: "hex_env \<Rightarrow> string \<Rightarrow> wrapper_build list \<Rightarrow> wrapper_build option option" where
  "build_matching hex runtime builds = find_first (matches_build hex runtime) (rev builds)"

end
