(* ===== verification/Wrapper_Registry.thy ===== *)
theory Wrapper_Registry
  imports Wrapper_Build
begin

text \<open>
  The wrapper registry, an append-only log of facts: \<open>scripts/lib/sp1-registry.ts\<close>. A document is parsed JSON
  of no known shape. Checksummed addresses (\<open>getAddress\<close> of ethers, \<open>None\<close> where it throws), the hash that makes an
  identity, and \<open>JSON.parse\<close> are arguments. \<open>JSON.stringify\<close> tells any two parsed values apart, so
  \<open>same\<close> is equality.
\<close>

definition REGISTRY_SCHEMA :: string where
  "REGISTRY_SCHEMA = ''walletwall.sp1-wrapper-registry.v2''"

definition REGISTRY_V1_SCHEMA :: string where
  "REGISTRY_V1_SCHEMA = ''walletwall.sp1-wrapper-registry.v1''"

definition MIGRATED_FROM :: json where
  "MIGRATED_FROM = JObj [(''schema'', JStr REGISTRY_V1_SCHEMA), (''entries'', JNum 0)]"

definition HALT_REASONS :: "string list" where
  "HALT_REASONS =
     [''VERIFIER_SOUNDNESS'', ''PROGRAM_SOUNDNESS'', ''WRAPPER_DEFECT'', ''PRECOMPILE_CHANGE'', ''HALT_KEY_COMPROMISE'', ''OTHER'']"

definition ZERO_ADDRESS :: string where
  "ZERO_ADDRESS = ''0x0000000000000000000000000000000000000000''"

text \<open>\<open>x?.k\<close> of a value that may be \<open>undefined\<close>.\<close>

definition lookup_opt :: "json option \<Rightarrow> string \<Rightarrow> json option" where
  "lookup_opt x k = (case x of None \<Rightarrow> None | Some j \<Rightarrow> lookup j k)"

definition same :: "json option \<Rightarrow> json option \<Rightarrow> bool" where
  "same a b \<longleftrightarrow> a = b"

fun text_of :: "json option \<Rightarrow> string option" where
  "text_of (Some (JStr s)) = Some s"
| "text_of _ = None"

text \<open>\<open>/^0x[0-9a-f]{64}$/\<close> and \<open>/^[1-9][0-9]*$/\<close>.\<close>

definition is_word :: "json option \<Rightarrow> bool" where
  "is_word x \<longleftrightarrow>
     (case text_of x of None \<Rightarrow> False | Some s \<Rightarrow> rx_match (RSeq (rx_lit ''0x'') (rx_rep 64 (RCls is_lower_hex))) s)"

definition is_chain_id :: "json option \<Rightarrow> bool" where
  "is_chain_id x \<longleftrightarrow>
     (case text_of x of
        None \<Rightarrow> False
      | Some s \<Rightarrow> rx_match (RSeq (RCls (\<lambda>c. is_digit c \<and> c \<noteq> CHR ''0'')) (RStar (RCls is_digit))) s)"

definition is_checksummed :: "(string \<Rightarrow> string option) \<Rightarrow> json option \<Rightarrow> bool" where
  "is_checksummed get_address x \<longleftrightarrow> (case text_of x of None \<Rightarrow> False | Some s \<Rightarrow> get_address s = Some s)"

fun is_block :: "json option \<Rightarrow> bool" where
  "is_block (Some (JNum n)) = (0 \<le> n)"
| "is_block _ = False"

text \<open>
  \<open>Number(x)\<close>, \<open>None\<close> being \<open>NaN\<close>, and \<open>a > b\<close> with it. Texts, fractions and arrays are not converted: a block that is
  one has been reported before it is compared.
\<close>

fun js_number :: "json option \<Rightarrow> int option" where
  "js_number (Some (JNum n)) = Some n"
| "js_number (Some (JBool b)) = Some (if b then 1 else 0)"
| "js_number (Some JNull) = Some 0"
| "js_number _ = None"

definition js_greater :: "int option \<Rightarrow> int option \<Rightarrow> bool" where
  "js_greater a b \<longleftrightarrow> (case (a, b) of (Some m, Some n) \<Rightarrow> n < m | _ \<Rightarrow> False)"

section \<open>What is recorded beside the registry\<close>

record program_designation =
  pd_id :: string
  pd_program_vkey :: string
  pd_identity :: string
  pd_code_keccak :: string

section \<open>The registry's own rules\<close>

datatype fact_problem =
    Seq | ChainId | Address | ObservedAt
  | AlreadyRegistered | NamesNothing | NoBuild | NoDesignation | NotWords | NotTheIdentity | OtherDesignation
  | OtherVerifier | OtherPin | VerifierAddress | HaltPrincipal | Deployment | ObservedBeforeDeployment
  | IdentityHalted | ReplacesNothing
  | NotRegistered | OtherIdentity | HaltReason | HaltFields | HaltBeforeDeployment | ObservedBeforeHalt | HaltedTwice
  | Kind

datatype registry_problem = SchemaProblem | MigratedProblem | FactsProblem | FactProblem nat fact_problem

record halt_record =
  hr_chain :: string
  hr_address :: string
  hr_seq :: "json option"
  hr_reason :: string

text \<open>
  An identity as the key of a \<open>Map\<close>: the value and the fact it is a field of. Values that are not objects are the same
  when they are equal, an object only when it is the same one.
\<close>

type_synonym identity_key = "nat \<times> json option"

definition same_key :: "identity_key \<Rightarrow> identity_key \<Rightarrow> bool" where
  "same_key a b \<longleftrightarrow>
     (case (snd a, snd b) of
        (None, None) \<Rightarrow> True
      | (Some x, Some y) \<Rightarrow> strict_eq x y \<or> a = b
      | _ \<Rightarrow> False)"

text \<open>\<open>registered\<close>, with the number of each fact, and \<open>haltedIdentities\<close>.\<close>

record registry_scan =
  rs_registered :: "string \<rightharpoonup> nat \<times> json"
  rs_halted :: "(identity_key \<times> halt_record list) list"

definition halts_at :: "registry_scan \<Rightarrow> identity_key \<Rightarrow> halt_record list" where
  "halts_at s k = (case find (\<lambda>e. same_key (fst e) k) (rs_halted s) of None \<Rightarrow> [] | Some e \<Rightarrow> snd e)"

definition set_halts :: "identity_key \<Rightarrow> halt_record list \<Rightarrow> registry_scan \<Rightarrow> registry_scan" where
  "set_halts k hs s =
     s\<lparr>rs_halted := (k, hs) # filter (\<lambda>e. \<not> same_key (fst e) k) (rs_halted s)\<rparr>"

definition problem_if :: "bool \<Rightarrow> 'p \<Rightarrow> 'p list" where
  "problem_if b p = (if b then [p] else [])"

definition fact_key :: "string \<Rightarrow> string \<Rightarrow> string" where
  "fact_key chain address = chain @ '':'' @ address"

definition observed_at :: "json \<Rightarrow> string \<Rightarrow> json option" where
  "observed_at f = lookup_opt (lookup f ''observedAt'')"

definition registration_problems ::
  "(string \<Rightarrow> string option) \<Rightarrow> (string \<Rightarrow> string \<Rightarrow> string) \<Rightarrow> wrapper_build list option \<Rightarrow>
   program_designation list option \<Rightarrow> registry_scan \<Rightarrow> nat \<Rightarrow> string \<Rightarrow> string \<Rightarrow> json \<Rightarrow> fact_problem list" where
  "registration_problems get_address identity_of builds designations s i chain address f =
     (let build = (case builds of None \<Rightarrow> None
                   | Some bs \<Rightarrow> find (\<lambda>b. lookup f ''wrapperBuild'' = Some (JStr (wb_id b))) bs);
          d = (case designations of None \<Rightarrow> None
               | Some ds \<Rightarrow> find (\<lambda>d. lookup f ''designation'' = Some (JStr (pd_id d))) ds);
          code = lookup_opt (lookup f ''sp1Verifier'') ''runtimeCodeKeccak''; vkey = lookup f ''programVKey'';
          deployment = lookup_opt (lookup f ''deployment'')
      in problem_if (rs_registered s (fact_key chain address) \<noteq> None) AlreadyRegistered @
         problem_if (text_of (lookup f ''wrapperBuild'') = None \<or> text_of (lookup f ''designation'') = None) NamesNothing @
         problem_if (builds \<noteq> None \<and> build = None) NoBuild @
         problem_if (designations \<noteq> None \<and> d = None) NoDesignation @
         (if \<not> is_word code \<or> \<not> is_word vkey then [NotWords]
          else problem_if (lookup f ''identity'' \<noteq>
                 Some (JStr (identity_of (the (text_of code)) (the (text_of vkey))))) NotTheIdentity) @
         (case d of None \<Rightarrow> []
          | Some d \<Rightarrow>
              problem_if (vkey \<noteq> Some (JStr (pd_program_vkey d)) \<or>
                lookup f ''identity'' \<noteq> Some (JStr (pd_identity d))) OtherDesignation @
              problem_if (code \<noteq> Some (JStr (pd_code_keccak d))) OtherVerifier) @
         (case build of None \<Rightarrow> [] | Some b \<Rightarrow> problem_if (code \<noteq> Some (JStr (wb_codehash b))) OtherPin) @
         problem_if (\<not> is_checksummed get_address (lookup_opt (lookup f ''sp1Verifier'') ''address'')) VerifierAddress @
         problem_if (\<not> is_checksummed get_address (lookup f ''haltPrincipal'') \<or>
           lookup f ''haltPrincipal'' = Some (JStr ZERO_ADDRESS)) HaltPrincipal @
         (if \<not> is_word (deployment ''txHash'') \<or> \<not> is_block (deployment ''block'') \<or>
             \<not> is_checksummed get_address (deployment ''deployer'') then [Deployment]
          else problem_if (is_block (observed_at f ''block'') \<and>
                 js_greater (js_number (deployment ''block'')) (js_number (observed_at f ''block'')))
                 ObservedBeforeDeployment) @
         problem_if (halts_at s (i, lookup f ''identity'') \<noteq> []) IdentityHalted @
         (case lookup f ''replaces'' of None \<Rightarrow> [] | Some JNull \<Rightarrow> []
          | Some r \<Rightarrow> problem_if
              (rs_registered s (fact_key chain (js_string_opt (lookup r ''address''))) = None) ReplacesNothing))"

definition halt_problems :: "registry_scan \<Rightarrow> nat \<Rightarrow> nat \<times> json \<Rightarrow> string \<Rightarrow> string \<Rightarrow> json \<Rightarrow> fact_problem list" where
  "halt_problems s i registration chain address f =
     (let halt = lookup_opt (lookup f ''halt'');
          identity = lookup (snd registration) ''identity''
      in problem_if (\<not> same_key (i, lookup f ''identity'') (fst registration, identity)) OtherIdentity @
         problem_if (js_string_opt (lookup f ''reason'') \<notin> set HALT_REASONS) HaltReason @
         (if \<not> is_word (halt ''txHash'') \<or> \<not> is_block (halt ''block'') then [HaltFields]
          else if js_greater (js_number (lookup_opt (lookup (snd registration) ''deployment'') ''block''))
                 (js_number (halt ''block'')) then [HaltBeforeDeployment]
          else problem_if (is_block (observed_at f ''block'') \<and>
                 js_greater (js_number (halt ''block'')) (js_number (observed_at f ''block''))) ObservedBeforeHalt) @
         problem_if (list_ex (\<lambda>h. hr_chain h = chain \<and> hr_address h = address)
           (halts_at s (fst registration, identity))) HaltedTwice)"

text \<open>One fact, the \<open>i\<close>th counted from 0; a fact without a chain or an address says nothing more.\<close>

definition scan_fact ::
  "(string \<Rightarrow> string option) \<Rightarrow> (string \<Rightarrow> string \<Rightarrow> string) \<Rightarrow> wrapper_build list option \<Rightarrow>
   program_designation list option \<Rightarrow> nat \<Rightarrow> json \<Rightarrow> registry_scan \<Rightarrow> fact_problem list \<times> registry_scan" where
  "scan_fact get_address identity_of builds designations i f s =
     (let numbered = problem_if (lookup f ''seq'' \<noteq> Some (JNum (int i + 1))) Seq in
      if \<not> is_chain_id (lookup f ''chainId'') then (numbered @ [ChainId], s)
      else if \<not> is_checksummed get_address (lookup f ''address'') then (numbered @ [Address], s)
      else let chain = the (text_of (lookup f ''chainId'')); address = the (text_of (lookup f ''address''));
               key = fact_key chain address;
               observed = problem_if (\<not> is_block (observed_at f ''block'') \<or> \<not> is_word (observed_at f ''blockHash'')) ObservedAt
           in if lookup f ''kind'' = Some (JStr ''WRAPPER_REGISTERED'') then
                (numbered @ observed @
                   registration_problems get_address identity_of builds designations s i chain address f,
                 s\<lparr>rs_registered := (rs_registered s)(key \<mapsto> (i, f))\<rparr>)
              else if lookup f ''kind'' = Some (JStr ''WRAPPER_HALTED'') then
                (case rs_registered s key of
                   None \<Rightarrow> (numbered @ observed @ [NotRegistered], s)
                 | Some registration \<Rightarrow>
                     let k = (fst registration, lookup (snd registration) ''identity'')
                     in (numbered @ observed @ halt_problems s i registration chain address f,
                         set_halts k (halts_at s k @
                           [\<lparr>hr_chain = chain, hr_address = address, hr_seq = lookup f ''seq'',
                             hr_reason = js_string_opt (lookup f ''reason'')\<rparr>]) s))
              else (numbered @ observed @ [Kind], s))"

fun scan_facts ::
  "(string \<Rightarrow> string option) \<Rightarrow> (string \<Rightarrow> string \<Rightarrow> string) \<Rightarrow> wrapper_build list option \<Rightarrow>
   program_designation list option \<Rightarrow> nat \<Rightarrow> json list \<Rightarrow> registry_scan \<Rightarrow> registry_problem list \<times> registry_scan" where
  "scan_facts get_address identity_of builds designations i [] s = ([], s)"
| "scan_facts get_address identity_of builds designations i (f # fs) s =
     (let (ps, s) = scan_fact get_address identity_of builds designations i f s;
          (qs, s) = scan_facts get_address identity_of builds designations (i + 1) fs s
      in (map (FactProblem i) ps @ qs, s))"

definition empty_scan :: registry_scan where
  "empty_scan = \<lparr>rs_registered = Map.empty, rs_halted = []\<rparr>"

definition registry_errors ::
  "(string \<Rightarrow> string option) \<Rightarrow> (string \<Rightarrow> string \<Rightarrow> string) \<Rightarrow> json \<Rightarrow> wrapper_build list option \<Rightarrow>
   program_designation list option \<Rightarrow> registry_problem list" where
  "registry_errors get_address identity_of doc builds designations =
     problem_if (lookup doc ''schema'' \<noteq> Some (JStr REGISTRY_SCHEMA)) SchemaProblem @
     problem_if (\<not> same (lookup doc ''migratedFrom'') (Some MIGRATED_FROM)) MigratedProblem @
     (case lookup doc ''facts'' of
        Some (JArr facts) \<Rightarrow> fst (scan_facts get_address identity_of builds designations 0 facts empty_scan)
      | _ \<Rightarrow> [FactsProblem])"

section \<open>The state the facts publish\<close>

text \<open>\<open>registryState\<close>; a fact that is \<open>null\<close> makes it throw, and so does an address \<open>getAddress\<close> refuses. \<open>None\<close>: it threw.\<close>

definition facts_of :: "json \<Rightarrow> json list" where
  "facts_of doc = (case lookup doc ''facts'' of Some (JArr fs) \<Rightarrow> fs | _ \<Rightarrow> [])"

definition of_kind :: "string \<Rightarrow> json list \<Rightarrow> json list" where
  "of_kind kind = filter (\<lambda>f. lookup f ''kind'' = Some (JStr kind))"

definition registry_state :: "json \<Rightarrow> (json list \<times> json list) option" where
  "registry_state doc =
     (if JNull \<in> set (facts_of doc) then None
      else Some (of_kind ''WRAPPER_REGISTERED'' (facts_of doc), of_kind ''WRAPPER_HALTED'' (facts_of doc)))"

definition on_chain :: "string \<Rightarrow> json list \<Rightarrow> json list" where
  "on_chain chain = filter (\<lambda>f. lookup f ''chainId'' = Some (JStr chain))"

definition registered_on :: "json list \<Rightarrow> string \<Rightarrow> json option list" where
  "registered_on registrations chain = map (\<lambda>f. lookup f ''address'') (on_chain chain registrations)"

text \<open>The first fact of a chain and an address, the address being read only when there is one of the chain.\<close>

definition first_at :: "(string \<Rightarrow> string option) \<Rightarrow> json list \<Rightarrow> string \<Rightarrow> string \<Rightarrow> json option option" where
  "first_at get_address fs chain address =
     (if on_chain chain fs = [] then Some None
      else case get_address address of
        None \<Rightarrow> None
      | Some a \<Rightarrow> Some (find (\<lambda>f. lookup f ''address'' = Some (JStr a)) (on_chain chain fs)))"

definition recorded_halted :: "(string \<Rightarrow> string option) \<Rightarrow> json list \<Rightarrow> string \<Rightarrow> string \<Rightarrow> bool option" where
  "recorded_halted get_address halts chain address =
     map_option (\<lambda>f. f \<noteq> None) (first_at get_address halts chain address)"

record identity_halt =
  ih_chain :: "json option"
  ih_address :: "json option"
  ih_seq :: "json option"
  ih_reason :: string

definition halts_of_identity :: "json list \<Rightarrow> string \<Rightarrow> identity_halt list" where
  "halts_of_identity halts identity =
     map (\<lambda>f. \<lparr>ih_chain = lookup f ''chainId'', ih_address = lookup f ''address'', ih_seq = lookup f ''seq'',
              ih_reason = js_string_opt (lookup f ''reason'')\<rparr>)
       (filter (\<lambda>f. lookup f ''identity'' = Some (JStr identity)) halts)"

section \<open>Append-only\<close>

datatype extension_problem =
    RegistryDeleted | NotJson | FirstNotV1 | EarlierNotJson | V1EntryRewritten | MigratedNonEmpty | UnknownSchema
  | SchemaLeftV2 | MigratedFromRewritten | FactRewritten | EarlierUnknownSchema

definition is_prefix :: "json option \<Rightarrow> json option \<Rightarrow> bool" where
  "is_prefix older newer \<longleftrightarrow>
     (case (older, newer) of
        (Some (JArr xs), Some (JArr ys)) \<Rightarrow> length xs \<le> length ys \<and> take (length xs) ys = xs
      | _ \<Rightarrow> False)"

definition has_schema :: "json \<Rightarrow> string \<Rightarrow> bool" where
  "has_schema j s \<longleftrightarrow> lookup j ''schema'' = Some (JStr s)"

definition document_extension :: "json \<Rightarrow> json \<Rightarrow> extension_problem list" where
  "document_extension prev next =
     (if has_schema prev REGISTRY_V1_SCHEMA then
        (if has_schema next REGISTRY_V1_SCHEMA then
           problem_if (\<not> is_prefix (lookup prev ''entries'') (lookup next ''entries'')) V1EntryRewritten
         else if has_schema next REGISTRY_SCHEMA then
           problem_if (\<not> (lookup prev ''entries'' = Some (JArr []) \<and>
             same (lookup next ''migratedFrom'') (Some MIGRATED_FROM))) MigratedNonEmpty
         else [UnknownSchema])
      else if has_schema prev REGISTRY_SCHEMA then
        (if \<not> has_schema next REGISTRY_SCHEMA then [SchemaLeftV2]
         else problem_if (\<not> same (lookup prev ''migratedFrom'') (lookup next ''migratedFrom'')) MigratedFromRewritten @
              problem_if (\<not> is_prefix (lookup prev ''facts'') (lookup next ''facts'')) FactRewritten)
      else [EarlierUnknownSchema])"

definition registry_extension_errors ::
  "(string \<Rightarrow> json option) \<Rightarrow> string option \<Rightarrow> string option \<Rightarrow> extension_problem list" where
  "registry_extension_errors parse older newer =
     (case newer of
        None \<Rightarrow> problem_if (older \<noteq> None) RegistryDeleted
      | Some n \<Rightarrow>
          (case parse n of
             None \<Rightarrow> [NotJson]
           | Some next \<Rightarrow>
               (case older of
                  None \<Rightarrow> problem_if (\<not> has_schema next REGISTRY_V1_SCHEMA) FirstNotV1
                | Some old \<Rightarrow>
                    (case parse old of
                       None \<Rightarrow> [EarlierNotJson]
                     | Some prev \<Rightarrow> document_extension prev next))))"


end
