(* ===== verification/Registry_Laws.thy ===== *)
theory Registry_Laws
  imports Wrapper_Registry "HOL-Library.Sublist"
begin

text \<open>
  What a registry without problems is, and what an extension keeps: registrations are unique, a halt is of a wrapper
  registered before it, a halted identity is never registered again; facts are only appended.
\<close>

section \<open>Facts of a registry\<close>

definition names_wrapper :: "json \<Rightarrow> string \<Rightarrow> string \<Rightarrow> string \<Rightarrow> bool" where
  "names_wrapper f chain address X \<longleftrightarrow>
     lookup f ''chainId'' = Some (JStr chain) \<and> is_chain_id (Some (JStr chain)) \<and>
     lookup f ''address'' = Some (JStr address) \<and> lookup f ''identity'' = Some (JStr X)"

definition registers :: "json \<Rightarrow> string \<Rightarrow> string \<Rightarrow> string \<Rightarrow> bool" where
  "registers f chain address X \<longleftrightarrow> lookup f ''kind'' = Some (JStr ''WRAPPER_REGISTERED'') \<and> names_wrapper f chain address X"

definition halts :: "json \<Rightarrow> string \<Rightarrow> string \<Rightarrow> string \<Rightarrow> bool" where
  "halts f chain address X \<longleftrightarrow> lookup f ''kind'' = Some (JStr ''WRAPPER_HALTED'') \<and> names_wrapper f chain address X"

lemma names_unique:
  "names_wrapper f c a X \<Longrightarrow> names_wrapper f c' a' X' \<longleftrightarrow> c' = c \<and> a' = a \<and> X' = X"
  by (auto simp: names_wrapper_def)

lemma chain_id_chars: "is_chain_id (Some (JStr chain)) \<Longrightarrow> CHR '':'' \<notin> set chain"
proof
  let ?r = "RSeq (RCls (\<lambda>c. is_digit c \<and> c \<noteq> CHR ''0'')) (RStar (RCls is_digit))"
  assume "is_chain_id (Some (JStr chain))" and mem: "CHR '':'' \<in> set chain"
  then have "rx_match ?r chain" by (simp add: is_chain_id_def)
  then have "list_all is_digit chain" by (rule rx_match_over) simp
  then have "is_digit CHR '':''" using mem by (simp add: list_all_iff)
  then show False by (simp add: is_digit_def)
qed

lemma fact_key_inject:
  assumes "is_chain_id (Some (JStr c))" and "is_chain_id (Some (JStr c'))"
  shows "fact_key c a = fact_key c' a' \<longleftrightarrow> c = c' \<and> a = a'"
proof
  assume "fact_key c a = fact_key c' a'"
  then have e: "c @ CHR '':'' # a = c' @ CHR '':'' # a'" by (simp add: fact_key_def)
  have "takeWhile (\<lambda>x. x \<noteq> CHR '':'') (d @ CHR '':'' # b) = d" if "is_chain_id (Some (JStr d))" for d b
    using chain_id_chars [OF that] by (simp add: takeWhile_tail takeWhile_append)
  from this [OF assms(1), of a] this [OF assms(2), of a'] have "c = c'" unfolding e by simp
  then show "c = c' \<and> a = a'" using e by simp
qed simp

text \<open>The registry as it should be, fact by fact; \<open>earlier\<close> are the facts before this one.\<close>

definition fact_sound :: "(string \<Rightarrow> string \<Rightarrow> string) \<Rightarrow> json list \<Rightarrow> json \<Rightarrow> bool" where
  "fact_sound identity_of earlier f \<longleftrightarrow>
     lookup f ''seq'' = Some (JNum (int (length earlier) + 1)) \<and>
     (\<exists>chain address X.
       (registers f chain address X \<and>
        (\<exists>code vkey. lookup_opt (lookup f ''sp1Verifier'') ''runtimeCodeKeccak'' = Some (JStr code) \<and>
           lookup f ''programVKey'' = Some (JStr vkey) \<and> X = identity_of code vkey) \<and>
        (\<forall>g \<in> set earlier. \<forall>Y. \<not> registers g chain address Y) \<and>
        (\<forall>g \<in> set earlier. \<forall>c a. \<not> halts g c a X)) \<or>
       (halts f chain address X \<and>
        (\<exists>g \<in> set earlier. registers g chain address X) \<and>
        (\<forall>g \<in> set earlier. \<not> halts g chain address X)))"

definition facts_sound :: "(string \<Rightarrow> string \<Rightarrow> string) \<Rightarrow> json list \<Rightarrow> bool" where
  "facts_sound identity_of fs \<longleftrightarrow> (\<forall>i < length fs. fact_sound identity_of (take i fs) (fs ! i))"

lemma facts_sound_snoc:
  "facts_sound io (fs @ [f]) \<longleftrightarrow> facts_sound io fs \<and> fact_sound io fs f"
  by (auto simp: facts_sound_def nth_append less_Suc_eq)

section \<open>The scan\<close>

text \<open>What the scan's two tables say of the facts it has seen.\<close>

definition describes :: "registry_scan \<Rightarrow> json list \<Rightarrow> bool" where
  "describes s fs \<longleftrightarrow>
     (\<forall>chain address j g. is_chain_id (Some (JStr chain)) \<longrightarrow>
        (rs_registered s (fact_key chain address) = Some (j, g) \<longleftrightarrow>
          j < length fs \<and> fs ! j = g \<and> (\<exists>X. registers g chain address X))) \<and>
     (\<forall>n X chain address.
        (\<exists>h \<in> set (halts_at s (n, Some (JStr X))). hr_chain h = chain \<and> hr_address h = address) \<longleftrightarrow>
        (\<exists>f \<in> set fs. halts f chain address X))"

lemma describes_empty: "describes empty_scan []"
  by (simp add: describes_def empty_scan_def halts_at_def)

lemma problem_if_Nil [simp]: "problem_if b p = [] \<longleftrightarrow> \<not> b"
  by (simp add: problem_if_def)

lemma text_of_Some: "text_of x = Some s \<longleftrightarrow> x = Some (JStr s)"
  by (cases "x" rule: text_of.cases) auto

lemma is_wordD: "is_word x \<Longrightarrow> \<exists>s. x = Some (JStr s)"
  by (auto simp: is_word_def text_of_Some split: option.splits)

lemma same_key_text [simp]: "same_key k (n, Some (JStr X)) \<longleftrightarrow> snd k = Some (JStr X)"
  by (cases k) (auto simp: same_key_def split: option.splits json.splits)

lemma same_key_text' [simp]: "same_key (n, Some (JStr X)) k \<longleftrightarrow> snd k = Some (JStr X)"
  by (cases k) (auto simp: same_key_def split: option.splits json.splits)

lemma halts_at_text:
  "halts_at (set_halts (m, Some (JStr Y)) hs s) (n, Some (JStr X)) =
     (if X = Y then hs else halts_at s (n, Some (JStr X)))"
proof -
  have "find (\<lambda>e. snd (fst e) = Some (JStr X)) (filter (\<lambda>e. snd (fst e) \<noteq> Some (JStr Y)) es) =
    find (\<lambda>e. snd (fst e) = Some (JStr X)) es" if "X \<noteq> Y" for es :: "(identity_key \<times> halt_record list) list"
    using that by (induction es) auto
  then show ?thesis by (simp add: halts_at_def set_halts_def)
qed

lemma halts_at_any: "halts_at s (n, Some (JStr X)) = halts_at s (m, Some (JStr X))"
  by (simp add: halts_at_def)

lemma rs_registered_set_halts [simp]: "rs_registered (set_halts k hs s) = rs_registered s"
  by (simp add: set_halts_def)

lemma scan_facts_snoc:
  "scan_facts ga io bs ds i (fs @ [f]) s =
     (let (ps, s) = scan_facts ga io bs ds i fs s; (qs, s) = scan_fact ga io bs ds (i + length fs) f s
      in (ps @ map (FactProblem (i + length fs)) qs, s))"
  by (induction fs arbitrary: i s) (simp_all add: Let_def split: prod.splits)

lemma registration_accepted:
  assumes "registration_problems ga io bs ds s i chain address f = []"
  shows "rs_registered s (fact_key chain address) = None"
    and "\<exists>code vkey. lookup_opt (lookup f ''sp1Verifier'') ''runtimeCodeKeccak'' = Some (JStr code) \<and>
      lookup f ''programVKey'' = Some (JStr vkey) \<and> lookup f ''identity'' = Some (JStr (io code vkey))"
    and "halts_at s (i, lookup f ''identity'') = []"
proof -
  let ?code = "lookup_opt (lookup f ''sp1Verifier'') ''runtimeCodeKeccak''"
  show "rs_registered s (fact_key chain address) = None" and "halts_at s (i, lookup f ''identity'') = []"
    using assms by (simp_all add: registration_problems_def Let_def del: not_None_eq not_Some_eq)
  have w: "is_word ?code" "is_word (lookup f ''programVKey'')"
    and x: "lookup f ''identity'' = Some (JStr (io (the (text_of ?code)) (the (text_of (lookup f ''programVKey'')))))"
    using assms by (simp_all add: registration_problems_def Let_def split: if_splits)
  from w obtain code vkey where "?code = Some (JStr code)" "lookup f ''programVKey'' = Some (JStr vkey)"
    using is_wordD by meson
  with x show "\<exists>code vkey. ?code = Some (JStr code) \<and> lookup f ''programVKey'' = Some (JStr vkey) \<and>
      lookup f ''identity'' = Some (JStr (io code vkey))" by simp
qed

lemma halt_accepted:
  assumes "halt_problems s i registration chain address f = []"
    and "lookup (snd registration) ''identity'' = Some (JStr X)"
  shows "lookup f ''identity'' = Some (JStr X)"
    and "\<not> (\<exists>h \<in> set (halts_at s (fst registration, Some (JStr X))). hr_chain h = chain \<and> hr_address h = address)"
  using assms by (simp_all add: halt_problems_def Let_def list_ex_iff)

lemma describes_halts:
  assumes "describes s fs"
  shows "(\<exists>h \<in> set (halts_at s (n, Some (JStr X))). hr_chain h = chain \<and> hr_address h = address) \<longleftrightarrow>
    (\<exists>f \<in> set fs. halts f chain address X)"
  using assms unfolding describes_def by blast

lemma describes_free:
  assumes "describes s fs" and "is_chain_id (Some (JStr chain))" and "rs_registered s (fact_key chain address) = None"
    and "g \<in> set fs"
  shows "\<not> registers g chain address Y"
proof
  assume r: "registers g chain address Y"
  obtain j where "j < length fs" "fs ! j = g" using assms(4) by (auto simp: in_set_conv_nth)
  moreover have "rs_registered s (fact_key chain address) = Some (j, g) \<longleftrightarrow>
      j < length fs \<and> fs ! j = g \<and> (\<exists>X. registers g chain address X)"
    using assms(1,2) unfolding describes_def by blast
  ultimately show False using r assms(3) by auto
qed

lemma describes_registeredI:
  assumes d: "describes s fs" and c: "is_chain_id (Some (JStr chain))"
    and free: "rs_registered s (fact_key chain address) = None" and r: "registers f chain address X"
  shows "describes (s\<lparr>rs_registered := (rs_registered s)(fact_key chain address \<mapsto> (length fs, f))\<rparr>) (fs @ [f])"
proof -
  have no: "\<not> registers (fs ! j) chain address Y" if "j < length fs" for j Y
    using describes_free [OF d c free] that by simp
  have h: "\<not> halts f c' a' Y" for c' a' Y using r by (auto simp: registers_def halts_def)
  have k: "registers f c' a' Y \<Longrightarrow> c' = chain \<and> a' = address" for c' a' Y
    using r by (auto simp: registers_def names_wrapper_def)
  show ?thesis unfolding describes_def
  proof (intro conjI allI impI)
    fix c' a' j g assume c': "is_chain_id (Some (JStr c'))"
    show "rs_registered (s\<lparr>rs_registered := (rs_registered s)(fact_key chain address \<mapsto> (length fs, f))\<rparr>) (fact_key c' a') = Some (j, g) \<longleftrightarrow>
      j < length (fs @ [f]) \<and> (fs @ [f]) ! j = g \<and> (\<exists>X. registers g c' a' X)"
    proof (cases "c' = chain \<and> a' = address")
      case True
      then show ?thesis using no r by (auto simp: nth_append less_Suc_eq)
    next
      case False
      then have "fact_key c' a' \<noteq> fact_key chain address" using fact_key_inject [OF c' c] by auto
      moreover have "\<not> registers f c' a' Y" for Y using False k by auto
      ultimately show ?thesis using d c' by (auto simp: describes_def nth_append less_Suc_eq)
    qed
  next
    fix n X c' a'
    show "(\<exists>h\<in>set (halts_at (s\<lparr>rs_registered := (rs_registered s)(fact_key chain address \<mapsto> (length fs, f))\<rparr>) (n, Some (JStr X))).
        hr_chain h = c' \<and> hr_address h = a') \<longleftrightarrow> (\<exists>f\<in>set (fs @ [f]). halts f c' a' X)"
      using d h by (simp add: describes_def halts_at_def)
  qed
qed

lemma describes_haltI:
  assumes d: "describes s fs" and h: "halts f chain address X"
    and r: "hr_chain r = chain" "hr_address r = address"
  shows "describes (set_halts (m, Some (JStr X)) (halts_at s (m, Some (JStr X)) @ [r]) s) (fs @ [f])"
  unfolding describes_def
proof (intro conjI allI impI)
  fix c' a' j g assume "is_chain_id (Some (JStr c'))"
  moreover have "\<not> registers f c' a' Y" for Y using h by (auto simp: registers_def halts_def)
  ultimately show "rs_registered (set_halts (m, Some (JStr X)) (halts_at s (m, Some (JStr X)) @ [r]) s) (fact_key c' a') = Some (j, g) \<longleftrightarrow>
      j < length (fs @ [f]) \<and> (fs @ [f]) ! j = g \<and> (\<exists>X. registers g c' a' X)"
    using d by (auto simp: describes_def nth_append less_Suc_eq)
next
  fix n Y c' a'
  have old: "(\<exists>h\<in>set (halts_at s (k, Some (JStr Y))). hr_chain h = c' \<and> hr_address h = a') \<longleftrightarrow> (\<exists>f\<in>set fs. halts f c' a' Y)" for k
    using d by (simp add: describes_def)
  have new: "halts f c' a' Y \<longleftrightarrow> c' = chain \<and> a' = address \<and> Y = X"
    using h by (auto simp: halts_def names_wrapper_def)
  show "(\<exists>h\<in>set (halts_at (set_halts (m, Some (JStr X)) (halts_at s (m, Some (JStr X)) @ [r]) s) (n, Some (JStr Y))).
      hr_chain h = c' \<and> hr_address h = a') \<longleftrightarrow> (\<exists>f\<in>set (fs @ [f]). halts f c' a' Y)"
    using old [of m] old [of n] new r by (cases "Y = X") (auto simp: halts_at_text)
qed

lemma scan_fact_accepted:
  assumes d: "describes s fs" and ok: "fst (scan_fact ga io bs ds (length fs) f s) = []"
  shows "fact_sound io fs f \<and> describes (snd (scan_fact ga io bs ds (length fs) f s)) (fs @ [f])"
proof -
  from ok have seq: "lookup f ''seq'' = Some (JNum (int (length fs) + 1))"
    and c: "is_chain_id (lookup f ''chainId'')" and a: "is_checksummed ga (lookup f ''address'')"
    by (auto simp: scan_fact_def Let_def split: if_splits option.splits)
  from c obtain chain where chain: "lookup f ''chainId'' = Some (JStr chain)"
    by (auto simp: is_chain_id_def text_of_Some split: option.splits)
  from a obtain address where address: "lookup f ''address'' = Some (JStr address)"
    by (auto simp: is_checksummed_def text_of_Some split: option.splits)
  have cc: "is_chain_id (Some (JStr chain))" using c chain by simp
  let ?i = "length fs" and ?key = "fact_key chain address"
  show ?thesis
  proof (cases "lookup f ''kind'' = Some (JStr ''WRAPPER_REGISTERED'')")
    case True
    then have p: "registration_problems ga io bs ds s ?i chain address f = []"
      and s': "snd (scan_fact ga io bs ds ?i f s) = s\<lparr>rs_registered := (rs_registered s)(?key \<mapsto> (?i, f))\<rparr>"
      using ok c a chain address by (simp_all add: scan_fact_def Let_def)
    from registration_accepted(2) [OF p] obtain code vkey where
      x: "lookup_opt (lookup f ''sp1Verifier'') ''runtimeCodeKeccak'' = Some (JStr code)"
        "lookup f ''programVKey'' = Some (JStr vkey)" "lookup f ''identity'' = Some (JStr (io code vkey))" by auto
    let ?X = "io code vkey"
    have r: "registers f chain address ?X"
      using True chain address cc x by (simp add: registers_def names_wrapper_def)
    note free = registration_accepted(1) [OF p]
    have "\<forall>g \<in> set fs. \<forall>Y. \<not> registers g chain address Y"
      using describes_free [OF d cc free] by blast
    moreover have "\<forall>g \<in> set fs. \<forall>c a. \<not> halts g c a ?X"
    proof (intro ballI allI notI)
      fix g c a assume "g \<in> set fs" "halts g c a ?X"
      then have "\<exists>h \<in> set (halts_at s (?i, Some (JStr ?X))). hr_chain h = c \<and> hr_address h = a"
        using d by (auto simp: describes_def)
      then show False using registration_accepted(3) [OF p] x by simp
    qed
    ultimately have "fact_sound io fs f" unfolding fact_sound_def using seq r x by blast
    then show ?thesis using describes_registeredI [OF d cc free r] s' by simp
  next
    case nr: False
    show ?thesis
    proof (cases "lookup f ''kind'' = Some (JStr ''WRAPPER_HALTED'')")
      case True
      then obtain j g where reg: "rs_registered s ?key = Some (j, g)"
        using ok c a chain address nr by (auto simp: scan_fact_def Let_def split: option.splits)
      then obtain X where g: "g \<in> set fs" "registers g chain address X"
        using d cc by (auto simp: describes_def)
      then have gX: "lookup g ''identity'' = Some (JStr X)" by (simp add: registers_def names_wrapper_def)
      have p: "halt_problems s ?i (j, g) chain address f = []"
        and s': "snd (scan_fact ga io bs ds ?i f s) = set_halts (j, Some (JStr X)) (halts_at s (j, Some (JStr X)) @
          [\<lparr>hr_chain = chain, hr_address = address, hr_seq = lookup f ''seq'', hr_reason = js_string_opt (lookup f ''reason'')\<rparr>]) s"
        using ok c a chain address True nr reg gX by (simp_all add: scan_fact_def Let_def)
      have h: "halts f chain address X"
        using True chain address cc halt_accepted(1) [OF p] gX by (simp add: halts_def names_wrapper_def)
      have "\<forall>k \<in> set fs. \<not> halts k chain address X"
        using halt_accepted(2) [OF p, of X] gX describes_halts [OF d] by simp
      then have "fact_sound io fs f" unfolding fact_sound_def using seq h g by blast
      then show ?thesis using s' by (simp add: describes_haltI [OF d h])
    next
      case False
      then show ?thesis using ok c a nr by (simp add: scan_fact_def Let_def)
    qed
  qed
qed

lemma scan_facts_sound:
  "fst (scan_facts ga io bs ds 0 fs empty_scan) = [] \<Longrightarrow>
     facts_sound io fs \<and> describes (snd (scan_facts ga io bs ds 0 fs empty_scan)) fs"
proof (induction fs rule: rev_induct)
  case Nil
  then show ?case by (simp add: facts_sound_def describes_empty)
next
  case (snoc f fs)
  obtain ps s where s: "scan_facts ga io bs ds 0 fs empty_scan = (ps, s)" by force
  obtain qs s' where s': "scan_fact ga io bs ds (length fs) f s = (qs, s')" by force
  have "ps = []" "qs = []" using snoc.prems s s' by (simp_all add: scan_facts_snoc)
  then have "facts_sound io fs" "describes s fs" using snoc.IH s by simp_all
  moreover from scan_fact_accepted [OF this(2), of ga io bs ds f] s' \<open>qs = []\<close>
  have "fact_sound io fs f" "describes s' (fs @ [f])" by simp_all
  ultimately show ?case using s s' by (simp add: scan_facts_snoc facts_sound_snoc)
qed

lemma registry_errors_Nil:
  "registry_errors ga io doc bs ds = [] \<longleftrightarrow>
     lookup doc ''schema'' = Some (JStr REGISTRY_SCHEMA) \<and> lookup doc ''migratedFrom'' = Some MIGRATED_FROM \<and>
     (\<exists>fs. lookup doc ''facts'' = Some (JArr fs) \<and> fst (scan_facts ga io bs ds 0 fs empty_scan) = [])"
  by (auto simp: registry_errors_def same_def split: option.splits json.splits)

lemma facts_of_JArr: "lookup doc ''facts'' = Some (JArr fs) \<Longrightarrow> facts_of doc = fs"
  by (simp add: facts_of_def)

section \<open>What extensions keep\<close>

lemma is_prefix_iff: "is_prefix (Some (JArr xs)) y \<longleftrightarrow> (\<exists>ys. y = Some (JArr ys) \<and> prefix xs ys)"
  by (auto simp: is_prefix_def prefix_def split: option.splits json.splits) (metis append_take_drop_id)

lemma is_prefix_list: "is_prefix x y \<Longrightarrow> \<exists>xs. x = Some (JArr xs)"
  by (auto simp: is_prefix_def split: option.splits json.splits)

text \<open>A version of the registry file that is a fact log, and the facts it holds.\<close>

definition fact_log :: "(string \<Rightarrow> json option) \<Rightarrow> string option \<Rightarrow> json list \<Rightarrow> bool" where
  "fact_log parse v fs \<longleftrightarrow>
     (\<exists>t doc. v = Some t \<and> parse t = Some doc \<and> has_schema doc REGISTRY_SCHEMA \<and> lookup doc ''facts'' = Some (JArr fs))"

text \<open>A version either is the earlier one or passes \<open>registryExtensionErrors\<close> against it.\<close>

definition extended_by :: "(string \<Rightarrow> json option) \<Rightarrow> string option \<Rightarrow> string option \<Rightarrow> bool" where
  "extended_by parse older newer \<longleftrightarrow> newer = older \<or> registry_extension_errors parse older newer = []"

lemma schemas_differ [simp]: "REGISTRY_SCHEMA \<noteq> REGISTRY_V1_SCHEMA" "REGISTRY_V1_SCHEMA \<noteq> REGISTRY_SCHEMA"
  by (simp_all add: REGISTRY_SCHEMA_def REGISTRY_V1_SCHEMA_def)

lemma extended_by_log:
  assumes "extended_by parse older newer" and "fact_log parse older fs"
  shows "\<exists>gs. fact_log parse newer gs \<and> prefix fs gs"
proof (cases "newer = older")
  case True
  then show ?thesis using assms(2) by auto
next
  case False
  obtain t doc where o: "older = Some t" "parse t = Some doc" "has_schema doc REGISTRY_SCHEMA"
    "lookup doc ''facts'' = Some (JArr fs)" using assms(2) by (auto simp: fact_log_def)
  have "registry_extension_errors parse (Some t) newer = []" using assms(1) False o by (simp add: extended_by_def)
  then obtain u d where n: "newer = Some u" "parse u = Some d" "document_extension doc d = []"
    using o by (auto simp: registry_extension_errors_def split: option.splits)
  have "\<not> has_schema doc REGISTRY_V1_SCHEMA" using o(3) by (simp add: has_schema_def)
  then have "has_schema d REGISTRY_SCHEMA" "is_prefix (Some (JArr fs)) (lookup d ''facts'')"
    using n(3) o by (auto simp: document_extension_def split: if_splits)
  then show ?thesis using n by (auto simp: fact_log_def is_prefix_iff)
qed

lemma extended_by_chain:
  assumes "\<And>i. Suc i < length vs \<Longrightarrow> extended_by parse (vs ! i) (vs ! Suc i)"
    and "i \<le> j" and "j < length vs" and "fact_log parse (vs ! i) fs"
  shows "\<exists>gs. fact_log parse (vs ! j) gs \<and> prefix fs gs"
  using assms(2,3)
proof (induction j rule: dec_induct)
  case base
  then show ?case using assms(4) by auto
next
  case (step j)
  then obtain gs where g: "fact_log parse (vs ! j) gs" "prefix fs gs" by auto
  from extended_by_log [OF assms(1) [OF step.prems] g(1)] g(2) show ?case
    using prefix_order.order_trans by blast
qed

lemma first_log_is_v1:
  "registry_extension_errors parse None (Some t) = [] \<Longrightarrow> \<not> fact_log parse (Some t) fs"
  by (auto simp: registry_extension_errors_def fact_log_def has_schema_def split: option.splits)

section \<open>A halted identity\<close>

lemma halts_of_identity_Nil:
  "halts_of_identity hs X = [] \<longleftrightarrow> (\<forall>f \<in> set hs. lookup f ''identity'' \<noteq> Some (JStr X))"
  by (auto simp: halts_of_identity_def filter_empty_conv)

lemma registry_state_facts:
  "registry_state doc = Some (rs, hs) \<Longrightarrow>
     rs = of_kind ''WRAPPER_REGISTERED'' (facts_of doc) \<and> hs = of_kind ''WRAPPER_HALTED'' (facts_of doc)"
  by (auto simp: registry_state_def split: if_splits)

lemma facts_sound_nth:
  "facts_sound io fs \<Longrightarrow> i < length fs \<Longrightarrow> fact_sound io (take i fs) (fs ! i)"
  by (simp add: facts_sound_def)

lemma facts_sound_object: "facts_sound io fs \<Longrightarrow> JNull \<notin> set fs"
  by (auto simp: facts_sound_def fact_sound_def in_set_conv_nth)

lemma facts_sound_not_reregistered:
  assumes s: "facts_sound io fs" and "i < j" "j < length fs" and "halts (fs ! i) c a X"
  shows "\<not> registers (fs ! j) c' a' X"
proof
  assume r: "registers (fs ! j) c' a' X"
  have "fs ! i \<in> set (take j fs)" using assms(2,3) by (auto simp: in_set_conv_nth)
  moreover have "fact_sound io (take j fs) (fs ! j)" using facts_sound_nth s assms(3) by blast
  ultimately show False using r assms(4)
    by (auto simp: fact_sound_def registers_def halts_def names_wrapper_def)
qed

section \<open>A halt can always be appended\<close>

definition halt_fact_of :: "json \<Rightarrow> json \<Rightarrow> nat \<Rightarrow> string \<Rightarrow> string \<Rightarrow> string \<Rightarrow> bool" where
  "halt_fact_of f g n c a X \<longleftrightarrow>
     halts f c a X \<and> lookup f ''seq'' = Some (JNum (int n)) \<and>
     js_string_opt (lookup f ''reason'') \<in> set HALT_REASONS \<and>
     is_word (observed_at f ''blockHash'') \<and> is_word (lookup_opt (lookup f ''halt'') ''txHash'') \<and>
     (\<exists>d h ob. lookup_opt (lookup g ''deployment'') ''block'' = Some (JNum d) \<and>
        lookup_opt (lookup f ''halt'') ''block'' = Some (JNum h) \<and> observed_at f ''block'' = Some (JNum ob) \<and>
        0 \<le> d \<and> d \<le> h \<and> h \<le> ob)"

lemma halt_appended:
  assumes ok: "fst (scan_facts ga io bs ds 0 fs empty_scan) = []"
    and g: "g \<in> set fs" "registers g c a X" and fresh: "\<And>f. f \<in> set fs \<Longrightarrow> \<not> halts f c a X"
    and f: "halt_fact_of f g (length fs + 1) c a X" and a: "ga a = Some a"
  shows "fst (scan_facts ga io bs ds 0 (fs @ [f]) empty_scan) = []"
proof -
  obtain s where s: "scan_facts ga io bs ds 0 fs empty_scan = ([], s)" using ok by (metis prod.collapse)
  have d: "describes s fs" using scan_facts_sound [OF ok] s by simp
  have h: "halts f c a X" using f by (simp add: halt_fact_of_def)
  then have c: "is_chain_id (Some (JStr c))" by (simp add: halts_def names_wrapper_def)
  obtain j where j: "j < length fs" "fs ! j = g" using g(1) by (auto simp: in_set_conv_nth)
  have reg: "rs_registered s (fact_key c a) = Some (j, g)" using d c g(2) j unfolding describes_def by blast
  have gX: "lookup g ''identity'' = Some (JStr X)" using g(2) by (simp add: registers_def names_wrapper_def)
  have "\<not> (\<exists>r \<in> set (halts_at s (j, Some (JStr X))). hr_chain r = c \<and> hr_address r = a)"
    using describes_halts [OF d] fresh by blast
  then have "halt_problems s (length fs) (j, g) c a f = []"
    using f gX h by (auto simp: halt_problems_def halt_fact_of_def halts_def names_wrapper_def Let_def list_ex_iff js_greater_def)
  moreover have "is_checksummed ga (Some (JStr a))" using a by (simp add: is_checksummed_def)
  ultimately have "fst (scan_fact ga io bs ds (length fs) f s) = []"
    using f h c reg by (auto simp: scan_fact_def halt_fact_of_def halts_def names_wrapper_def Let_def)
  then show ?thesis using s by (cases "scan_fact ga io bs ds (length fs) f s") (simp add: scan_facts_snoc)
qed

section \<open>Properties\<close>

lemma sound_halts_of_identity:
  assumes "facts_sound io fs"
  shows "halts_of_identity (of_kind ''WRAPPER_HALTED'' fs) X \<noteq> [] \<longleftrightarrow> (\<exists>f \<in> set fs. \<exists>c a. halts f c a X)"
proof
  assume "halts_of_identity (of_kind ''WRAPPER_HALTED'' fs) X \<noteq> []"
  then obtain f where f: "f \<in> set fs" "lookup f ''kind'' = Some (JStr ''WRAPPER_HALTED'')" "lookup f ''identity'' = Some (JStr X)"
    by (auto simp: halts_of_identity_Nil of_kind_def)
  then obtain i where "i < length fs" "fs ! i = f" by (auto simp: in_set_conv_nth)
  then have "fact_sound io (take i fs) f" using facts_sound_nth [OF assms] by blast
  then obtain c a Y where "registers f c a Y \<or> halts f c a Y" by (auto simp: fact_sound_def)
  then have "halts f c a X" using f by (auto simp: registers_def halts_def names_wrapper_def)
  then show "\<exists>f \<in> set fs. \<exists>c a. halts f c a X" using f(1) by blast
qed (auto simp: halts_of_identity_Nil of_kind_def halts_def names_wrapper_def)

text \<open>C28: A registry in which \<open>registryErrors\<close> finds nothing is what it should be: facts numbered from 1, each a registration
  of a wrapper not registered before, with the identity of its verifier and program, or a halt of a wrapper registered
  before it and not halted before. Its state is readable, an identity has recorded halts exactly when one of the facts halts it,
  and after a halt no fact registers the identity again, on any chain.
\<close>

theorem registry_sound:
  assumes "registry_errors get_address identity_of doc builds designations = []"
  shows "\<exists>fs rs hs. lookup doc ''facts'' = Some (JArr fs) \<and> facts_sound identity_of fs \<and> registry_state doc = Some (rs, hs) \<and>
    (\<forall>X. halts_of_identity hs X \<noteq> [] \<longleftrightarrow> (\<exists>f \<in> set fs. \<exists>c a. halts f c a X)) \<and>
    (\<forall>i j c a c' a' X. i < j \<and> j < length fs \<and> halts (fs ! i) c a X \<longrightarrow> \<not> registers (fs ! j) c' a' X)"
proof -
  from assms obtain fs where fs: "lookup doc ''facts'' = Some (JArr fs)"
    "fst (scan_facts get_address identity_of builds designations 0 fs empty_scan) = []"
    by (auto simp: registry_errors_Nil)
  have s: "facts_sound identity_of fs" using scan_facts_sound [OF fs(2)] by simp
  have st: "registry_state doc = Some (of_kind ''WRAPPER_REGISTERED'' fs, of_kind ''WRAPPER_HALTED'' fs)"
    using facts_sound_object [OF s] facts_of_JArr [OF fs(1)] by (simp add: registry_state_def)
  show ?thesis
    by (intro exI conjI allI impI, rule fs(1), rule s, rule st, rule sound_halts_of_identity [OF s])
      (auto dest: facts_sound_not_reregistered [OF s])
qed

definition sample_word :: string where
  "sample_word = ''0x'' @ replicate 64 CHR ''a''"

definition sample_registration :: json where
  "sample_registration = JObj [(''seq'', JNum 1), (''kind'', JStr ''WRAPPER_REGISTERED''), (''chainId'', JStr ''1''),
     (''address'', JStr ''0xA1''), (''identity'', JStr sample_word),
     (''observedAt'', JObj [(''block'', JNum 9), (''blockHash'', JStr sample_word)]),
     (''wrapperBuild'', JStr ''b1''), (''designation'', JStr ''d1''),
     (''sp1Verifier'', JObj [(''address'', JStr ''0xB1''), (''runtimeCodeKeccak'', JStr sample_word)]),
     (''programVKey'', JStr sample_word), (''haltPrincipal'', JStr ''0xC1''),
     (''deployment'', JObj [(''txHash'', JStr sample_word), (''block'', JNum 7), (''deployer'', JStr ''0xD1'')]),
     (''replaces'', JNull)]"

definition sample_halt :: json where
  "sample_halt = JObj [(''seq'', JNum 2), (''kind'', JStr ''WRAPPER_HALTED''), (''chainId'', JStr ''1''),
     (''address'', JStr ''0xA1''), (''identity'', JStr sample_word),
     (''observedAt'', JObj [(''block'', JNum 12), (''blockHash'', JStr sample_word)]),
     (''reason'', JStr ''OTHER''), (''halt'', JObj [(''txHash'', JStr sample_word), (''block'', JNum 11)])]"

definition sample_registry :: "json list \<Rightarrow> json" where
  "sample_registry fs = JObj [(''schema'', JStr REGISTRY_SCHEMA), (''note'', JStr ''''), (''migratedFrom'', MIGRATED_FROM),
     (''facts'', JArr fs)]"

lemma sample_registry_ok:
  "registry_errors Some (\<lambda>c v. c) (sample_registry [sample_registration, sample_halt]) None None = []"
  by code_simp

theorem registry_sound_witness:
  "\<exists>fs rs hs. lookup (sample_registry [sample_registration, sample_halt]) ''facts'' = Some (JArr fs) \<and>
    facts_sound (\<lambda>c v. c) fs \<and> registry_state (sample_registry [sample_registration, sample_halt]) = Some (rs, hs) \<and>
    (\<forall>X. halts_of_identity hs X \<noteq> [] \<longleftrightarrow> (\<exists>f \<in> set fs. \<exists>c a. halts f c a X)) \<and>
    (\<forall>i j c a c' a' X. i < j \<and> j < length fs \<and> halts (fs ! i) c a X \<longrightarrow> \<not> registers (fs ! j) c' a' X)"
  by (rule registry_sound [OF sample_registry_ok])


end
