(* ===== verification/Evidence_Laws.thy ===== *)
theory Evidence_Laws
  imports Runtime_Evidence "HOL-Library.Multiset"
begin

text \<open>
  What the replay establishes: an executable match is exactly equality outside the authorized immutables and the agreed
  metadata, accepted authority is disjoint ranges inside the code, verified immutables hold the derived words, and
  freshness is decided by content alone.
\<close>

section \<open>Masking\<close>

lemma fill_zero_nth:
  assumes "fill_zero r buf = Some m"
  shows "length m = length buf"
    and "k < length buf \<Longrightarrow> m ! k = (if fst r \<le> int k \<and> int k < fst r + snd r then char_of (0 :: nat) else buf ! k)"
proof -
  obtain s l where r: "r = (s, l)" by force
  have b: "0 \<le> s" "0 \<le> s + l" "s + l \<le> int (length buf)"
    and m: "m = take (nat s) buf @ replicate (nat l) (char_of (0 :: nat)) @ drop (nat s + nat l) buf"
    using assms by (auto simp: fill_zero_def r split: if_splits)
  show "length m = length buf" unfolding m using b by (cases "0 \<le> l") (auto simp: nat_le_iff min_def)
  show "m ! k = (if fst r \<le> int k \<and> int k < fst r + snd r then char_of (0 :: nat) else buf ! k)" if "k < length buf"
    unfolding m r using b that by (cases "0 \<le> l") (auto simp: nth_append min_def nat_le_iff nat_less_iff)
qed

lemma in_any_range_Cons [simp]:
  "in_any_range k (r # rs) \<longleftrightarrow> (fst r \<le> int k \<and> int k < fst r + snd r) \<or> in_any_range k rs"
  by (cases r) (simp add: in_any_range_def)

lemma in_any_range_Nil [simp]: "\<not> in_any_range k []"
  by (simp add: in_any_range_def)

lemma in_any_range_append [simp]: "in_any_range k (rs @ qs) \<longleftrightarrow> in_any_range k rs \<or> in_any_range k qs"
  by (simp add: in_any_range_def)

lemma in_any_range_iff: "in_any_range k rs \<longleftrightarrow> (\<exists>r \<in> set rs. fst r \<le> int k \<and> int k < fst r + snd r)"
  by (induction rs) auto

lemma mask_ranges_nth:
  assumes "mask_ranges buf rs = Some m"
  shows "length m = length buf \<and> (\<forall>k < length buf. m ! k = (if in_any_range k rs then char_of (0 :: nat) else buf ! k))"
  using assms
proof (induction rs arbitrary: buf)
  case Nil
  then show ?case by simp
next
  case (Cons r rs)
  then obtain b where b: "fill_zero r buf = Some b" "mask_ranges b rs = Some m" by (auto split: option.splits)
  from Cons.IH [OF b(2)] fill_zero_nth [OF b(1)] show ?case by auto
qed

lemma masked_equal:
  assumes "mask_ranges a rs = Some ma" and "mask_ranges b rs = Some mb" and len: "length a = length b"
  shows "ma = mb \<longleftrightarrow> (\<forall>k < length a. a ! k \<noteq> b ! k \<longrightarrow> in_any_range k rs)"
  using mask_ranges_nth [OF assms(1)] mask_ranges_nth [OF assms(2)] len by (auto simp: list_eq_iff_nth_eq)

section \<open>Authority\<close>

lemma error_if_Nil [simp]: "error_if b e = [] \<longleftrightarrow> \<not> b"
  by (simp add: error_if_def)

lemma set_js_set [simp]: "set (js_set xs) = set xs"
  by (simp add: js_set_def)

lemma js_set_length: "length (js_set xs) = length xs \<longleftrightarrow> distinct xs"
  by (metis js_set_def distinct_rev length_remdups_card_conv length_rev card_distinct distinct_card set_rev)

lemma adjacent_overlaps_sound:
  assumes "adjacent_overlaps rs = []" and "\<And>r. r \<in> set rs \<Longrightarrow> 1 \<le> snd r" and "i < j" and "j < length rs"
  shows "fst (rs ! i) + snd (rs ! i) \<le> fst (rs ! j)"
  using assms
proof (induction rs arbitrary: i j rule: adjacent_overlaps.induct)
  case (1 p c rs)
  have ih: "fst ((c # rs) ! i) + snd ((c # rs) ! i) \<le> fst ((c # rs) ! j)" if "i < j" "j < length (c # rs)" for i j
    using "1.IH" [of i j] "1.prems"(1,2) that by simp
  show ?case
  proof (cases i)
    case (Suc i')
    then show ?thesis using ih [of i' "j - 1"] "1.prems"(3,4) by (cases j) auto
  next
    case 0
    have pc: "fst p + snd p \<le> fst c" using "1.prems"(1) by simp
    obtain j' where j: "j = Suc j'" using "1.prems"(3) by (cases j) auto
    show ?thesis
    proof (cases j')
      case 0
      then show ?thesis using pc j \<open>i = 0\<close> by simp
    next
      case (Suc j'')
      have "fst c + snd c \<le> fst ((c # rs) ! j')" using ih [of 0 j'] "1.prems"(4) j Suc by simp
      moreover have "1 \<le> snd c" using "1.prems"(2) by simp
      ultimately show ?thesis using pc j \<open>i = 0\<close> by simp
    qed
  qed
qed auto

definition covers :: "nat \<Rightarrow> byte_range \<Rightarrow> bool" where
  "covers k r \<longleftrightarrow> fst r \<le> int k \<and> int k < fst r + snd r"

text \<open>No byte is in two ranges.\<close>

definition apart :: "byte_range list \<Rightarrow> bool" where
  "apart rs \<longleftrightarrow> (\<forall>k. length (filter (covers k) rs) \<le> 1)"

lemma sorted_apart:
  assumes "\<And>i j. i < j \<Longrightarrow> j < length rs \<Longrightarrow> fst (rs ! i) + snd (rs ! i) \<le> fst (rs ! j)"
  shows "apart rs"
proof -
  have "i = j" if "i < length rs" "covers k (rs ! i)" "j < length rs" "covers k (rs ! j)" for i j k
    using assms [of i j] assms [of j i] that by (cases i j rule: linorder_cases) (auto simp: covers_def)
  then have "card {i. i < length rs \<and> covers k (rs ! i)} \<le> Suc 0" for k
    by (subst card_le_Suc0_iff_eq) auto
  then show ?thesis by (simp add: apart_def length_filter_conv_card)
qed

lemma apart_sort: "apart (sort_key f rs) \<longleftrightarrow> apart rs"
proof -
  have "length (filter P (sort_key f rs)) = length (filter P rs)" for P
    by (metis mset_filter mset_sort size_mset)
  then show ?thesis by (simp add: apart_def)
qed

definition authority_sound :: "immutable_refs \<Rightarrow> string list \<Rightarrow> string list \<Rightarrow> string \<Rightarrow> bool" where
  "authority_sound refs declared ast code \<longleftrightarrow>
     distinct declared \<and> set declared = fst ` set refs \<and> set declared \<subseteq> set ast \<and>
     (\<forall>e \<in> set refs. snd e \<noteq> []) \<and>
     (\<forall>r \<in> set (flatten_ranges refs). 0 \<le> fst r \<and> 1 \<le> snd r \<and> snd r \<le> 32 \<and> fst r + snd r \<le> int (length code) \<and>
        (\<forall>s l. boundary_of_bytes code = Decoded s l \<longrightarrow> fst r + snd r \<le> int s)) \<and>
     apart (flatten_ranges refs)"

lemma authority_errors_sound:
  assumes "authority_errors refs declared ast code = []"
  shows "authority_sound refs declared ast code"
proof -
  note e = assms [unfolded authority_errors_def Let_def append_is_Nil_conv concat_eq_Nil_conv]
  let ?rs = "flatten_ranges refs"
  have d: "distinct declared" using e by (simp add: js_set_length)
  have sets: "fst ` set refs \<subseteq> set declared \<and> fst ` set refs \<subseteq> set ast" "set declared \<subseteq> fst ` set refs"
    using e by auto
  have ranges: "range_errors (length code) (boundary_of_bytes code) r = []" if "r \<in> set ?rs" for r
    using e that by auto
  have refs: "\<forall>e \<in> set refs. snd e \<noteq> []" using e by auto
  have r: "0 \<le> fst r \<and> 1 \<le> snd r \<and> snd r \<le> 32 \<and> fst r + snd r \<le> int (length code) \<and>
      (\<forall>s l. boundary_of_bytes code = Decoded s l \<longrightarrow> fst r + snd r \<le> int s)" if "r \<in> set ?rs" for r
    using ranges [OF that] by (auto simp: range_errors_def boundary_ok_def)
  have "adjacent_overlaps (sort_key fst ?rs) = []" using e by simp
  then have "apart (sort_key fst ?rs)"
    using r by (intro sorted_apart adjacent_overlaps_sound) auto
  then show ?thesis using d sets refs r by (auto simp: authority_sound_def apart_sort)
qed

section \<open>The executable match\<close>

lemma boundaries_agree_same:
  "boundaries_agree a b \<Longrightarrow> b = a \<and> (\<exists>s l. a = Decoded s l)"
  by (cases a; cases b) (auto simp: boundaries_agree_def boundary_ok_def)

lemma in_region:
  assumes "boundary_of_bytes live = Decoded s l" and "k < length live"
  shows "in_any_range k [(int s, int l)] \<longleftrightarrow> s \<le> k"
  using boundary_regionD(1) [OF assms(1)] assms(2) by simp

lemma facts_of_code_match:
  assumes "facts_of_code env ev live local head authority = Some f"
  shows "df_executable_match f \<longleftrightarrow>
    authority = [] \<and> length live = length local \<and>
    (\<forall>k < length live. live ! k \<noteq> local ! k \<longrightarrow>
       in_any_range k (flatten_ranges (bc_refs (eb_build ev))) \<or>
       (boundaries_agree (boundary_of_bytes live) (boundary_of_bytes local) \<and> region_start (boundary_of_bytes live) \<le> k))"
    (is "_ \<longleftrightarrow> ?R")
proof (cases "authority = [] \<and> length live = length local")
  case False
  then show ?thesis using assms by (auto simp: facts_of_code_def Let_def split: option.splits)
next
  case True
  let ?refs = "bc_refs (eb_build ev)"
  let ?lb = "boundary_of_bytes live" and ?bb = "boundary_of_bytes local"
  let ?agree = "boundaries_agree ?lb ?bb"
  have auth: "authorized_refs ?refs (map ii_ast (eb_identities ev)) True = ?refs"
    by (simp add: authorized_refs_def filter_id_conv)
  let ?rs = "flatten_ranges ?refs"
  obtain lm bm where m: "mask_ranges live (mask_for ?rs ?agree ?lb) = Some lm" "mask_ranges local (mask_for ?rs ?agree ?bb) = Some bm"
    and f: "df_executable_match f \<longleftrightarrow>
      list_all (\<lambda>i. in_any_range i ?rs \<or> ?agree \<and> region_start ?lb \<le> i) (diff_offsets live local) \<and> lm = bm \<and> keccak env lm = keccak env bm"
    using assms True auth by (auto simp: facts_of_code_def Let_def split: option.splits)
  have d: "list_all P (diff_offsets live local) \<longleftrightarrow> (\<forall>k < length live. live ! k \<noteq> local ! k \<longrightarrow> P k)" for P
    using True by (auto simp: diff_offsets_def list_all_iff)
  have mf: "mask_for ?rs ?agree ?bb = mask_for ?rs ?agree ?lb"
    using boundaries_agree_same [of ?lb ?bb] by (auto simp: mask_for_def)
  have "lm = bm \<longleftrightarrow> (\<forall>k < length live. live ! k \<noteq> local ! k \<longrightarrow> in_any_range k (mask_for ?rs ?agree ?lb))"
    using masked_equal [OF m(1) m(2) [unfolded mf]] True by simp
  moreover have "in_any_range k (mask_for ?rs ?agree ?lb) \<longleftrightarrow> in_any_range k ?rs \<or> ?agree \<and> region_start ?lb \<le> k"
    if "k < length live" for k
  proof (cases ?agree)
    case ag: True
    then obtain s l where "?lb = Decoded s l" using boundaries_agree_same by blast
    then show ?thesis using in_region [OF _ that] ag by (simp add: mask_for_def boundary_ok_def)
  qed (simp add: mask_for_def)
  ultimately show ?thesis using f d True by auto
qed

section \<open>The immutables\<close>

lemma all_some_map: "all_some (map f xs) = Some ys \<Longrightarrow> list_all2 (\<lambda>x y. f x = Some y) xs ys"
  by (induction xs arbitrary: ys) (auto split: option.splits)

lemma facts_of_code_immutables:
  assumes "facts_of_code env ev live local head authority = Some f"
  shows "list_all2 (\<lambda>i r. immutable_result_of env (eb_live ev) live (bc_refs (eb_build ev)) i = Some r)
      (eb_identities ev) (df_immutables f)"
    and "df_immutables_verified f = verified_or_none (authority = []) (eb_identities ev) (df_immutables f)"
    and "df_authority f = authority" and "df_live_boundary f = boundary_of_bytes live"
    and "df_local_boundary f = boundary_of_bytes local" and "df_agree f = boundaries_agree (boundary_of_bytes live) (boundary_of_bytes local)"
    and "df_live_bytes f = length live" and "df_local_bytes f = length local" and "df_head_bytes f = length head"
  using assms by (auto simp: facts_of_code_def Let_def dest: all_some_map split: option.splits)

text \<open>An immutable whose every place in the code holds the word derived for it.\<close>

definition holds_derived :: "ethers_env \<Rightarrow> live_capture \<Rightarrow> string \<Rightarrow> immutable_refs \<Rightarrow> immutable_identity \<Rightarrow> bool" where
  "holds_derived env lc live refs i \<longleftrightarrow>
     (\<exists>v. derive_immutable env (lc_address lc) (lc_chain lc) (ii_derivation i) = Some v \<and> lower (ii_expected i) = lower v \<and>
        refs_of refs (ii_ast i) \<noteq> [] \<and>
        (\<forall>r \<in> set (refs_of refs (ii_ast i)). lower (buffer_to_hex (slice_of live r)) = lower v))"

lemma immutable_result_match:
  assumes "immutable_result_of env lc live refs i = Some r" and "ir_match r"
  shows "holds_derived env lc live refs i"
proof -
  obtain q qs where q: "refs_of refs (ii_ast i) = q # qs"
    using assms by (cases "refs_of refs (ii_ast i)") (auto simp: immutable_result_of_def)
  obtain v where v: "derive_immutable env (lc_address lc) (lc_chain lc) (ii_derivation i) = Some v"
    using assms(1) q by (auto simp: immutable_result_of_def Let_def split: option.splits)
  let ?o = "\<lambda>r. buffer_to_hex (slice_of live r)"
  have "list_all (\<lambda>w. lower w = lower (?o q)) (map ?o (q # qs)) \<and> lower v = lower (ii_expected i) \<and> lower (?o q) = lower v"
    using assms v q by (auto simp: immutable_result_of_def Let_def split: if_splits)
  then show ?thesis using v q by (auto simp: holds_derived_def list_all_iff)
qed

text \<open>The parts of \<open>derive_facts\<close>.\<close>

lemma derive_facts_parts:
  assumes "derive_facts env ev = Some f"
  obtains live local head where
    "hex_to_buffer (lc_code (eb_live ev)) = Some live" and "hex_to_buffer (bc_code (eb_build ev)) = Some local"
    and "hex_to_buffer (bc_code (eb_head ev)) = Some head"
    and "facts_of_code env ev live local head
      (authority_errors (bc_refs (eb_build ev)) (map ii_ast (eb_identities ev)) (bc_declared (eb_build ev)) local) = Some f"
  using assms by (auto simp: derive_facts_def validate_immutable_authority_def split: option.splits)

lemma refs_of_covers:
  assumes "distinct (map fst refs)" and "in_any_range k (flatten_ranges refs)"
  shows "\<exists>i \<in> fst ` set refs. in_any_range k (refs_of refs i)"
proof -
  obtain e where "e \<in> set refs" "in_any_range k (snd e)"
    using assms(2) unfolding in_any_range_iff flatten_ranges_def by auto
  then obtain i rs where "(i, rs) \<in> set refs" "in_any_range k rs" by (metis prod.collapse)
  then show ?thesis using assms(1) by (force simp: refs_of_def)
qed

definition code_as_built :: "ethers_env \<Rightarrow> evidence_bundle \<Rightarrow> bool" where
  "code_as_built env ev \<longleftrightarrow>
     (\<exists>live local. hex_to_buffer (lc_code (eb_live ev)) = Some live \<and> hex_to_buffer (bc_code (eb_build ev)) = Some local \<and>
        length live = length local \<and>
        authority_sound (bc_refs (eb_build ev)) (map ii_ast (eb_identities ev)) (bc_declared (eb_build ev)) local \<and>
        (\<forall>i \<in> set (eb_identities ev). holds_derived env (eb_live ev) live (bc_refs (eb_build ev)) i) \<and>
        (\<forall>k < length live. live ! k = local ! k \<or>
           (\<exists>i \<in> set (eb_identities ev). in_any_range k (refs_of (bc_refs (eb_build ev)) (ii_ast i))) \<or>
           (boundaries_agree (boundary_of_bytes live) (boundary_of_bytes local) \<and> region_start (boundary_of_bytes live) \<le> k)))"

lemma verified_code_as_built:
  assumes "derive_facts env ev = Some f" and keys: "distinct (map fst (bc_refs (eb_build ev)))"
    and match: "df_executable_match f" and verified: "df_immutables_verified f \<noteq> Some False"
  shows "code_as_built env ev"
proof -
  obtain live local head where b: "hex_to_buffer (lc_code (eb_live ev)) = Some live" "hex_to_buffer (bc_code (eb_build ev)) = Some local"
    and f: "facts_of_code env ev live local head
      (authority_errors (bc_refs (eb_build ev)) (map ii_ast (eb_identities ev)) (bc_declared (eb_build ev)) local) = Some f"
    by (rule derive_facts_parts [OF assms(1)])
  let ?refs = "bc_refs (eb_build ev)"
  note m = facts_of_code_match [OF f, THEN iffD1, OF match]
  have sound: "authority_sound ?refs (map ii_ast (eb_identities ev)) (bc_declared (eb_build ev)) local"
    using m by (intro authority_errors_sound) simp
  have ids: "holds_derived env (eb_live ev) live ?refs i" if i: "i \<in> set (eb_identities ev)" for i
  proof -
    obtain n where n: "n < length (eb_identities ev)" "eb_identities ev ! n = i" using i by (auto simp: in_set_conv_nth)
    note l = facts_of_code_immutables(1) [OF f]
    have "list_all ir_match (df_immutables f)"
      using facts_of_code_immutables(2) [OF f] verified i by (auto simp: verified_or_none_def m split: if_splits)
    then have "ir_match (df_immutables f ! n)" using n list_all2_lengthD [OF l] by (simp add: list_all_length)
    moreover have "immutable_result_of env (eb_live ev) live ?refs i = Some (df_immutables f ! n)"
      using list_all2_nthD [OF l n(1)] n(2) by simp
    ultimately show ?thesis by (intro immutable_result_match)
  qed
  have "\<exists>i \<in> set (eb_identities ev). in_any_range k (refs_of ?refs (ii_ast i))"
    if c: "in_any_range k (flatten_ranges ?refs)" for k
  proof -
    obtain a where "a \<in> fst ` set ?refs" "in_any_range k (refs_of ?refs a)" using refs_of_covers [OF keys c] by auto
    moreover from this have "a \<in> ii_ast ` set (eb_identities ev)" using sound by (auto simp: authority_sound_def)
    ultimately show ?thesis by auto
  qed
  then show ?thesis unfolding code_as_built_def using b m sound ids by (intro exI [of _ live] exI [of _ local]) blast
qed

section \<open>Freshness\<close>

text \<open>A digest table that a commit's tree agrees with.\<close>

definition tree_agrees :: "ethers_env \<Rightarrow> git_objects \<Rightarrow> string \<Rightarrow> (string \<times> string) list \<Rightarrow> bool" where
  "tree_agrees env git commit digests \<longleftrightarrow>
     (\<forall>(p, d) \<in> set digests. \<exists>blob. go_show git commit p = Some blob \<and> lower (keccak env blob) = lower d)"

lemma digest_differs_agrees:
  "filter (digest_differs env git commit) digests = [] \<longleftrightarrow> tree_agrees env git commit digests"
  by (auto simp: filter_empty_conv tree_agrees_def digest_differs_def split: option.splits)

lemma tree_agrees_Nil [simp]: "tree_agrees env git commit []"
  by (simp add: tree_agrees_def)

lemma list_ex_digest_differs:
  "list_ex (digest_differs env git commit) digests \<longleftrightarrow> \<not> tree_agrees env git commit digests"
  by (simp add: digest_differs_agrees [symmetric] filter_empty_conv list_ex_iff)

section \<open>Properties\<close>

text \<open>C34: \<open>decodeSolcMetadataBoundary\<close> finds solc's metadata: whatever code comes before it, the trailer solc writes for a map of
  known names with the compiler's version among them is decoded as exactly that region. What was decoded is the end of
  the code, and whether a region is metadata does not depend on the code before it.
\<close>

theorem metadata_boundary_found:
  assumes "list_all (\<lambda>e. flat_value (snd e)) entries" and "distinct (map fst entries)"
    and "set (map fst entries) \<subseteq> set KNOWN_KEYS" and "''solc'' \<in> set (map fst entries)"
    and "length (cbor_head 5 (length entries) @ encode_fields entries) < 65536"
  shows "boundary_of_bytes (code @ metadata_trailer entries) = Decoded (length code) (length (metadata_trailer entries)) \<and>
    (\<forall>buf s l. boundary_of_bytes buf = Decoded s l \<longrightarrow>
       length buf = s + l \<and> (\<forall>other. boundary_of_bytes (other @ drop s buf) = Decoded (length other) l))"
proof (intro conjI allI impI)
  show "boundary_of_bytes (code @ metadata_trailer entries) = Decoded (length code) (length (metadata_trailer entries))"
    by (rule boundary_of_trailer [OF assms])
next
  fix buf s l assume b: "boundary_of_bytes buf = Decoded s l"
  show "length buf = s + l" by (rule boundary_regionD(1) [OF b])
  show "boundary_of_bytes (other @ drop s buf) = Decoded (length other) l" for other
    using boundary_regionD [OF b] boundary_local [of other "drop s buf"] by simp
qed

definition sample_fields :: "(string \<times> cbor) list" where
  "sample_fields = [(''ipfs'', CBytes ''digest''), (''solc'', CBytes [char_of (0 :: nat), char_of (8 :: nat), char_of (28 :: nat)])]"

theorem metadata_boundary_found_witness:
  "boundary_of_bytes (''code'' @ metadata_trailer sample_fields) = Decoded 4 (length (metadata_trailer sample_fields)) \<and>
    boundary_of_bytes (''another'' @ metadata_trailer sample_fields) = Decoded 7 (length (metadata_trailer sample_fields))"
proof -
  have "list_all (\<lambda>e. flat_value (snd e)) sample_fields" "distinct (map fst sample_fields)"
    "set (map fst sample_fields) \<subseteq> set KNOWN_KEYS" "''solc'' \<in> set (map fst sample_fields)"
    "length (cbor_head 5 (length sample_fields) @ encode_fields sample_fields) < 65536"
    by (simp_all add: sample_fields_def encode_fields_def cbor_head_def KNOWN_KEYS_def)
  note found = metadata_boundary_found [OF this]
  show ?thesis using found [of "''code''"] found [of "''another''"] by simp
qed

text \<open>C33: \<open>executableBytecodeMatch\<close> is derived exactly when the authority check finds nothing, both codes are equally long and
  every byte in which they differ lies in an immutable's range or in the metadata region that both decode at the same
  place; the masked buffers and their hashes then agree of themselves.
\<close>

theorem executable_match_exact:
  assumes "derive_facts env ev = Some f"
  shows "\<exists>live local. hex_to_buffer (lc_code (eb_live ev)) = Some live \<and> hex_to_buffer (bc_code (eb_build ev)) = Some local \<and>
    (df_executable_match f \<longleftrightarrow>
       df_authority f = [] \<and> length live = length local \<and>
       (\<forall>k < length live. live ! k \<noteq> local ! k \<longrightarrow>
          in_any_range k (flatten_ranges (bc_refs (eb_build ev))) \<or>
          (boundaries_agree (boundary_of_bytes live) (boundary_of_bytes local) \<and>
             region_start (boundary_of_bytes live) \<le> k)))"
proof -
  obtain live local head where b: "hex_to_buffer (lc_code (eb_live ev)) = Some live" "hex_to_buffer (bc_code (eb_build ev)) = Some local"
    and f: "facts_of_code env ev live local head
      (authority_errors (bc_refs (eb_build ev)) (map ii_ast (eb_identities ev)) (bc_declared (eb_build ev)) local) = Some f"
    by (rule derive_facts_parts [OF assms])
  show ?thesis
    by (intro exI conjI, rule b(1), rule b(2)) (simp only: facts_of_code_match [OF f] facts_of_code_immutables(3) [OF f])
qed

text \<open>C35: Whether a public-head capture is fresh is decided by content alone: it is fresh exactly when it covers some file, HEAD
  resolves and HEAD's tree agrees with every recorded digest, whatever commit the capture names; the anchor is
  reported contradicted exactly when the named commit is present and its tree disagrees.
\<close>

theorem freshness_is_content:
  "cc_stale (verify_covered_content env stringify git commit digests) =
     cc_stale (verify_covered_content env stringify git other digests) \<and>
   (cc_stale (verify_covered_content env stringify git commit digests) = Some False \<longleftrightarrow>
     digests \<noteq> [] \<and> go_head git \<and> tree_agrees env git ''HEAD'' digests) \<and>
   (cc_anchor (verify_covered_content env stringify git commit digests) = Contradicted \<longleftrightarrow>
     go_present git commit \<and> \<not> tree_agrees env git commit digests)"
  by (auto simp: verify_covered_content_def anchor_of_def Let_def digest_differs_agrees list_ex_digest_differs)

text \<open>C32: A manifest that says its code matches and its immutables are verified is accepted only when that is so: the live code
  is as long as the build, every immutable the compiler declared has an identity, and in every place the word derived for
  it from public inputs, their ranges being disjoint and before the metadata, and every other byte outside metadata that
  both decode at the same place is the build's; the recorded hash is of the recorded code. When the check is given a
  repository, the recorded sources are moreover those of the deployment commit and of \<open>HEAD\<close>; without one the code skips
  those two checks, and nothing is said of the sources.
\<close>

theorem accepted_manifest_sound:
  assumes "check_evidence_against_manifest env stringify git ev manifest = Some ([], f)"
    and "distinct (map fst (bc_refs (eb_build ev)))"
    and "lookup manifest ''artifactManifest'' = Some (JObj am)"
    and "map_of am ''executableBytecodeMatch'' = Some (JBool True)"
    and "map_of am ''immutableValuesIndependentlyVerified'' = Some (JBool True)"
  shows "code_as_built env ev \<and>
    (\<exists>live. hex_to_buffer (lc_code (eb_live ev)) = Some live \<and> lower (lc_hash (eb_live ev)) = lower (keccak env live)) \<and>
    lookup manifest ''subject'' = Some (JStr (eb_subject ev)) \<and>
    (\<forall>g. git = Some g \<longrightarrow> tree_agrees env g (bc_commit (eb_build ev)) (bc_digests (eb_build ev)) \<and>
       tree_agrees env g ''HEAD'' (bc_digests (eb_head ev)))"
proof -
  obtain live where live: "hex_to_buffer (lc_code (eb_live ev)) = Some live" and f: "derive_facts env ev = Some f"
    and e: "identity_errors env ev manifest live = []" "\<And>g. git = Some g \<Longrightarrow> git_errors env stringify g ev manifest = []"
      "artifact_errors f (bc_refs (eb_build ev)) (JObj am) = []"
    using assms(1,3) by (auto simp: check_evidence_against_manifest_def Let_def split: option.splits if_splits)
  have "df_executable_match f" using e(3) assms(4) by (simp add: artifact_errors_def)
  moreover have "df_immutables_verified f \<noteq> Some False"
    using e(3) assms(5) by (auto simp: artifact_errors_def split: option.splits)
  ultimately have "code_as_built env ev" by (rule verified_code_as_built [OF f assms(2)])
  moreover have "tree_agrees env g (bc_commit (eb_build ev)) (bc_digests (eb_build ev)) \<and>
      tree_agrees env g ''HEAD'' (bc_digests (eb_head ev))" if g: "git = Some g" for g
  proof
    show "tree_agrees env g (bc_commit (eb_build ev)) (bc_digests (eb_build ev))"
      using e(2) [OF g]
      by (auto simp: git_errors_def Let_def verify_source_digests_def digest_differs_agrees [symmetric] split: if_splits)
    have "cc_stale (verify_covered_content env stringify g (bc_commit (eb_head ev)) (bc_digests (eb_head ev))) = Some False"
      using e(2) [OF g] by (auto simp: git_errors_def Let_def split: option.splits)
    then show "tree_agrees env g ''HEAD'' (bc_digests (eb_head ev))"
      by (auto simp: verify_covered_content_def Let_def digest_differs_agrees split: if_splits)
  qed
  ultimately show ?thesis using live e(1) by (simp add: identity_errors_def)
qed

definition sample_env :: ethers_env where
  "sample_env = \<lparr>keccak = buffer_to_hex, zero_pad = Some, abi_domain = (\<lambda>t n v c a. a)\<rparr>"

definition sample_git :: git_objects where
  "sample_git = \<lparr>go_present = (\<lambda>c. c = ''c1''), go_show = (\<lambda>c p. Some ''x''), go_ancestor = (\<lambda>c. True), go_head = True\<rparr>"

definition sample_bundle :: evidence_bundle where
  "sample_bundle =
     \<lparr>eb_subject = ''vault'',
      eb_live = \<lparr>lc_address = ''0xA1'', lc_chain = 1, lc_code = ''0x60abcda164736f6c634300081c000a'',
        lc_hash = ''0x60ABCDa164736f6c634300081c000a''\<rparr>,
      eb_build = \<lparr>bc_commit = ''c1'', bc_code = ''0x600000a164736f6c634300081c000a'', bc_refs = [(''7'', [(1, 2)])],
        bc_digests = [(''a.sol'', ''0x78'')], bc_declared = [''7'']\<rparr>,
      eb_head = \<lparr>bc_commit = ''c2'', bc_code = ''0x60'', bc_refs = [], bc_digests = [(''a.sol'', ''0x78'')], bc_declared = []\<rparr>,
      eb_identities = [\<lparr>ii_ast = ''7'', ii_name = ''OWNER'', ii_derivation = ConstructorArgument ''0xABCD'', ii_expected = ''0xabcd''\<rparr>]\<rparr>"

definition sample_artifact :: "(string \<times> json) list" where
  "sample_artifact =
     [(''constructorArgs'', JArr [JStr ''0xabcd'']), (''executableBytecodeMatch'', JBool True), (''metadataHashMatch'', JBool True),
      (''bytecodeHash'', JStr ''0x600000000000000000000000000000''), (''immutableValuesIndependentlyVerified'', JBool True)]"

definition sample_manifest :: json where
  "sample_manifest = JObj [(''subject'', JStr ''vault''), (''deployedAddress'', JStr ''0xa1''), (''chainId'', JNum 1),
     (''reportedSourceCommit'', JStr ''c1''), (''reportedSourceCommitInPublicHistory'', JBool True),
     (''observedRuntimeBytes'', JNum 15), (''publicHeadRuntimeBytes'', JNum 1), (''reportedCommitRuntimeBytes'', JNum 15),
     (''artifactManifest'', JObj sample_artifact)]"

lemma sample_evidence_accepted:
  "map_option fst (check_evidence_against_manifest sample_env (\<lambda>_. []) (Some sample_git) sample_bundle sample_manifest) = Some []"
  by code_simp

theorem accepted_manifest_sound_witness:
  "code_as_built sample_env sample_bundle \<and>
    (\<exists>live. hex_to_buffer (lc_code (eb_live sample_bundle)) = Some live \<and>
       lower (lc_hash (eb_live sample_bundle)) = lower (keccak sample_env live)) \<and>
    lookup sample_manifest ''subject'' = Some (JStr (eb_subject sample_bundle)) \<and>
    tree_agrees sample_env sample_git ''c1'' (bc_digests (eb_build sample_bundle)) \<and>
    tree_agrees sample_env sample_git ''HEAD'' (bc_digests (eb_head sample_bundle))"
proof -
  obtain f where "check_evidence_against_manifest sample_env (\<lambda>_. []) (Some sample_git) sample_bundle sample_manifest = Some ([], f)"
    using sample_evidence_accepted by auto
  moreover have "lookup sample_manifest ''artifactManifest'' = Some (JObj sample_artifact)" by (simp add: sample_manifest_def)
  moreover have "map_of sample_artifact ''executableBytecodeMatch'' = Some (JBool True)"
    "map_of sample_artifact ''immutableValuesIndependentlyVerified'' = Some (JBool True)" by code_simp+
  moreover have "distinct (map fst (bc_refs (eb_build sample_bundle)))" "bc_commit (eb_build sample_bundle) = ''c1''"
    by (simp_all add: sample_bundle_def)
  ultimately show ?thesis
    using accepted_manifest_sound [of sample_env "\<lambda>_. []" "Some sample_git" sample_bundle sample_manifest f sample_artifact] by simp
qed

theorem executable_match_exact_witness:
  "\<exists>f live local. derive_facts sample_env sample_bundle = Some f \<and>
    hex_to_buffer (lc_code (eb_live sample_bundle)) = Some live \<and> hex_to_buffer (bc_code (eb_build sample_bundle)) = Some local \<and>
    (df_executable_match f \<longleftrightarrow>
       df_authority f = [] \<and> length live = length local \<and>
       (\<forall>k < length live. live ! k \<noteq> local ! k \<longrightarrow>
          in_any_range k (flatten_ranges (bc_refs (eb_build sample_bundle))) \<or>
          (boundaries_agree (boundary_of_bytes live) (boundary_of_bytes local) \<and>
             region_start (boundary_of_bytes live) \<le> k)))"
proof -
  obtain f where f: "derive_facts sample_env sample_bundle = Some f"
    using sample_evidence_accepted by (auto simp: check_evidence_against_manifest_def split: option.splits if_splits)
  from executable_match_exact [OF f] f show ?thesis by blast
qed

text \<open>
  On a chain whose id has an odd number of hexadecimal digits the expected word of a \<open>chain-id\<close> immutable is never
  derived: \<open>zeroPadValue\<close> takes whole bytes only, as ethers documents, and throws.
\<close>

lemma odd_chain_id_throws:
  assumes "\<And>x. odd (length x) \<Longrightarrow> zero_pad env x = None"
    and "0 \<le> chain" and "odd (length (hex_string (nat chain)))"
  shows "derive_immutable env address chain ChainIdWord = None"
  using assms by (simp add: derive_immutable_def)

lemma odd_chain_id_on_base_sepolia:
  "derive_immutable \<lparr>keccak = buffer_to_hex, zero_pad = (\<lambda>x. if odd (length x) then None else Some x),
     abi_domain = (\<lambda>t n v c a. a)\<rparr> ''0xA1'' 84532 ChainIdWord = None"
  by (rule odd_chain_id_throws) (simp_all add: hex_string.simps)

text \<open>
  A trailer whose map sets \<open>__proto__\<close> to a map with a \<open>solc\<close> and anything else is decoded as metadata, although none of
  its names is known to the check: the assignment makes the inner map the prototype, which \<open>Object.keys\<close> does not list
  and \<open>in\<close> looks through.
\<close>

definition proto_trailer :: string where
  "proto_trailer =
     (let inner = cbor_head 5 2 @ encode_fields [(''solc'', CBool True), (''payload'', CText ''any bytes'')];
          e = cbor_head 5 1 @ cbor_encode (CText ''__proto__'') @ inner
      in e @ [char_of (length e div 256), char_of (length e mod 256)])"

lemma proto_hides_unknown_names:
  "boundary_of_bytes (''code'' @ proto_trailer) = Decoded 4 (length proto_trailer)"
  by code_simp

text \<open>
  A declared immutable's range past the end of the code is never reported: masking it throws before the authority's
  errors are answered.
\<close>

lemma mask_past_end:
  "r \<in> set rs \<Longrightarrow> int (length buf) < fst r + snd r \<Longrightarrow> mask_ranges buf rs = None"
proof (induction rs arbitrary: buf)
  case (Cons q rs)
  show ?case
  proof (cases "fill_zero q buf")
    case None
    then show ?thesis by simp
  next
    case (Some b)
    then have "r \<in> set rs" using Cons.prems by (auto simp: fill_zero_def split: if_splits)
    then show ?thesis using Cons.IH [of b] Cons.prems(2) fill_zero_nth(1) [OF Some] Some by simp
  qed
qed simp

lemma range_past_code_throws:
  assumes "e \<in> set (bc_refs (eb_build ev))" and "fst e \<in> ii_ast ` set (eb_identities ev)" and "r \<in> set (snd e)"
    and "int (length local) < fst r + snd r"
  shows "facts_of_code env ev live local head authority = None"
proof -
  have "e \<in> set (authorized_refs (bc_refs (eb_build ev)) (map ii_ast (eb_identities ev)) ok)" for ok
    using assms(1,2) by (auto simp: authorized_refs_def)
  then have "r \<in> set (flatten_ranges (authorized_refs (bc_refs (eb_build ev)) (map ii_ast (eb_identities ev)) ok))" for ok
    using assms(3) by (force simp: flatten_ranges_def)
  then have "mask_ranges local (mask_for (flatten_ranges (authorized_refs (bc_refs (eb_build ev))
      (map ii_ast (eb_identities ev)) ok)) agree b) = None" for ok agree b
    using assms(4) by (intro mask_past_end) (auto simp: mask_for_def)
  then show ?thesis by (simp add: facts_of_code_def Let_def split: option.splits)
qed

end
