(* ===== verification/Binding_Gate.thy ===== *)
theory Binding_Gate
  imports Wrapper_Registry
begin

text \<open>
  The binding gate, \<open>scripts/lib/verifier-binding.ts\<close>, with the reading of a failed call of \<open>rpc-answer.ts\<close>: which PQ
  verifier a consumer may be bound to. A chain is what a provider answers at one block; ethers' hash, address and
  encoding functions are arguments. The gate is a function to its list of refusals; \<open>None\<close> is a throw. Optional strings
  are \<open>None\<close> for \<open>null\<close>.
\<close>

section \<open>Answers of the chain\<close>

definition contains :: "string \<Rightarrow> string \<Rightarrow> bool" where
  "contains sub s \<longleftrightarrow> list_ex (\<lambda>i. take (length sub) (drop i s) = sub) [0..<Suc (length s)]"

definition EXECUTION_FAILURE :: "string list" where
  "EXECUTION_FAILURE =
     [''revert'', ''out of gas'', ''gas required exceeds'', ''invalid opcode'', ''invalid jump'', ''stack underflow'',
      ''stack overflow'', ''vm execution error'']"

text \<open>\<open>typeof x === "object"\<close> and not \<open>null\<close> is what a lookup needs to find anything.\<close>

definition node_reports_execution_failure :: "json \<Rightarrow> bool" where
  "node_reports_execution_failure e \<longleftrightarrow>
     lookup e ''code'' = Some (JNum 3) \<or>
     (lookup e ''code'' \<in> {Some (JNum (- 32000)), Some (JNum (- 32015)), Some (JNum (- 32603))} \<and>
      (case text_of (lookup e ''message'') of
         None \<Rightarrow> False
       | Some m \<Rightarrow> list_ex (\<lambda>p. contains p (lower m)) EXECUTION_FAILURE))"

definition is_execution_failure :: "hex_env \<Rightarrow> json \<Rightarrow> bool" where
  "is_execution_failure hex e \<longleftrightarrow>
     (if lookup e ''code'' = Some (JStr ''CALL_EXCEPTION'') then
        (case lookup_opt (lookup e ''info'') ''error'' of
           Some err \<Rightarrow> node_reports_execution_failure err
         | None \<Rightarrow> (case text_of (lookup e ''data'') of None \<Rightarrow> False | Some d \<Rightarrow> is_hex hex d))
      else node_reports_execution_failure e)"

text \<open>A provider at the gate's block: \<open>getCode\<close>, \<open>None\<close> where it fails, and \<open>call\<close>, the error or the answer.\<close>

record chain_view =
  cv_chain :: nat
  cv_code :: "string \<Rightarrow> string option"
  cv_call :: "string \<Rightarrow> string \<Rightarrow> json + string"

record ethers_lib =
  el_hex :: hex_env
  el_id :: "string \<Rightarrow> string"
  el_keccak :: "string \<Rightarrow> string"
  el_address :: "string \<Rightarrow> string option"
  el_identity :: "string \<Rightarrow> string \<Rightarrow> string"

definition word_of :: "ethers_lib \<Rightarrow> chain_view \<Rightarrow> string \<Rightarrow> string \<Rightarrow> string option option" where
  "word_of E cv to data =
     (case cv_call cv to data of
        Inr out \<Rightarrow> Some (if 66 \<le> length out then Some (''0x'' @ take 64 (drop 2 out)) else None)
      | Inl e \<Rightarrow> if is_execution_failure (el_hex E) e then Some None else None)"

definition selector :: "ethers_lib \<Rightarrow> string \<Rightarrow> string" where
  "selector E signature = take 10 (el_id E signature)"

text \<open>A word is 64 hexadecimal digits after \<open>0x\<close>; \<open>BigInt(w) >> 160\<close> reads the first 24 of them.\<close>

definition as_address :: "ethers_lib \<Rightarrow> string option \<Rightarrow> string option option" where
  "as_address E w =
     (case w of
        None \<Rightarrow> Some None
      | Some w \<Rightarrow>
          if list_all (\<lambda>c. c = CHR ''0'') (take 24 (drop 2 w)) then map_option Some (el_address E (''0x'' @ drop 26 w))
          else Some None)"

record verifier_profile =
  vp_address :: string
  vp_has_code :: bool
  vp_build :: "string option"
  vp_pinned :: "string option"
  vp_algorithm :: "string option"
  vp_sp1 :: "string option"
  vp_sp1_code :: "string option"
  vp_vkey :: "string option"
  vp_principal :: "string option"
  vp_halted :: "bool option"
  vp_identity :: "string option"

text \<open>\<open>genuineWrapper\<close> is that a build was found.\<close>

definition vp_genuine :: "verifier_profile \<Rightarrow> bool" where
  "vp_genuine p \<longleftrightarrow> vp_build p \<noteq> None"

definition sp1_code_hash :: "ethers_lib \<Rightarrow> chain_view \<Rightarrow> string option \<Rightarrow> string option option" where
  "sp1_code_hash E cv sp1 =
     (case sp1 of
        None \<Rightarrow> Some None
      | Some a \<Rightarrow> map_option (\<lambda>c. if c = ''0x'' then None else Some (el_keccak E c)) (cv_code cv a))"

definition profile_verifier ::
  "ethers_lib \<Rightarrow> chain_view \<Rightarrow> string \<Rightarrow> wrapper_build list \<Rightarrow> verifier_profile option" where
  "profile_verifier E cv address builds =
     Option.bind (cv_code cv address) (\<lambda>code.
     Option.bind (word_of E cv address (selector E ''SP1_VERIFIER()'')) (\<lambda>w.
     Option.bind (as_address E w) (\<lambda>sp1.
     Option.bind (word_of E cv address (selector E ''PROGRAM_VKEY()'')) (\<lambda>vkey.
     Option.bind (word_of E cv address (selector E ''HALT_PRINCIPAL()'')) (\<lambda>h.
     Option.bind (as_address E h) (\<lambda>principal.
     Option.bind (word_of E cv address (selector E ''halted()'')) (\<lambda>halted.
     Option.bind (sp1_code_hash E cv sp1) (\<lambda>sp1_code.
     Option.bind (build_matching (el_hex E) code builds) (\<lambda>build.
     Option.bind (el_address E address) (\<lambda>checksummed.
     Option.bind (word_of E cv address (selector E ''algorithmId()'')) (\<lambda>algorithm.
     Some \<lparr>vp_address = checksummed, vp_has_code = (code \<noteq> ''0x''), vp_build = map_option wb_id build,
       vp_pinned = map_option wb_codehash build, vp_algorithm = algorithm, vp_sp1 = sp1, vp_sp1_code = sp1_code, vp_vkey = vkey,
       vp_principal = (if principal = Some ZERO_ADDRESS then None else principal),
       vp_halted = map_option (\<lambda>w. list_ex (\<lambda>c. c \<noteq> CHR ''0'') (drop 2 w)) halted,
       vp_identity = (case (sp1_code, vkey) of (Some c, Some v) \<Rightarrow> Some (el_identity E c v) | _ \<Rightarrow> None)\<rparr>)))))))))))"

definition is_on_sp1_path :: "ethers_lib \<Rightarrow> verifier_profile \<Rightarrow> bool" where
  "is_on_sp1_path E p \<longleftrightarrow>
     vp_genuine p \<or> vp_algorithm p = Some (el_id E ''ZK-ML-DSA-65'') \<or> vp_sp1 p \<noteq> None \<or> vp_vkey p \<noteq> None \<or>
     vp_principal p \<noteq> None \<or> vp_halted p \<noteq> None"

definition is_haltable :: "verifier_profile \<Rightarrow> bool" where
  "is_haltable p \<longleftrightarrow> vp_principal p \<noteq> None \<and> vp_halted p \<noteq> None"

definition measured_completely :: "verifier_profile \<Rightarrow> bool" where
  "measured_completely p \<longleftrightarrow> vp_principal p \<noteq> None \<and> vp_halted p \<noteq> None \<and> vp_identity p \<noteq> None"

section \<open>The gate\<close>

definition LOCAL_CHAIN_IDS :: "nat list" where
  "LOCAL_CHAIN_IDS = [31337, 1337]"

record halt_scope =
  hs_applies :: "string list"
  hs_excluded :: "string list"

record designation =
  ds_source :: string
  ds_code :: string
  ds_code_by_chain :: "(string \<times> string) list"
  ds_vkey :: string

record binding_request =
  br_consumer :: string
  br_target :: verifier_profile
  br_chain :: nat
  br_signer :: string
  br_allow_mock :: bool
  br_current :: "verifier_profile option"
  br_current_identity :: "string option"
  br_recorded_halted :: bool
  br_scope :: halt_scope
  br_designations :: "designation list"
  br_registered :: "verifier_profile list"
  br_registry :: json

datatype role = Target | CurrentVerifier | RegisteredWrapper

datatype binding_refusal =
    NoOverride | NoCode | NotAConsumer | OutsideHalt | NotHaltable | NotCompiledHere | Unmeasured role | TargetHalted
  | SignerIsPrincipal | SignerHaltsCurrent
  | RegisteredNotGenuine string | RecordedDiffers string string | OtherBuild string | HaltNotOnChain string | HaltNotRecorded string
  | ConsumerRecordedHalt | FreshHaltedIdentity | TwinHalted string | IdentityRecordedHalted "json option"
  | NotInRegistry | AnotherActive | NotDesignated | PinBypassed

text \<open>A reading of the chain as the registry would record it.\<close>

definition as_json :: "string option \<Rightarrow> json option" where
  "as_json x = Some (case x of None \<Rightarrow> JNull | Some s \<Rightarrow> JStr s)"

text \<open>The pairs a registration's facts are compared in: what is recorded and what the chain reports.\<close>

definition measured_fields :: "json \<Rightarrow> verifier_profile \<Rightarrow> (string \<times> json option \<times> json option) list" where
  "measured_fields f p =
     [(''identity'', lookup f ''identity'', as_json (vp_identity p)),
      (''PROGRAM_VKEY'', lookup f ''programVKey'', as_json (vp_vkey p)),
      (''SP1 verifier'', lookup_opt (lookup f ''sp1Verifier'') ''address'', as_json (vp_sp1 p)),
      (''SP1 verifier code'', lookup_opt (lookup f ''sp1Verifier'') ''runtimeCodeKeccak'', as_json (vp_sp1_code p)),
      (''halt principal'', lookup f ''haltPrincipal'', as_json (vp_principal p))]"

definition fact_refusals :: "json option \<Rightarrow> verifier_profile \<Rightarrow> binding_refusal list" where
  "fact_refusals reg r =
     (case reg of
        None \<Rightarrow> []
      | Some f \<Rightarrow>
          map (\<lambda>(k, _). RecordedDiffers (vp_address r) k) (filter (\<lambda>(_, recorded, live). recorded \<noteq> live) (measured_fields f r)) @
          problem_if (vp_build r \<noteq> None \<and> lookup f ''wrapperBuild'' \<noteq> as_json (vp_build r)) (OtherBuild (vp_address r)))"

definition registered_refusals ::
  "(string \<Rightarrow> string option) \<Rightarrow> json list \<times> json list \<Rightarrow> string \<Rightarrow> verifier_profile \<Rightarrow> binding_refusal list option" where
  "registered_refusals get_address state chain r =
     Option.bind (first_at get_address (fst state) chain (vp_address r)) (\<lambda>reg.
     Option.bind (recorded_halted get_address (snd state) chain (vp_address r)) (\<lambda>recorded.
     Some ((if \<not> vp_genuine r then [RegisteredNotGenuine (vp_address r)]
            else problem_if (\<not> measured_completely r) (Unmeasured RegisteredWrapper)) @
           fact_refusals reg r @
           problem_if (recorded \<and> vp_halted r = Some False) (HaltNotOnChain (vp_address r)) @
           problem_if (\<not> recorded \<and> vp_halted r = Some True) (HaltNotRecorded (vp_address r)))))"

fun each_refusals :: "('a \<Rightarrow> binding_refusal list option) \<Rightarrow> 'a list \<Rightarrow> binding_refusal list option" where
  "each_refusals f [] = Some []"
| "each_refusals f (x # xs) =
     Option.bind (f x) (\<lambda>rs. Option.bind (each_refusals f xs) (\<lambda>qs. Some (rs @ qs)))"

definition identity_refusals :: "binding_request \<Rightarrow> json list \<Rightarrow> binding_refusal list" where
  "identity_refusals req halts =
     (let t = br_target req in
      case vp_identity t of
        None \<Rightarrow> []
      | Some X \<Rightarrow>
          problem_if (br_recorded_halted req) ConsumerRecordedHalt @
          problem_if ((case br_current req of None \<Rightarrow> False | Some c \<Rightarrow> vp_halted c = Some True) \<and>
            br_current_identity req = Some X) FreshHaltedIdentity @
          map (\<lambda>r. TwinHalted (vp_address r))
            (filter (\<lambda>r. vp_halted r = Some True \<and> vp_identity r = Some X \<and> vp_address r \<noteq> vp_address t) (br_registered req)) @
          map (\<lambda>h. IdentityRecordedHalted (ih_seq h)) (halts_of_identity halts X))"

text \<open>\<open>req.chainId.toString()\<close>.\<close>

definition chain_text :: "nat \<Rightarrow> string" where
  "chain_text n = num_string 10 n"

definition designates :: "nat \<Rightarrow> verifier_profile \<Rightarrow> designation \<Rightarrow> bool" where
  "designates chain t d \<longleftrightarrow>
     Some (case map_of (ds_code_by_chain d) (chain_text chain) of None \<Rightarrow> ds_code d | Some c \<Rightarrow> c) = vp_sp1_code t \<and>
     Some (ds_vkey d) = vp_vkey t"

definition registration_refusals :: "binding_request \<Rightarrow> bool \<Rightarrow> binding_refusal list" where
  "registration_refusals req local =
     (let t = br_target req in
      problem_if (\<not> list_ex (\<lambda>r. vp_address r = vp_address t) (br_registered req)) NotInRegistry @
      problem_if (list_ex (\<lambda>r. vp_address r \<noteq> vp_address t \<and> vp_identity r = vp_identity t \<and> vp_halted r = Some False)
        (br_registered req)) AnotherActive @
      problem_if (\<not> list_ex (designates (br_chain req) t) (br_designations req)) NotDesignated @
      problem_if (\<not> local \<and> vp_genuine t \<and> vp_sp1_code t \<noteq> None \<and> vp_sp1_code t \<noteq> vp_pinned t) PinBypassed)"

text \<open>The rules for a haltable target on the SP1 path of a consumer inside the halt's scope.\<close>

definition sp1_refusals :: "ethers_lib \<Rightarrow> binding_request \<Rightarrow> bool \<Rightarrow> binding_refusal list option" where
  "sp1_refusals E req local =
     (let t = br_target req in
      Option.bind (el_address E (br_signer req)) (\<lambda>signer.
      Option.bind (registry_state (br_registry req)) (\<lambda>state.
      Option.bind (each_refusals (registered_refusals (el_address E) state (chain_text (br_chain req))) (br_registered req)) (\<lambda>rs.
      Some ((if \<not> vp_genuine t then [NotCompiledHere] else problem_if (\<not> measured_completely t) (Unmeasured Target)) @
        problem_if (vp_halted t = Some True) TargetHalted @
        problem_if (vp_principal t = Some signer) SignerIsPrincipal @
        (case br_current req of
           None \<Rightarrow> []
         | Some c \<Rightarrow> problem_if (vp_principal c = Some signer) SignerHaltsCurrent @
                     problem_if (vp_genuine c \<and> \<not> measured_completely c) (Unmeasured CurrentVerifier)) @
        rs @ identity_refusals req (snd state) @
        (if br_allow_mock req \<and> local then [] else registration_refusals req local))))))"

definition binding_refusals :: "ethers_lib \<Rightarrow> binding_request \<Rightarrow> binding_refusal list option" where
  "binding_refusals E req =
     (let t = br_target req; local = br_chain req \<in> set LOCAL_CHAIN_IDS;
          first = problem_if (br_allow_mock req \<and> \<not> local) NoOverride @ problem_if (\<not> vp_has_code t) NoCode;
          excluded = br_consumer req \<in> set (hs_excluded (br_scope req));
          applies = br_consumer req \<in> set (hs_applies (br_scope req))
      in if \<not> excluded \<and> \<not> applies then Some (first @ [NotAConsumer])
         else if \<not> is_on_sp1_path E t then Some first
         else if excluded then Some (first @ [OutsideHalt])
         else if \<not> is_haltable t then Some (first @ [NotHaltable])
         else Option.bind (sp1_refusals E req local) (\<lambda>rs. Some (first @ rs)))"

section \<open>Deployment and rotation\<close>

record gate_inputs =
  gi_builds :: "wrapper_build list"
  gi_registry :: json
  gi_scope :: halt_scope
  gi_designations :: "designation list"
  gi_allow_mock :: bool

datatype gate_failure = Threw | Refused "binding_refusal list"

text \<open>\<open>wrapperRegistryErrors\<close> finds nothing.\<close>

definition well_formed_registry :: "ethers_lib \<Rightarrow> json \<Rightarrow> bool" where
  "well_formed_registry E doc \<longleftrightarrow>
     is_object (Some doc) \<and> registry_errors (el_address E) (el_identity E) doc None None = []"

fun profiles :: "ethers_lib \<Rightarrow> chain_view \<Rightarrow> wrapper_build list \<Rightarrow> json option list \<Rightarrow> verifier_profile list option" where
  "profiles E cv builds [] = Some []"
| "profiles E cv builds (a # as) =
     (case text_of a of
        None \<Rightarrow> None
      | Some address \<Rightarrow>
          Option.bind (profile_verifier E cv address builds) (\<lambda>p.
          Option.bind (profiles E cv builds as) (\<lambda>ps. Some (p # ps))))"

text \<open>\<open>context\<close>: the wrappers registered for the chain, profiled live.\<close>

definition gate_context :: "ethers_lib \<Rightarrow> chain_view \<Rightarrow> gate_inputs \<Rightarrow> verifier_profile list option" where
  "gate_context E cv gi =
     (if \<not> well_formed_registry E (gi_registry gi) then None
      else Option.bind (registry_state (gi_registry gi)) (\<lambda>state.
           profiles E cv (gi_builds gi) (registered_on (fst state) (chain_text (cv_chain cv)))))"

definition assert_bindable :: "ethers_lib \<Rightarrow> binding_request \<Rightarrow> 'a \<Rightarrow> gate_failure + 'a" where
  "assert_bindable E req x =
     (case binding_refusals E req of
        None \<Rightarrow> Inl Threw
      | Some rs \<Rightarrow> if rs = [] then Inr x else Inl (Refused rs))"

definition check_deployment_binding ::
  "ethers_lib \<Rightarrow> chain_view \<Rightarrow> gate_inputs \<Rightarrow> string \<Rightarrow> string \<Rightarrow> string \<Rightarrow> gate_failure + verifier_profile" where
  "check_deployment_binding E cv gi consumer verifier signer =
     (case Option.bind (gate_context E cv gi) (\<lambda>registered.
           Option.bind (profile_verifier E cv verifier (gi_builds gi)) (\<lambda>target. Some (registered, target))) of
        None \<Rightarrow> Inl Threw
      | Some (registered, target) \<Rightarrow>
          assert_bindable E
            \<lparr>br_consumer = consumer, br_target = target, br_chain = cv_chain cv, br_signer = signer,
             br_allow_mock = gi_allow_mock gi, br_current = None, br_current_identity = None, br_recorded_halted = False,
             br_scope = gi_scope gi, br_designations = gi_designations gi, br_registered = registered,
             br_registry = gi_registry gi\<rparr> target)"

definition CONSUMER_BY_DOMAIN_NAME :: "(string \<times> string) list" where
  "CONSUMER_BY_DOMAIN_NAME =
     [(''WalletWallVault'', ''WalletWallVault''), (''WalletWallStablecoinVault'', ''StablecoinVaultSimulator''),
      (''WalletWallMultiSigVault'', ''WalletWallMultiSigVault'')]"

text \<open>
  \<open>domain_name\<close> decodes the answer of \<open>eip712Domain()\<close> and takes its name. A name the table inherits from its prototype
  (\<open>toString\<close>) is refused here; the code refuses it in the gate, as no consumer of the halt's scope.
\<close>

definition identify_consumer ::
  "ethers_lib \<Rightarrow> (string \<Rightarrow> string option) \<Rightarrow> chain_view \<Rightarrow> string \<Rightarrow> string option" where
  "identify_consumer E domain_name cv address =
     (case cv_call cv address (selector E ''eip712Domain()'') of
        Inl _ \<Rightarrow> None
      | Inr out \<Rightarrow> Option.bind (domain_name out) (map_of CONSUMER_BY_DOMAIN_NAME))"

definition ZERO_WORD :: string where
  "ZERO_WORD = ''0x'' @ replicate 64 CHR ''0''"

text \<open>What the consumer recorded of an identity; \<open>BigInt\<close> refuses an answer without digits.\<close>

definition recorded_by_consumer :: "ethers_lib \<Rightarrow> chain_view \<Rightarrow> string \<Rightarrow> string option \<Rightarrow> bool option" where
  "recorded_by_consumer E cv consumer identity =
     (case identity of
        None \<Rightarrow> Some False
      | Some X \<Rightarrow>
          (case cv_call cv consumer (selector E ''haltedVerifierIdentities(bytes32)'' @ drop 2 X) of
             Inl _ \<Rightarrow> None
           | Inr out \<Rightarrow> if out = ''0x'' then None else Some (list_ex (\<lambda>c. c \<noteq> CHR ''0'') (drop 2 out))))"

definition check_rotation_binding ::
  "ethers_lib \<Rightarrow> (string \<Rightarrow> string option) \<Rightarrow> chain_view \<Rightarrow> gate_inputs \<Rightarrow> string \<Rightarrow> string \<Rightarrow> string \<Rightarrow>
   gate_failure + (string \<times> verifier_profile \<times> verifier_profile)" where
  "check_rotation_binding E domain_name cv gi address verifier signer =
     (case Option.bind (gate_context E cv gi) (\<lambda>registered.
           Option.bind (identify_consumer E domain_name cv address) (\<lambda>consumer.
           Option.bind (word_of E cv address (selector E ''pqVerifier()'')) (\<lambda>w.
           Option.bind (Option.bind (as_address E w) id) (\<lambda>current_address.
           Option.bind (profile_verifier E cv current_address (gi_builds gi)) (\<lambda>current.
           Option.bind (profile_verifier E cv verifier (gi_builds gi)) (\<lambda>target.
           Option.bind (word_of E cv address (selector E ''pqVerifierIdentity()'')) (\<lambda>stored.
           Option.bind (recorded_by_consumer E cv address (vp_identity target)) (\<lambda>recorded.
           Some (registered, consumer, current, target, stored, recorded))))))))) of
        None \<Rightarrow> Inl Threw
      | Some (registered, consumer, current, target, stored, recorded) \<Rightarrow>
          assert_bindable E
            \<lparr>br_consumer = consumer, br_target = target, br_chain = cv_chain cv, br_signer = signer,
             br_allow_mock = gi_allow_mock gi, br_current = Some current,
             br_current_identity = (if stored = Some ZERO_WORD then None else stored), br_recorded_halted = recorded,
             br_scope = gi_scope gi, br_designations = gi_designations gi, br_registered = registered,
             br_registry = gi_registry gi\<rparr> (consumer, target, current))"

end
