(* ===== verification/Binding_Laws.thy ===== *)
theory Binding_Laws
  imports Binding_Gate Registry_Laws Evidence_Laws
begin

text \<open>
  What the binding gate guarantees: a bound target runs a recorded build, agrees with the registry in everything the
  registry records, and is of no identity whose halt was ever published.
\<close>

section \<open>Recorded builds\<close>

text \<open>\<open>getBytes\<close> decodes hexadecimal text, as ethers documents.\<close>

definition decodes_hex :: "hex_env \<Rightarrow> bool" where
  "decodes_hex hex \<longleftrightarrow> (\<forall>x b. get_bytes hex x = Some b \<longrightarrow> hex_to_buffer x = Some b)"

lemma same_code_iff:
  assumes "same_code code reference build = Some b" and "length code = length reference" and "wb_region_start build \<le> int (length code)"
  shows "b \<longleftrightarrow> (\<forall>k < nat (wb_region_start build). code ! k \<noteq> reference ! k \<longrightarrow> in_any_range k (flatten_ranges (wb_immutables build)))"
proof -
  let ?rs = "flatten_ranges (wb_immutables build)" and ?n = "nat (wb_region_start build)"
  obtain c r where m: "mask_ranges code ?rs = Some c" "mask_ranges reference ?rs = Some r" and b: "b \<longleftrightarrow> take ?n c = take ?n r"
    using assms(1) by (auto simp: same_code_def split: option.splits)
  have "?n \<le> length code" using assms(3) by simp
  then show ?thesis unfolding b using mask_ranges_nth [OF m(1)] mask_ranges_nth [OF m(2)] assms(2)
    by (auto simp: list_eq_iff_nth_eq)
qed

lemma matches_build_iff:
  assumes "decodes_hex hex" and "matches_build hex runtime build = Some b"
  shows "b \<longleftrightarrow> is_hex hex runtime \<and> runtime \<noteq> ''0x'' \<and>
    (\<exists>code reference l. get_bytes hex runtime = Some code \<and> get_bytes hex (wb_template build) = Some reference \<and>
       length code = length reference \<and> 0 \<le> wb_region_start build \<and> boundary_of_bytes code = Decoded (nat (wb_region_start build)) l \<and>
       (\<forall>k < nat (wb_region_start build). code ! k \<noteq> reference ! k \<longrightarrow> in_any_range k (flatten_ranges (wb_immutables build))))"
    (is "_ \<longleftrightarrow> ?R")
proof (cases "is_hex hex runtime \<and> runtime \<noteq> ''0x''")
  case False
  then show ?thesis using assms(2) by (auto simp: matches_build_def)
next
  case True
  then obtain code reference where c: "get_bytes hex runtime = Some code" "get_bytes hex (wb_template build) = Some reference"
    using assms(2) by (auto simp: matches_build_def split: option.splits)
  have d: "decode_solc_metadata_boundary runtime = Some (boundary_of_bytes code)"
    using assms(1) c(1) by (simp add: decodes_hex_def decode_solc_metadata_boundary_def)
  show ?thesis
  proof (cases "length code = length reference \<and> 0 \<le> wb_region_start build \<and>
      (\<exists>l. boundary_of_bytes code = Decoded (nat (wb_region_start build)) l)")
    case ok: True
    then obtain l where l: "boundary_of_bytes code = Decoded (nat (wb_region_start build)) l" by auto
    have "same_code code reference build = Some b"
      using assms(2) True c d ok l by (simp add: matches_build_def boundary_ok_def)
    moreover have "wb_region_start build \<le> int (length code)" using boundary_regionD(1) [OF l] ok by simp
    ultimately show ?thesis using same_code_iff ok True c l by simp
  next
    case bad: False
    have "boundary_of_bytes code = Decoded (nat (wb_region_start build)) (region_size (boundary_of_bytes code)) \<and> 0 \<le> wb_region_start build"
      if "boundary_ok (boundary_of_bytes code)" "int (region_start (boundary_of_bytes code)) = wb_region_start build"
    proof -
      have "nat (wb_region_start build) = region_start (boundary_of_bytes code)" "0 \<le> wb_region_start build"
        unfolding that(2) [symmetric] by simp_all
      then show ?thesis using that(1) by (cases "boundary_of_bytes code") (auto simp: boundary_ok_def)
    qed
    then have "\<not> b" using assms(2) True c d bad by (auto simp: matches_build_def split: if_splits)
    then show ?thesis using bad c by auto
  qed
qed

lemma find_first_Some:
  "find_first f xs = Some (Some x) \<Longrightarrow> \<exists>pre post. xs = pre @ x # post \<and> f x = Some True \<and> (\<forall>y \<in> set pre. f y = Some False)"
proof (induction xs)
  case (Cons y ys)
  show ?case
  proof (cases "f y = Some True")
    case True
    then show ?thesis using Cons.prems by (intro exI [of _ "[]"] exI [of _ ys]) auto
  next
    case False
    then have "f y = Some False" "find_first f ys = Some (Some x)" using Cons.prems by (auto split: option.splits if_splits)
    moreover from Cons.IH [OF this(2)] obtain pre post where
      "ys = pre @ x # post \<and> f x = Some True \<and> (\<forall>y \<in> set pre. f y = Some False)" by auto
    ultimately show ?thesis by (intro exI [of _ "y # pre"] exI [of _ post]) auto
  qed
qed simp

lemma find_first_None: "find_first f xs = Some None \<Longrightarrow> \<forall>y \<in> set xs. f y = Some False"
  by (induction xs) (auto split: option.splits if_splits)

section \<open>The gate, rule by rule\<close>

lemma each_refusals_Nil: "each_refusals f xs = Some [] \<longleftrightarrow> (\<forall>x \<in> set xs. f x = Some [])"
  by (induction xs) (auto simp: bind_eq_Some_conv)

lemma binding_refusals_Nil:
  assumes "binding_refusals E req = Some []" and "is_on_sp1_path E (br_target req)"
  shows "br_consumer req \<in> set (hs_applies (br_scope req))" and "br_consumer req \<notin> set (hs_excluded (br_scope req))"
    and "vp_has_code (br_target req)" and "is_haltable (br_target req)"
    and "br_allow_mock req \<Longrightarrow> br_chain req \<in> set LOCAL_CHAIN_IDS"
    and "sp1_refusals E req (br_chain req \<in> set LOCAL_CHAIN_IDS) = Some []"
  using assms by (auto simp: binding_refusals_def Let_def bind_eq_Some_conv split: if_splits)

lemma sp1_refusals_Nil:
  assumes "sp1_refusals E req local = Some []"
  obtains signer state where "el_address E (br_signer req) = Some signer" and "registry_state (br_registry req) = Some state"
    and "\<And>r. r \<in> set (br_registered req) \<Longrightarrow>
      registered_refusals (el_address E) state (chain_text (br_chain req)) r = Some []"
    and "vp_genuine (br_target req)" and "measured_completely (br_target req)" and "vp_halted (br_target req) \<noteq> Some True"
    and "vp_principal (br_target req) \<noteq> Some signer"
    and "\<And>c. br_current req = Some c \<Longrightarrow> vp_principal c \<noteq> Some signer \<and> (vp_genuine c \<longrightarrow> measured_completely c)"
    and "identity_refusals req (snd state) = []"
    and "br_allow_mock req \<and> local \<or> registration_refusals req local = []"
proof -
  obtain signer state rs where s: "el_address E (br_signer req) = Some signer" "registry_state (br_registry req) = Some state"
    "each_refusals (registered_refusals (el_address E) state (chain_text (br_chain req))) (br_registered req) = Some rs"
    using assms by (auto simp: sp1_refusals_def Let_def bind_eq_Some_conv)
  then have "rs = []" and "vp_genuine (br_target req) \<and> measured_completely (br_target req) \<and> vp_halted (br_target req) \<noteq> Some True \<and>
      vp_principal (br_target req) \<noteq> Some signer"
    and "\<And>c. br_current req = Some c \<Longrightarrow> vp_principal c \<noteq> Some signer \<and> (vp_genuine c \<longrightarrow> measured_completely c)"
    and "identity_refusals req (snd state) = []" and "br_allow_mock req \<and> local \<or> registration_refusals req local = []"
    using assms by (auto simp: sp1_refusals_def Let_def split: if_splits option.splits)
  moreover from this(1) s(3) have "registered_refusals (el_address E) state (chain_text (br_chain req)) r = Some []"
    if "r \<in> set (br_registered req)" for r using that by (simp add: each_refusals_Nil)
  ultimately show thesis using s by (intro that) auto
qed

section \<open>The registered wrappers\<close>

lemma scan_fact_checksummed:
  "fst (scan_fact ga io bs ds i f s) = [] \<Longrightarrow> is_checksummed ga (lookup f ''address'')"
  by (auto simp: scan_fact_def Let_def split: if_splits)

lemma scan_facts_checksummed:
  "fst (scan_facts ga io bs ds i fs s) = [] \<Longrightarrow> f \<in> set fs \<Longrightarrow> is_checksummed ga (lookup f ''address'')"
proof (induction fs rule: rev_induct)
  case (snoc g fs)
  obtain ps t where s: "scan_facts ga io bs ds i fs s = (ps, t)" by force
  obtain qs t' where t: "scan_fact ga io bs ds (i + length fs) g t = (qs, t')" by force
  have "ps = []" "qs = []" using snoc.prems(1) s t by (simp_all add: scan_facts_snoc)
  then show ?case using snoc s t scan_fact_checksummed [of ga io bs ds "i + length fs" g t] by auto
qed simp

text \<open>The facts of a well-formed registry.\<close>

lemma well_formed_facts:
  assumes "well_formed_registry E doc"
  obtains fs where "lookup doc ''facts'' = Some (JArr fs)" and "facts_of doc = fs" and "facts_sound (el_identity E) fs"
    and "\<And>f. f \<in> set fs \<Longrightarrow> is_checksummed (el_address E) (lookup f ''address'')"
    and "registry_state doc = Some (of_kind ''WRAPPER_REGISTERED'' fs, of_kind ''WRAPPER_HALTED'' fs)"
proof -
  from assms obtain fs where fs: "lookup doc ''facts'' = Some (JArr fs)"
    "fst (scan_facts (el_address E) (el_identity E) None None 0 fs empty_scan) = []"
    by (auto simp: well_formed_registry_def registry_errors_Nil)
  then have s: "facts_sound (el_identity E) fs" using scan_facts_sound [OF fs(2)] by simp
  show thesis
    by (rule that [OF fs(1) facts_of_JArr [OF fs(1)] s scan_facts_checksummed [OF fs(2)]])
      (simp_all add: registry_state_def facts_of_JArr [OF fs(1)] facts_sound_object [OF s])
qed

lemma sound_registration:
  assumes "facts_sound io fs" and "f \<in> set fs" and "lookup f ''kind'' = Some (JStr ''WRAPPER_REGISTERED'')"
  obtains c a X where "registers f c a X"
proof -
  obtain i where "i < length fs" "fs ! i = f" using assms(2) by (auto simp: in_set_conv_nth)
  then have "fact_sound io (take i fs) f" using facts_sound_nth [OF assms(1)] by blast
  then obtain c a X where "registers f c a X \<or> halts f c a X" by (auto simp: fact_sound_def)
  then show thesis using that assms(3) by (auto simp: halts_def)
qed

lemma sound_registration_unique:
  assumes s: "facts_sound io fs" and "f \<in> set fs" "registers f c a X" and "g \<in> set fs" "registers g c a Y"
  shows "f = g"
proof -
  obtain i j where i: "i < length fs" "fs ! i = f" and j: "j < length fs" "fs ! j = g"
    using assms(2,4) by (auto simp: in_set_conv_nth)
  have no: "\<not> (\<exists>h \<in> set (take n fs). \<exists>Z. registers h c a Z)" if "n < length fs" "registers (fs ! n) c a Z" for n Z
    using facts_sound_nth [OF s that(1)] that(2) by (auto simp: fact_sound_def registers_def halts_def names_wrapper_def)
  have in_take: "fs ! m \<in> set (take n fs)" if "m < n" "n < length fs" for m n
    using that by (auto simp: in_set_conv_nth)
  show ?thesis
    using no [OF i(1), of X] no [OF j(1), of Y] in_take [of i j] in_take [of j i] i j assms(3,5)
    by (cases i j rule: linorder_cases) auto
qed

lemma profile_address: "profile_verifier E cv a builds = Some p \<Longrightarrow> el_address E a = Some (vp_address p)"
  by (auto simp: profile_verifier_def bind_eq_Some_conv)

lemma profile_identity:
  "profile_verifier E cv a builds = Some p \<Longrightarrow>
     vp_identity p = (case (vp_sp1_code p, vp_vkey p) of (Some c, Some v) \<Rightarrow> Some (el_identity E c v) | _ \<Rightarrow> None)"
  by (auto simp: profile_verifier_def bind_eq_Some_conv cong: option.case_cong)

lemma profile_on_path:
  "profile_verifier E cv a builds = Some p \<Longrightarrow> vp_identity p \<noteq> None \<Longrightarrow> is_on_sp1_path E p"
  using profile_identity [of E cv a builds p] by (auto simp: is_on_sp1_path_def split: option.splits)

lemma profiles_Some:
  "profiles E cv builds as = Some ps \<Longrightarrow>
     list_all2 (\<lambda>a p. \<exists>address. a = Some (JStr address) \<and> profile_verifier E cv address builds = Some p) as ps"
  by (induction as arbitrary: ps) (auto simp: bind_eq_Some_conv text_of_Some split: option.splits)

text \<open>
  A registered wrapper as the gate saw it: what its registration records is what the chain reports, and the registry
  records its halt exactly when the chain shows it.
\<close>

definition agrees_with_chain :: "json list \<Rightarrow> string \<Rightarrow> verifier_profile \<Rightarrow> bool" where
  "agrees_with_chain fs chain p \<longleftrightarrow>
     vp_genuine p \<and> measured_completely p \<and>
     (\<exists>f \<in> set fs. \<exists>X. registers f chain (vp_address p) X \<and> vp_identity p = Some X \<and>
        (\<forall>(k, recorded, live) \<in> set (measured_fields f p). recorded = live) \<and> lookup f ''wrapperBuild'' = as_json (vp_build p)) \<and>
     (vp_halted p = Some True \<longleftrightarrow> (\<exists>f \<in> set fs. \<exists>X. halts f chain (vp_address p) X))"

lemma first_at_registered:
  assumes s: "facts_sound io fs" and f: "f \<in> set fs" "registers f chain address X" and a: "ga address = Some address"
  shows "first_at ga (of_kind ''WRAPPER_REGISTERED'' fs) chain address = Some (Some f)"
proof -
  let ?regs = "on_chain chain (of_kind ''WRAPPER_REGISTERED'' fs)"
  have m: "f \<in> set ?regs" and fa: "lookup f ''address'' = Some (JStr address)"
    using f by (auto simp: on_chain_def of_kind_def registers_def names_wrapper_def)
  obtain g where g: "find (\<lambda>f. lookup f ''address'' = Some (JStr address)) ?regs = Some g"
    using m fa by (cases "find (\<lambda>f. lookup f ''address'' = Some (JStr address)) ?regs") (auto simp: find_None_iff)
  then have gm: "g \<in> set fs" "lookup g ''kind'' = Some (JStr ''WRAPPER_REGISTERED'')" "lookup g ''chainId'' = Some (JStr chain)"
    "lookup g ''address'' = Some (JStr address)"
    by (auto simp: find_Some_iff on_chain_def of_kind_def dest!: nth_mem)
  then obtain Y where "registers g chain address Y"
    by (rule_tac sound_registration [OF s gm(1,2)]) (auto simp: registers_def names_wrapper_def)
  then have "g = f" using sound_registration_unique [OF s gm(1) _ f] by blast
  moreover have "?regs \<noteq> []" using m by auto
  ultimately show ?thesis using g a by (simp add: first_at_def)
qed

lemma recorded_halted_iff:
  assumes s: "facts_sound io fs" and a: "ga address = Some address"
  shows "recorded_halted ga (of_kind ''WRAPPER_HALTED'' fs) chain address = Some (\<exists>f \<in> set fs. \<exists>X. halts f chain address X)"
proof -
  let ?hs = "on_chain chain (of_kind ''WRAPPER_HALTED'' fs)"
  have names: "\<exists>X. halts f chain address X"
    if f: "f \<in> set fs" "lookup f ''kind'' = Some (JStr ''WRAPPER_HALTED'')" "lookup f ''chainId'' = Some (JStr chain)"
      "lookup f ''address'' = Some (JStr address)" for f
  proof -
    obtain i where "i < length fs" "fs ! i = f" using f(1) by (auto simp: in_set_conv_nth)
    then have "fact_sound io (take i fs) f" using facts_sound_nth [OF s] by blast
    then show ?thesis using f by (auto simp: fact_sound_def registers_def halts_def names_wrapper_def)
  qed
  have "(find (\<lambda>f. lookup f ''address'' = Some (JStr address)) ?hs \<noteq> None) \<longleftrightarrow> (\<exists>f \<in> set fs. \<exists>X. halts f chain address X)"
    using names by (auto simp: find_None_iff on_chain_def of_kind_def halts_def names_wrapper_def)
  moreover have "(\<exists>f \<in> set fs. \<exists>X. halts f chain address X) \<Longrightarrow> ?hs \<noteq> []"
    by (auto simp: filter_empty_conv on_chain_def of_kind_def halts_def names_wrapper_def)
  ultimately show ?thesis using a by (auto simp: recorded_halted_def first_at_def)
qed

lemma json_text_eq [simp]: "Some (JStr s) = as_json x \<longleftrightarrow> x = Some s" "as_json x = Some (JStr s) \<longleftrightarrow> x = Some s"
  by (auto simp: as_json_def split: option.splits)

lemma registered_agrees:
  assumes s: "facts_sound io fs" and f: "f \<in> set fs" "registers f chain (vp_address r) X"
    and a: "ga (vp_address r) = Some (vp_address r)"
    and ok: "registered_refusals ga (of_kind ''WRAPPER_REGISTERED'' fs, of_kind ''WRAPPER_HALTED'' fs) chain r = Some []"
  shows "agrees_with_chain fs chain r"
proof -
  let ?halted = "\<exists>f \<in> set fs. \<exists>X. halts f chain (vp_address r) X"
  have e: "vp_genuine r" "measured_completely r" "fact_refusals (Some f) r = []"
    "\<not> (?halted \<and> vp_halted r = Some False)" "\<not> (\<not> ?halted \<and> vp_halted r = Some True)"
    using ok first_at_registered [OF s f, of ga] recorded_halted_iff [OF s, of ga "vp_address r" chain] a
    by (auto simp: registered_refusals_def split: if_splits)
  have fields: "\<forall>(k, recorded, live) \<in> set (measured_fields f r). recorded = live"
    and build: "lookup f ''wrapperBuild'' = as_json (vp_build r)"
    using e(1,3) by (auto simp: fact_refusals_def filter_empty_conv vp_genuine_def)
  have "lookup f ''identity'' = Some (JStr X)" using f(2) by (simp add: registers_def names_wrapper_def)
  then have "vp_identity r = Some X" using fields by (simp add: measured_fields_def)
  moreover have "vp_halted r = Some True \<longleftrightarrow> ?halted"
    using e(2,4,5) by (cases "vp_halted r") (auto simp: measured_completely_def)
  ultimately show ?thesis unfolding agrees_with_chain_def using e(1,2) f fields build by blast
qed

text \<open>
  What a bound target is: of a consumer inside the halt's scope, a recorded build, measured, active, of an identity of
  which the registry records no halt anywhere; and, unless the local override applies, the one registered wrapper of its
  identity on the chain, designated, with its build's own verifier behind it.
\<close>

definition bound_soundly :: "ethers_lib \<Rightarrow> gate_inputs \<Rightarrow> nat \<Rightarrow> string \<Rightarrow> string \<Rightarrow> verifier_profile list \<Rightarrow> verifier_profile \<Rightarrow> bool" where
  "bound_soundly E gi chain consumer signer ps t \<longleftrightarrow>
     consumer \<in> set (hs_applies (gi_scope gi)) \<and> consumer \<notin> set (hs_excluded (gi_scope gi)) \<and>
     vp_genuine t \<and> vp_halted t = Some False \<and> el_address E signer \<noteq> vp_principal t \<and>
     (\<exists>X. vp_identity t = Some X \<and> (\<forall>f \<in> set (facts_of (gi_registry gi)). \<forall>c a. \<not> halts f c a X)) \<and>
     (\<forall>p \<in> set ps. agrees_with_chain (facts_of (gi_registry gi)) (chain_text chain) p) \<and>
     (gi_allow_mock gi \<and> chain \<in> set LOCAL_CHAIN_IDS \<or>
      (\<not> gi_allow_mock gi \<and>
       (\<exists>p \<in> set ps. vp_address p = vp_address t) \<and>
       (\<forall>p \<in> set ps. vp_identity p = vp_identity t \<longrightarrow> vp_address p = vp_address t) \<and>
       (\<exists>d \<in> set (gi_designations gi). designates chain t d) \<and>
       (chain \<notin> set LOCAL_CHAIN_IDS \<longrightarrow> vp_sp1_code t = vp_pinned t)))"

lemma registration_refusals_Nil:
  "registration_refusals req local = [] \<longleftrightarrow>
     (\<exists>r \<in> set (br_registered req). vp_address r = vp_address (br_target req)) \<and>
     (\<forall>r \<in> set (br_registered req). vp_address r \<noteq> vp_address (br_target req) \<longrightarrow>
        vp_identity r = vp_identity (br_target req) \<longrightarrow> vp_halted r \<noteq> Some False) \<and>
     (\<exists>d \<in> set (br_designations req). designates (br_chain req) (br_target req) d) \<and>
     (\<not> local \<longrightarrow> vp_genuine (br_target req) \<longrightarrow> vp_sp1_code (br_target req) \<noteq> None \<longrightarrow>
        vp_sp1_code (br_target req) = vp_pinned (br_target req))"
  by (auto simp: registration_refusals_def Let_def list_ex_iff)

lemma list_all2_source: "list_all2 P xs ys \<Longrightarrow> y \<in> set ys \<Longrightarrow> \<exists>x \<in> set xs. P x y"
  by (induction rule: list_all2_induct) auto

lemma gate_sound:
  assumes wf: "well_formed_registry E (gi_registry gi)" and req: "br_registry req = gi_registry gi" "br_chain req = chain"
      "br_allow_mock req = gi_allow_mock gi" "br_scope req = gi_scope gi" "br_designations req = gi_designations gi"
      "br_registered req = ps"
    and ps: "Option.bind (registry_state (gi_registry gi)) (\<lambda>state.
      profiles E cv (gi_builds gi) (registered_on (fst state) (chain_text chain))) = Some ps"
    and t: "profile_verifier E cv a (gi_builds gi) = Some (br_target req)"
    and ok: "binding_refusals E req = Some []" and path: "is_on_sp1_path E (br_target req)"
  shows "bound_soundly E gi chain (br_consumer req) (br_signer req) ps (br_target req)"
proof -
  let ?t = "br_target req" and ?local = "chain \<in> set LOCAL_CHAIN_IDS"
  note b = binding_refusals_Nil [OF ok path, unfolded req]
  obtain fs where fs: "facts_of (gi_registry gi) = fs" "facts_sound (el_identity E) fs"
    "\<And>f. f \<in> set fs \<Longrightarrow> is_checksummed (el_address E) (lookup f ''address'')"
    "registry_state (gi_registry gi) = Some (of_kind ''WRAPPER_REGISTERED'' fs, of_kind ''WRAPPER_HALTED'' fs)"
    using wf by (rule well_formed_facts) blast
  obtain signer state where s: "el_address E (br_signer req) = Some signer" "registry_state (gi_registry gi) = Some state"
    and each: "\<And>r. r \<in> set ps \<Longrightarrow> registered_refusals (el_address E) state (chain_text chain) r = Some []"
    and g: "vp_genuine ?t" "measured_completely ?t" "vp_halted ?t \<noteq> Some True" "vp_principal ?t \<noteq> Some signer"
    and i: "identity_refusals req (snd state) = []" and reg: "gi_allow_mock gi \<and> ?local \<or> registration_refusals req ?local = []"
    using b(6) by (rule sp1_refusals_Nil [of E req, unfolded req]) blast
  have st: "state = (of_kind ''WRAPPER_REGISTERED'' fs, of_kind ''WRAPPER_HALTED'' fs)" using s(2) fs(4) by simp
  obtain X where X: "vp_identity ?t = Some X" and act: "vp_halted ?t = Some False"
    using g(2,3) by (cases "vp_halted ?t") (auto simp: measured_completely_def)
  have "halts_of_identity (of_kind ''WRAPPER_HALTED'' fs) X = []"
    using i X st by (simp add: identity_refusals_def Let_def)
  then have no_halt: "\<forall>f \<in> set fs. \<forall>c a. \<not> halts f c a X" using sound_halts_of_identity [OF fs(2), of X] by blast
  have agree: "agrees_with_chain fs (chain_text chain) p" if p: "p \<in> set ps" for p
  proof -
    have all: "list_all2 (\<lambda>a p. \<exists>address. a = Some (JStr address) \<and> profile_verifier E cv address (gi_builds gi) = Some p)
        (registered_on (of_kind ''WRAPPER_REGISTERED'' fs) (chain_text chain)) ps"
      using ps fs(4) by (intro profiles_Some) simp
    obtain x where x: "x \<in> set (registered_on (of_kind ''WRAPPER_REGISTERED'' fs) (chain_text chain))"
      "\<exists>address. x = Some (JStr address) \<and> profile_verifier E cv address (gi_builds gi) = Some p"
      using list_all2_source [OF all p] by auto
    then obtain f address where f: "f \<in> set fs" "lookup f ''kind'' = Some (JStr ''WRAPPER_REGISTERED'')"
      "lookup f ''chainId'' = Some (JStr (chain_text chain))" "lookup f ''address'' = Some (JStr address)"
      and pa: "profile_verifier E cv address (gi_builds gi) = Some p"
      by (auto simp: registered_on_def on_chain_def of_kind_def)
    have ca: "el_address E address = Some address" using fs(3) [OF f(1)] f(4) by (simp add: is_checksummed_def)
    then have ap: "vp_address p = address" using profile_address [OF pa] by simp
    obtain c b Y where r: "registers f c b Y" by (rule sound_registration [OF fs(2) f(1,2)])
    then have "c = chain_text chain" "b = address" using f(3,4) by (simp_all add: registers_def names_wrapper_def)
    then have "registers f (chain_text chain) address Y" using r by simp
    then show ?thesis
      using registered_agrees [OF fs(2) f(1), of "chain_text chain" p Y "el_address E"] ap ca each [OF p] st by simp
  qed
  have twins: "vp_address p = vp_address ?t"
    if p: "p \<in> set ps" "vp_identity p = vp_identity ?t" "registration_refusals req ?local = []" for p
  proof (rule ccontr)
    assume ne: "vp_address p \<noteq> vp_address ?t"
    then have "vp_halted p \<noteq> Some True"
      using i X p(1,2) by (auto simp: identity_refusals_def Let_def filter_empty_conv req)
    moreover have "vp_halted p \<noteq> Some False" using p ne by (simp add: registration_refusals_Nil req)
    ultimately show False using agree [OF p(1)] by (cases "vp_halted p") (auto simp: agrees_with_chain_def measured_completely_def)
  qed
  have "vp_sp1_code ?t \<noteq> None" using profile_identity [OF t] X by (auto split: option.splits)
  then have rules: "registration_refusals req ?local = [] \<Longrightarrow>
      (\<exists>p \<in> set ps. vp_address p = vp_address ?t) \<and> (\<exists>d \<in> set (gi_designations gi). designates chain ?t d) \<and>
      (\<not> ?local \<longrightarrow> vp_sp1_code ?t = vp_pinned ?t)"
    using g(1) by (simp add: registration_refusals_Nil req)
  have "gi_allow_mock gi \<Longrightarrow> ?local" by (rule b(5))
  then show ?thesis unfolding bound_soundly_def
    using b(1,2) g(1,4) act s(1) X no_halt agree twins rules reg fs(1) by (auto simp: req)
qed

section \<open>Properties\<close>

lemma assert_bindable_Inr: "assert_bindable E req x = Inr y \<longleftrightarrow> binding_refusals E req = Some [] \<and> y = x"
  by (auto simp: assert_bindable_def split: option.splits if_splits)

lemma gate_context_Some:
  "gate_context E cv gi = Some ps \<longleftrightarrow>
     well_formed_registry E (gi_registry gi) \<and>
     Option.bind (registry_state (gi_registry gi)) (\<lambda>state.
       profiles E cv (gi_builds gi) (registered_on (fst state) (chain_text (cv_chain cv)))) = Some ps"
  by (simp add: gate_context_def)

lemma deployment_bound_soundly:
  assumes c: "check_deployment_binding E cv gi consumer verifier signer = Inr t" and p: "is_on_sp1_path E t"
  shows "\<exists>ps. gate_context E cv gi = Some ps \<and> bound_soundly E gi (cv_chain cv) consumer signer ps t"
proof -
  obtain ps where ps: "gate_context E cv gi = Some ps" and t: "profile_verifier E cv verifier (gi_builds gi) = Some t"
    and ok: "binding_refusals E \<lparr>br_consumer = consumer, br_target = t, br_chain = cv_chain cv, br_signer = signer,
      br_allow_mock = gi_allow_mock gi, br_current = None, br_current_identity = None, br_recorded_halted = False,
      br_scope = gi_scope gi, br_designations = gi_designations gi, br_registered = ps, br_registry = gi_registry gi\<rparr> = Some []"
    using c by (auto simp: check_deployment_binding_def assert_bindable_Inr bind_eq_Some_conv split: option.splits)
  show ?thesis using gate_sound [OF _ _ _ _ _ _ _ _ _ ok, of gi "cv_chain cv" ps cv verifier] ps t p
    by (simp add: gate_context_Some)
qed

lemma rotation_bound_soundly:
  assumes c: "check_rotation_binding E domain_name cv gi address verifier signer = Inr (consumer, t, current)"
    and p: "is_on_sp1_path E t"
  shows "(\<exists>ps. gate_context E cv gi = Some ps \<and> bound_soundly E gi (cv_chain cv) consumer signer ps t) \<and>
    vp_principal current \<noteq> el_address E signer \<and> recorded_by_consumer E cv address (vp_identity t) = Some False \<and>
    (vp_halted current = Some True \<and> vp_identity t \<noteq> Some ZERO_WORD \<longrightarrow>
       word_of E cv address (selector E ''pqVerifierIdentity()'') \<noteq> Some (vp_identity t))"
proof -
  obtain ps stored recorded where ps: "gate_context E cv gi = Some ps"
    and t: "profile_verifier E cv verifier (gi_builds gi) = Some t"
    and stored: "word_of E cv address (selector E ''pqVerifierIdentity()'') = Some stored"
    and recorded: "recorded_by_consumer E cv address (vp_identity t) = Some recorded"
    and ok: "binding_refusals E \<lparr>br_consumer = consumer, br_target = t, br_chain = cv_chain cv, br_signer = signer,
      br_allow_mock = gi_allow_mock gi, br_current = Some current,
      br_current_identity = (if stored = Some ZERO_WORD then None else stored), br_recorded_halted = recorded,
      br_scope = gi_scope gi, br_designations = gi_designations gi, br_registered = ps, br_registry = gi_registry gi\<rparr> = Some []"
      (is "binding_refusals E ?req = _")
    using c by (auto simp: check_rotation_binding_def assert_bindable_Inr bind_eq_Some_conv split: option.splits)
  have b: "bound_soundly E gi (cv_chain cv) consumer signer ps t"
    using gate_sound [OF _ _ _ _ _ _ _ _ _ ok, of gi "cv_chain cv" ps cv verifier] ps t p by (simp add: gate_context_Some)
  then obtain X where X: "vp_identity t = Some X" by (auto simp: bound_soundly_def)
  have "sp1_refusals E ?req (cv_chain cv \<in> set LOCAL_CHAIN_IDS) = Some []"
    using binding_refusals_Nil(6) [OF ok] p by simp
  then obtain signer' state where s: "el_address E signer = Some signer'" "vp_principal current \<noteq> Some signer'"
    "identity_refusals ?req (snd state) = []" by (rule sp1_refusals_Nil) auto
  then show ?thesis using b ps X stored recorded by (auto simp: identity_refusals_def Let_def)
qed

text \<open>C31: A runtime matches a recorded build exactly when it is hexadecimal code of the template's length whose metadata
  begins where the template's does, and before that differs from the template in immutables alone; the build found is
  the latest that matches.
\<close>

theorem build_match_exact:
  assumes "decodes_hex hex" and "build_matching hex runtime builds = Some found"
  shows "(\<forall>build \<in> set builds. \<forall>b. matches_build hex runtime build = Some b \<longrightarrow>
      (b \<longleftrightarrow> is_hex hex runtime \<and> runtime \<noteq> ''0x'' \<and>
        (\<exists>code reference l. get_bytes hex runtime = Some code \<and> get_bytes hex (wb_template build) = Some reference \<and>
           length code = length reference \<and> 0 \<le> wb_region_start build \<and>
           boundary_of_bytes code = Decoded (nat (wb_region_start build)) l \<and>
           (\<forall>k < nat (wb_region_start build). code ! k \<noteq> reference ! k \<longrightarrow>
              in_any_range k (flatten_ranges (wb_immutables build)))))) \<and>
    (case found of
       None \<Rightarrow> \<forall>build \<in> set builds. matches_build hex runtime build = Some False
     | Some build \<Rightarrow> \<exists>earlier later. builds = earlier @ build # later \<and> matches_build hex runtime build = Some True \<and>
         (\<forall>other \<in> set later. matches_build hex runtime other = Some False))"
proof
  show "case found of
      None \<Rightarrow> \<forall>build \<in> set builds. matches_build hex runtime build = Some False
    | Some build \<Rightarrow> \<exists>earlier later. builds = earlier @ build # later \<and> matches_build hex runtime build = Some True \<and>
        (\<forall>other \<in> set later. matches_build hex runtime other = Some False)"
  proof (cases found)
    case None
    then show ?thesis using assms(2) find_first_None [of "matches_build hex runtime" "rev builds"] by (auto simp: build_matching_def)
  next
    case (Some build)
    obtain pre post where p: "rev builds = pre @ build # post" "matches_build hex runtime build = Some True"
      "\<forall>y \<in> set pre. matches_build hex runtime y = Some False"
      using find_first_Some [of "matches_build hex runtime" "rev builds" build] assms(2) Some by (auto simp: build_matching_def)
    then have "builds = rev post @ build # rev pre" by (metis append.assoc append_Cons append_Nil rev_append rev_rev_ident rev.simps(2))
    moreover have "\<forall>other \<in> set (rev pre). matches_build hex runtime other = Some False" using p(3) by simp
    ultimately have "\<exists>earlier later. builds = earlier @ build # later \<and> matches_build hex runtime build = Some True \<and>
        (\<forall>other \<in> set later. matches_build hex runtime other = Some False)" using p(2) by blast
    then show ?thesis using Some by simp
  qed
qed (use matches_build_iff [OF assms(1)] in blast)

text \<open>C30: A consumer that may be deployed with, or rotated to, a verifier on the SP1 path is inside the halt's scope, and
  the verifier runs a recorded build, is active, not haltable by the signer and of no identity whose halt the registry
  records on any chain; every wrapper registered for the chain agrees with the registry in its build, its readings and
  its halt; and without the local override the verifier is the one registered wrapper of its identity, designated and in
  front of the code its build pins.
\<close>

theorem bound_verifiers_sound:
  assumes "check_deployment_binding E cv gi consumer verifier signer = Inr t \<or>
      (\<exists>current. check_rotation_binding E domain_name cv gi address verifier signer = Inr (consumer, t, current))"
    and "is_on_sp1_path E t"
  shows "\<exists>ps. gate_context E cv gi = Some ps \<and> bound_soundly E gi (cv_chain cv) consumer signer ps t"
  using assms deployment_bound_soundly rotation_bound_soundly by blast

text \<open>C29: Once a version of the published registry records the halt of an identity, every later version that extends it
  still does, and reading any of them the gate binds no verifier of that identity to any consumer on any chain, at
  deployment or rotation, with the local override or without.
\<close>

theorem halted_identity_never_bound:
  assumes "\<And>i. Suc i < length versions \<Longrightarrow> extended_by parse (versions ! i) (versions ! Suc i)"
    and "i \<le> j" and "j < length versions"
    and "fact_log parse (versions ! i) fs" and "f \<in> set fs" and "halts f c a X"
    and "versions ! j = Some text" and "parse text = Some (gi_registry gi)"
  shows "f \<in> set (facts_of (gi_registry gi)) \<and>
    (\<nexists>t. check_deployment_binding E cv gi consumer verifier signer = Inr t \<and> vp_identity t = Some X) \<and>
    (\<nexists>x t current. check_rotation_binding E domain_name cv gi address verifier signer = Inr (x, t, current) \<and>
       vp_identity t = Some X)"
proof -
  obtain gs where gs: "fact_log parse (versions ! j) gs" "prefix fs gs"
    using extended_by_chain [OF assms(1) assms(2,3,4)] by blast
  then have reg: "facts_of (gi_registry gi) = gs" using assms(7,8) by (auto simp: fact_log_def facts_of_JArr)
  then have f: "f \<in> set (facts_of (gi_registry gi))" using gs(2) assms(5) set_mono_prefix by blast
  have no: "\<not> bound_soundly E gi chain consumer' signer ps t" if "vp_identity t = Some X" for chain consumer' ps t
    using f assms(6) that by (auto simp: bound_soundly_def)
  have "\<not> (check_deployment_binding E cv gi consumer verifier signer = Inr t \<and> vp_identity t = Some X)" for t
  proof
    assume t: "check_deployment_binding E cv gi consumer verifier signer = Inr t \<and> vp_identity t = Some X"
    then have "profile_verifier E cv verifier (gi_builds gi) = Some t"
      by (auto simp: check_deployment_binding_def assert_bindable_Inr bind_eq_Some_conv split: option.splits)
    then have "is_on_sp1_path E t" using t by (auto intro: profile_on_path)
    then show False using deployment_bound_soundly no t by blast
  qed
  moreover have "\<not> (check_rotation_binding E domain_name cv gi address verifier signer = Inr (x, t, current) \<and>
      vp_identity t = Some X)" for x t current
  proof
    assume t: "check_rotation_binding E domain_name cv gi address verifier signer = Inr (x, t, current) \<and> vp_identity t = Some X"
    then have "profile_verifier E cv verifier (gi_builds gi) = Some t"
      by (auto simp: check_rotation_binding_def assert_bindable_Inr bind_eq_Some_conv split: option.splits)
    then have "is_on_sp1_path E t" using t by (auto intro: profile_on_path)
    then show False using rotation_bound_soundly no t by blast
  qed
  ultimately show ?thesis using f by blast
qed

section \<open>A small world\<close>

definition hex40 :: "char \<Rightarrow> string" where
  "hex40 c = ''0x'' @ replicate 40 c"

definition word_of_address :: "char \<Rightarrow> string" where
  "word_of_address c = ''0x'' @ replicate 24 CHR ''0'' @ replicate 40 c"

definition sample_lib :: ethers_lib where
  "sample_lib = \<lparr>el_hex = \<lparr>is_hex = (\<lambda>s. True), get_bytes = hex_to_buffer\<rparr>, el_id = (\<lambda>s. s),
     el_keccak = (\<lambda>c. sample_word), el_address = Some, el_identity = (\<lambda>c v. c)\<rparr>"

definition sample_chain :: "nat \<Rightarrow> string \<Rightarrow> chain_view" where
  "sample_chain chain halted = \<lparr>cv_chain = chain, cv_code = (\<lambda>a. Some ''0x60abcda164736f6c634300081c000a''),
     cv_call = (\<lambda>to data. Inr
       (if data = take 10 ''SP1_VERIFIER()'' then word_of_address CHR ''b''
        else if data = take 10 ''HALT_PRINCIPAL()'' then word_of_address CHR ''c''
        else if data = take 10 ''halted()'' then ''0x'' @ replicate 63 CHR ''0'' @ halted
        else sample_word))\<rparr>"

definition sample_deployed :: json where
  "sample_deployed = JObj [(''seq'', JNum 1), (''kind'', JStr ''WRAPPER_REGISTERED''), (''chainId'', JStr ''1''),
     (''address'', JStr ''0xA1''), (''identity'', JStr sample_word),
     (''observedAt'', JObj [(''block'', JNum 9), (''blockHash'', JStr sample_word)]),
     (''wrapperBuild'', JStr ''b1''), (''designation'', JStr ''d1''),
     (''sp1Verifier'', JObj [(''address'', JStr (hex40 CHR ''b'')), (''runtimeCodeKeccak'', JStr sample_word)]),
     (''programVKey'', JStr sample_word), (''haltPrincipal'', JStr (hex40 CHR ''c'')),
     (''deployment'', JObj [(''txHash'', JStr sample_word), (''block'', JNum 7), (''deployer'', JStr ''0xD1'')]),
     (''replaces'', JNull)]"

definition other_word :: string where
  "other_word = ''0x'' @ replicate 64 CHR ''b''"

text \<open>A later registration, of another wrapper with another identity.\<close>

definition sample_second :: json where
  "sample_second = JObj [(''seq'', JNum 3), (''kind'', JStr ''WRAPPER_REGISTERED''), (''chainId'', JStr ''5''),
     (''address'', JStr ''0xA2''), (''identity'', JStr other_word),
     (''observedAt'', JObj [(''block'', JNum 9), (''blockHash'', JStr sample_word)]),
     (''wrapperBuild'', JStr ''b1''), (''designation'', JStr ''d1''),
     (''sp1Verifier'', JObj [(''address'', JStr (hex40 CHR ''b'')), (''runtimeCodeKeccak'', JStr other_word)]),
     (''programVKey'', JStr sample_word), (''haltPrincipal'', JStr (hex40 CHR ''c'')),
     (''deployment'', JObj [(''txHash'', JStr sample_word), (''block'', JNum 7), (''deployer'', JStr ''0xD1'')]),
     (''replaces'', JNull)]"

definition sample_build :: wrapper_build where
  "sample_build = \<lparr>wb_id = ''b1'', wb_codehash = sample_word, wb_template = ''0x600000a164736f6c634300081c000a'',
     wb_region_start = 3, wb_immutables = [(''OWNER'', [(1, 2)])]\<rparr>"

definition sample_inputs :: "json list \<Rightarrow> gate_inputs" where
  "sample_inputs fs = \<lparr>gi_builds = [sample_build], gi_registry = sample_registry fs,
     gi_scope = \<lparr>hs_applies = [''WalletWallVault''], hs_excluded = []\<rparr>,
     gi_designations = [\<lparr>ds_source = ''d1'', ds_code = sample_word, ds_code_by_chain = [], ds_vkey = sample_word\<rparr>],
     gi_allow_mock = False\<rparr>"

lemma sample_binding:
  "case check_deployment_binding sample_lib (sample_chain 1 ''0'') (sample_inputs [sample_deployed]) ''WalletWallVault'' ''0xA1'' ''0xE1'' of
     Inl _ \<Rightarrow> False | Inr t \<Rightarrow> is_on_sp1_path sample_lib t \<and> vp_identity t = Some sample_word"
  by code_simp

theorem build_match_exact_witness:
  "\<exists>found. build_matching (el_hex sample_lib) ''0x60abcda164736f6c634300081c000a'' [sample_build] = Some (Some found) \<and>
    (\<exists>earlier later. [sample_build] = earlier @ found # later \<and>
       matches_build (el_hex sample_lib) ''0x60abcda164736f6c634300081c000a'' found = Some True \<and>
       (\<forall>other \<in> set later. matches_build (el_hex sample_lib) ''0x60abcda164736f6c634300081c000a'' other = Some False))"
proof -
  have "map_option (map_option wb_id) (build_matching (el_hex sample_lib) ''0x60abcda164736f6c634300081c000a'' [sample_build]) =
      Some (Some ''b1'')" by code_simp
  then obtain found where f: "build_matching (el_hex sample_lib) ''0x60abcda164736f6c634300081c000a'' [sample_build] = Some (Some found)"
    by auto
  have "decodes_hex (el_hex sample_lib)" by (simp add: decodes_hex_def sample_lib_def)
  from build_match_exact [OF this f] f show ?thesis by simp
qed

theorem bound_verifiers_sound_witness:
  "\<exists>t ps. check_deployment_binding sample_lib (sample_chain 1 ''0'') (sample_inputs [sample_deployed]) ''WalletWallVault'' ''0xA1'' ''0xE1'' =
      Inr t \<and>
    gate_context sample_lib (sample_chain 1 ''0'') (sample_inputs [sample_deployed]) = Some ps \<and>
    bound_soundly sample_lib (sample_inputs [sample_deployed]) (cv_chain (sample_chain 1 ''0'')) ''WalletWallVault'' ''0xE1'' ps t"
proof -
  obtain t where t: "check_deployment_binding sample_lib (sample_chain 1 ''0'') (sample_inputs [sample_deployed]) ''WalletWallVault''
      ''0xA1'' ''0xE1'' = Inr t" "is_on_sp1_path sample_lib t"
    using sample_binding by (auto split: sum.splits)
  from bound_verifiers_sound [OF disjI1 [OF t(1)] t(2)] t(1) show ?thesis by blast
qed

text \<open>The published versions: the empty list, a migration with its first two facts, and a third fact.\<close>

definition sample_versions :: "string option list" where
  "sample_versions = [Some ''v1'', Some ''v2'', Some ''v3'']"

definition sample_parse :: "string \<Rightarrow> json option" where
  "sample_parse t =
     (if t = ''v1'' then Some (JObj [(''schema'', JStr REGISTRY_V1_SCHEMA), (''entries'', JArr [])])
      else if t = ''v2'' then Some (sample_registry [sample_deployed, sample_halt])
      else if t = ''v3'' then Some (sample_registry [sample_deployed, sample_halt, sample_second])
      else None)"

lemma sample_history:
  "registry_extension_errors sample_parse (Some ''v1'') (Some ''v2'') = []"
  "registry_extension_errors sample_parse (Some ''v2'') (Some ''v3'') = []"
  by code_simp+

theorem halted_identity_never_bound_witness:
  "well_formed_registry sample_lib (sample_registry [sample_deployed, sample_halt, sample_second]) \<and>
    (\<nexists>t. check_deployment_binding sample_lib (sample_chain 5 ''0'') (sample_inputs [sample_deployed, sample_halt, sample_second])
      ''WalletWallVault'' ''0xA1'' ''0xE1'' = Inr t \<and> vp_identity t = Some sample_word)"
proof -
  have "extended_by sample_parse (sample_versions ! i) (sample_versions ! Suc i)" if "Suc i < length sample_versions" for i
  proof -
    have "i = 0 \<or> i = 1" using that by (auto simp: sample_versions_def)
    then show ?thesis using sample_history by (auto simp: sample_versions_def extended_by_def)
  qed
  moreover have "fact_log sample_parse (sample_versions ! 1) [sample_deployed, sample_halt]"
    by (auto simp: fact_log_def sample_versions_def sample_parse_def sample_registry_def has_schema_def)
  moreover have "halts sample_halt ''1'' ''0xA1'' sample_word"
  proof -
    have "is_chain_id (Some (JStr ''1''))" by code_simp
    then show ?thesis by (simp add: halts_def names_wrapper_def sample_halt_def)
  qed
  moreover have "sample_parse ''v3'' = Some (gi_registry (sample_inputs [sample_deployed, sample_halt, sample_second]))"
    by (simp add: sample_parse_def sample_inputs_def)
  moreover have "well_formed_registry sample_lib (sample_registry [sample_deployed, sample_halt, sample_second])" by code_simp
  ultimately show ?thesis
    using halted_identity_never_bound [of sample_versions sample_parse 1 2 "[sample_deployed, sample_halt]" sample_halt "''1''" "''0xA1''"
        sample_word "''v3''" "sample_inputs [sample_deployed, sample_halt, sample_second]" sample_lib "sample_chain 5 ''0''"
        "''WalletWallVault''" "''0xA1''" "''0xE1''"]
    by (simp add: sample_versions_def)
qed

end
