(* ===== verification/Spec2Isabelle.thy ===== *)
theory Spec2Isabelle
  imports Tar_Writer Oracle_Traces Campaign_Laws Prove_Run Registry_Laws Evidence_Laws Binding_Laws
begin

text \<open>
  A verification library of the TypeScript tooling of WalletWall Vault: the parts that decide
  something, rather than move bytes between files, processes and the chain.

  \<^bold>\<open>Three subsystems\<close> are modelled. All are written in the order of the code, every definition reading
  like the function it stands for, and all keep the world outside as an argument.

  \<^bold>\<open>The proving archive\<close> (\<open>scripts/lib/sp1-circuit-archive.ts\<close>, \<open>sp1-circuit-fixtures.ts\<close>): an
  untrusted tar stream is parsed, judged and written to disk.
  \<^item> \<open>JS_Regex\<close>: the regular expressions of the source as syntax with an executable matcher, equal to
    the language they denote.
  \<^item> \<open>Circuit_Paths\<close>: \<open>memberPathError\<close>, the AppleDouble names, \<open>imageRefError\<close>. An accepted path
    stays inside the directory it is resolved against; an accepted image reference is pinned.
  \<^item> \<open>Member_Tree\<close>: \<open>MemberTree\<close>, its nodes a finite map from paths. It accepts exactly the lists of
    entries that are compatible in any order, and \<open>finish\<close> refuses exactly the empty directories.
  \<^item> \<open>Tar_Header\<close>, \<open>Tar_Parser\<close>: the fields of a header block, pax records, and \<open>TarParser\<close> with its
    states, handlers and refusals; an exception is \<open>Inl\<close> of its refusal and the state the caller's sink is in.
  \<^item> \<open>Tar_Feed\<close>: the loop of \<open>feed\<close>, a \<open>partial_function\<close>. It returns on every input, and how the
    stream is cut into chunks does not matter.
  \<^item> \<open>Tar_Accept\<close>: the invariant of the parser, and what an accepted archive is.
  \<^item> \<open>Tar_Writer\<close>: \<open>tarBytes\<close> of the fixtures, and the round trip through the parser.
  \<^item> \<open>JSON_Values\<close>, \<open>Archive_Record\<close>: an acceptance record as parsed JSON, \<open>archiveRecordErrors\<close> field by
    field and \<open>acceptedRecord\<close>. An accepted record is about the anchor's circuit and safe to install
    from; hosts given as arrays escape the independence check, so that one host can stand for all acquisitions.
  \<^item> \<open>Circuit_Inspect\<close>: \<open>inspectArchive\<close> over two readings of the file. What it accepts is exactly the
    archive of record, nothing unauthenticated is parsed, and an archive of record is accepted.
  \<^item> \<open>File_Tree\<close>, \<open>Circuit_Install\<close> (\<open>sp1-circuit-install.ts\<close>): a directory tree with the file system calls of
    the code, \<open>walkTree\<close>, \<open>verifyTree\<close>, \<open>verifyInstalledCircuit\<close>, and \<open>installCircuitArchive\<close> as a function from
    the destination before it to the destination after it.
  \<^item> \<open>Sink_Journal\<close>, \<open>Journal_Shape\<close>: the parser makes the calls on a sink a journal records, and the journal
    of an accepted archive is one directory or one opened, written and closed file after the other.
  \<^item> \<open>Sink_Keeps\<close>: a property that every call on the sink keeps, thrown or not, holds of the state a run of the parser
    leaves, refused or not.
  \<^item> \<open>Install_Laws\<close>, \<open>Install_Succeeds\<close>: an installation is all or nothing, also when it is refused in the middle of
    the extraction, since all it made lies below the staging directory; interference is caught, what is
    installed verifies, and an archive of record is installed.
  \<^item> \<open>Prove_Gate\<close>, \<open>Prove_Laws\<close>, \<open>Prove_Run\<close> (\<open>sp1-prove-gate.ts\<close>): the gate in front of the local prover, over
    a machine of files with owners and modes. The child's environment is exactly what may pass; the path of the
    circuit root is secure exactly when nobody else can change it; the host is run only when everything was
    checked under the lock; an answered proof came from an installation that stayed the same files; the lock is
    always taken off.

  \<^bold>\<open>The stateful authority campaign\<close> (\<open>prototype/vnext-kernel/stateful/\<close>): random sequences of honest
  and hostile actions against a kernel, judged against declared authority cuts.
  \<^item> \<open>Authority_Model\<close> (\<open>model.ts\<close>): declared cuts, authority paths, \<open>judgeCut\<close> and the recovery
    episodes. The declared cut is the least number of roots that suffices; episodes stay consistent and,
    once terminated, final; a violation is raised exactly on an illegitimate event.
  \<^item> \<open>Containment_Window\<close>, \<open>Kernel_Oracle\<close>, \<open>Oracle_Traces\<close> (\<open>invariants.ts\<close>): the snapshot of a
    kernel, the global invariants, the search for the worst rolling window, and what a run on which
    the oracle says nothing guarantees over its whole length.
  \<^item> \<open>Prng\<close> (\<open>prng.ts\<close>): the generator on 32-bit words. A draw is a state-passing function; a throw is
    \<open>Inl\<close>.
  \<^item> \<open>Campaign_Plan\<close> (\<open>profiles.ts\<close>, the vocabulary of \<open>actions.ts\<close>, the generator of \<open>campaign.ts\<close>):
    every profile yields a well-formed plan for every seed.
  \<^item> \<open>Campaign_World\<close> (\<open>world.ts\<close>, the first half of \<open>actions.ts\<close>): digests, keys, roots held, quorum
    proofs. A quorum proof holds no more valid attestations than the actor has roots.
  \<^item> \<open>Campaign_Actions\<close> (\<open>executeAction\<close>): one definition per branch. The locale \<open>action_invariant\<close>
    carries a property of the context through all of them.
  \<^item> \<open>Campaign_Run\<close> (\<open>campaign.ts\<close>, \<open>defects.ts\<close>): \<open>runPlan\<close>, \<open>shrink\<close>, the controls, \<open>runCampaign\<close>.
  \<^item> \<open>Campaign_Laws\<close>: cut violations are reported exactly, the bookkeeping never drifts, shrinking is
    sound and minimal, what a clean campaign has shown; and one branch where the attribution of a
    relayed call goes wrong.

  \<^bold>\<open>Evidence about the deployed verifier\<close> (\<open>scripts/lib/\<close>): what a runtime on a chain is, which wrappers are
  registered and halted, and which verifier a consumer may be bound to.
  \<^item> \<open>Runtime_Metadata\<close>, \<open>Runtime_Evidence\<close>, \<open>Evidence_Laws\<close> (\<open>reproducibility-evidence.ts\<close>): the CBOR reader and the
    boundary of solc's metadata, the authority over immutables, masking, \<open>deriveFactsFromEvidence\<close>, the freshness of the
    covered sources and \<open>checkEvidenceAgainstManifest\<close>. A match is derived exactly when the codes differ in immutables and
    metadata alone; the boundary of what solc writes is found; freshness is a matter of content; an accepted manifest's
    claims are true of the recorded bytes.
  \<^item> \<open>Wrapper_Build\<close> (\<open>sp1-wrapper-build.ts\<close>): \<open>matchesBuild\<close> and \<open>buildMatching\<close>.
  \<^item> \<open>Wrapper_Registry\<close>, \<open>Registry_Laws\<close> (\<open>sp1-registry.ts\<close>): \<open>registryErrors\<close>, \<open>registryState\<close> and
    \<open>registryExtensionErrors\<close>. A registry without errors registers each wrapper once, halts only registered wrappers and
    never registers a halted identity again; a version that extends another keeps its facts.
  \<^item> \<open>Binding_Gate\<close>, \<open>Binding_Laws\<close> (\<open>verifier-binding.ts\<close>, \<open>rpc-answer.ts\<close>): a verifier profiled from the chain, the
    gate as a function to its refusals, deployment and rotation. A bound verifier runs a recorded build, is active and
    agrees with the registry; an identity whose halt was ever published is never bound again on any chain. The first
    rests on \<open>Wrapper_Registry\<close> and \<open>Wrapper_Build\<close>, the second on every later version extending the one before.

  \<^bold>\<open>Parameters.\<close> The hash function, the ABI encoding and the keys of the ethers library are a record of
  functions; only \<open>digest_binds\<close> assumes anything of them, and its witness supplies an injective
  encoding. \<open>mkdtemp\<close> is assumed to answer a name with the prefix that is not taken (\<open>fresh_names\<close>), as
  documented; what others do to the destination during an installation is a record of three functions, one for
  each hook of the code. The process may read and write the destination: failures of \<open>mkdtemp\<close> and \<open>chmod\<close>, of the
  removal of the staging directory and of listing a directory are not part of the model. The gate's host is a function of the plan and the machine; two of its theorems assume
  that running it leaves the process's platform and user and the file systems' trees as they are
  (\<open>host_process\<close>), and the lock's that it leaves the root in place (\<open>keeps_root\<close>). Docker's answer and
  \<open>JSON.parse\<close> are arguments. What the chain answers (nonces, snapshots, receipts) is a record per step; no theorem assumes
  anything of it but the replay's own hypothesis. The sha256 of a member and the sink its bytes go to are
  arguments of the parser. Of the evidence tooling's libraries, \<open>getAddress\<close>, the identity hash, ethers' padding and
  encoding, what git answers and what the provider answers at the gate's block are arguments; \<open>build_match_exact\<close>
  assumes that \<open>getBytes\<close> decodes hexadecimal text (\<open>decodes_hex\<close>). Where the program throws, the model answers \<open>Inl\<close> or
  \<open>None\<close>.

  \<^bold>\<open>Numbers.\<close> Sizes and counters are unbounded, with the source's own bounds written out
  (\<open>max_safe_integer\<close>, \<open>octal_max_size\<close>, the limits); bytes are characters; the generator uses \<open>32 word\<close>.
  The CBOR reader has fuel, one more than the length of what it reads, which \<open>read_fuel_enough\<close> proves enough. No other
  definition needs fuel: the two loops whose end is not structural, \<open>feed\<close> and \<open>paxData\<close>'s length loop,
  are partial functions whose termination is proved, and shrinking ends by its attempt budget.

  \<^bold>\<open>Not modelled.\<close> Deployment of contracts, network and file access, rendering of reports and the prose of
  violations; the Solidity kernel itself, which the campaign only observes; the measurement of registry facts
  (\<open>sp1-registration.ts\<close>) and the walk over git history (\<open>append-only-history.ts\<close>), whose versions \<open>Binding_Laws\<close> takes as a
  list; the other validators of committed JSON records under \<open>scripts/lib\<close>; and the second generation's campaign.
\<close>

end
